(* ===== verification/GoPrelude.thy ===== *)
theory GoPrelude
  imports Main "HOL-Library.Char_ord" "HOL-Library.List_Lexorder" "HOL-Library.Sublist"
    "HOL-Library.Multiset"
begin

text \<open>
  The part of Go and its standard library the components share.  A Go string is the list of
  its bytes (a HOL \<^typ>\<open>string\<close>); with HOL-Library's lexicographic order on lists,
  \<open><\<close> on strings is Go's bytewise comparison.  The functions below follow packages
  \<open>strings\<close>, \<open>path\<close> and \<open>unicode/utf8\<close>; only the
  non-ASCII part of \<open>strings.ToLower\<close> (the Unicode case tables) is left as an argument.
  A Go \<open>error\<close> is a value of the datatype \<open>go_err\<close>.
\<close>

named_theorems go_inv \<open>one-step facts of invariants\<close>

section \<open>Package strings\<close>

definition has_prefix :: "string \<Rightarrow> string \<Rightarrow> bool" where
  "has_prefix s p \<longleftrightarrow> length p \<le> length s \<and> take (length p) s = p"

definition has_suffix :: "string \<Rightarrow> string \<Rightarrow> bool" where
  "has_suffix s p \<longleftrightarrow> length p \<le> length s \<and> drop (length s - length p) s = p"

fun str_index :: "string \<Rightarrow> string \<Rightarrow> nat option" where
  "str_index [] sub = (if sub = [] then Some 0 else None)"
| "str_index (c # s) sub =
     (if has_prefix (c # s) sub then Some 0 else map_option Suc (str_index s sub))"

definition str_contains :: "string \<Rightarrow> string \<Rightarrow> bool" where
  "str_contains s sub \<longleftrightarrow> str_index s sub \<noteq> None"

definition trim_prefix :: "string \<Rightarrow> string \<Rightarrow> string" where
  "trim_prefix s p = (if has_prefix s p then drop (length p) s else s)"

definition trim_suffix :: "string \<Rightarrow> string \<Rightarrow> string" where
  "trim_suffix s p = (if has_suffix s p then take (length s - length p) s else s)"

definition replace_byte :: "char \<Rightarrow> char \<Rightarrow> string \<Rightarrow> string" where
  "replace_byte a b = map (\<lambda>c. if c = a then b else c)"

text \<open>\<open>strings.Split\<close> with a one-byte separator: always at least one piece.\<close>

fun split_byte :: "char \<Rightarrow> string \<Rightarrow> string list" where
  "split_byte d [] = [[]]"
| "split_byte d (c # s) =
     (if c = d then [] # split_byte d s
      else (case split_byte d s of [] \<Rightarrow> [[c]] | p # ps \<Rightarrow> (c # p) # ps))"

fun join_byte :: "char \<Rightarrow> string list \<Rightarrow> string" where
  "join_byte d [] = []"
| "join_byte d [p] = p"
| "join_byte d (p # q # ps) = p @ d # join_byte d (q # ps)"

text \<open>\<open>strings.LastIndexByte\<close> as the text after the last separator, if there is one.\<close>

definition after_last :: "char \<Rightarrow> string \<Rightarrow> string" where
  "after_last d s = rev (takeWhile (\<lambda>c. c \<noteq> d) (rev s))"

definition upto_last :: "char \<Rightarrow> string \<Rightarrow> string" where
  "upto_last d s = rev (dropWhile (\<lambda>c. c \<noteq> d) (rev s))"

text \<open>\<open>strings.TrimSpace\<close>: the encodings of the runes of \<open>unicode.IsSpace\<close>
  are stripped from both ends; a byte that starts none of them stops it.\<close>

definition space_seqs :: "string list" where
  "space_seqs =
     [[CHR 0x20], [CHR 0x0A], [CHR 0x09], [CHR 0x0D], [CHR 0x0B], [CHR 0x0C],
      [CHR 0xC2, CHR 0x85], [CHR 0xC2, CHR 0xA0], [CHR 0xE1, CHR 0x9A, CHR 0x80],
      [CHR 0xE2, CHR 0x80, CHR 0x80], [CHR 0xE2, CHR 0x80, CHR 0x81],
      [CHR 0xE2, CHR 0x80, CHR 0x82], [CHR 0xE2, CHR 0x80, CHR 0x83],
      [CHR 0xE2, CHR 0x80, CHR 0x84], [CHR 0xE2, CHR 0x80, CHR 0x85],
      [CHR 0xE2, CHR 0x80, CHR 0x86], [CHR 0xE2, CHR 0x80, CHR 0x87],
      [CHR 0xE2, CHR 0x80, CHR 0x88], [CHR 0xE2, CHR 0x80, CHR 0x89],
      [CHR 0xE2, CHR 0x80, CHR 0x8A], [CHR 0xE2, CHR 0x80, CHR 0xA8],
      [CHR 0xE2, CHR 0x80, CHR 0xA9], [CHR 0xE2, CHR 0x80, CHR 0xAF],
      [CHR 0xE2, CHR 0x81, CHR 0x9F], [CHR 0xE3, CHR 0x80, CHR 0x80]]"

function trim_seqs :: "string list \<Rightarrow> string \<Rightarrow> string" where
  "trim_seqs ws s =
     (case find (\<lambda>w. w \<noteq> [] \<and> has_prefix s w) ws of
        None \<Rightarrow> s
      | Some w \<Rightarrow> trim_seqs ws (drop (length w) s))"
  by pat_completeness auto
termination
  by (relation "measure (\<lambda>(ws, s). length s)")
    (auto simp: find_Some_iff has_prefix_def intro!: diff_less)

declare trim_seqs.simps [simp del]

definition trim_left_space :: "string \<Rightarrow> string" where
  "trim_left_space s = trim_seqs space_seqs s"

definition trim_right_space :: "string \<Rightarrow> string" where
  "trim_right_space s = rev (trim_seqs (map rev space_seqs) (rev s))"

definition trim_space :: "string \<Rightarrow> string" where
  "trim_space s = trim_right_space (trim_left_space s)"

text \<open>\<open>strings.ToLower\<close>: pure ASCII input is mapped byte by byte, the rest goes through
  the Unicode tables \<open>ul\<close>.\<close>

definition ascii_lower :: "char \<Rightarrow> char" where
  "ascii_lower c =
     (if (65::nat) \<le> of_char c \<and> (of_char c::nat) \<le> 90
      then char_of (of_char c + (32::nat)) else c)"

definition is_ascii :: "string \<Rightarrow> bool" where
  "is_ascii s \<longleftrightarrow> list_all (\<lambda>c. (of_char c::nat) < 128) s"

definition to_lower :: "(string \<Rightarrow> string) \<Rightarrow> string \<Rightarrow> string" where
  "to_lower ul s = (if is_ascii s then map ascii_lower s else ul s)"

text \<open>\<open>strings.TrimRight(s, "/")\<close> and \<open>strconv.Atoi\<close> on a 64-bit
  platform (an optional sign and decimal digits, \<open>None\<close> for the error).\<close>

definition trim_right_byte :: "char \<Rightarrow> string \<Rightarrow> string" where
  "trim_right_byte d s = rev (dropWhile (\<lambda>c. c = d) (rev s))"

definition digit_val :: "char \<Rightarrow> int option" where
  "digit_val c =
     (if (48::nat) \<le> of_char c \<and> (of_char c::nat) \<le> 57 then Some (of_char c - 48) else None)"

fun digits_val :: "int \<Rightarrow> string \<Rightarrow> int option" where
  "digits_val acc [] = Some acc"
| "digits_val acc (c # s) =
     (case digit_val c of None \<Rightarrow> None | Some d \<Rightarrow> digits_val (10 * acc + d) s)"

definition atoi :: "string \<Rightarrow> int option" where
  "atoi s =
     (let neg = has_prefix s ''-'';
          body = (if neg \<or> has_prefix s ''+'' then drop 1 s else s)
      in if body = [] then None
         else (case digits_val 0 body of
                 None \<Rightarrow> None
               | Some v \<Rightarrow>
                   (let r = (if neg then - v else v)
                    in if - (2 ^ 63) \<le> r \<and> r < 2 ^ 63 then Some r else None)))"

definition last_index :: "char \<Rightarrow> string \<Rightarrow> nat option" where
  "last_index c s = (if c \<in> set s then Some (length s - Suc (length (takeWhile (\<lambda>x. x \<noteq> c) (rev s)))) else None)"

text \<open>The slice \<open>s[i:j]\<close> for \<open>i <= j <= len(s)\<close>.\<close>

definition slice :: "'a list \<Rightarrow> nat \<Rightarrow> nat \<Rightarrow> 'a list" where
  "slice s i j = take (j - i) (drop i s)"

text \<open>\<open>%d\<close> of a non-negative number and of any.\<close>

fun itoa :: "nat \<Rightarrow> string" where
  "itoa n = (if n < 10 then [char_of (n + 48)] else itoa (n div 10) @ [char_of (n mod 10 + 48)])"

declare itoa.simps [simp del]

definition fmt_int :: "int \<Rightarrow> string" where
  "fmt_int n = (if n < 0 then CHR ''-'' # itoa (nat (- n)) else itoa (nat n))"

section \<open>Package path\<close>

fun clean_comps :: "bool \<Rightarrow> string list \<Rightarrow> string list \<Rightarrow> string list" where
  "clean_comps rooted st [] = rev st"
| "clean_comps rooted st (c # cs) =
     (if c = [] \<or> c = ''.'' then clean_comps rooted st cs
      else if c = ''..'' then
        (case st of
           [] \<Rightarrow> (if rooted then clean_comps rooted [] cs else clean_comps rooted [c] cs)
         | t # ts \<Rightarrow> (if t = ''..'' then clean_comps rooted (c # st) cs
                       else clean_comps rooted ts cs))
      else clean_comps rooted (c # st) cs)"

definition path_clean :: "string \<Rightarrow> string" where
  "path_clean p =
     (let rooted = has_prefix p ''/'';
          body = join_byte (CHR ''/'') (clean_comps rooted [] (split_byte (CHR ''/'') p))
      in if rooted then CHR ''/'' # body
         else if body = [] then ''.'' else body)"

definition path_base :: "string \<Rightarrow> string" where
  "path_base p =
     (if p = [] then ''.''
      else let q = after_last (CHR ''/'') (rev (dropWhile (\<lambda>c. c = CHR ''/'') (rev p)))
           in if q = [] then ''/'' else q)"

definition path_dir :: "string \<Rightarrow> string" where
  "path_dir p = path_clean (upto_last (CHR ''/'') p)"

text \<open>\<open>filepath.Ext\<close>: the suffix from the last dot of the last path element.\<close>

definition path_ext :: "string \<Rightarrow> string" where
  "path_ext p =
     (let b = after_last (CHR ''/'') p
      in if CHR ''.'' \<in> set b then CHR ''.'' # after_last (CHR ''.'') b else [])"

section \<open>Package unicode/utf8\<close>

definition rune_start :: "char \<Rightarrow> bool" where
  "rune_start c \<longleftrightarrow> \<not> ((128::nat) \<le> of_char c \<and> (of_char c::nat) < 192)"

section \<open>Errors\<close>

text \<open>The errors the program builds or inspects: \<open>fmt.Errorf\<close> without and with a
  wrapped error, the two errors of a \<open>context\<close>, and the error types of package
  \<open>embed\<close>.  A \<open>ChainError\<close> has at least one failure; its last one (the
  \<open>Unwrap\<close> target) is kept apart.\<close>

datatype go_err =
    Plain string
  | Wrapped string go_err
  | Canceled
  | DeadlineExceeded
  | UnknownModel string string string
  | Retryable go_err int
  | ChainFailed string "(string \<times> go_err) list" string go_err

type_synonym 'a result = "go_err + 'a"

text \<open>\<open>err.Error()\<close>; \<open>qt\<close> is \<open>strconv.Quote\<close>.\<close>

primrec err_msg :: "(string \<Rightarrow> string) \<Rightarrow> go_err \<Rightarrow> string" where
  "err_msg qt (Plain m) = m"
| "err_msg qt (Wrapped m e) = m @ err_msg qt e"
| "err_msg qt Canceled = ''context canceled''"
| "err_msg qt DeadlineExceeded = ''context deadline exceeded''"
| "err_msg qt (UnknownModel p m r) =
     p @ '': unknown embedding model '' @ qt m @ '' ('' @ r @ '')''"
| "err_msg qt (Retryable e d) = err_msg qt e"
| "err_msg qt (ChainFailed op fs n e) = ''chain: '' @ op @ '': '' @ err_msg qt e"

text \<open>\<open>errors.Is(err, context.Canceled)\<close> and the like: a walk along
  \<open>Unwrap\<close>.\<close>

primrec err_any :: "(go_err \<Rightarrow> bool) \<Rightarrow> go_err \<Rightarrow> bool" where
  "err_any P (Plain m) \<longleftrightarrow> P (Plain m)"
| "err_any P (Wrapped m e) \<longleftrightarrow> P (Wrapped m e) \<or> err_any P e"
| "err_any P Canceled \<longleftrightarrow> P Canceled"
| "err_any P DeadlineExceeded \<longleftrightarrow> P DeadlineExceeded"
| "err_any P (UnknownModel p m r) \<longleftrightarrow> P (UnknownModel p m r)"
| "err_any P (Retryable e d) \<longleftrightarrow> P (Retryable e d) \<or> err_any P e"
| "err_any P (ChainFailed op fs n e) \<longleftrightarrow> P (ChainFailed op fs n e) \<or> err_any P e"

definition is_canceled :: "go_err \<Rightarrow> bool" where
  "is_canceled = err_any (\<lambda>e. e = Canceled)"

definition is_deadline :: "go_err \<Rightarrow> bool" where
  "is_deadline = err_any (\<lambda>e. e = DeadlineExceeded)"

definition as_unknown_model :: "go_err \<Rightarrow> bool" where
  "as_unknown_model =
     err_any (\<lambda>e. case e of UnknownModel p m r \<Rightarrow> True | _ \<Rightarrow> False)"

definition as_retryable :: "go_err \<Rightarrow> bool" where
  "as_retryable = err_any (\<lambda>e. case e of Retryable e' d \<Rightarrow> True | _ \<Rightarrow> False)"

section \<open>Shared lemmas\<close>

lemma has_prefix_append [simp]: "has_prefix (p @ s) p"
  by (simp add: has_prefix_def)

lemma has_prefix_iff: "has_prefix s p \<longleftrightarrow> (\<exists>t. s = p @ t)"
  by (auto simp: has_prefix_def) (metis append_take_drop_id)

lemma has_suffix_iff: "has_suffix s p \<longleftrightarrow> (\<exists>t. s = t @ p)"
  by (auto simp: has_suffix_def) (metis append_take_drop_id)

lemma split_byte_nonempty [simp]: "split_byte d s \<noteq> []"
  by (induction s) (auto split: list.splits)

lemma join_split_byte: "join_byte d (split_byte d s) = s"
proof (induction s)
  case (Cons c s)
  then show ?case
    by (cases "split_byte d s"; cases "tl (split_byte d s)") auto
qed simp

lemma split_byte_free: "p \<in> set (split_byte d s) \<Longrightarrow> d \<notin> set p"
  by (induction s arbitrary: p) (auto split: if_splits list.splits)

lemma trim_seqs_suffix: "\<exists>u. s = u @ trim_seqs ws s"
proof (induction ws s rule: trim_seqs.induct)
  case (1 ws s)
  show ?case
  proof (cases "find (\<lambda>w. w \<noteq> [] \<and> has_prefix s w) ws")
    case None
    then show ?thesis by (subst trim_seqs.simps) simp
  next
    case (Some w)
    from 1 [OF Some] obtain u where "drop (length w) s = u @ trim_seqs ws (drop (length w) s)" ..
    then have "s = (take (length w) s @ u) @ trim_seqs ws (drop (length w) s)"
      by (metis append_assoc append_take_drop_id)
    moreover have "trim_seqs ws s = trim_seqs ws (drop (length w) s)"
      using Some by (subst trim_seqs.simps) simp
    ultimately have "s = (take (length w) s @ u) @ trim_seqs ws s" by simp
    then show ?thesis ..
  qed
qed

lemma trim_seqs_Nil [simp]: "trim_seqs ws [] = []"
  using trim_seqs_suffix [of "[]" ws] by simp

lemma trim_seqs_length: "length (trim_seqs ws s) \<le> length s"
  using trim_seqs_suffix [of s ws] by (metis le_add2 length_append)

lemma trim_seqs_strips:
  assumes "[c] \<in> set ws" shows "length (trim_seqs ws (c # s)) \<le> length s"
proof (cases "find (\<lambda>w. w \<noteq> [] \<and> has_prefix (c # s) w) ws")
  case None
  with assms have "\<not> has_prefix (c # s) [c]" unfolding find_None_iff by blast
  then show ?thesis by (simp add: has_prefix_def)
next
  case (Some w)
  then have "w \<noteq> []" by (auto simp: find_Some_iff)
  then have "length (drop (length w) (c # s)) \<le> length s" by (cases w) auto
  with trim_seqs_length [of ws "drop (length w) (c # s)"] Some show ?thesis
    by (subst trim_seqs.simps) simp
qed

lemma trim_space_length: "length (trim_space s) \<le> length s"
  unfolding trim_space_def trim_right_space_def trim_left_space_def
  using trim_seqs_length [of "map rev space_seqs" "rev (trim_seqs space_seqs s)"]
    trim_seqs_length [of space_seqs s] by simp

lemma trim_space_newline: "length (trim_space (l @ [CHR 0x0A])) \<le> length l"
proof -
  from trim_seqs_suffix [of "l @ [CHR 0x0A]" space_seqs] obtain u where
    u: "l @ [CHR 0x0A] = u @ trim_left_space (l @ [CHR 0x0A])" by (auto simp: trim_left_space_def)
  show ?thesis
  proof (cases "trim_left_space (l @ [CHR 0x0A])" rule: rev_cases)
    case Nil
    then show ?thesis by (simp add: trim_space_def trim_right_space_def)
  next
    case (snoc v c)
    with u have "c = CHR 0x0A" "length v \<le> length l" by auto
    moreover have "length (trim_seqs (map rev space_seqs) (CHR 0x0A # rev v)) \<le> length (rev v)"
      by (rule trim_seqs_strips) (simp add: space_seqs_def)
    ultimately show ?thesis using snoc by (simp add: trim_space_def trim_right_space_def)
  qed
qed

lemma find_SomeD: "find P xs = Some x \<Longrightarrow> x \<in> set xs \<and> P x"
  by (auto simp: find_Some_iff)

end
