(* ===== verification/Circuit.thy ===== *)
theory Circuit
  imports GoPrelude
begin

text \<open>
  The circuit breaker of \<open>internal/embed/circuit.go\<close>: its three mutex-guarded
  operations, and the interleaving of the calls of many goroutines as a step relation over
  those operations.  Durations and times are nanoseconds; the zero \<open>time.Time\<close> of
  \<open>openUntil\<close> is \<open>None\<close>.
\<close>

section \<open>The breaker\<close>

record breaker =
  cb_failures :: int
  cb_open_until :: "int option"
  cb_probing :: bool
  cb_threshold :: int
  cb_cooldown :: int

definition default_failure_threshold :: int where
  "default_failure_threshold = 3"

definition default_cooldown :: int where
  "default_cooldown = 30 * 1000000000"

definition new_circuit_breaker :: "int \<Rightarrow> int \<Rightarrow> breaker" where
  "new_circuit_breaker threshold cooldown =
     \<lparr> cb_failures = 0, cb_open_until = None, cb_probing = False,
       cb_threshold = (if threshold \<le> 0 then default_failure_threshold else threshold),
       cb_cooldown = (if cooldown \<le> 0 then default_cooldown else cooldown) \<rparr>"

text \<open>\<open>time.Until(cb.openUntil)\<close>; the zero time lies in the past.\<close>

definition remaining :: "int \<Rightarrow> breaker \<Rightarrow> int" where
  "remaining now cb = (case cb_open_until cb of None \<Rightarrow> 0 | Some t \<Rightarrow> t - now)"

definition allow :: "int \<Rightarrow> breaker \<Rightarrow> (bool \<times> int) \<times> breaker" where
  "allow now cb =
     (if remaining now cb > 0 then ((False, remaining now cb), cb)
      else if cb_failures cb \<ge> cb_threshold cb then
        (if cb_probing cb then ((False, cb_cooldown cb), cb)
         else ((True, 0), cb\<lparr>cb_probing := True, cb_open_until := None\<rparr>))
      else ((True, 0), cb))"

definition record_success :: "breaker \<Rightarrow> breaker" where
  "record_success cb = cb\<lparr>cb_failures := 0, cb_open_until := None, cb_probing := False\<rparr>"

definition record_failure :: "int \<Rightarrow> breaker \<Rightarrow> breaker" where
  "record_failure now cb =
     (let cb1 = cb\<lparr>cb_failures := cb_failures cb + 1, cb_probing := False\<rparr>
      in if cb_failures cb1 \<ge> cb_threshold cb1
         then cb1\<lparr>cb_open_until := Some (now + cb_cooldown cb1)\<rparr> else cb1)"

section \<open>Interleaved calls\<close>

text \<open>
  A goroutine that calls a wrapped provider first asks \<open>allow\<close>, then calls the
  provider, and at the end records a success, records a failure, or records nothing
  (its context is over, or \<open>ModelInfo\<close> met an unknown model).  The state is the
  breaker, the calls in flight, each with the mark whether it was admitted as the probe, and
  the history of recorded outcomes.
\<close>

datatype outcome = Success | Failure

record 'c calls =
  cs_cb :: breaker
  cs_flight :: "('c \<times> bool) set"
  cs_history :: "outcome list"

datatype 'c event =
    Admit 'c int
  | Refuse 'c int
  | EndSuccess 'c
  | EndFailure 'c int
  | EndSilent 'c

definition is_probe :: "breaker \<Rightarrow> bool" where
  "is_probe cb \<longleftrightarrow> cb_failures cb \<ge> cb_threshold cb"

inductive call_step :: "'c calls \<Rightarrow> 'c event \<Rightarrow> 'c calls \<Rightarrow> bool" where
  admit:
    "\<lbrakk>allow now (cs_cb s) = ((True, r), cb'); c \<notin> fst ` cs_flight s\<rbrakk> \<Longrightarrow>
     call_step s (Admit c now)
       (s\<lparr>cs_cb := cb', cs_flight := insert (c, is_probe (cs_cb s)) (cs_flight s)\<rparr>)"
| refuse:
    "\<lbrakk>allow now (cs_cb s) = ((False, r), cb'); c \<notin> fst ` cs_flight s\<rbrakk> \<Longrightarrow>
     call_step s (Refuse c now) (s\<lparr>cs_cb := cb'\<rparr>)"
| end_success:
    "(c, p) \<in> cs_flight s \<Longrightarrow>
     call_step s (EndSuccess c)
       (s\<lparr>cs_cb := record_success (cs_cb s), cs_flight := cs_flight s - {(c, p)},
          cs_history := cs_history s @ [Success]\<rparr>)"
| end_failure:
    "(c, p) \<in> cs_flight s \<Longrightarrow>
     call_step s (EndFailure c now)
       (s\<lparr>cs_cb := record_failure now (cs_cb s), cs_flight := cs_flight s - {(c, p)},
          cs_history := cs_history s @ [Failure]\<rparr>)"
| end_silent:
    "(c, p) \<in> cs_flight s \<Longrightarrow>
     call_step s (EndSilent c) (s\<lparr>cs_flight := cs_flight s - {(c, p)}\<rparr>)"

inductive_cases call_stepE: "call_step s e s'"

inductive call_steps :: "'c calls \<Rightarrow> 'c event list \<Rightarrow> 'c calls \<Rightarrow> bool" where
  call_nil: "call_steps s [] s"
| call_snoc: "\<lbrakk>call_steps s es s'; call_step s' e s''\<rbrakk> \<Longrightarrow> call_steps s (es @ [e]) s''"

definition calls_init :: "int \<Rightarrow> int \<Rightarrow> 'c calls" where
  "calls_init threshold cooldown =
     \<lparr> cs_cb = new_circuit_breaker threshold cooldown, cs_flight = {}, cs_history = [] \<rparr>"

fun silent :: "'c event \<Rightarrow> bool" where
  "silent (EndSilent c) = True"
| "silent e = False"

text \<open>The abstract view of a breaker: how many failures were recorded since the last
  success.\<close>

definition trailing_failures :: "outcome list \<Rightarrow> int" where
  "trailing_failures h = int (length (takeWhile (\<lambda>r. r = Failure) (rev h)))"

fun is_admit :: "'c event \<Rightarrow> bool" where
  "is_admit (Admit c t) = True"
| "is_admit e = False"

fun records :: "'c event \<Rightarrow> bool" where
  "records (EndSuccess c) = True"
| "records (EndFailure c t) = True"
| "records e = False"

section \<open>Invariants of interleaved calls\<close>

lemma trailing_simps [simp]:
  "trailing_failures [] = 0"
  "trailing_failures (h @ [Success]) = 0"
  "trailing_failures (h @ [Failure]) = trailing_failures h + 1"
  by (simp_all add: trailing_failures_def)

lemma trailing_nonneg: "0 \<le> trailing_failures h"
  by (simp add: trailing_failures_def)

lemma new_threshold_pos [simp]: "0 < cb_threshold (new_circuit_breaker t c)"
  by (simp add: new_circuit_breaker_def default_failure_threshold_def)

text \<open>\<open>allow\<close> moves only the probe mark and the open time.\<close>

lemma allow_frame [simp]:
  "cb_failures (snd (allow now cb)) = cb_failures cb"
  "cb_threshold (snd (allow now cb)) = cb_threshold cb"
  "cb_cooldown (snd (allow now cb)) = cb_cooldown cb"
  by (simp_all add: allow_def)

lemma allow_granted_iff:
  "fst (fst (allow now cb)) \<longleftrightarrow>
     remaining now cb \<le> 0 \<and> \<not> (cb_threshold cb \<le> cb_failures cb \<and> cb_probing cb)"
  by (auto simp: allow_def)

lemma allow_refused_same: "\<not> fst (fst (allow now cb)) \<Longrightarrow> snd (allow now cb) = cb"
  by (auto simp: allow_def split: if_splits)

definition breaker_inv :: "int \<Rightarrow> int \<Rightarrow> 'c calls \<Rightarrow> bool" where
  "breaker_inv threshold cooldown s \<longleftrightarrow>
     cb_failures (cs_cb s) = trailing_failures (cs_history s) \<and>
     cb_threshold (cs_cb s) = cb_threshold (new_circuit_breaker threshold cooldown) \<and>
     cb_cooldown (cs_cb s) = cb_cooldown (new_circuit_breaker threshold cooldown) \<and>
     (cb_open_until (cs_cb s) \<noteq> None \<longrightarrow> cb_threshold (cs_cb s) \<le> cb_failures (cs_cb s))"

lemma breaker_inv_init: "breaker_inv t c (calls_init t c)"
  by (simp add: breaker_inv_def calls_init_def new_circuit_breaker_def)

lemma allow_open_until:
  "cb_open_until (snd (allow now cb)) \<noteq> None \<Longrightarrow> cb_open_until cb \<noteq> None"
  by (auto simp: allow_def split: if_splits)

lemma breaker_inv_step:
  "\<lbrakk>call_step s e s'; breaker_inv t c s\<rbrakk> \<Longrightarrow> breaker_inv t c s'"
proof (induction rule: call_step.induct)
  case (admit now s r cb' x)
  then show ?case
    using allow_frame [of now "cs_cb s"] allow_open_until [of now "cs_cb s"]
    by (auto simp: breaker_inv_def)
next
  case (refuse now s r cb' x)
  then show ?case
    using allow_refused_same [of now "cs_cb s"] by (auto simp: breaker_inv_def)
qed (auto simp: breaker_inv_def record_success_def record_failure_def Let_def)

lemma breaker_inv_steps:
  "\<lbrakk>call_steps s es s'; breaker_inv t c s\<rbrakk> \<Longrightarrow> breaker_inv t c s'"
  by (induction rule: call_steps.induct) (auto intro: breaker_inv_step)

text \<open>Without silent ends, a probe mark means that the probe is still in flight.\<close>

definition probe_inv :: "'c calls \<Rightarrow> bool" where
  "probe_inv s \<longleftrightarrow> (cb_probing (cs_cb s) \<longrightarrow> True \<in> snd ` cs_flight s)"

lemma probe_inv_step:
  "\<lbrakk>call_step s e s'; \<not> silent e; probe_inv s\<rbrakk> \<Longrightarrow> probe_inv s'"
proof (induction rule: call_step.induct)
  case (admit now s r cb' x)
  then show ?case
    by (auto simp: probe_inv_def allow_def is_probe_def split: if_splits)
next
  case (refuse now s r cb' x)
  then show ?case
    using allow_refused_same [of now "cs_cb s"] by (simp add: probe_inv_def)
qed (auto simp: probe_inv_def record_success_def record_failure_def Let_def)

lemma probe_inv_steps:
  "\<lbrakk>call_steps s es s'; \<not> list_ex silent es; probe_inv s\<rbrakk> \<Longrightarrow> probe_inv s'"
  by (induction rule: call_steps.induct) (auto intro: probe_inv_step)

section \<open>One probe at a time\<close>

lemma allow_probe_granted:
  "\<lbrakk>is_probe cb; allow now cb = ((True, r), cb')\<rbrakk> \<Longrightarrow>
     \<not> cb_probing cb \<and> cb_probing cb' \<and> is_probe cb'"
  by (auto simp: allow_def is_probe_def split: if_splits)

lemma one_probe_aux:
  "\<lbrakk>call_steps s es s'; is_probe (cs_cb s); \<not> list_ex records es\<rbrakk> \<Longrightarrow>
     is_probe (cs_cb s') \<and> length (filter is_admit es) \<le> 1 \<and>
     (cb_probing (cs_cb s) \<longrightarrow> length (filter is_admit es) = 0) \<and>
     (length (filter is_admit es) = 1 \<or> cb_probing (cs_cb s) \<longrightarrow> cb_probing (cs_cb s'))"
proof (induction rule: call_steps.induct)
  case (call_nil s)
  then show ?case by simp
next
  case (call_snoc s es s' e s'')
  then have IH: "is_probe (cs_cb s')" "length (filter is_admit es) \<le> 1"
    "cb_probing (cs_cb s) \<longrightarrow> length (filter is_admit es) = 0"
    "length (filter is_admit es) = 1 \<or> cb_probing (cs_cb s) \<longrightarrow> cb_probing (cs_cb s')"
    by simp_all
  from call_snoc.hyps(2) show ?case
  proof cases
    case (admit now r cb' c)
    from allow_probe_granted [OF IH(1) admit(3)] have
      "\<not> cb_probing (cs_cb s')" "cb_probing cb'" "is_probe cb'" by simp_all
    with IH admit(1,2) show ?thesis by (cases "filter is_admit es") auto
  next
    case (refuse now r cb' c)
    with allow_refused_same [of now "cs_cb s'"] have "cb' = cs_cb s'" by simp
    with IH refuse(1,2) show ?thesis by simp
  next
    case (end_silent c p)
    with IH show ?thesis by simp
  qed (use call_snoc.prems(2) in \<open>simp_all\<close>)
qed

section \<open>A wedged breaker\<close>

text \<open>The probe mark stays behind when the probe ends without recording anything.  With no
  call left in flight nothing can clear it.\<close>

definition wedged :: "'c calls \<Rightarrow> bool" where
  "wedged s \<longleftrightarrow> is_probe (cs_cb s) \<and> cb_probing (cs_cb s) \<and> cs_flight s = {}"

lemma wedged_step:
  "\<lbrakk>call_step s e s'; wedged s\<rbrakk> \<Longrightarrow> wedged s' \<and> \<not> is_admit e"
  by (induction rule: call_step.induct)
    (auto simp: wedged_def allow_def is_probe_def split: if_splits)

lemma wedged_steps:
  "\<lbrakk>call_steps s es s'; wedged s\<rbrakk> \<Longrightarrow> wedged s' \<and> \<not> list_ex is_admit es"
  by (induction rule: call_steps.induct) (auto dest: wedged_step)

text \<open>A quiet breaker: closed, nothing in flight, \<open>n\<close> failures so far.\<close>

definition quiet :: "int \<Rightarrow> int \<Rightarrow> nat \<Rightarrow> 'c calls \<Rightarrow> bool" where
  "quiet th cd n s \<longleftrightarrow>
     cb_failures (cs_cb s) = int n \<and> \<not> cb_probing (cs_cb s) \<and>
     cb_threshold (cs_cb s) = th \<and> cb_cooldown (cs_cb s) = cd \<and> cs_flight s = {} \<and>
     cb_open_until (cs_cb s) = (if th \<le> int n then Some cd else None)"

lemma fail_once:
  assumes "quiet th cd n s" "int n < th"
  shows "\<exists>s'. call_steps s [Admit c 0, EndFailure c 0] s' \<and> quiet th cd (Suc n) s'"
proof -
  let ?s1 = "s\<lparr>cs_flight := insert (c, is_probe (cs_cb s)) (cs_flight s)\<rparr>"
  have "call_step s (Admit c 0) ?s1"
    using call_step.admit [of 0 s 0 "cs_cb s" c] assms
    by (simp add: quiet_def allow_def remaining_def)
  moreover have "call_step ?s1 (EndFailure c 0)
      (?s1\<lparr>cs_cb := record_failure 0 (cs_cb ?s1),
        cs_flight := cs_flight ?s1 - {(c, is_probe (cs_cb s))},
        cs_history := cs_history ?s1 @ [Failure]\<rparr>)" (is "call_step _ _ ?s2")
    by (rule call_step.end_failure) simp
  ultimately have "call_steps s ([] @ [Admit c 0] @ [EndFailure c 0]) ?s2"
    by (metis append.left_neutral append_assoc call_nil call_snoc)
  moreover have "quiet th cd (Suc n) ?s2"
    using assms by (auto simp: quiet_def record_failure_def Let_def)
  ultimately show ?thesis by auto
qed

lemma call_steps_append:
  "\<lbrakk>call_steps s' es' s''; call_steps s es s'\<rbrakk> \<Longrightarrow> call_steps s (es @ es') s''"
  by (induction rule: call_steps.induct) (auto simp flip: append_assoc intro: call_snoc)

lemma fail_many:
  "\<lbrakk>quiet th cd 0 s; int n \<le> th\<rbrakk> \<Longrightarrow> \<exists>es s'. call_steps s es s' \<and> quiet th cd n s'"
proof (induction n)
  case 0
  then show ?case using call_nil by blast
next
  case (Suc n)
  then obtain es s1 where "call_steps s es s1" "quiet th cd n s1" by auto
  moreover from fail_once [OF this(2), of undefined] Suc.prems(2) obtain s2 where
    "call_steps s1 [Admit undefined 0, EndFailure undefined 0] s2" "quiet th cd (Suc n) s2"
    by auto
  ultimately show ?case using call_steps_append by blast
qed

lemma probe_lost:
  assumes "quiet th cd n s" "th \<le> int n"
  shows "\<exists>s'. call_steps s [Admit c cd, EndSilent c] s' \<and> wedged s'"
proof -
  let ?cb = "(cs_cb s)\<lparr>cb_probing := True, cb_open_until := None\<rparr>"
  let ?s1 = "s\<lparr>cs_cb := ?cb, cs_flight := insert (c, is_probe (cs_cb s)) (cs_flight s)\<rparr>"
  let ?s2 = "?s1\<lparr>cs_flight := cs_flight ?s1 - {(c, is_probe (cs_cb s))}\<rparr>"
  have "call_step s (Admit c cd) ?s1"
    using assms by (intro call_step.admit) (auto simp: quiet_def allow_def remaining_def)
  moreover have "call_step ?s1 (EndSilent c) ?s2"
    by (rule call_step.end_silent) simp
  ultimately have "call_steps s ([] @ [Admit c cd] @ [EndSilent c]) ?s2"
    by (metis append.left_neutral append_assoc call_nil call_snoc)
  moreover have "wedged ?s2"
    using assms by (simp add: wedged_def is_probe_def quiet_def)
  ultimately show ?thesis by auto
qed

lemma quiet_init:
  "quiet (cb_threshold (new_circuit_breaker t c)) (cb_cooldown (new_circuit_breaker t c)) 0
     (calls_init t c)"
  by (simp add: quiet_def calls_init_def new_circuit_breaker_def default_failure_threshold_def)

lemma wedge_reachable: "\<exists>es s. call_steps (calls_init t c :: 'c calls) es s \<and> wedged s"
proof -
  let ?th = "cb_threshold (new_circuit_breaker t c)"
  let ?cd = "cb_cooldown (new_circuit_breaker t c)"
  have th: "int (nat ?th) \<le> ?th" "?th \<le> int (nat ?th)"
    using new_threshold_pos [of t c] by linarith+
  from fail_many [OF quiet_init th(1)] obtain es and s :: "'c calls" where
    s: "call_steps (calls_init t c) es s" "quiet ?th ?cd (nat ?th) s" by blast
  from probe_lost [OF s(2) th(2)] obtain es' s' where
    "call_steps s es' s'" "wedged s'" by blast
  with call_steps_append [OF _ s(1)] show ?thesis by blast
qed

section \<open>What the breaker promises\<close>

text \<open>C34: in every interleaving of calls the failure counter of the breaker is the number
  of failures recorded since the last recorded success, and a call is refused only when that
  number has reached the (positive) threshold.\<close>

theorem breaker_counts_failures:
  assumes "call_steps (calls_init t c) es s"
  shows "cb_failures (cs_cb s) = trailing_failures (cs_history s) \<and>
    (fst (fst (allow now (cs_cb s))) \<or>
     cb_threshold (new_circuit_breaker t c) \<le> trailing_failures (cs_history s))"
proof -
  have "breaker_inv t c s"
    using breaker_inv_steps [OF assms breaker_inv_init] .
  then show ?thesis
    by (cases "cb_open_until (cs_cb s)")
      (auto simp: breaker_inv_def allow_granted_iff remaining_def)
qed

lemma breaker_counts_failures_witness:
  "\<exists>s. call_steps (calls_init 0 0 :: nat calls) [] s \<and>
     cb_failures (cs_cb s) = trailing_failures (cs_history s)"
proof -
  have "call_steps (calls_init 0 0 :: nat calls) [] (calls_init 0 0)" by (rule call_nil)
  with breaker_counts_failures [OF this, of 0] show ?thesis by blast
qed

text \<open>C33: as long as every call ends by recording its outcome, a breaker with nothing in
  flight whose cooldown is over admits the next call, so it never stays shut for good.\<close>

theorem breaker_recovers:
  assumes "call_steps (calls_init t c) es s" "\<not> list_ex silent es"
    and "cs_flight s = {}" "remaining now (cs_cb s) \<le> 0"
  shows "fst (fst (allow now (cs_cb s)))"
proof -
  have "probe_inv (calls_init t c :: 'a calls)"
    by (simp add: probe_inv_def calls_init_def new_circuit_breaker_def)
  from probe_inv_steps [OF assms(1,2) this] assms(3,4) show ?thesis
    by (simp add: probe_inv_def allow_granted_iff)
qed

lemma breaker_recovers_witness:
  "\<exists>s. call_steps (calls_init 1 5 :: nat calls) [Admit 7 0, EndFailure 7 0] s \<and>
     fst (fst (allow 5 (cs_cb s))) \<and> \<not> fst (fst (allow 4 (cs_cb s)))"
proof -
  have "quiet 1 5 0 (calls_init 1 5 :: nat calls)"
    using quiet_init [of 1 5] by (simp add: new_circuit_breaker_def)
  from fail_once [OF this, of 7] obtain s where
    s: "call_steps (calls_init 1 5 :: nat calls) [Admit 7 0, EndFailure 7 0] s" "quiet 1 5 1 s"
    by auto
  then have "fst (fst (allow 5 (cs_cb s)))"
    by (intro breaker_recovers) (auto simp: quiet_def remaining_def)
  moreover from s(2) have "\<not> fst (fst (allow 4 (cs_cb s)))"
    by (simp add: quiet_def allow_granted_iff remaining_def)
  ultimately show ?thesis using s(1) by blast
qed

text \<open>A half-open breaker lets one probe through: until an outcome is recorded, at most
  one further call is admitted, whatever the order of the callers.\<close>

theorem single_probe:
  assumes "call_steps s es s'" "is_probe (cs_cb s)" "\<not> list_ex records es"
  shows "length (filter is_admit es) \<le> 1"
  using one_probe_aux [OF assms] by simp

lemma single_probe_witness:
  "length (filter is_admit [Admit (1::nat) (5::int), EndSilent 1]) \<le> 1"
proof -
  have "quiet 1 5 0 (calls_init 1 5 :: nat calls)"
    using quiet_init [of 1 5] by (simp add: new_circuit_breaker_def)
  from fail_once [OF this, of 7] obtain s :: "nat calls" where "quiet 1 5 (Suc 0) s" by auto
  moreover from probe_lost [OF this, of 1] obtain s' where
    "call_steps s [Admit 1 5, EndSilent 1] s'" by auto
  ultimately show ?thesis
    by (intro single_probe [of s _ s']) (auto simp: quiet_def is_probe_def)
qed

text \<open>C32: whatever the threshold and the cooldown, some interleaving leads a fresh breaker
  to a state with no call in flight from which no run of any length at any times admits a call
  again: the probe ended without recording (its context was over, or the model was
  unknown).\<close>

theorem breaker_can_wedge:
  "\<exists>es s. call_steps (calls_init t c :: 'c calls) es s \<and> cs_flight s = {} \<and>
     {es'. \<exists>s'. call_steps s es' s' \<and> list_ex is_admit es'} = {}"
proof -
  from wedge_reachable obtain es s where
    s: "call_steps (calls_init t c :: 'c calls) es s" "wedged s" by blast
  moreover from s(2) have "cs_flight s = {}" by (simp add: wedged_def)
  moreover from s(2) have "{es'. \<exists>s'. call_steps s es' s' \<and> list_ex is_admit es'} = {}"
    using wedged_steps by blast
  ultimately show ?thesis by blast
qed

end
