(* ===== verification/EmbedBase.thy ===== *)
theory EmbedBase
  imports Complex_Main Circuit "HOL-Library.Word"
begin

text \<open>
  The world the embedding code of \<open>internal/embed\<close> acts on, the \<open>Embedder\<close>
  interface, and its two HTTP clients (\<open>ollama.go\<close>, \<open>openai.go\<close>).
  The network is an argument: its reply to the last request may depend on every request sent so
  far, so that any behaviour of a provider is an instance.  The requests sent are kept in the
  world, in order.  JSON decoding, URL parsing, the environment variables, \<open>strconv.Quote\<close>
  and the Unicode case tables are arguments too.  A float32 is its bit pattern.
\<close>

type_synonym vec = "32 word list"

section \<open>Contexts, requests, the world\<close>

record ctx =
  cx_force_local :: bool
  cx_deadline :: "int option"

definition with_force_local :: "ctx \<Rightarrow> bool \<Rightarrow> ctx" where
  "with_force_local cx force = cx\<lparr>cx_force_local := force\<rparr>"

definition is_force_local :: "ctx \<Rightarrow> bool" where
  "is_force_local cx = cx_force_local cx"

text \<open>\<open>context.WithTimeout\<close>: the earlier of the two deadlines.\<close>

definition with_timeout :: "ctx \<Rightarrow> int \<Rightarrow> int \<Rightarrow> ctx" where
  "with_timeout cx now d =
     cx\<lparr>cx_deadline := Some (case cx_deadline cx of
                                None \<Rightarrow> now + d | Some t \<Rightarrow> min t (now + d))\<rparr>"

datatype keep_alive_val = KeepOmitted | KeepNum int | KeepStr string

datatype payload =
    NoBody
  | OpenAIEmbedRequest string "string list"
  | OllamaEmbedRequest string "string list" keep_alive_val
  | OllamaShowRequest string

record http_req =
  rq_method :: string
  rq_url :: string
  rq_auth :: "string option"
  rq_payload :: payload

record http_resp =
  rs_code :: int
  rs_status :: string
  rs_body :: string

record net_reply =
  nr_result :: "http_resp result"
  nr_elapsed :: nat
  nr_canceled :: "go_err option"

record env =
  en_net :: "ctx \<Rightarrow> http_req list \<Rightarrow> net_reply"
  en_done_first :: "http_req list \<Rightarrow> int \<Rightarrow> bool"
  en_lower :: "string \<Rightarrow> string"
  en_quote :: "string \<Rightarrow> string"
  en_getenv :: "string \<Rightarrow> string"
  en_parse_duration :: "string \<Rightarrow> int option"
  en_url_error :: "string \<Rightarrow> go_err option"
  en_openai_embeddings :: "string \<Rightarrow> vec list result"
  en_ollama_embeddings :: "string \<Rightarrow> vec list result"
  en_openai_ids :: "string \<Rightarrow> string list result"
  en_ollama_names :: "string \<Rightarrow> string list result"
  en_ollama_model_info :: "string \<Rightarrow> (string \<times> rat option) list result"

record world =
  w_now :: int
  w_canceled :: "go_err option"
  w_breakers :: "nat \<Rightarrow> breaker"
  w_next :: nat
  w_sent :: "http_req list"

definition ctx_err :: "ctx \<Rightarrow> world \<Rightarrow> go_err option" where
  "ctx_err cx w =
     (case w_canceled w of
        Some e \<Rightarrow> Some e
      | None \<Rightarrow> (case cx_deadline cx of
                   Some t \<Rightarrow> if t \<le> w_now w then Some DeadlineExceeded else None
                 | None \<Rightarrow> None))"

text \<open>\<open>http.NewRequestWithContext\<close> (which refuses a bad URL) and \<open>client.Do\<close>.\<close>

definition http_do :: "env \<Rightarrow> ctx \<Rightarrow> http_req \<Rightarrow> world \<Rightarrow> http_resp result \<times> world" where
  "http_do en cx rq w =
     (case en_url_error en (rq_url rq) of
        Some e \<Rightarrow> (Inl e, w)
      | None \<Rightarrow>
          (let sent = w_sent w @ [rq]; r = en_net en cx sent
           in (nr_result r,
               w\<lparr>w_sent := sent, w_now := w_now w + int (nr_elapsed r),
                 w_canceled := (case w_canceled w of Some e \<Rightarrow> Some e | None \<Rightarrow> nr_canceled r)\<rparr>)))"

section \<open>The Embedder interface\<close>

record model_info =
  mi_name :: string
  mi_dims :: int

record embedder =
  em_info :: "ctx \<Rightarrow> string \<Rightarrow> world \<Rightarrow> model_info result \<times> world"
  em_embed :: "ctx \<Rightarrow> string \<Rightarrow> string list \<Rightarrow> world \<Rightarrow> vec list result \<times> world"
  em_single :: "ctx \<Rightarrow> string \<Rightarrow> string \<Rightarrow> world \<Rightarrow> vec result \<times> world"
  em_list :: "ctx \<Rightarrow> world \<Rightarrow> string list result \<times> world"

definition infer_dims :: "(string \<Rightarrow> string) \<Rightarrow> string \<Rightarrow> int" where
  "infer_dims ul model0 =
     (let model = to_lower ul model0; has = str_contains model
      in if has ''nomic'' then 768
         else if has ''bge-m3'' \<or> has ''bge-large'' \<or> has ''mxbai'' \<or> has ''qwen3'' then 1024
         else if has ''e5-large'' \<or> has ''gte-large'' \<or> has ''arctic-large'' then 1024
         else if has ''e5-base'' \<or> has ''gte-base'' then 768
         else if has ''e5-small'' \<or> has ''gte-small'' \<or> has ''all-minilm'' then 384
         else if has ''gemini-embedding-2'' \<or> has ''text-embedding-3-large'' then 3072
         else if has ''text-embedding-3-small'' \<or> has ''text-embedding-ada-002''
                 \<or> has ''gemini-embedding-001'' then 1536
         else 0)"

section \<open>OpenAI-compatible APIs\<close>

definition openai_auth :: "string \<Rightarrow> string option" where
  "openai_auth key = (if key \<noteq> [] then Some (''Bearer '' @ key) else None)"

definition openai_embed ::
  "env \<Rightarrow> string \<Rightarrow> string \<Rightarrow> ctx \<Rightarrow> string \<Rightarrow> string list \<Rightarrow> world \<Rightarrow> vec list result \<times> world" where
  "openai_embed en base key cx model inputs w =
     (if inputs = [] then (Inl (Plain ''no inputs provided''), w)
      else (case http_do en cx
                   \<lparr> rq_method = ''POST'', rq_url = base @ ''/embeddings'',
                     rq_auth = openai_auth key, rq_payload = OpenAIEmbedRequest model inputs \<rparr> w of
              (Inl e, w1) \<Rightarrow> (Inl e, w1)
            | (Inr rs, w1) \<Rightarrow>
                (if rs_code rs \<noteq> 200
                 then (Inl (Plain (''openai embed failed: '' @ rs_status rs @ '' - '' @ rs_body rs)), w1)
                 else (en_openai_embeddings en (rs_body rs), w1))))"

definition first_embedding :: "vec list result \<times> world \<Rightarrow> vec result \<times> world" where
  "first_embedding r =
     (case r of
        (Inl e, w) \<Rightarrow> (Inl e, w)
      | (Inr [], w) \<Rightarrow> (Inl (Plain ''no embedding returned''), w)
      | (Inr (v # vs), w) \<Rightarrow> (Inr v, w))"

definition openai_embed_single ::
  "env \<Rightarrow> string \<Rightarrow> string \<Rightarrow> ctx \<Rightarrow> string \<Rightarrow> string \<Rightarrow> world \<Rightarrow> vec result \<times> world" where
  "openai_embed_single en base key cx model t w =
     first_embedding (openai_embed en base key cx model [t] w)"

definition openai_model_info ::
  "env \<Rightarrow> string \<Rightarrow> world \<Rightarrow> model_info result \<times> world" where
  "openai_model_info en model w =
     (let dims = infer_dims (en_lower en) model
      in if dims \<le> 0
         then (Inl (UnknownModel ''openai'' model ''cannot determine dims; check the model name''), w)
         else (Inr \<lparr>mi_name = model, mi_dims = dims\<rparr>, w))"

definition static_embedding_models :: "string list" where
  "static_embedding_models =
     [''text-embedding-3-small'', ''text-embedding-3-large'', ''text-embedding-ada-002'',
      ''gemini-embedding-2'', ''gemini-embedding-001'']"

definition remote_embedding_models ::
  "env \<Rightarrow> string \<Rightarrow> string \<Rightarrow> ctx \<Rightarrow> world \<Rightarrow> string list \<times> world" where
  "remote_embedding_models en base key cx w =
     (case http_do en cx
             \<lparr> rq_method = ''GET'', rq_url = base @ ''/models'',
               rq_auth = openai_auth key, rq_payload = NoBody \<rparr> w of
        (Inl e, w1) \<Rightarrow> ([], w1)
      | (Inr rs, w1) \<Rightarrow>
          (if rs_code rs \<noteq> 200 then ([], w1)
           else (case en_openai_ids en (rs_body rs) of
                   Inl e \<Rightarrow> ([], w1)
                 | Inr ids \<Rightarrow>
                     (filter (\<lambda>i. str_contains (to_lower (en_lower en) i) ''embed'') ids, w1))))"

definition openai_list_models ::
  "env \<Rightarrow> string \<Rightarrow> string \<Rightarrow> ctx \<Rightarrow> world \<Rightarrow> string list result \<times> world" where
  "openai_list_models en base key cx w =
     (case remote_embedding_models en base key cx w of
        (models, w1) \<Rightarrow>
          (Inr (if models \<noteq> [] then models else static_embedding_models), w1))"

definition new_openai_client :: "env \<Rightarrow> string \<Rightarrow> string \<Rightarrow> embedder" where
  "new_openai_client en base key =
     \<lparr> em_info = (\<lambda>cx m w. openai_model_info en m w),
       em_embed = openai_embed en base key,
       em_single = openai_embed_single en base key,
       em_list = openai_list_models en base key \<rparr>"

section \<open>Ollama\<close>

definition default_embed_timeout :: int where
  "default_embed_timeout = 90 * 1000000000"

definition embed_timeout :: "env \<Rightarrow> int" where
  "embed_timeout en =
     (let v = trim_space (en_getenv en ''SEMIDX_EMBED_TIMEOUT'')
      in if v = [] then default_embed_timeout
         else (case en_parse_duration en v of
                 Some d \<Rightarrow> if d > 0 then d else
                   (case atoi v of
                      Some n \<Rightarrow> if n > 0 then n * 1000000000 else default_embed_timeout
                    | None \<Rightarrow> default_embed_timeout)
               | None \<Rightarrow>
                   (case atoi v of
                      Some n \<Rightarrow> if n > 0 then n * 1000000000 else default_embed_timeout
                    | None \<Rightarrow> default_embed_timeout)))"

definition keep_alive :: "env \<Rightarrow> keep_alive_val" where
  "keep_alive en =
     (let v = trim_space (en_getenv en ''SEMIDX_OLLAMA_KEEP_ALIVE'')
      in if v = [] then KeepStr ''30m''
         else if v = ''0'' then KeepOmitted
         else (case atoi v of Some n \<Rightarrow> KeepNum n | None \<Rightarrow> KeepStr v))"

text \<open>The decoded \<open>model_info\<close> object in the order the map iteration happens to take;
  a value that is no JSON number is \<open>None\<close>.\<close>

fun embedding_dims_from_show :: "(string \<times> rat option) list \<Rightarrow> int" where
  "embedding_dims_from_show [] = 0"
| "embedding_dims_from_show ((key, val) # rest) =
     (if \<not> has_suffix key ''.embedding_length'' then embedding_dims_from_show rest
      else (case val of
              Some f \<Rightarrow> if f > 0 then \<lfloor>f\<rfloor> else embedding_dims_from_show rest
            | None \<Rightarrow> embedding_dims_from_show rest))"

definition ollama_model_info ::
  "env \<Rightarrow> string \<Rightarrow> ctx \<Rightarrow> string \<Rightarrow> world \<Rightarrow> model_info result \<times> world" where
  "ollama_model_info en base cx model w =
     (case http_do en cx
             \<lparr> rq_method = ''POST'', rq_url = base @ ''/api/show'', rq_auth = None,
               rq_payload = OllamaShowRequest model \<rparr> w of
        (Inl e, w1) \<Rightarrow> (Inl e, w1)
      | (Inr rs, w1) \<Rightarrow>
          (if rs_code rs \<noteq> 200
           then (Inl (Plain (''ollama show failed: '' @ rs_status rs @ '' - '' @ rs_body rs)), w1)
           else (case en_ollama_model_info en (rs_body rs) of
                   Inl e \<Rightarrow> (Inl e, w1)
                 | Inr info \<Rightarrow>
                     (let d0 = embedding_dims_from_show info;
                          d = (if d0 \<le> 0 then infer_dims (en_lower en) model else d0)
                      in if d \<le> 0
                         then (Inl (UnknownModel ''ollama'' model
                                ''no *.embedding_length in /api/show and not in the known-model catalog''), w1)
                         else (Inr \<lparr>mi_name = model, mi_dims = d\<rparr>, w1)))))"

definition ollama_embed ::
  "env \<Rightarrow> string \<Rightarrow> ctx \<Rightarrow> string \<Rightarrow> string list \<Rightarrow> world \<Rightarrow> vec list result \<times> world" where
  "ollama_embed en base cx model inputs w =
     (if inputs = [] then (Inl (Plain ''no inputs provided''), w)
      else (case http_do en cx
                   \<lparr> rq_method = ''POST'', rq_url = base @ ''/api/embed'', rq_auth = None,
                     rq_payload = OllamaEmbedRequest model inputs (keep_alive en) \<rparr> w of
              (Inl e, w1) \<Rightarrow> (Inl e, w1)
            | (Inr rs, w1) \<Rightarrow>
                (if rs_code rs \<noteq> 200
                 then (Inl (Plain (''ollama embed failed: '' @ rs_status rs @ '' - '' @ rs_body rs)), w1)
                 else (en_ollama_embeddings en (rs_body rs), w1))))"

definition ollama_embed_single ::
  "env \<Rightarrow> string \<Rightarrow> ctx \<Rightarrow> string \<Rightarrow> string \<Rightarrow> world \<Rightarrow> vec result \<times> world" where
  "ollama_embed_single en base cx model t w =
     first_embedding (ollama_embed en base cx model [t] w)"

definition ollama_list_models ::
  "env \<Rightarrow> string \<Rightarrow> ctx \<Rightarrow> world \<Rightarrow> string list result \<times> world" where
  "ollama_list_models en base cx w =
     (case http_do en cx
             \<lparr> rq_method = ''GET'', rq_url = base @ ''/api/tags'', rq_auth = None,
               rq_payload = NoBody \<rparr> w of
        (Inl e, w1) \<Rightarrow> (Inl e, w1)
      | (Inr rs, w1) \<Rightarrow>
          (if rs_code rs \<noteq> 200 then (Inl (Plain (''ollama tags failed: '' @ rs_status rs)), w1)
           else (case en_ollama_names en (rs_body rs) of
                   Inl e \<Rightarrow> (Inl e, w1)
                 | Inr names \<Rightarrow>
                     (Inr (filter (\<lambda>n. list_ex (str_contains (to_lower (en_lower en) n))
                                      [''embed'', ''bge'', ''nomic'', ''mxbai'']) names), w1))))"

definition new_ollama_client :: "env \<Rightarrow> string \<Rightarrow> embedder" where
  "new_ollama_client en url =
     (let base = trim_right_byte (CHR ''/'') url
      in \<lparr> em_info = ollama_model_info en base,
           em_embed = ollama_embed en base,
           em_single = ollama_embed_single en base,
           em_list = ollama_list_models en base \<rparr>)"

section \<open>What an embedder may send\<close>

text \<open>\<open>confined P w w'\<close>: between the two worlds only requests satisfying \<open>P\<close>
  were sent.\<close>

definition confined :: "(http_req \<Rightarrow> bool) \<Rightarrow> world \<Rightarrow> world \<Rightarrow> bool" where
  "confined P w w' \<longleftrightarrow> (\<exists>rs. w_sent w' = w_sent w @ rs \<and> list_all P rs)"

lemma confined_refl [simp]: "confined P w w"
  by (simp add: confined_def)

lemma confined_trans [trans]:
  "\<lbrakk>confined P w w1; confined P w1 w2\<rbrakk> \<Longrightarrow> confined P w w2"
  by (auto simp: confined_def)

lemma confined_same_sent: "\<lbrakk>confined P w w1; w_sent w2 = w_sent w1\<rbrakk> \<Longrightarrow> confined P w w2"
  by (simp add: confined_def)

lemma confined_mono: "\<lbrakk>confined P w w1; \<And>r. P r \<Longrightarrow> Q r\<rbrakk> \<Longrightarrow> confined Q w w1"
  by (auto simp: confined_def list_all_iff)

lemma confined_sets [simp]:
  "confined P (w\<lparr>w_breakers := b\<rparr>) w1 = confined P w w1"
  "confined P (w\<lparr>w_next := n\<rparr>) w1 = confined P w w1"
  "confined P (w\<lparr>w_now := t\<rparr>) w1 = confined P w w1"
  "confined P w (w1\<lparr>w_breakers := b\<rparr>) = confined P w w1"
  "confined P w (w1\<lparr>w_next := n\<rparr>) = confined P w w1"
  "confined P w (w1\<lparr>w_now := t\<rparr>) = confined P w w1"
  by (simp_all add: confined_def)

lemma http_do_confined: "http_do en cx rq w = (r, w') \<Longrightarrow> P rq \<Longrightarrow> confined P w w'"
  by (auto simp: http_do_def confined_def Let_def split: option.splits)

text \<open>The contract a client of an \<open>Embedder\<close> relies on: called with a context of
  \<open>C\<close>, none of the four operations sends a request outside \<open>P\<close>.\<close>

locale confined_embedder =
  fixes em :: embedder and C :: "ctx \<Rightarrow> bool" and P :: "http_req \<Rightarrow> bool"
  assumes info_confined: "C cx \<Longrightarrow> confined P w (snd (em_info em cx m w))"
    and embed_confined: "C cx \<Longrightarrow> confined P w (snd (em_embed em cx m xs w))"
    and single_confined: "C cx \<Longrightarrow> confined P w (snd (em_single em cx m x w))"
    and list_confined: "C cx \<Longrightarrow> confined P w (snd (em_list em cx w))"
begin

lemma weaken:
  assumes "\<And>cx. C' cx \<Longrightarrow> C cx" "\<And>r. P r \<Longrightarrow> Q r"
  shows "confined_embedder em C' Q"
  by unfold_locales
    (blast intro: assms confined_mono info_confined embed_confined single_confined
       list_confined)+

end

definition at_url :: "string \<Rightarrow> http_req \<Rightarrow> bool" where
  "at_url base rq \<longleftrightarrow> has_prefix (rq_url rq) base"

lemma first_embedding_snd [simp]: "snd (first_embedding r) = snd r"
  by (cases r; cases "fst r") (auto simp: first_embedding_def split: list.splits)

lemma openai_embed_confined:
  "confined (at_url base) w (snd (openai_embed en base key cx m xs w))"
  by (auto simp: openai_embed_def at_url_def split: sum.splits prod.splits
      intro!: http_do_confined)

lemma ollama_embed_confined:
  "confined (at_url base) w (snd (ollama_embed en base cx m xs w))"
  by (auto simp: ollama_embed_def at_url_def split: sum.splits prod.splits
      intro!: http_do_confined)

lemma openai_list_confined:
  "confined (at_url base) w (snd (openai_list_models en base key cx w))"
  by (auto simp: openai_list_models_def remote_embedding_models_def at_url_def
      split: sum.splits prod.splits intro!: http_do_confined)

lemma ollama_list_confined:
  "confined (at_url base) w (snd (ollama_list_models en base cx w))"
  by (auto simp: ollama_list_models_def at_url_def split: sum.splits prod.splits
      intro!: http_do_confined)

lemma ollama_info_confined:
  "confined (at_url base) w (snd (ollama_model_info en base cx m w))"
  by (auto simp: ollama_model_info_def at_url_def Let_def split: sum.splits prod.splits
      intro!: http_do_confined)

interpretation openai: confined_embedder "new_openai_client en base key" "\<lambda>_. True" "at_url base"
  for en base key
  by unfold_locales
    (simp_all add: new_openai_client_def openai_embed_confined openai_list_confined
      openai_embed_single_def openai_model_info_def Let_def)

interpretation ollama: confined_embedder "new_ollama_client en url" "\<lambda>_. True"
  "at_url (trim_right_byte (CHR ''/'') url)" for en url
  by unfold_locales
    (simp_all add: new_ollama_client_def Let_def ollama_embed_confined ollama_list_confined
      ollama_embed_single_def ollama_info_confined)

section \<open>A concrete environment\<close>

text \<open>A network that always gives the same reply, for evaluations at concrete inputs.\<close>

definition fixed_env :: "net_reply \<Rightarrow> env" where
  "fixed_env r =
     \<lparr> en_net = (\<lambda>cx rqs. r), en_done_first = (\<lambda>rqs d. False), en_lower = (\<lambda>s. s),
       en_quote = (\<lambda>s. s), en_getenv = (\<lambda>s. []), en_parse_duration = (\<lambda>s. None),
       en_url_error = (\<lambda>s. None), en_openai_embeddings = (\<lambda>s. Inr [[]]),
       en_ollama_embeddings = (\<lambda>s. Inr [[]]), en_openai_ids = (\<lambda>s. Inr []),
       en_ollama_names = (\<lambda>s. Inr []), en_ollama_model_info = (\<lambda>s. Inr []) \<rparr>"

definition ok_reply :: net_reply where
  "ok_reply = \<lparr> nr_result = Inr \<lparr>rs_code = 200, rs_status = ''200 OK'', rs_body = []\<rparr>,
     nr_elapsed = 1, nr_canceled = None \<rparr>"

definition hang_reply :: "nat \<Rightarrow> net_reply" where
  "hang_reply d = \<lparr> nr_result = Inl DeadlineExceeded, nr_elapsed = d, nr_canceled = None \<rparr>"

definition start_world :: "breaker \<Rightarrow> world" where
  "start_world cb =
     \<lparr> w_now = 0, w_canceled = None, w_breakers = (\<lambda>n. cb), w_next = 0, w_sent = [] \<rparr>"

end
