(* ===== verification/EmbedCircuit.thy ===== *)
theory EmbedCircuit
  imports EmbedBase
begin

text \<open>
  The second half of \<open>internal/embed/circuit.go\<close>: transient errors, the quick retries,
  and \<open>circuitEmbedder\<close>, which guards an inner embedder by a breaker.  Here one call
  runs alone (the interleaving of the breaker's operations is in theory Circuit); the breaker of
  an embedder is the entry of \<open>w_breakers\<close> at its number.
\<close>

section \<open>Transient errors and retries\<close>

definition transient_marks :: "string list" where
  "transient_marks =
     [''timeout'', ''connection refused'', ''connection reset'', ''429'', ''502'', ''503'', ''504'',
      ''too many requests'', ''service unavailable'', ''bad gateway'', ''gateway timeout'',
      ''temporarily unavailable'']"

definition is_transient :: "env \<Rightarrow> go_err \<Rightarrow> bool" where
  "is_transient en e \<longleftrightarrow>
     \<not> is_canceled e \<and>
     list_ex (str_contains (to_lower (en_lower en) (err_msg (en_quote en) e))) transient_marks"

text \<open>50 ms and 150 ms.\<close>

definition quick_retry_backoffs :: "int list" where
  "quick_retry_backoffs = [50 * 1000000, 150 * 1000000]"

text \<open>\<open>select\<close> on the end of the context and a timer; which of the two is taken is the
  argument \<open>en_done_first\<close>.\<close>

definition wait_or_cancel :: "env \<Rightarrow> ctx \<Rightarrow> int \<Rightarrow> world \<Rightarrow> go_err option \<times> world" where
  "wait_or_cancel en cx d w =
     (if en_done_first en (w_sent w) d then (ctx_err cx w, w)
      else (None, w\<lparr>w_now := w_now w + d\<rparr>))"

fun retry_loop ::
  "env \<Rightarrow> ctx \<Rightarrow> (world \<Rightarrow> 'a result \<times> world) \<Rightarrow> int list \<Rightarrow> go_err \<Rightarrow> world \<Rightarrow> 'a result \<times> world" where
  "retry_loop en cx fn [] err w = (Inl err, w)"
| "retry_loop en cx fn (d # ds) err w =
     (case wait_or_cancel en cx d w of
        (Some werr, w1) \<Rightarrow> (Inl werr, w1)
      | (None, w1) \<Rightarrow>
          (case fn w1 of
             (Inr r, w2) \<Rightarrow> (Inr r, w2)
           | (Inl e, w2) \<Rightarrow>
               (case ctx_err cx w2 of
                  Some ce \<Rightarrow> (Inl ce, w2)
                | None \<Rightarrow> if \<not> is_transient en e then (Inl e, w2)
                          else retry_loop en cx fn ds e w2)))"

definition retry_transient ::
  "env \<Rightarrow> ctx \<Rightarrow> (world \<Rightarrow> 'a result \<times> world) \<Rightarrow> world \<Rightarrow> 'a result \<times> world" where
  "retry_transient en cx fn w =
     (case fn w of
        (Inr r, w1) \<Rightarrow> (Inr r, w1)
      | (Inl err, w1) \<Rightarrow>
          (case ctx_err cx w1 of
             Some ce \<Rightarrow> (Inl ce, w1)
           | None \<Rightarrow> if \<not> is_transient en err then (Inl err, w1)
                     else retry_loop en cx fn quick_retry_backoffs err w1))"

section \<open>circuitEmbedder\<close>

definition set_breaker :: "nat \<Rightarrow> breaker \<Rightarrow> world \<Rightarrow> world" where
  "set_breaker n cb w = w\<lparr>w_breakers := (w_breakers w)(n := cb)\<rparr>"

definition circuit_open_err :: "string \<Rightarrow> int \<Rightarrow> go_err" where
  "circuit_open_err nm rem = Retryable (Plain (''circuit breaker open for '' @ nm)) rem"

text \<open>The common frame of the four methods: ask the breaker, call, and record by
  \<open>rec_fail\<close> (the test each method applies to an error) what the call returned.\<close>

definition guarded ::
  "ctx \<Rightarrow> nat \<Rightarrow> string \<Rightarrow> (go_err \<Rightarrow> bool) \<Rightarrow> (world \<Rightarrow> 'a result \<times> world) \<Rightarrow> world \<Rightarrow> 'a result \<times> world" where
  "guarded cx n nm rec_fail call w =
     (case allow (w_now w) (w_breakers w n) of
        ((False, rem), cb) \<Rightarrow> (Inl (circuit_open_err nm rem), set_breaker n cb w)
      | ((True, rem), cb) \<Rightarrow>
          (case call (set_breaker n cb w) of
             (Inr r, w1) \<Rightarrow> (Inr r, set_breaker n (record_success (w_breakers w1 n)) w1)
           | (Inl e, w1) \<Rightarrow>
               (Inl e,
                if rec_fail e \<and> ctx_err cx w1 = None
                then set_breaker n (record_failure (w_now w1) (w_breakers w1 n)) w1
                else w1)))"

definition circuit_embed ::
  "env \<Rightarrow> nat \<Rightarrow> string \<Rightarrow> embedder \<Rightarrow> ctx \<Rightarrow> string \<Rightarrow> string list \<Rightarrow> world \<Rightarrow> vec list result \<times> world" where
  "circuit_embed en n nm inner cx model inputs =
     guarded cx n nm (\<lambda>e. True) (retry_transient en cx (em_embed inner cx model inputs))"

definition circuit_embed_single ::
  "env \<Rightarrow> nat \<Rightarrow> string \<Rightarrow> embedder \<Rightarrow> ctx \<Rightarrow> string \<Rightarrow> string \<Rightarrow> world \<Rightarrow> vec result \<times> world" where
  "circuit_embed_single en n nm inner cx model t =
     guarded cx n nm (\<lambda>e. True) (retry_transient en cx (em_single inner cx model t))"

definition circuit_model_info ::
  "nat \<Rightarrow> string \<Rightarrow> embedder \<Rightarrow> ctx \<Rightarrow> string \<Rightarrow> world \<Rightarrow> model_info result \<times> world" where
  "circuit_model_info n nm inner cx model =
     guarded cx n nm (\<lambda>e. \<not> as_unknown_model e) (em_info inner cx model)"

definition circuit_list_models ::
  "nat \<Rightarrow> string \<Rightarrow> embedder \<Rightarrow> ctx \<Rightarrow> world \<Rightarrow> string list result \<times> world" where
  "circuit_list_models n nm inner cx = guarded cx n nm (\<lambda>e. True) (em_list inner cx)"

definition wrap_with_circuit :: "env \<Rightarrow> nat \<Rightarrow> string \<Rightarrow> embedder \<Rightarrow> embedder" where
  "wrap_with_circuit en n nm inner =
     \<lparr> em_info = circuit_model_info n nm inner,
       em_embed = circuit_embed en n nm inner,
       em_single = circuit_embed_single en n nm inner,
       em_list = circuit_list_models n nm inner \<rparr>"

section \<open>Frames and confinement\<close>

lemma set_breaker_frame [simp]:
  "w_sent (set_breaker n cb w) = w_sent w"
  "w_now (set_breaker n cb w) = w_now w"
  "w_canceled (set_breaker n cb w) = w_canceled w"
  "w_breakers (set_breaker n cb w) m = (if m = n then cb else w_breakers w m)"
  "ctx_err cx (set_breaker n cb w) = ctx_err cx w"
  by (simp_all add: set_breaker_def ctx_err_def split: option.splits)

lemma confined_set_breaker [simp]:
  "confined P (set_breaker n cb w) w1 = confined P w w1"
  "confined P w (set_breaker n cb w1) = confined P w w1"
  by (simp_all add: confined_def)

lemma wait_or_cancel_frame [simp]:
  "w_sent (snd (wait_or_cancel en cx d w)) = w_sent w"
  "w_breakers (snd (wait_or_cancel en cx d w)) = w_breakers w"
  by (simp_all add: wait_or_cancel_def)

text \<open>A relation between worlds that is reflexive, transitive and blind to the clock is kept by
  the retries when every single call keeps it.\<close>

lemma retry_loop_rel:
  assumes refl: "\<And>w. R w w" and trans: "\<And>w w1 w2. R w w1 \<Longrightarrow> R w1 w2 \<Longrightarrow> R w w2"
    and wait: "\<And>d w. R w (snd (wait_or_cancel en cx d w))"
    and call: "\<And>w. R w (snd (fn w))"
  shows "R w (snd (retry_loop en cx fn ds err w))"
proof (induction ds arbitrary: err w)
  case Nil
  show ?case by (simp add: refl)
next
  case (Cons d ds)
  obtain r1 w1 where w1: "wait_or_cancel en cx d w = (r1, w1)" by fastforce
  obtain r2 w2 where w2: "fn w1 = (r2, w2)" by fastforce
  have "R w w1" "R w1 w2" using wait [of w d] call [of w1] w1 w2 by simp_all
  then show ?case
    using w1 w2 Cons.IH [of w2] trans
    by (auto split: option.splits sum.splits)
qed

lemma retry_transient_rel:
  assumes refl: "\<And>w. R w w" and trans: "\<And>w w1 w2. R w w1 \<Longrightarrow> R w1 w2 \<Longrightarrow> R w w2"
    and wait: "\<And>d w. R w (snd (wait_or_cancel en cx d w))"
    and call: "\<And>w. R w (snd (fn w))"
  shows "R w (snd (retry_transient en cx fn w))"
proof -
  obtain r1 w1 where w1: "fn w = (r1, w1)" by fastforce
  then have "R w w1" using call [of w] by simp
  then show ?thesis
    using w1 trans [OF _ retry_loop_rel [of R en cx fn, OF assms], of w w1]
    by (auto simp: retry_transient_def split: option.splits sum.splits)
qed

lemma retry_transient_confined:
  "(\<And>w. confined P w (snd (fn w))) \<Longrightarrow> confined P w (snd (retry_transient en cx fn w))"
  by (rule retry_transient_rel) (auto intro: confined_trans simp: confined_def)

lemma retry_transient_breakers:
  "(\<And>w. w_breakers (snd (fn w)) = w_breakers w) \<Longrightarrow>
     w_breakers (snd (retry_transient en cx fn w)) = w_breakers w"
  using retry_transient_rel [of "\<lambda>w w'. w_breakers w' = w_breakers w" en cx fn w] by simp

lemma guarded_confined:
  "(\<And>w. confined P w (snd (call w))) \<Longrightarrow> confined P w (snd (guarded cx n nm rf call w))"
proof -
  assume call: "\<And>w. confined P w (snd (call w))"
  obtain g rem cb where a: "allow (w_now w) (w_breakers w n) = ((g, rem), cb)"
    by (metis surj_pair)
  obtain r w1 where w1: "call (set_breaker n cb w) = (r, w1)" by fastforce
  from call [of "set_breaker n cb w"] w1 have "confined P w w1" by simp
  with a w1 show ?thesis
    by (cases g; cases r) (auto simp: guarded_def)
qed

context confined_embedder
begin

lemma circuit_confined: "confined_embedder (wrap_with_circuit en n nm em) C P"
  by unfold_locales
    (auto simp: wrap_with_circuit_def circuit_embed_def circuit_embed_single_def
      circuit_model_info_def circuit_list_models_def
      intro!: guarded_confined retry_transient_confined
      intro: info_confined embed_confined single_confined list_confined)

end

text \<open>The clients never touch a breaker.\<close>

lemma http_do_breakers: "http_do en cx rq w = (r, w') \<Longrightarrow> w_breakers w' = w_breakers w"
  by (auto simp: http_do_def Let_def split: option.splits)

lemma ollama_embed_breakers: "w_breakers (snd (ollama_embed en base cx m xs w)) = w_breakers w"
  by (auto simp: ollama_embed_def split: sum.splits prod.splits dest: http_do_breakers)

lemma openai_embed_breakers:
  "w_breakers (snd (openai_embed en base key cx m xs w)) = w_breakers w"
  by (auto simp: openai_embed_def split: sum.splits prod.splits dest: http_do_breakers)

section \<open>What a guarded call does\<close>

lemma guarded_open:
  "\<not> fst (fst (allow (w_now w) (w_breakers w n))) \<Longrightarrow>
     \<exists>rem. guarded cx n nm rf call w = (Inl (circuit_open_err nm rem), w)"
proof -
  assume no: "\<not> fst (fst (allow (w_now w) (w_breakers w n)))"
  moreover obtain g rem cb where a: "allow (w_now w) (w_breakers w n) = ((g, rem), cb)"
    by (metis surj_pair)
  moreover have "cb = w_breakers w n" using allow_refused_same [OF no] a by simp
  ultimately show ?thesis by (auto simp: guarded_def set_breaker_def)
qed

lemma probe_lost_in_call:
  assumes "is_probe (w_breakers w n)" "fst (fst (allow (w_now w) (w_breakers w n)))"
    and call: "\<And>w. w_breakers (snd (call w)) = w_breakers w"
    and ret: "guarded cx n nm rf call w = (Inl e, w')" and over: "ctx_err cx w' \<noteq> None"
  shows "\<not> fst (fst (allow t (w_breakers w' n)))"
proof -
  obtain rem cb where a: "allow (w_now w) (w_breakers w n) = ((True, rem), cb)"
    using assms(2) by (metis fst_conv surj_pair)
  from allow_probe_granted [OF assms(1) this] have cb: "cb_probing cb" "is_probe cb" by simp_all
  obtain r w1 where w1: "call (set_breaker n cb w) = (r, w1)" by fastforce
  with call [of "set_breaker n cb w"] have "w_breakers w1 n = cb" by simp
  moreover from ret a w1 over have "w' = w1"
    by (cases r) (auto simp: guarded_def split: if_splits)
  ultimately show ?thesis using cb by (auto simp: allow_granted_iff is_probe_def)
qed

section \<open>How many requests a call makes\<close>

lemma retry_loop_count:
  assumes call: "\<And>w. length (w_sent (snd (fn w))) \<le> length (w_sent w) + k"
  shows "length (w_sent (snd (retry_loop en cx fn ds err w))) \<le> length (w_sent w) + length ds * k"
proof (induction ds arbitrary: err w)
  case (Cons d ds)
  obtain r1 w1 where w1: "wait_or_cancel en cx d w = (r1, w1)" by fastforce
  then have s1: "w_sent w1 = w_sent w" using wait_or_cancel_frame [of en cx d w] by simp
  obtain r2 w2 where w2: "fn w1 = (r2, w2)" by fastforce
  with call [of w1] s1 have c2: "length (w_sent w2) \<le> length (w_sent w) + k" by simp
  show ?case
  proof (cases r1)
    case None
    have "length (w_sent (snd (retry_loop en cx fn ds e w2)))
        \<le> length (w_sent w) + (k + length ds * k)" for e
      using Cons.IH [of e w2] c2 by linarith
    with None w1 w2 c2 show ?thesis
      by (auto split: option.splits sum.splits)
  qed (use w1 s1 in simp)
qed simp

lemma retry_transient_count:
  assumes call: "\<And>w. length (w_sent (snd (fn w))) \<le> length (w_sent w) + k"
  shows "length (w_sent (snd (retry_transient en cx fn w))) \<le> length (w_sent w) + 3 * k"
proof -
  obtain r1 w1 where w1: "fn w = (r1, w1)" by fastforce
  with call [of w] have "length (w_sent w1) \<le> length (w_sent w) + k" by simp
  moreover from this have "length (w_sent (snd (retry_loop en cx fn quick_retry_backoffs e w1)))
      \<le> length (w_sent w) + 3 * k" for e
    using retry_loop_count [of fn k en cx quick_retry_backoffs e w1, OF call]
    by (simp add: quick_retry_backoffs_def)
  ultimately show ?thesis
    using w1 by (auto simp: retry_transient_def split: option.splits sum.splits)
qed

lemma guarded_count:
  assumes call: "\<And>w. length (w_sent (snd (call w))) \<le> length (w_sent w) + k"
  shows "length (w_sent (snd (guarded cx n nm rf call w))) \<le> length (w_sent w) + k"
proof -
  obtain g rem cb where a: "allow (w_now w) (w_breakers w n) = ((g, rem), cb)"
    by (metis surj_pair)
  obtain r w1 where w1: "call (set_breaker n cb w) = (r, w1)" by fastforce
  with call [of "set_breaker n cb w"] have "length (w_sent w1) \<le> length (w_sent w) + k" by simp
  with a w1 show ?thesis by (cases g; cases r) (auto simp: guarded_def)
qed

lemma http_do_count: "http_do en cx rq w = (r, w') \<Longrightarrow> length (w_sent w') \<le> Suc (length (w_sent w))"
  by (auto simp: http_do_def Let_def split: option.splits)

lemma openai_embed_count:
  "length (w_sent (snd (openai_embed en base key cx m xs w))) \<le> length (w_sent w) + 1"
  by (auto simp: openai_embed_def split: sum.splits prod.splits dest: http_do_count)

lemma ollama_embed_count:
  "length (w_sent (snd (ollama_embed en base cx m xs w))) \<le> length (w_sent w) + 1"
  by (auto simp: ollama_embed_def split: sum.splits prod.splits dest: http_do_count)

lemma circuit_embed_count:
  assumes "\<And>w. length (w_sent (snd (em_embed em cx m xs w))) \<le> length (w_sent w) + 1"
  shows "length (w_sent (snd (circuit_embed en n nm em cx m xs w))) \<le> length (w_sent w) + 3"
  unfolding circuit_embed_def
  using retry_transient_count [of "em_embed em cx m xs" 1, OF assms]
  by (intro guarded_count) simp

text \<open>One guarded embedding call makes at most three HTTP requests, retries included,
  whatever the network answers.\<close>

theorem embed_at_most_three_requests:
  "length (w_sent (snd (circuit_embed en n nm (new_ollama_client en url) cx m xs w)))
     \<le> length (w_sent w) + 3 \<and>
   length (w_sent (snd (circuit_embed en n nm (new_openai_client en base key) cx m xs w)))
     \<le> length (w_sent w) + 3"
  by (intro conjI circuit_embed_count)
    (simp_all only: new_ollama_client_def new_openai_client_def Let_def embedder.simps
      ollama_embed_count openai_embed_count)

text \<open>When the probe of a half-open breaker fails and its context is over by then (the
  per-call timeout of the chain is such a context), the breaker refuses every later call, at any
  time: the provider is never called again.\<close>

theorem timed_out_probe_shuts_provider:
  assumes "is_probe (w_breakers w n)" "fst (fst (allow (w_now w) (w_breakers w n)))"
    and "circuit_embed en n nm (new_ollama_client en url) cx m xs w = (Inl e, w')"
    and "ctx_err cx w' \<noteq> None"
  shows "\<not> fst (fst (allow t (w_breakers w' n)))"
  using assms(1,2) _ assms(3) [unfolded circuit_embed_def] assms(4)
  by (rule probe_lost_in_call)
    (simp add: retry_transient_breakers new_ollama_client_def Let_def ollama_embed_breakers)

definition probe_ready :: breaker where
  "probe_ready = (new_circuit_breaker 1 5)\<lparr>cb_failures := 1\<rparr>"

lemma timed_out_probe_shuts_provider_witness:
  "\<exists>e w'. circuit_embed (fixed_env (hang_reply 9)) 0 ''x''
      (new_ollama_client (fixed_env (hang_reply 9)) ''u'')
      \<lparr>cx_force_local = False, cx_deadline = Some 5\<rparr> ''m'' [''a''] (start_world probe_ready)
      = (Inl e, w') \<and> \<not> fst (fst (allow 1000 (w_breakers w' 0)))"
proof -
  let ?en = "fixed_env (hang_reply 9)"
  let ?cx = "\<lparr>cx_force_local = False, cx_deadline = Some 5\<rparr>"
  obtain e w' where run: "circuit_embed ?en 0 ''x'' (new_ollama_client ?en ''u'') ?cx ''m'' [''a'']
      (start_world probe_ready) = (Inl e, w')" and over: "ctx_err ?cx w' \<noteq> None"
    by (simp add: circuit_embed_def guarded_def retry_transient_def new_ollama_client_def
        ollama_embed_def http_do_def fixed_env_def hang_reply_def start_world_def probe_ready_def
        allow_def remaining_def new_circuit_breaker_def set_breaker_def ctx_err_def Let_def)
  have "is_probe (w_breakers (start_world probe_ready) 0)"
    "fst (fst (allow (w_now (start_world probe_ready)) (w_breakers (start_world probe_ready) 0)))"
    by (simp_all add: is_probe_def start_world_def probe_ready_def new_circuit_breaker_def
        allow_def remaining_def)
  from timed_out_probe_shuts_provider [OF this run over, of 1000] run show ?thesis by blast
qed

end
