(* ===== verification/EmbedChain.thy ===== *)
theory EmbedChain
  imports EmbedCircuit
begin

text \<open>
  \<open>internal/embed/embed.go\<close> (\<open>ChainEmbedder\<close>, failure summaries),
  \<open>parallel.go\<close> (the round-robin pool) and \<open>chain.go\<close> (both built from the
  configuration).  Every wrapped provider has a breaker of its own; the builders give the
  breakers the numbers written there.  The round-robin position is \<open>w_next\<close>.
\<close>

section \<open>ChainEmbedder\<close>

record provider_instance =
  pi_name :: string
  pi_embedder :: embedder
  pi_local :: bool

record chain_embedder =
  ch_providers :: "provider_instance list"
  ch_privacy :: bool

definition new_chain_embedder :: "provider_instance list \<Rightarrow> bool \<Rightarrow> chain_embedder" where
  "new_chain_embedder ps privacy = \<lparr>ch_providers = ps, ch_privacy = privacy\<rparr>"

definition set_privacy :: "bool \<Rightarrow> chain_embedder \<Rightarrow> chain_embedder" where
  "set_privacy privacy ch = ch\<lparr>ch_privacy := privacy\<rparr>"

definition skip_provider :: "bool \<Rightarrow> provider_instance \<Rightarrow> bool \<Rightarrow> bool" where
  "skip_provider privacy p force_local \<longleftrightarrow> (privacy \<or> force_local) \<and> \<not> pi_local p"

text \<open>The error of a chain in which nobody answered.\<close>

definition chain_failure :: "string \<Rightarrow> (string \<times> go_err) list \<Rightarrow> go_err" where
  "chain_failure op fs =
     (if fs = [] then Plain (''chain: '' @ op @ '': no embedding model available'')
      else ChainFailed op (butlast fs) (fst (last fs)) (snd (last fs)))"

definition provider_timeout :: "env \<Rightarrow> provider_instance \<Rightarrow> int" where
  "provider_timeout en p = (if pi_local p then embed_timeout en else 30 * 1000000000)"

fun try_loop ::
  "env \<Rightarrow> bool \<Rightarrow> ctx \<Rightarrow> string \<Rightarrow> (ctx \<Rightarrow> embedder \<Rightarrow> world \<Rightarrow> 'a result \<times> world)
     \<Rightarrow> provider_instance list \<Rightarrow> (string \<times> go_err) list \<Rightarrow> world \<Rightarrow> 'a result \<times> world" where
  "try_loop en privacy cx op fn [] failures w = (Inl (chain_failure op failures), w)"
| "try_loop en privacy cx op fn (p # ps) failures w =
     (if skip_provider privacy p (is_force_local cx)
      then try_loop en privacy cx op fn ps failures w
      else (case fn (with_timeout cx (w_now w) (provider_timeout en p)) (pi_embedder p) w of
              (Inr r, w1) \<Rightarrow> (Inr r, w1)
            | (Inl e, w1) \<Rightarrow>
                (case ctx_err cx w1 of
                   Some ce \<Rightarrow> (Inl ce, w1)
                 | None \<Rightarrow> try_loop en privacy cx op fn ps (failures @ [(pi_name p, e)]) w1)))"

definition try_each ::
  "env \<Rightarrow> chain_embedder \<Rightarrow> ctx \<Rightarrow> string \<Rightarrow> (ctx \<Rightarrow> embedder \<Rightarrow> world \<Rightarrow> 'a result \<times> world)
     \<Rightarrow> world \<Rightarrow> 'a result \<times> world" where
  "try_each en ch cx op fn w = try_loop en (ch_privacy ch) cx op fn (ch_providers ch) [] w"

definition chain_embed ::
  "env \<Rightarrow> chain_embedder \<Rightarrow> ctx \<Rightarrow> string \<Rightarrow> string list \<Rightarrow> world \<Rightarrow> vec list result \<times> world" where
  "chain_embed en ch cx model inputs =
     try_each en ch cx ''failed to generate embeddings'' (\<lambda>c e. em_embed e c model inputs)"

definition chain_embed_single ::
  "env \<Rightarrow> chain_embedder \<Rightarrow> ctx \<Rightarrow> string \<Rightarrow> string \<Rightarrow> world \<Rightarrow> vec result \<times> world" where
  "chain_embed_single en ch cx model t =
     try_each en ch cx ''failed to generate embedding'' (\<lambda>c e. em_single e c model t)"

definition chain_model_info ::
  "env \<Rightarrow> chain_embedder \<Rightarrow> ctx \<Rightarrow> string \<Rightarrow> world \<Rightarrow> model_info result \<times> world" where
  "chain_model_info en ch cx model =
     try_each en ch cx ''failed to get model info'' (\<lambda>c e. em_info e c model)"

text \<open>The union of several model lists, first occurrences only; members that fail are
  passed over.\<close>

fun add_new :: "string list \<Rightarrow> string list \<Rightarrow> string list" where
  "add_new models [] = models"
| "add_new models (m # ms) = add_new (if m \<in> set models then models else models @ [m]) ms"

fun union_models :: "ctx \<Rightarrow> embedder list \<Rightarrow> string list \<Rightarrow> world \<Rightarrow> string list \<times> world" where
  "union_models cx [] models w = (models, w)"
| "union_models cx (e # es) models w =
     (case em_list e cx w of
        (Inl err, w1) \<Rightarrow> union_models cx es models w1
      | (Inr ms, w1) \<Rightarrow> union_models cx es (add_new models ms) w1)"

definition chain_list_models ::
  "chain_embedder \<Rightarrow> ctx \<Rightarrow> world \<Rightarrow> string list result \<times> world" where
  "chain_list_models ch cx w =
     (case union_models cx
             (map pi_embedder
               (filter (\<lambda>p. \<not> skip_provider (ch_privacy ch) p (is_force_local cx)) (ch_providers ch)))
             [] w of
        (models, w1) \<Rightarrow>
          (if models = [] then Inl (Plain ''chain: no embedding model available'') else Inr models, w1))"

definition chain_as_embedder :: "env \<Rightarrow> chain_embedder \<Rightarrow> embedder" where
  "chain_as_embedder en ch =
     \<lparr> em_info = chain_model_info en ch, em_embed = chain_embed en ch,
       em_single = chain_embed_single en ch, em_list = chain_list_models ch \<rparr>"

section \<open>Failure summaries\<close>

primrec as_chain :: "go_err \<Rightarrow> (string \<times> go_err) option" where
  "as_chain (Plain m) = None"
| "as_chain (Wrapped m e) = as_chain e"
| "as_chain Canceled = None"
| "as_chain DeadlineExceeded = None"
| "as_chain (UnknownModel p m r) = None"
| "as_chain (Retryable e d) = as_chain e"
| "as_chain (ChainFailed op fs n e) = Some (n, e)"

definition failure_class :: "env \<Rightarrow> go_err option \<Rightarrow> string" where
  "failure_class en err =
     (case err of
        None \<Rightarrow> []
      | Some e \<Rightarrow>
          (if as_retryable e then ''circuit open''
           else (let msg = to_lower (en_lower en) (err_msg (en_quote en) e);
                     has = list_ex (str_contains msg)
                 in if is_deadline e \<or> has [''timeout''] then ''timeout''
                    else if has [''429'', ''too many requests'', ''rate limit''] then ''rate limited''
                    else if has [''502'', ''503'', ''504'', ''bad gateway'', ''service unavailable'',
                                 ''gateway timeout'', ''temporarily unavailable''] then ''5xx''
                    else if has [''connection refused'', ''connection reset''] then ''unreachable''
                    else ''error'')))"

definition summarize_failure :: "env \<Rightarrow> go_err option \<Rightarrow> string" where
  "summarize_failure en err =
     (case err of
        None \<Rightarrow> []
      | Some e \<Rightarrow>
          (case as_chain e of
             Some (n, l) \<Rightarrow> n @ '': '' @ failure_class en (Some l)
           | None \<Rightarrow> failure_class en (Some e)))"

section \<open>ParallelEmbedder\<close>

text \<open>\<open>nextEntry\<close> under its mutex; a pool has at least one entry.\<close>

definition next_entry :: "nat \<Rightarrow> world \<Rightarrow> nat \<times> world" where
  "next_entry len w = (w_next w, w\<lparr>w_next := (w_next w + 1) mod len\<rparr>)"

definition all_failed :: "nat \<Rightarrow> string \<Rightarrow> go_err option \<Rightarrow> go_err" where
  "all_failed len what last_err =
     (let m = ''parallel: all '' @ itoa len @ '' entries failed '' @ what @ '': ''
      in case last_err of Some e \<Rightarrow> Wrapped m e | None \<Rightarrow> Plain (m @ ''%!w(<nil>)''))"

text \<open>Entries asked one after the other until one succeeds, with the last error.\<close>

fun first_ok ::
  "(embedder \<Rightarrow> world \<Rightarrow> 'a result \<times> world) \<Rightarrow> embedder list \<Rightarrow> go_err option \<Rightarrow> world
     \<Rightarrow> (go_err option + 'a) \<times> world" where
  "first_ok fn [] last_err w = (Inl last_err, w)"
| "first_ok fn (e # es) last_err w =
     (case fn e w of
        (Inr r, w1) \<Rightarrow> (Inr r, w1)
      | (Inl err, w1) \<Rightarrow> first_ok fn es (Some err) w1)"

text \<open>The other entries in the order \<open>(start + i) % len\<close>, \<open>i = 1 .. len - 1\<close>.\<close>

definition others_from :: "embedder list \<Rightarrow> nat \<Rightarrow> embedder list" where
  "others_from es start = map (\<lambda>i. es ! ((start + i) mod length es)) [1..<length es]"

definition embed_fallback ::
  "embedder list \<Rightarrow> ctx \<Rightarrow> string \<Rightarrow> string list \<Rightarrow> nat \<Rightarrow> world \<Rightarrow> vec list result \<times> world" where
  "embed_fallback es cx model inputs start w =
     (case first_ok (\<lambda>e. em_embed e cx model inputs) (others_from es start) None w of
        (Inr r, w1) \<Rightarrow> (Inr r, w1)
      | (Inl last_err, w1) \<Rightarrow> (Inl (all_failed (length es) ''with force-local'' last_err), w1))"

definition parallel_embed ::
  "embedder list \<Rightarrow> ctx \<Rightarrow> string \<Rightarrow> string list \<Rightarrow> world \<Rightarrow> vec list result \<times> world" where
  "parallel_embed es cx model inputs w =
     (case next_entry (length es) w of
        (start, w1) \<Rightarrow>
          (case em_embed (es ! start) cx model inputs w1 of
             (Inr r, w2) \<Rightarrow> (Inr r, w2)
           | (Inl e, w2) \<Rightarrow>
               (if \<not> is_force_local cx then (Inl e, w2)
                else embed_fallback es cx model inputs start w2)))"

definition parallel_embed_single ::
  "embedder list \<Rightarrow> ctx \<Rightarrow> string \<Rightarrow> string \<Rightarrow> world \<Rightarrow> vec result \<times> world" where
  "parallel_embed_single es cx model t w =
     (case next_entry (length es) w of
        (start, w1) \<Rightarrow>
          (case em_single (es ! start) cx model t w1 of
             (Inr r, w2) \<Rightarrow> (Inr r, w2)
           | (Inl e, w2) \<Rightarrow>
               (if \<not> is_force_local cx then (Inl e, w2)
                else (case first_ok (\<lambda>e. em_single e cx model t) (others_from es start) (Some e) w2 of
                        (Inr r, w3) \<Rightarrow> (Inr r, w3)
                      | (Inl last_err, w3) \<Rightarrow>
                          (Inl (all_failed (length es) ''with force-local'' last_err), w3)))))"

definition parallel_model_info ::
  "embedder list \<Rightarrow> ctx \<Rightarrow> string \<Rightarrow> world \<Rightarrow> model_info result \<times> world" where
  "parallel_model_info es cx model w =
     (case first_ok (\<lambda>e. em_info e cx model) es None w of
        (Inr r, w1) \<Rightarrow> (Inr r, w1)
      | (Inl last_err, w1) \<Rightarrow> (Inl (all_failed (length es) ''to get model info'' last_err), w1))"

definition parallel_list_models ::
  "embedder list \<Rightarrow> ctx \<Rightarrow> world \<Rightarrow> string list result \<times> world" where
  "parallel_list_models es cx w =
     (case union_models cx es [] w of
        (models, w1) \<Rightarrow>
          (if models = [] then Inl (Plain ''parallel: no embedding model available'')
           else Inr models, w1))"

definition new_parallel_embedder :: "embedder list \<Rightarrow> embedder" where
  "new_parallel_embedder es =
     \<lparr> em_info = parallel_model_info es, em_embed = parallel_embed es,
       em_single = parallel_embed_single es, em_list = parallel_list_models es \<rparr>"

section \<open>Building from the configuration\<close>

record chain_config =
  cc_ollama_url :: string
  cc_ollama_urls :: "string list"
  cc_provider :: string
  cc_endpoint :: string
  cc_api_key :: string
  cc_gemini_key :: string
  cc_gemini_url :: string
  cc_groq_key :: string
  cc_groq_url :: string
  cc_openrouter_key :: string
  cc_openrouter_url :: string
  cc_ollama_cloud_key :: string
  cc_ollama_cloud_url :: string
  cc_privacy :: bool
  cc_threshold :: int
  cc_cooldown :: int

text \<open>The breakers \<open>wrapWithCircuit\<close> creates, all with the configured numbers.\<close>

definition fresh_breakers :: "chain_config \<Rightarrow> nat \<Rightarrow> breaker" where
  "fresh_breakers cfg n = new_circuit_breaker (cc_threshold cfg) (cc_cooldown cfg)"

definition wrapped :: "env \<Rightarrow> nat \<Rightarrow> string \<Rightarrow> embedder \<Rightarrow> bool \<Rightarrow> provider_instance" where
  "wrapped en n nm inner loc =
     \<lparr>pi_name = nm, pi_embedder = wrap_with_circuit en n nm inner, pi_local = loc\<rparr>"

definition cloud_providers :: "env \<Rightarrow> chain_config \<Rightarrow> provider_instance list" where
  "cloud_providers en cfg =
     (if cc_gemini_key cfg \<noteq> []
      then [wrapped en 1 ''gemini'' (new_openai_client en (cc_gemini_url cfg) (cc_gemini_key cfg)) False]
      else []) @
     (if cc_groq_key cfg \<noteq> []
      then [wrapped en 2 ''groq'' (new_openai_client en (cc_groq_url cfg) (cc_groq_key cfg)) False]
      else []) @
     (if cc_openrouter_key cfg \<noteq> []
      then [wrapped en 3 ''openrouter''
              (new_openai_client en (cc_openrouter_url cfg) (cc_openrouter_key cfg)) False]
      else []) @
     (if cc_ollama_cloud_key cfg \<noteq> []
      then [wrapped en 4 ''ollama-cloud''
              (new_openai_client en (cc_ollama_cloud_url cfg) (cc_ollama_cloud_key cfg)) False]
      else [])"

definition build_cloud_chain :: "env \<Rightarrow> chain_config \<Rightarrow> embedder option" where
  "build_cloud_chain en cfg =
     (let cloud = cloud_providers en cfg
      in if cloud = [] then None
         else Some (chain_as_embedder en (new_chain_embedder cloud (cc_privacy cfg))))"

definition custom_endpoint :: "string \<Rightarrow> chain_config \<Rightarrow> string" where
  "custom_endpoint ollama_default cfg =
     (if cc_endpoint cfg = []
      then (if cc_provider cfg = ''ollama'' then ollama_default else ''https://api.openai.com/v1'')
      else cc_endpoint cfg)"

definition custom_client :: "env \<Rightarrow> string \<Rightarrow> chain_config \<Rightarrow> embedder" where
  "custom_client en ollama_default cfg =
     (if cc_provider cfg = ''openai''
      then new_openai_client en (custom_endpoint ollama_default cfg) (cc_api_key cfg)
      else new_ollama_client en (custom_endpoint ollama_default cfg))"

definition custom_pool_entry :: "env \<Rightarrow> chain_config \<Rightarrow> embedder option" where
  "custom_pool_entry en cfg =
     (if cc_provider cfg = [] then None
      else Some (custom_client en (cc_ollama_urls cfg ! 0) cfg))"

definition pool_entries :: "env \<Rightarrow> chain_config \<Rightarrow> embedder list" where
  "pool_entries en cfg =
     map (\<lambda>(i, url). wrap_with_circuit en (10 + i) url (new_ollama_client en url))
       (enumerate 0 (cc_ollama_urls cfg)) @
     (case build_cloud_chain en cfg of
        Some cloud \<Rightarrow> [wrap_with_circuit en 6 ''cloud'' cloud] | None \<Rightarrow> []) @
     (case custom_pool_entry en cfg of
        Some custom \<Rightarrow> [wrap_with_circuit en 0 ''custom'' custom] | None \<Rightarrow> [])"

definition build_pool :: "env \<Rightarrow> chain_config \<Rightarrow> embedder" where
  "build_pool en cfg = new_parallel_embedder (pool_entries en cfg)"

definition config_providers :: "env \<Rightarrow> chain_config \<Rightarrow> provider_instance list" where
  "config_providers en cfg =
     (if cc_provider cfg \<noteq> []
      then [wrapped en 0 ''custom'' (custom_client en (cc_ollama_url cfg) cfg)
              (cc_provider cfg = ''ollama'')]
      else []) @
     cloud_providers en cfg @
     [wrapped en 5 ''ollama'' (new_ollama_client en (cc_ollama_url cfg)) True]"

definition new_chain_from_config :: "env \<Rightarrow> chain_config \<Rightarrow> embedder" where
  "new_chain_from_config en cfg =
     (if length (cc_ollama_urls cfg) \<ge> 2 then build_pool en cfg
      else chain_as_embedder en (new_chain_embedder (config_providers en cfg) (cc_privacy cfg)))"

section \<open>A chain sends only through the providers it may use\<close>

text \<open>A member is fit for a context when its privacy rules let it be skipped or it keeps
  within \<open>P\<close>.\<close>

definition member_ok :: "bool \<Rightarrow> (http_req \<Rightarrow> bool) \<Rightarrow> provider_instance \<Rightarrow> bool" where
  "member_ok privacy P p \<longleftrightarrow>
     pi_local p \<longrightarrow> confined_embedder (pi_embedder p) (\<lambda>cx. privacy \<or> is_force_local cx) P"

lemma with_timeout_force [simp]: "is_force_local (with_timeout cx t d) = is_force_local cx"
  by (simp add: with_timeout_def is_force_local_def)

lemma try_loop_confined:
  assumes "\<And>p c w. \<lbrakk>p \<in> set ps; \<not> skip_provider privacy p (is_force_local cx);
      is_force_local c = is_force_local cx\<rbrakk> \<Longrightarrow> confined P w (snd (fn c (pi_embedder p) w))"
  shows "confined P w (snd (try_loop en privacy cx op fn ps fs w))"
  using assms
proof (induction ps arbitrary: fs w)
  case (Cons p ps)
  let ?c = "with_timeout cx (w_now w) (provider_timeout en p)"
  obtain r w1 where w1: "fn ?c (pi_embedder p) w = (r, w1)" by fastforce
  have rest: "confined P w' (snd (try_loop en privacy cx op fn ps fs' w'))" for fs' w'
    by (rule Cons.IH) (use Cons.prems in auto)
  show ?case
  proof (cases "skip_provider privacy p (is_force_local cx)")
    case False
    with Cons.prems [of p ?c w] w1 have "confined P w w1" by simp
    with False w1 rest show ?thesis
      by (auto split: sum.splits option.splits intro: confined_trans)
  qed (simp add: rest)
qed simp

lemma union_models_confined:
  "(\<And>e w. e \<in> set es \<Longrightarrow> confined P w (snd (em_list e cx w))) \<Longrightarrow>
     confined P w (snd (union_models cx es ms w))"
proof (induction es arbitrary: ms w)
  case (Cons e es)
  obtain r w1 where w1: "em_list e cx w = (r, w1)" by fastforce
  with Cons.prems [of e w] have "confined P w w1" by simp
  with w1 Cons show ?case
    by (auto split: sum.splits intro: confined_trans)
qed simp

lemma skip_restricted:
  "\<lbrakk>privacy \<or> is_force_local cx; \<not> skip_provider privacy p (is_force_local cx)\<rbrakk> \<Longrightarrow> pi_local p"
  by (auto simp: skip_provider_def)

text \<open>The contract of a chain, from those of the members it does not skip.\<close>

lemma chain_confined_gen:
  assumes closed: "\<And>cx c. \<lbrakk>C cx; is_force_local c = is_force_local cx\<rbrakk> \<Longrightarrow> C c"
    and mem: "\<And>p cx. \<lbrakk>p \<in> set ps; C cx; \<not> skip_provider privacy p (is_force_local cx)\<rbrakk> \<Longrightarrow>
      confined_embedder (pi_embedder p) C P"
  shows "confined_embedder (chain_as_embedder en (new_chain_embedder ps privacy)) C P"
    (is "confined_embedder ?em C P")
proof
  fix cx w m x and xs :: "string list" assume C: "C cx"
  show "confined P w (snd (em_info ?em cx m w))"
    using C mem closed
    by (auto simp: chain_as_embedder_def chain_model_info_def try_each_def new_chain_embedder_def
        intro!: try_loop_confined confined_embedder.info_confined)
  show "confined P w (snd (em_embed ?em cx m xs w))"
    using C mem closed
    by (auto simp: chain_as_embedder_def chain_embed_def try_each_def new_chain_embedder_def
        intro!: try_loop_confined confined_embedder.embed_confined)
  show "confined P w (snd (em_single ?em cx m x w))"
    using C mem closed
    by (auto simp: chain_as_embedder_def chain_embed_single_def try_each_def new_chain_embedder_def
        intro!: try_loop_confined confined_embedder.single_confined)
  have "confined P w (snd (union_models cx (map pi_embedder
      (filter (\<lambda>p. \<not> skip_provider privacy p (is_force_local cx)) ps)) [] w))"
    by (rule union_models_confined)
      (use C mem in \<open>auto intro!: confined_embedder.list_confined\<close>)
  then show "confined P w (snd (em_list ?em cx w))"
    by (auto simp: chain_as_embedder_def chain_list_models_def new_chain_embedder_def
        split: prod.splits)
qed

lemma chain_confined:
  assumes "list_all (member_ok privacy P) ps"
  shows "confined_embedder (chain_as_embedder en (new_chain_embedder ps privacy))
    (\<lambda>cx. privacy \<or> is_force_local cx) P"
  by (rule chain_confined_gen)
    (use assms skip_restricted in \<open>auto simp: list_all_iff member_ok_def\<close>)

text \<open>The endpoints a configuration declares local.\<close>

definition local_endpoint :: "chain_config \<Rightarrow> http_req \<Rightarrow> bool" where
  "local_endpoint cfg rq \<longleftrightarrow>
     at_url (trim_right_byte (CHR ''/'') (cc_ollama_url cfg)) rq \<or>
     (cc_provider cfg = ''ollama'' \<and>
      at_url (trim_right_byte (CHR ''/'') (custom_endpoint (cc_ollama_url cfg) cfg)) rq)"

lemma wrapped_ollama_ok:
  assumes "\<And>rq. at_url (trim_right_byte (CHR ''/'') url) rq \<Longrightarrow> P rq"
  shows "confined_embedder (pi_embedder (wrapped en n nm (new_ollama_client en url) loc)) C P"
proof -
  have "confined_embedder (new_ollama_client en url) C P"
    by (rule ollama.weaken) (auto intro: assms)
  from confined_embedder.circuit_confined [OF this] show ?thesis
    by (simp add: wrapped_def)
qed

lemma wrapped_local: "pi_local (wrapped en n nm inner loc) = loc"
  by (simp add: wrapped_def)

lemma config_members_ok:
  "list_all (member_ok privacy (local_endpoint cfg)) (config_providers en cfg)"
proof -
  have custom: "member_ok privacy (local_endpoint cfg)
      (wrapped en 0 ''custom'' (custom_client en (cc_ollama_url cfg) cfg) (cc_provider cfg = ''ollama''))"
    by (cases "cc_provider cfg = ''ollama''")
      (auto simp: member_ok_def local_endpoint_def custom_client_def wrapped_local
        intro!: wrapped_ollama_ok)
  have ollama: "member_ok privacy (local_endpoint cfg)
      (wrapped en 5 ''ollama'' (new_ollama_client en (cc_ollama_url cfg)) True)"
    by (auto simp: member_ok_def local_endpoint_def intro!: wrapped_ollama_ok)
  have cloud: "list_all (member_ok privacy (local_endpoint cfg)) (cloud_providers en cfg)"
    by (simp add: cloud_providers_def member_ok_def wrapped_def)
  show ?thesis
    using custom ollama cloud by (simp add: config_providers_def)
qed

lemma config_chain_confined:
  assumes "length (cc_ollama_urls cfg) < 2"
  shows "confined_embedder (new_chain_from_config en cfg)
    (\<lambda>cx. cc_privacy cfg \<or> is_force_local cx) (local_endpoint cfg)"
  using chain_confined [OF config_members_ok] assms
  by (simp add: new_chain_from_config_def)

section \<open>Properties of chains and pools\<close>

text \<open>C7: with fewer than two Ollama URLs, an embedder built from the configuration that is
  called under force-local (or with the privacy setting on) sends requests only to the endpoints
  declared local: the Ollama URL, and the custom endpoint when the custom provider is Ollama.
  This holds for all four operations and for every behaviour of the network.\<close>

theorem forced_local_stays_local:
  assumes "length (cc_ollama_urls cfg) < 2" "cc_privacy cfg \<or> is_force_local cx"
  shows "confined (local_endpoint cfg) w (snd (em_embed (new_chain_from_config en cfg) cx m xs w)) \<and>
    confined (local_endpoint cfg) w (snd (em_single (new_chain_from_config en cfg) cx m x w)) \<and>
    confined (local_endpoint cfg) w (snd (em_info (new_chain_from_config en cfg) cx m w)) \<and>
    confined (local_endpoint cfg) w (snd (em_list (new_chain_from_config en cfg) cx w))"
proof -
  note c = config_chain_confined [OF assms(1), of en]
  show ?thesis
    using assms(2) confined_embedder.embed_confined [OF c] confined_embedder.single_confined [OF c]
      confined_embedder.info_confined [OF c] confined_embedder.list_confined [OF c]
    by simp
qed

definition demo_config :: chain_config where
  "demo_config =
     \<lparr> cc_ollama_url = ''http://l'', cc_ollama_urls = [], cc_provider = ''openai'',
       cc_endpoint = ''https://c'', cc_api_key = ''k'', cc_gemini_key = [], cc_gemini_url = [],
       cc_groq_key = [], cc_groq_url = [], cc_openrouter_key = [], cc_openrouter_url = [],
       cc_ollama_cloud_key = [], cc_ollama_cloud_url = [], cc_privacy = True,
       cc_threshold = 0, cc_cooldown = 0 \<rparr>"

definition forced :: ctx where
  "forced = \<lparr>cx_force_local = True, cx_deadline = None\<rparr>"

lemma forced_local_stays_local_witness:
  "confined (local_endpoint demo_config) (start_world (fresh_breakers demo_config 0))
     (snd (em_embed (new_chain_from_config (fixed_env ok_reply) demo_config) forced ''m'' [''t'']
       (start_world (fresh_breakers demo_config 0))))"
  using forced_local_stays_local [of demo_config forced]
  by (simp add: demo_config_def forced_def)

section \<open>The pool\<close>

text \<open>Every embedder of a configuration only ever adds requests.\<close>

abbreviation grows :: "embedder \<Rightarrow> bool" where
  "grows em \<equiv> confined_embedder em (\<lambda>_. True) (\<lambda>_. True)"

lemma client_grows [simp]: "grows (new_openai_client en base key)" "grows (new_ollama_client en url)"
  by (rule openai.weaken; simp) (rule ollama.weaken; simp)

lemma wrapped_grows [simp]:
  "grows em \<Longrightarrow> grows (wrap_with_circuit en n nm em)"
  "grows em \<Longrightarrow> grows (pi_embedder (wrapped en n nm em loc))"
  by (simp_all add: wrapped_def confined_embedder.circuit_confined)

lemma cloud_grows: "p \<in> set (cloud_providers en cfg) \<Longrightarrow> grows (pi_embedder p)"
  by (auto simp: cloud_providers_def split: if_splits)

lemma cloud_chain_grows: "build_cloud_chain en cfg = Some em \<Longrightarrow> grows em"
  by (auto simp: build_cloud_chain_def Let_def cloud_grows split: if_splits
      intro!: chain_confined_gen)

lemma pool_entries_grow: "em \<in> set (pool_entries en cfg) \<Longrightarrow> grows em"
  by (auto simp: pool_entries_def custom_pool_entry_def custom_client_def cloud_chain_grows
      split: option.splits if_splits)

lemma first_ok_confined:
  "(\<And>e w. e \<in> set es \<Longrightarrow> confined P w (snd (fn e w))) \<Longrightarrow>
     confined P w (snd (first_ok fn es le w))"
proof (induction es arbitrary: le w)
  case (Cons e es)
  obtain r w1 where w1: "fn e w = (r, w1)" by fastforce
  with Cons.prems [of e w] have "confined P w w1" by simp
  with w1 Cons show ?case by (auto split: sum.splits intro: confined_trans)
qed simp

lemma set_others_from: "set (others_from es start) \<subseteq> set es"
  by (auto simp: others_from_def intro!: nth_mem mod_less_divisor)

lemma parallel_embed_extends:
  assumes "\<And>e. e \<in> set es \<Longrightarrow> grows e" "w_next w < length es"
    and "w1 = snd (em_embed (es ! w_next w) cx m xs (w\<lparr>w_next := (w_next w + 1) mod length es\<rparr>))"
  shows "confined (\<lambda>_. True) w1 (snd (parallel_embed es cx m xs w))"
proof -
  have "confined (\<lambda>_. True) w' (snd (first_ok (\<lambda>e. em_embed e cx m xs) (others_from es s) le w'))"
    for s le w'
    by (rule first_ok_confined)
      (use assms(1) set_others_from in \<open>blast intro: confined_embedder.embed_confined\<close>)
  then have "confined (\<lambda>_. True) w' (snd (embed_fallback es cx m xs s w'))" for s w'
    by (auto simp: embed_fallback_def split: sum.splits prod.splits) (metis snd_conv)+
  with assms(3) show ?thesis
    by (auto simp: parallel_embed_def next_entry_def split: sum.splits prod.splits)
qed

text \<open>The first attempt of an admitted call sends its request.\<close>

lemma retry_transient_first:
  assumes "\<And>w. confined (\<lambda>_. True) w (snd (fn w))"
  shows "confined (\<lambda>_. True) (snd (fn w)) (snd (retry_transient en cx fn w))"
proof -
  have "confined (\<lambda>_. True) w1 (snd (retry_loop en cx fn ds e w1))" for w1 ds e
    by (rule retry_loop_rel)
      (auto intro: confined_trans simp: assms, simp add: confined_def)
  then show ?thesis
    by (cases "fn w") (auto simp: retry_transient_def split: sum.splits option.splits)
qed

lemma guarded_admitted:
  assumes "fst (fst (allow (w_now w) (w_breakers w n)))"
  shows "w_sent (snd (guarded cx n nm rf call w)) =
    w_sent (snd (call (set_breaker n (snd (allow (w_now w) (w_breakers w n))) w)))"
proof -
  obtain rem cb where a: "allow (w_now w) (w_breakers w n) = ((True, rem), cb)"
    using assms by (metis fst_conv surj_pair)
  then show ?thesis
    by (cases "call (set_breaker n cb w)") (auto simp: guarded_def split: sum.splits)
qed

lemma openai_embed_sends:
  "\<lbrakk>xs \<noteq> []; en_url_error en (base @ ''/embeddings'') = None\<rbrakk> \<Longrightarrow>
     w_sent (snd (openai_embed en base key cx m xs w)) = w_sent w @
       [\<lparr> rq_method = ''POST'', rq_url = base @ ''/embeddings'', rq_auth = openai_auth key,
          rq_payload = OpenAIEmbedRequest m xs \<rparr>]"
  by (simp add: openai_embed_def http_do_def Let_def split: sum.splits)

lemma custom_is_last:
  "cc_provider cfg = ''openai'' \<Longrightarrow>
     pool_entries en cfg ! (length (pool_entries en cfg) - 1) =
       wrap_with_circuit en 0 ''custom''
         (new_openai_client en (custom_endpoint u cfg) (cc_api_key cfg))"
  by (simp add: pool_entries_def custom_pool_entry_def custom_client_def custom_endpoint_def
      nth_append split: option.splits)

text \<open>In pool mode (two Ollama URLs or more) nothing of this holds: when the round-robin
  position is that of a custom \<open>openai\<close> provider whose breaker admits the call, the
  texts are posted to that provider's endpoint even under force-local and with the privacy
  setting on.\<close>

theorem pool_sends_forced_local_to_custom:
  assumes "2 \<le> length (cc_ollama_urls cfg)" "cc_provider cfg = ''openai''" "xs \<noteq> []"
    and "w_next w = length (pool_entries en cfg) - 1"
    and "fst (fst (allow (w_now w) (w_breakers w 0)))"
    and "en_url_error en (custom_endpoint u cfg @ ''/embeddings'') = None"
  shows "\<exists>rs. w_sent (snd (em_embed (new_chain_from_config en cfg) cx m xs w)) =
    w_sent w @
    \<lparr> rq_method = ''POST'', rq_url = custom_endpoint u cfg @ ''/embeddings'',
      rq_auth = openai_auth (cc_api_key cfg), rq_payload = OpenAIEmbedRequest m xs \<rparr> # rs"
proof -
  let ?es = "pool_entries en cfg"
  let ?cl = "new_openai_client en (custom_endpoint u cfg) (cc_api_key cfg)"
  let ?wa = "w\<lparr>w_next := (w_next w + 1) mod length ?es\<rparr>"
  let ?wb = "set_breaker 0 (snd (allow (w_now ?wa) (w_breakers ?wa 0))) ?wa"
  let ?wc = "snd (em_embed (?es ! w_next w) cx m xs ?wa)"
  have len: "w_next w < length ?es"
    using assms(1,4) by (simp add: pool_entries_def)
  have "w_sent ?wc = w_sent (snd (retry_transient en cx (em_embed ?cl cx m xs) ?wb))"
    using assms(5)
    by (simp add: assms(4) custom_is_last [OF assms(2), of en u, simplified]
        wrap_with_circuit_def circuit_embed_def guarded_admitted)
  moreover have "confined (\<lambda>_. True) (snd (em_embed ?cl cx m xs ?wb))
      (snd (retry_transient en cx (em_embed ?cl cx m xs) ?wb))"
    by (rule retry_transient_first)
      (simp add: confined_embedder.embed_confined [OF client_grows(1)])
  moreover have "confined (\<lambda>_. True) ?wc (snd (parallel_embed ?es cx m xs w))"
    by (rule parallel_embed_extends [OF _ len refl]) (rule pool_entries_grow)
  moreover have "em_embed (new_chain_from_config en cfg) = parallel_embed ?es"
    using assms(1) by (simp add: new_chain_from_config_def build_pool_def new_parallel_embedder_def)
  ultimately show ?thesis
    using openai_embed_sends [OF assms(3,6), of "cc_api_key cfg" cx m ?wb]
    by (auto simp: confined_def new_openai_client_def)
qed

definition pool_config :: chain_config where
  "pool_config = demo_config\<lparr>cc_ollama_urls := [''http://a'', ''http://b'']\<rparr>"

lemma pool_sends_forced_local_to_custom_witness:
  "\<exists>rs. w_sent (snd (em_embed (new_chain_from_config (fixed_env ok_reply) pool_config) forced ''m''
       [''t''] ((start_world (fresh_breakers pool_config 0))\<lparr>w_next := 2\<rparr>))) =
    \<lparr> rq_method = ''POST'', rq_url = ''https://c/embeddings'', rq_auth = Some ''Bearer k'',
      rq_payload = OpenAIEmbedRequest ''m'' [''t''] \<rparr> # rs"
proof -
  let ?w = "(start_world (fresh_breakers pool_config 0))\<lparr>w_next := 2\<rparr>"
  have "2 \<le> length (cc_ollama_urls pool_config)" "cc_provider pool_config = ''openai''"
    "[''t''] \<noteq> []" "w_next ?w = length (pool_entries (fixed_env ok_reply) pool_config) - 1"
    "fst (fst (allow (w_now ?w) (w_breakers ?w 0)))"
    "en_url_error (fixed_env ok_reply) (custom_endpoint [] pool_config @ ''/embeddings'') = None"
    by (simp_all add: pool_config_def demo_config_def pool_entries_def build_cloud_chain_def
        cloud_providers_def custom_pool_entry_def start_world_def fresh_breakers_def
        new_circuit_breaker_def default_failure_threshold_def allow_def remaining_def fixed_env_def)
  from pool_sends_forced_local_to_custom [OF this, of forced "''m''"] show ?thesis
    by (simp add: start_world_def custom_endpoint_def pool_config_def demo_config_def
        openai_auth_def)
qed

text \<open>A force-local call that reaches the entry of the cloud providers finds all of them
  skipped; the error is not transient and counts as a failure of the entry.\<close>

lemma no_model_error_not_transient:
  "\<not> is_transient en (chain_failure ''failed to generate embeddings'' [])"
proof -
  let ?m = "''chain: failed to generate embeddings: no embedding model available''"
  have "is_ascii ?m \<and> \<not> list_ex (str_contains (map ascii_lower ?m)) transient_marks"
    by code_simp
  then show ?thesis
    by (simp add: is_transient_def chain_failure_def to_lower_def)
qed

lemma try_loop_all_skipped:
  "list_all (\<lambda>p. skip_provider privacy p (is_force_local cx)) ps \<Longrightarrow>
     try_loop en privacy cx op fn ps fs w = (Inl (chain_failure op fs), w)"
  by (induction ps arbitrary: fs) auto

lemma cloud_all_remote: "p \<in> set (cloud_providers en cfg) \<Longrightarrow> \<not> pi_local p"
  by (auto simp: cloud_providers_def wrapped_def split: if_splits)

lemma cloud_entry_forced:
  assumes "build_cloud_chain en cfg = Some cloud" "is_force_local cx"
  shows "em_embed cloud cx m xs w = (Inl (chain_failure ''failed to generate embeddings'' []), w)"
  using assms
  by (auto simp: build_cloud_chain_def Let_def chain_as_embedder_def chain_embed_def
      try_each_def new_chain_embedder_def list_all_iff skip_provider_def cloud_all_remote
      split: if_splits intro!: try_loop_all_skipped)

text \<open>In pool mode a force-local embedding that falls on the entry of the cloud providers
  sends nothing, yet is recorded as a failure by that entry's breaker, so requests that were
  never made can open it for the traffic that may use the cloud.\<close>

theorem forced_local_feeds_cloud_breaker:
  assumes "build_cloud_chain en cfg = Some cloud" "is_force_local cx" "ctx_err cx w = None"
    and "allow (w_now w) (w_breakers w 6) = ((True, r), cb)"
  shows "em_embed (pool_entries en cfg ! length (cc_ollama_urls cfg)) cx m xs w =
    (Inl (chain_failure ''failed to generate embeddings'' []),
     set_breaker 6 (record_failure (w_now w) cb) w)"
proof -
  have "pool_entries en cfg ! length (cc_ollama_urls cfg) =
      wrap_with_circuit en 6 ''cloud'' cloud"
    using assms(1) by (simp add: pool_entries_def nth_append)
  with assms show ?thesis
    by (simp add: wrap_with_circuit_def circuit_embed_def guarded_def retry_transient_def
        cloud_entry_forced [OF assms(1,2)] no_model_error_not_transient)
      (simp add: set_breaker_def)
qed

definition cloud_config :: chain_config where
  "cloud_config = pool_config\<lparr>cc_gemini_key := ''g'', cc_threshold := 1\<rparr>"

lemma forced_local_feeds_cloud_breaker_witness:
  "cb_open_until (w_breakers (snd (em_embed (pool_entries (fixed_env ok_reply) cloud_config ! 2) forced
      ''m'' [''t''] (start_world (fresh_breakers cloud_config 6)))) 6) = Some default_cooldown"
proof -
  let ?cb = "new_circuit_breaker 1 0"
  let ?w = "start_world (fresh_breakers cloud_config 6)"
  obtain cloud where "build_cloud_chain (fixed_env ok_reply) cloud_config = Some cloud"
    by (simp add: build_cloud_chain_def cloud_providers_def cloud_config_def)
  moreover have "is_force_local forced" "ctx_err forced ?w = None"
    "allow (w_now ?w) (w_breakers ?w 6) = ((True, 0), ?cb)"
    by (simp_all add: forced_def is_force_local_def ctx_err_def start_world_def allow_def
        remaining_def new_circuit_breaker_def fresh_breakers_def cloud_config_def pool_config_def
        demo_config_def)
  ultimately have "snd (em_embed (pool_entries (fixed_env ok_reply) cloud_config !
      length (cc_ollama_urls cloud_config)) forced ''m'' [''t''] ?w) =
      set_breaker 6 (record_failure (w_now ?w) ?cb) ?w"
    using forced_local_feeds_cloud_breaker by simp
  then show ?thesis
    by (simp add: cloud_config_def pool_config_def record_failure_def new_circuit_breaker_def
        start_world_def numeral_2_eq_2)
qed

end
