(* ===== verification/Chunker.thy ===== *)
theory Chunker
  imports GoPrelude
begin

text \<open>
  \<open>internal/chunker/chunker.go\<close>: which files are indexed, and the two ways of cutting a
  file's content into chunks.  Loops that need not end for every input (\<open>splitRunes\<close>,
  \<open>chunkText\<close>) are partial functions whose value \<open>None\<close> is a loop that never ends.
  Offsets and sizes are natural numbers.
\<close>

record chunk =
  ck_content :: string
  ck_start :: int
  ck_end :: int
  ck_confidence :: string
  ck_symbol :: string

definition mk_chunk :: "string \<Rightarrow> int \<Rightarrow> int \<Rightarrow> chunk" where
  "mk_chunk c s e =
     \<lparr>ck_content = c, ck_start = s, ck_end = e, ck_confidence = [], ck_symbol = []\<rparr>"

section \<open>Which files\<close>

definition code_exts :: "string list" where
  "code_exts =
     [''.go'', ''.js'', ''.ts'', ''.tsx'', ''.jsx'', ''.java'', ''.py'', ''.rs'', ''.c'', ''.cpp'',
      ''.h'', ''.hpp'', ''.cs'', ''.rb'', ''.php'', ''.swift'', ''.kt'', ''.scala'', ''.sh'', ''.bash'',
      ''.yaml'', ''.yml'', ''.json'', ''.toml'', ''.mod'', ''.sum'', ''.dockerfile'', ''.sql'',
      ''.proto'', ''.graphql'', ''.gql'', ''.prisma'', ''.vue'', ''.jinja'', ''.jinja2'', ''.hbs'',
      ''.handlebars'']"

definition text_exts :: "string list" where
  "text_exts =
     [''.md'', ''.txt'', ''.adoc'', ''.rst'', ''.xml'', ''.csv'', ''.tsv'', ''.log'', ''.ini'', ''.cfg'',
      ''.conf'']"

definition known_base_names :: "string list" where
  "known_base_names =
     [''Makefile'', ''makefile'', ''GNUmakefile'', ''Dockerfile'', ''Containerfile'', ''LICENSE'',
      ''LICENSE.txt'', ''LICENSE.md'', ''NOTICE'', ''CHANGELOG'', ''CHANGELOG.md'', ''CHANGELOG.txt'',
      ''CONTRIBUTING'', ''CONTRIBUTING.md'', ''CODE_OF_CONDUCT'', ''CODE_OF_CONDUCT.md'', ''SECURITY'',
      ''SECURITY.md'', ''AGENTS.md'', ''CLAUDE.md'']"

definition name_based_code :: "string list" where
  "name_based_code = [''Makefile'', ''makefile'', ''GNUmakefile'', ''Dockerfile'', ''Containerfile'']"

definition ignored_dirs :: "string list" where
  "ignored_dirs =
     [''.git'', ''node_modules'', ''vendor'', ''dist'', ''build'', ''.next'', ''target'', ''bin'', ''obj'',
      ''__pycache__'', ''.venv'', ''venv'', ''.idea'', ''.vscode'', ''coverage'', ''.turbo'']"

definition ignored_exts :: "string list" where
  "ignored_exts =
     [''.png'', ''.jpg'', ''.jpeg'', ''.gif'', ''.svg'', ''.ico'', ''.woff'', ''.woff2'', ''.ttf'', ''.eot'',
      ''.pdf'', ''.zip'', ''.tar'', ''.gz'', ''.rar'', ''.7z'', ''.exe'', ''.dll'', ''.so'', ''.dylib'',
      ''.mp3'', ''.mp4'', ''.avi'', ''.mov'', ''.webm'', ''.mkv'', ''.wav'', ''.flac'', ''.ogg'']"

definition is_ignored_dir :: "string \<Rightarrow> bool" where
  "is_ignored_dir name = (name \<in> set ignored_dirs)"

definition should_index :: "(string \<Rightarrow> string) \<Rightarrow> string \<Rightarrow> bool" where
  "should_index ul path =
     (if list_ex (\<lambda>part. part \<in> set ignored_dirs) (split_byte (CHR ''/'') path) then False
      else (let ext = to_lower ul (path_ext path)
            in if ext \<in> set ignored_exts then False
               else if ext \<noteq> [] then ext \<in> set code_exts \<or> ext \<in> set text_exts
               else path_base path \<in> set known_base_names))"

definition is_code_file :: "(string \<Rightarrow> string) \<Rightarrow> string \<Rightarrow> bool" where
  "is_code_file ul path =
     (let ext = to_lower ul (path_ext path)
      in if ext \<noteq> [] then ext \<in> set code_exts else path_base path \<in> set name_based_code)"

section \<open>Cutting on rune boundaries\<close>

text \<open>\<open>for end > lo && !utf8.RuneStart(s[end]) \{ end-- \}\<close> and its forward twin.\<close>

fun snap_back :: "string \<Rightarrow> nat \<Rightarrow> nat \<Rightarrow> nat" where
  "snap_back s lo e = (if lo < e \<and> \<not> rune_start (s ! e) then snap_back s lo (e - 1) else e)"

declare snap_back.simps [simp del]

function snap_forward :: "string \<Rightarrow> nat \<Rightarrow> nat" where
  "snap_forward s e = (if e < length s \<and> \<not> rune_start (s ! e) then snap_forward s (Suc e) else e)"
  by pat_completeness auto
termination
  by (relation "measure (\<lambda>(s, e). length s - e)") auto

declare snap_forward.simps [simp del]

definition rune_cut :: "string \<Rightarrow> nat \<Rightarrow> nat" where
  "rune_cut s max_bytes =
     (let e = snap_back s 0 max_bytes in if e = 0 then snap_forward s max_bytes else e)"

partial_function (option) split_runes_loop :: "string \<Rightarrow> nat \<Rightarrow> string list \<Rightarrow> string list option" where
  "split_runes_loop s max_bytes out =
     (if max_bytes < length s
      then split_runes_loop (drop (rune_cut s max_bytes) s) max_bytes
             (out @ [take (rune_cut s max_bytes) s])
      else Some (if s \<noteq> [] then out @ [s] else out))"

declare split_runes_loop.simps [code]

definition split_runes :: "string \<Rightarrow> nat \<Rightarrow> string list option" where
  "split_runes s max_bytes = split_runes_loop s max_bytes []"

section \<open>Prose\<close>

definition line_of :: "string \<Rightarrow> int \<Rightarrow> int" where
  "line_of text off =
     (let o1 = (if off > int (length text) then int (length text) else off);
          o2 = (if o1 < 0 then 0 else o1)
      in 1 + int (count_list (take (nat o2) text) (CHR 0x0A)))"

definition prose_cut_end :: "string \<Rightarrow> nat \<Rightarrow> nat \<Rightarrow> nat" where
  "prose_cut_end text start max_chars =
     (let e = start + max_chars
      in if e \<ge> length text then length text
         else (case last_index (CHR 0x0A) (slice text start e) of
                 Some nl \<Rightarrow> if nl > max_chars div 2 then start + nl + 1 else snap_back text start e
               | None \<Rightarrow> snap_back text start e))"

text \<open>\<open>next\<close> never leaves the text here, because \<open>end < len(text)\<close>.\<close>

definition prose_next_start :: "string \<Rightarrow> nat \<Rightarrow> nat \<Rightarrow> nat \<Rightarrow> nat" where
  "prose_next_start text start e overlap =
     (let n0 = e - overlap;
          n1 = (if n0 < length text then snap_back text start n0 else n0)
      in if n1 \<le> start then e else n1)"

definition prose_chunk :: "string \<Rightarrow> nat \<Rightarrow> nat \<Rightarrow> chunk" where
  "prose_chunk text start e =
     mk_chunk (trim_space (slice text start e)) (line_of text (int start)) (line_of text (int e - 1))"

partial_function (option) chunk_text_loop ::
  "string \<Rightarrow> nat \<Rightarrow> nat \<Rightarrow> nat \<Rightarrow> chunk list \<Rightarrow> chunk list option" where
  "chunk_text_loop text max_chars overlap start chunks =
     (if start < length text
      then (let e = prose_cut_end text start max_chars;
                chunks1 = chunks @ [prose_chunk text start e]
            in if e \<ge> length text then Some chunks1
               else chunk_text_loop text max_chars overlap
                      (prose_next_start text start e overlap) chunks1)
      else Some chunks)"

declare chunk_text_loop.simps [code]

definition chunk_text :: "string \<Rightarrow> nat \<Rightarrow> chunk list option" where
  "chunk_text text max_chars =
     (if length text \<le> max_chars
      then Some [mk_chunk (trim_space text) 1 (line_of text (int (length text)))]
      else chunk_text_loop text max_chars (max_chars div 10) 0 [])"

section \<open>Code\<close>

record code_accumulator =
  ac_chunks :: "chunk list"
  ac_current :: string
  ac_start :: int
  ac_end :: int
  ac_max :: nat

definition new_accumulator :: "nat \<Rightarrow> code_accumulator" where
  "new_accumulator m =
     \<lparr>ac_chunks = [], ac_current = [], ac_start = 0, ac_end = 0, ac_max = m\<rparr>"

definition flush :: "code_accumulator \<Rightarrow> code_accumulator" where
  "flush a =
     (if ac_current a = [] then a
      else a\<lparr>ac_chunks := ac_chunks a @
               [mk_chunk (trim_space (ac_current a)) (ac_start a) (ac_end a)],
             ac_current := []\<rparr>)"

definition append_line :: "string \<Rightarrow> int \<Rightarrow> code_accumulator \<Rightarrow> code_accumulator" where
  "append_line line line_num a =
     (let a1 = (if length (ac_current a) + length line + 1 > ac_max a \<and> ac_current a \<noteq> []
                then flush a else a);
          a2 = (if ac_current a1 = [] then a1\<lparr>ac_start := line_num\<rparr> else a1)
      in a2\<lparr>ac_end := line_num, ac_current := ac_current a2 @ line @ [CHR 0x0A]\<rparr>)"

definition append_oversized_line ::
  "string \<Rightarrow> int \<Rightarrow> code_accumulator \<Rightarrow> code_accumulator option" where
  "append_oversized_line line line_num a =
     (let a1 = flush a
      in case split_runes line (ac_max a1) of
           None \<Rightarrow> None
         | Some pieces \<Rightarrow>
             Some (a1\<lparr>ac_chunks := ac_chunks a1 @
               map (\<lambda>p. mk_chunk p line_num line_num)
                 (filter (\<lambda>p. p \<noteq> []) (map trim_space pieces))\<rparr>))"

text \<open>One line of the scan; the blank-line test of \<open>chunkCode\<close> and \<open>chunkLines\<close>.\<close>

definition add_line :: "string \<Rightarrow> int \<Rightarrow> code_accumulator \<Rightarrow> code_accumulator option" where
  "add_line line line_num a =
     (if trim_space line = [] \<and> ac_current a \<noteq> [] then Some (flush a)
      else if length line > ac_max a then append_oversized_line line line_num a
      else Some (append_line line line_num a))"

fun add_lines :: "string list \<Rightarrow> int \<Rightarrow> code_accumulator \<Rightarrow> code_accumulator option" where
  "add_lines [] line_num a = Some a"
| "add_lines (l # ls) line_num a =
     (case add_line l line_num a of None \<Rightarrow> None | Some a1 \<Rightarrow> add_lines ls (line_num + 1) a1)"

text \<open>
  \<open>scanLines\<close> under a \<open>bufio.Scanner\<close>: a token is a line with its newline, or the
  unterminated last line.  The scanner's buffer ends at 64 KiB (\<open>bufio.MaxScanTokenSize\<close>):
  a line that does not fit makes \<open>Scan\<close> return false, and with it ends the token list.
\<close>

fun first_line :: "string \<Rightarrow> string \<times> string" where
  "first_line [] = ([], [])"
| "first_line (c # s) =
     (if c = CHR 0x0A then ([c], s) else (case first_line s of (l, r) \<Rightarrow> (c # l, r)))"

definition max_scan_token :: nat where
  "max_scan_token = 65536"

definition fits_scanner :: "string \<Rightarrow> bool" where
  "fits_scanner line \<longleftrightarrow>
     (if line \<noteq> [] \<and> last line = CHR 0x0A then length line \<le> max_scan_token
      else length line < max_scan_token)"

lemma first_line_append: "first_line s = (l, r) \<Longrightarrow> s = l @ r"
  by (induction s arbitrary: l r) (auto split: if_splits prod.splits)

lemma first_line_nonempty: "s \<noteq> [] \<Longrightarrow> fst (first_line s) \<noteq> []"
  by (cases s) (auto split: prod.splits)

function scan_lines :: "string \<Rightarrow> string list" where
  "scan_lines s =
     (if s = [] then []
      else (case first_line s of
              (l, r) \<Rightarrow> if fits_scanner l then l # scan_lines r else []))"
  by pat_completeness auto
termination
proof (relation "measure length")
  fix s l r assume "s \<noteq> []" "(l, r) = first_line s"
  then show "(r, s) \<in> measure length"
    using first_line_append [of s l r] first_line_nonempty [of s]
    by (cases l) (auto simp: eq_commute)
qed simp

declare scan_lines.simps [simp del]

definition chunk_code :: "string \<Rightarrow> nat \<Rightarrow> chunk list option" where
  "chunk_code content max_chars =
     (case add_lines (scan_lines content) 1 (new_accumulator max_chars) of
        None \<Rightarrow> None
      | Some a \<Rightarrow>
          (let chunks = ac_chunks (flush a)
           in if chunks = [] \<and> content \<noteq> [] then chunk_text content max_chars else Some chunks))"

section \<open>Rune cuts\<close>

lemma snap_back_spec:
  "lo \<le> e \<Longrightarrow> lo \<le> snap_back s lo e \<and> snap_back s lo e \<le> e \<and>
     (snap_back s lo e = lo \<or> rune_start (s ! snap_back s lo e)) \<and>
     (\<forall>i. snap_back s lo e < i \<and> i \<le> e \<longrightarrow> \<not> rune_start (s ! i))"
proof (induction s lo e rule: snap_back.induct)
  case (1 s lo e)
  show ?case
  proof (cases "lo < e \<and> \<not> rune_start (s ! e)")
    case True
    with 1 have IH: "lo \<le> snap_back s lo (e - 1)" "snap_back s lo (e - 1) \<le> e - 1"
      "snap_back s lo (e - 1) = lo \<or> rune_start (s ! snap_back s lo (e - 1))"
      "\<forall>i. snap_back s lo (e - 1) < i \<and> i \<le> e - 1 \<longrightarrow> \<not> rune_start (s ! i)" by auto
    have eq: "snap_back s lo e = snap_back s lo (e - 1)"
      using True by (subst snap_back.simps) simp
    have "\<not> rune_start (s ! i)" if "snap_back s lo (e - 1) < i" "i \<le> e" for i
      using IH(4) True that by (cases "i = e") auto
    with IH eq show ?thesis by auto
  next
    case False
    then have "snap_back s lo e = e" by (subst snap_back.simps) auto
    with False 1(2) show ?thesis by auto
  qed
qed

lemma snap_forward_spec:
  "e \<le> length s \<Longrightarrow> e \<le> snap_forward s e \<and> snap_forward s e \<le> length s \<and>
     (snap_forward s e = length s \<or> rune_start (s ! snap_forward s e)) \<and>
     (\<forall>i. e \<le> i \<and> i < snap_forward s e \<longrightarrow> \<not> rune_start (s ! i))"
proof (induction s e rule: snap_forward.induct)
  case (1 s e)
  show ?case
  proof (cases "e < length s \<and> \<not> rune_start (s ! e)")
    case True
    with 1 have IH: "Suc e \<le> snap_forward s (Suc e)" "snap_forward s (Suc e) \<le> length s"
      "snap_forward s (Suc e) = length s \<or> rune_start (s ! snap_forward s (Suc e))"
      "\<forall>i. Suc e \<le> i \<and> i < snap_forward s (Suc e) \<longrightarrow> \<not> rune_start (s ! i)" by auto
    have eq: "snap_forward s e = snap_forward s (Suc e)"
      using True by (subst snap_forward.simps) simp
    have "\<not> rune_start (s ! i)" if "e \<le> i" "i < snap_forward s (Suc e)" for i
      using IH(4) True that by (cases "i = e") auto
    with IH eq show ?thesis by auto
  next
    case False
    then have "snap_forward s e = e" by (subst snap_forward.simps) auto
    with False 1(2) show ?thesis by auto
  qed
qed

lemma rune_cut_spec:
  assumes "0 < m" "m < length s"
  shows "0 < rune_cut s m" "rune_cut s m \<le> length s"
    "rune_cut s m = length s \<or> rune_start (s ! rune_cut s m)"
    "rune_cut s m \<le> m \<or> (\<forall>i. 0 < i \<and> i < rune_cut s m \<longrightarrow> \<not> rune_start (s ! i))"
proof -
  note b = snap_back_spec [of 0 m s] and f = snap_forward_spec [of m s]
  have "0 < rune_cut s m \<and> rune_cut s m \<le> length s \<and>
    (rune_cut s m = length s \<or> rune_start (s ! rune_cut s m)) \<and>
    (rune_cut s m \<le> m \<or> (\<forall>i. 0 < i \<and> i < rune_cut s m \<longrightarrow> \<not> rune_start (s ! i)))"
  proof (cases "snap_back s 0 m = 0")
    case True
    then have cut: "rune_cut s m = snap_forward s m" by (simp add: rune_cut_def)
    have "\<not> rune_start (s ! i)" if "0 < i" "i < snap_forward s m" for i
      using b f that True assms by (cases "i \<le> m") auto
    with cut f assms show ?thesis by auto
  next
    case False
    then have "rune_cut s m = snap_back s 0 m" by (simp add: rune_cut_def)
    with b False assms show ?thesis by auto
  qed
  then show "0 < rune_cut s m" "rune_cut s m \<le> length s"
    "rune_cut s m = length s \<or> rune_start (s ! rune_cut s m)"
    "rune_cut s m \<le> m \<or> (\<forall>i. 0 < i \<and> i < rune_cut s m \<longrightarrow> \<not> rune_start (s ! i))" by blast+
qed

text \<open>A piece within the budget, or one character wider than it.\<close>

definition piece_ok :: "nat \<Rightarrow> string \<Rightarrow> bool" where
  "piece_ok m p \<longleftrightarrow>
     p \<noteq> [] \<and> (length p \<le> m \<or> list_all (\<lambda>c. \<not> rune_start c) (tl p))"

lemma rune_cut_piece:
  assumes "0 < m" "m < length s"
  shows "piece_ok m (take (rune_cut s m) s)"
proof -
  note c = rune_cut_spec [OF assms]
  have "list_all (\<lambda>c. \<not> rune_start c) (tl (take (rune_cut s m) s))"
    if "\<forall>i. 0 < i \<and> i < rune_cut s m \<longrightarrow> \<not> rune_start (s ! i)"
    using that c(2) by (auto simp: list_all_length nth_tl)
  then show ?thesis
    using c assms by (auto simp: piece_ok_def)
qed

lemma split_runes_loop_ok:
  assumes "0 < m"
  shows "\<exists>ps. split_runes_loop s m out = Some (out @ ps) \<and> concat ps = s \<and> list_all (piece_ok m) ps \<and>
    list_all (\<lambda>p. rune_start (hd p)) (tl ps) \<and> (ps \<noteq> [] \<longrightarrow> hd (hd ps) = hd s)"
proof (induction "length s" arbitrary: s out rule: less_induct)
  case less
  show ?case
  proof (cases "m < length s")
    case True
    let ?c = "rune_cut s m"
    note c = rune_cut_spec [OF assms True]
    have "length (drop ?c s) < length s" using c(1) True by simp
    from less [OF this, of "out @ [take ?c s]"] obtain ps where
      ps: "split_runes_loop (drop ?c s) m (out @ [take ?c s]) = Some ((out @ [take ?c s]) @ ps)"
      "concat ps = drop ?c s" "list_all (piece_ok m) ps"
      "list_all (\<lambda>p. rune_start (hd p)) (tl ps)" "ps \<noteq> [] \<longrightarrow> hd (hd ps) = hd (drop ?c s)" by auto
    have "list_all (\<lambda>p. rune_start (hd p)) ps"
    proof (cases ps)
      case (Cons p ps')
      then have "p \<noteq> []" "drop ?c s \<noteq> []" using ps(2,3) by (auto simp: piece_ok_def)
      then have "?c < length s" by simp
      with c(3) have "rune_start (hd (drop ?c s))" by (simp add: hd_drop_conv_nth)
      with ps(4,5) Cons show ?thesis by simp
    qed simp
    with ps rune_cut_piece [OF assms True] True c(1) show ?thesis
      by (subst split_runes_loop.simps)
        (intro exI [of _ "take ?c s # ps"], simp add: hd_take)
  next
    case False
    then show ?thesis
      by (subst split_runes_loop.simps)
        (intro exI [of _ "if s = [] then [] else [s]"], simp add: piece_ok_def)
  qed
qed

text \<open>For every positive budget \<open>splitRunes\<close> ends; its pieces put together are the
  string, every piece after the first starts at a rune boundary, and a piece longer than the
  budget is a single character wider than it.\<close>

theorem split_runes_correct:
  assumes "0 < m"
  shows "\<exists>ps. split_runes s m = Some ps \<and> concat ps = s \<and> list_all (piece_ok m) ps \<and>
    list_all (\<lambda>p. rune_start (hd p)) (tl ps)"
  using split_runes_loop_ok [OF assms, of s "[]"] by (auto simp: split_runes_def)

lemma split_runes_correct_witness:
  "\<exists>ps. split_runes [CHR ''a'', CHR 0xC3, CHR 0xA9, CHR ''b''] 2 = Some ps \<and>
     concat ps = [CHR ''a'', CHR 0xC3, CHR 0xA9, CHR ''b'']"
  using split_runes_correct [of 2 "[CHR ''a'', CHR 0xC3, CHR 0xA9, CHR ''b'']"] by auto

section \<open>Prose chunks cover the text\<close>

text \<open>Every window of \<open>m\<close> bytes that can end a chunk has a rune boundary; this is so for
  valid UTF-8 and \<open>m\<close> at least four.\<close>

definition runes_within :: "nat \<Rightarrow> string \<Rightarrow> bool" where
  "runes_within m text \<longleftrightarrow>
     list_all (\<lambda>i. list_ex (\<lambda>j. rune_start (text ! j)) [i + 1..<i + m + 1]) [0..<length text - m]"

lemma runes_withinD:
  "\<lbrakk>runes_within m text; i + m < length text\<rbrakk> \<Longrightarrow> \<exists>j. i < j \<and> j \<le> i + m \<and> rune_start (text ! j)"
proof -
  assume r: "runes_within m text" and i: "i + m < length text"
  then have "i \<in> set [0..<length text - m]" by simp
  with r have "list_ex (\<lambda>j. rune_start (text ! j)) [i + 1..<i + m + 1]"
    unfolding runes_within_def list_all_iff by blast
  then obtain j where "j \<in> set [i + 1..<i + m + 1]" "rune_start (text ! j)"
    unfolding list_ex_iff by blast
  then show ?thesis by (intro exI [of _ j]) auto
qed

lemma last_index_spec:
  "last_index c s = Some k \<Longrightarrow> k < length s \<and> s ! k = c"
proof (induction s rule: rev_induct)
  case (snoc x s)
  then show ?case
    by (auto simp: last_index_def nth_append split: if_splits)
qed (simp add: last_index_def)

lemma prose_cut_end_spec:
  assumes "start < length text" "runes_within m text"
  defines "e \<equiv> prose_cut_end text start m"
  shows "start < e" "e \<le> length text" "e \<le> start + m \<or> e = length text \<and> length text \<le> start + m"
    "e = length text \<or> rune_start (text ! e) \<or> text ! (e - 1) = CHR 0x0A"
proof -
  have "start < e \<and> e \<le> length text \<and> (e \<le> start + m) \<and>
    (e = length text \<or> rune_start (text ! e) \<or> text ! (e - 1) = CHR 0x0A)"
  proof (cases "length text \<le> start + m")
    case True
    with assms(1) show ?thesis by (simp add: e_def prose_cut_end_def)
  next
    case False
    then have lt: "start + m < length text" by simp
    from runes_withinD [OF assms(2) this] obtain j where
      j: "start < j" "j \<le> start + m" "rune_start (text ! j)" by blast
    note b = snap_back_spec [of start "start + m" "text"]
    have snap: "start < snap_back text start (start + m)"
    proof (rule ccontr)
      assume "\<not> start < snap_back text start (start + m)"
      with b j show False by auto
    qed
    show ?thesis
    proof (cases "last_index (CHR 0x0A) (slice text start (start + m))")
      case None
      with lt snap b show ?thesis by (auto simp: e_def prose_cut_end_def Let_def)
    next
      case (Some nl)
      then have "nl < m" "text ! (start + nl) = CHR 0x0A"
        using last_index_spec [OF Some] lt by (auto simp: slice_def)
      with Some lt snap b show ?thesis by (auto simp: e_def prose_cut_end_def Let_def)
    qed
  qed
  then show "start < e" "e \<le> length text" "e \<le> start + m \<or> e = length text \<and> length text \<le> start + m"
    "e = length text \<or> rune_start (text ! e) \<or> text ! (e - 1) = CHR 0x0A" by simp_all
qed

lemma prose_next_start_spec:
  assumes "start < e"
  shows "start < prose_next_start text start e v" "prose_next_start text start e v \<le> e"
proof -
  have "snap_back text start (e - v) \<le> e" if "start \<le> e - v"
    using snap_back_spec [OF that, of "text"] by (elim conjE) linarith
  moreover have "snap_back text start (e - v) = e - v" if "\<not> start \<le> e - v"
    using that by (subst snap_back.simps) simp
  ultimately show "start < prose_next_start text start e v" "prose_next_start text start e v \<le> e"
    using assms by (cases "start \<le> e - v"; simp add: prose_next_start_def Let_def)+
qed

text \<open>Spans that cover a text of length \<open>n\<close>: each starts inside or right after the one
  before, further on, and the last one ends with the text.\<close>

fun chained :: "nat \<Rightarrow> (nat \<times> nat) list \<Rightarrow> bool" where
  "chained n [] \<longleftrightarrow> False"
| "chained n [(s, e)] \<longleftrightarrow> s < e \<and> e = n"
| "chained n ((s, e) # (s', e') # r) \<longleftrightarrow>
     s < e \<and> s < s' \<and> s' \<le> e \<and> chained n ((s', e') # r)"

text \<open>A position between two characters: an end of the text, the first byte of a rune, or the place
  right after a line break.\<close>

definition at_boundary :: "string \<Rightarrow> nat \<Rightarrow> bool" where
  "at_boundary text i \<longleftrightarrow> i = 0 \<or> i = length text \<or> rune_start (text ! i) \<or> text ! (i - 1) = CHR 0x0A"

definition span_ok :: "string \<Rightarrow> nat \<Rightarrow> nat \<times> nat \<Rightarrow> bool" where
  "span_ok text m se \<longleftrightarrow> snd se \<le> fst se + m \<and> at_boundary text (fst se) \<and> at_boundary text (snd se)"

lemma prose_next_start_boundary:
  assumes "start < e" "at_boundary text e" "e \<le> length text"
  shows "at_boundary text (prose_next_start text start e v)"
proof -
  have "prose_next_start text start e v = e \<or> rune_start (text ! prose_next_start text start e v)"
  proof (cases "start \<le> e - v")
    case True
    from snap_back_spec [OF this, of "text"] assms(3) show ?thesis
      by (auto simp: prose_next_start_def Let_def)
  next
    case False
    then have "snap_back text start (e - v) = e - v" by (subst snap_back.simps) simp
    with False show ?thesis by (simp add: prose_next_start_def Let_def)
  qed
  with assms(2) show ?thesis by (auto simp: at_boundary_def)
qed

lemma chunk_text_loop_ok:
  assumes "runes_within m text" "start < length text" "at_boundary text start"
  shows "\<exists>spans. chunk_text_loop text m v start cks =
      Some (cks @ map (\<lambda>(s, e). prose_chunk text s e) spans) \<and>
    chained (length text) spans \<and> fst (hd spans) = start \<and> list_all (span_ok text m) spans"
  using assms(2,3)
proof (induction "length text - start" arbitrary: start cks rule: less_induct)
  case less
  let ?e = "prose_cut_end text start m"
  let ?n = "prose_next_start text start ?e v"
  note c = prose_cut_end_spec [OF less.prems(1) assms(1)]
  have ok: "span_ok text m (start, ?e)"
    using c less.prems(2) by (auto simp: span_ok_def at_boundary_def)
  then have "at_boundary text ?n" using prose_next_start_boundary [OF c(1)] c(2) by (simp add: span_ok_def)
  show ?case
  proof (cases "length text \<le> ?e")
    case True
    with c ok less.prems show ?thesis
      by (subst chunk_text_loop.simps) (intro exI [of _ "[(start, ?e)]"], simp add: Let_def)
  next
    case False
    note n = prose_next_start_spec [OF c(1), of "text" v]
    have "length text - ?n < length text - start" "?n < length text"
      using n False less.prems by simp_all
    from less.hyps [OF this \<open>at_boundary text ?n\<close>, of "cks @ [prose_chunk text start ?e]"] obtain spans where
      sp: "chunk_text_loop text m v ?n (cks @ [prose_chunk text start ?e]) =
        Some ((cks @ [prose_chunk text start ?e]) @ map (\<lambda>(s, e). prose_chunk text s e) spans)"
      "chained (length text) spans" "fst (hd spans) = ?n" "list_all (span_ok text m) spans" by auto
    have "chained (length text) ((start, ?e) # spans)"
      using sp(2,3) n c(1) by (cases spans) auto
    with sp ok False less.prems show ?thesis
      by (subst chunk_text_loop.simps)
        (intro exI [of _ "(start, ?e) # spans"], simp add: Let_def)
  qed
qed



section \<open>Code chunks\<close>

text \<open>The scan ends at the first line that does not fit the scanner's buffer.\<close>

lemma first_line_whole: "CHR 0x0A \<notin> set l \<Longrightarrow> first_line (l @ CHR 0x0A # r) = (l @ [CHR 0x0A], r)"
  by (induction l) auto

lemma first_line_long:
  "CHR 0x0A \<notin> set long \<Longrightarrow> \<exists>t. fst (first_line (long @ rest)) = long @ t \<and>
     (t = [] \<longrightarrow> rest = []) \<and> (CHR 0x0A \<in> set t \<longrightarrow> last t = CHR 0x0A)"
proof (induction long)
  case Nil
  have "CHR 0x0A \<in> set (fst (first_line rest)) \<longrightarrow> last (fst (first_line rest)) = CHR 0x0A"
    by (induction rest) (auto split: prod.splits)
  with first_line_nonempty [of rest] show ?case by auto
next
  case (Cons c long)
  then show ?case by (auto split: prod.splits)
qed

lemma scan_lines_unfit:
  assumes "CHR 0x0A \<notin> set long" "max_scan_token \<le> length long"
  shows "scan_lines (long @ rest) = []"
proof -
  obtain t where t: "fst (first_line (long @ rest)) = long @ t"
    "CHR 0x0A \<in> set t \<longrightarrow> last t = CHR 0x0A"
    using first_line_long [OF assms(1), of rest] by blast
  obtain l r where lr: "first_line (long @ rest) = (l, r)" by fastforce
  have "\<not> fits_scanner l"
  proof (cases t rule: rev_cases)
    case Nil
    with t lr assms show ?thesis
      by (cases long rule: rev_cases) (auto simp: fits_scanner_def)
  next
    case (snoc t' c)
    with t lr assms(2) show ?thesis by (auto simp: fits_scanner_def)
  qed
  with lr show ?thesis by (subst scan_lines.simps) simp
qed

definition whole_lines :: "string list \<Rightarrow> string" where
  "whole_lines ls = concat (map (\<lambda>l. l @ [CHR 0x0A]) ls)"

lemma scan_lines_whole:
  "list_all (\<lambda>l. CHR 0x0A \<notin> set l \<and> length l < max_scan_token) ls \<Longrightarrow>
     scan_lines (whole_lines ls @ rest) = map (\<lambda>l. l @ [CHR 0x0A]) ls @ scan_lines rest"
proof (induction ls)
  case (Cons l ls)
  then have "first_line (whole_lines (l # ls) @ rest) = (l @ [CHR 0x0A], whole_lines ls @ rest)"
    using first_line_whole [of l "whole_lines ls @ rest"] by (simp add: whole_lines_def)
  with Cons show ?case
    by (subst scan_lines.simps) (simp add: whole_lines_def fits_scanner_def)
qed (simp add: whole_lines_def)

text \<open>Once \<open>chunkCode\<close> has made a chunk, everything from the first line of 64 KiB or
  more on is dropped without a trace: the chunks of a file do not depend on what follows.  (The
  scanner's \<open>Err\<close> is never looked at.)\<close>

theorem chunk_code_drops_after_long_line:
  assumes "list_all (\<lambda>l. CHR 0x0A \<notin> set l \<and> length l < max_scan_token) ls"
    and "CHR 0x0A \<notin> set long" "max_scan_token \<le> length long"
    and "add_lines (map (\<lambda>l. l @ [CHR 0x0A]) ls) 1 (new_accumulator m) = Some a"
    and "ac_chunks (flush a) \<noteq> []"
  shows "chunk_code (whole_lines ls @ long @ rest) m = Some (ac_chunks (flush a))"
  using assms(4,5) scan_lines_whole [OF assms(1), of "long @ rest"] scan_lines_unfit [OF assms(2,3)]
  by (simp add: chunk_code_def)

lemma chunk_code_drops_after_long_line_witness:
  "chunk_code (whole_lines [''{''] @ replicate 65536 (CHR ''x'') @ ''the rest'') 4000 =
     Some [mk_chunk ''{'' 1 1]"
proof -
  let ?a = "\<lparr>ac_chunks = [], ac_current = [CHR ''{'', CHR 0x0A, CHR 0x0A], ac_start = 1, ac_end = 1,
    ac_max = 4000\<rparr>"
  have "trim_space [CHR ''{'', CHR 0x0A] = ''{''" "trim_space [CHR ''{'', CHR 0x0A, CHR 0x0A] = ''{''"
    by code_simp+
  then have run: "add_lines (map (\<lambda>l. l @ [CHR 0x0A]) [''{'']) 1 (new_accumulator 4000) = Some ?a"
    and fl: "ac_chunks (flush ?a) = [mk_chunk ''{'' 1 1]"
    by (simp_all add: add_line_def append_line_def new_accumulator_def flush_def Let_def)
  have "list_all (\<lambda>l. CHR 0x0A \<notin> set l \<and> length l < max_scan_token) [''{'']"
    "CHR 0x0A \<notin> set (replicate 65536 (CHR ''x''))"
    "max_scan_token \<le> length (replicate 65536 (CHR ''x''))"
    by (simp_all add: max_scan_token_def)
  from chunk_code_drops_after_long_line [OF this run, of "''the rest''"] fl show ?thesis by simp
qed

section \<open>Bounds of code chunks\<close>

definition chunk_ok :: "nat \<Rightarrow> int \<Rightarrow> chunk \<Rightarrow> bool" where
  "chunk_ok m n ck \<longleftrightarrow>
     length (ck_content ck) \<le> m \<and> 1 \<le> ck_start ck \<and> ck_start ck \<le> ck_end ck \<and> ck_end ck \<le> n"

text \<open>The accumulator after \<open>n\<close> lines.\<close>

definition acc_ok :: "nat \<Rightarrow> int \<Rightarrow> code_accumulator \<Rightarrow> bool" where
  "acc_ok m n a \<longleftrightarrow>
     ac_max a = m \<and> list_all (chunk_ok m n) (ac_chunks a) \<and>
     (ac_current a \<noteq> [] \<longrightarrow>
        1 \<le> ac_start a \<and> ac_start a \<le> ac_end a \<and> ac_end a \<le> n \<and>
        (length (ac_current a) \<le> m \<or> (\<exists>l. ac_current a = l @ [CHR 0x0A] \<and> length l \<le> m)))"

lemma chunk_ok_mono: "\<lbrakk>chunk_ok m n ck; n \<le> n'\<rbrakk> \<Longrightarrow> chunk_ok m n' ck"
  by (simp add: chunk_ok_def)

lemma trimmed_pending_bound:
  "length s \<le> m \<or> (\<exists>l. s = l @ [CHR 0x0A] \<and> length l \<le> m) \<Longrightarrow> length (trim_space s) \<le> m"
  using trim_space_length [of s] trim_space_newline le_trans by blast

lemma acc_ok_flush: "acc_ok m n a \<Longrightarrow> acc_ok m n (flush a) \<and> ac_current (flush a) = []"
  using trimmed_pending_bound [of "ac_current a" m]
  by (auto simp: acc_ok_def flush_def chunk_ok_def mk_chunk_def)

lemma acc_ok_later: "\<lbrakk>acc_ok m n a; n \<le> n'\<rbrakk> \<Longrightarrow> acc_ok m n' a"
  by (auto simp: acc_ok_def list_all_iff intro: chunk_ok_mono)

lemma append_line_ok:
  assumes "acc_ok m n a" "length line \<le> m" "0 \<le> n"
  shows "acc_ok m (n + 1) (append_line line (n + 1) a)"
proof -
  define a1 where "a1 = (if length (ac_current a) + length line + 1 > ac_max a \<and> ac_current a \<noteq> []
    then flush a else a)"
  have "acc_ok m n a1" using acc_ok_flush [OF assms(1)] assms(1) by (simp add: a1_def)
  then have a1: "acc_ok m (n + 1) a1" by (rule acc_ok_later) simp
  have room: "ac_current a1 = [] \<or> length (ac_current a1) + length line + 1 \<le> m"
    using acc_ok_flush [OF assms(1)] assms(1) by (auto simp: a1_def acc_ok_def)
  have eq: "append_line line (n + 1) a =
      (if ac_current a1 = [] then a1\<lparr>ac_start := n + 1\<rparr> else a1)
        \<lparr>ac_end := n + 1, ac_current := ac_current a1 @ line @ [CHR 0x0A]\<rparr>"
    unfolding append_line_def Let_def a1_def by simp
  show ?thesis
  proof (cases "ac_current a1 = []")
    case True
    with a1 assms(2,3) show ?thesis unfolding eq by (auto simp: acc_ok_def)
  next
    case False
    with a1 room \<open>acc_ok m n a1\<close> show ?thesis unfolding eq by (auto simp: acc_ok_def)
  qed
qed

text \<open>With enough rune boundaries every piece of an over-long line is within the budget.\<close>

lemma runes_within_drop:
  assumes "runes_within m s" shows "runes_within m (drop k s)"
proof -
  have "\<exists>j\<in>set [i + 1..<i + m + 1]. rune_start (drop k s ! j)" if "i < length (drop k s) - m" for i
  proof -
    from that have "(k + i) + m < length s" by simp
    from runes_withinD [OF assms this] obtain j where
      "k + i < j" "j \<le> k + i + m" "rune_start (s ! j)" by blast
    with that show ?thesis by (intro bexI [of _ "j - k"]) auto
  qed
  then show ?thesis by (simp add: runes_within_def list_all_iff list_ex_iff del: upt_Suc)
qed

lemma rune_cut_le:
  assumes "0 < m" "m < length s" "runes_within m s"
  shows "rune_cut s m \<le> m"
proof -
  from runes_withinD [OF assms(3), of 0] assms(2) obtain j where
    j: "0 < j" "j \<le> m" "rune_start (s ! j)" by auto
  with rune_cut_spec(4) [OF assms(1,2)] show ?thesis
    by (metis le_trans linorder_le_less_linear nat_less_le)
qed

lemma split_runes_loop_bound:
  assumes "0 < m" "runes_within m s" "split_runes_loop s m out = Some ps"
    "list_all (\<lambda>p. length p \<le> m) out"
  shows "list_all (\<lambda>p. length p \<le> m) ps"
  using assms(2-)
proof (induction "length s" arbitrary: s out rule: less_induct)
  case less
  show ?case
  proof (cases "m < length s")
    case True
    have lt: "length (drop (rune_cut s m) s) < length s"
      using rune_cut_spec(1) [OF assms(1) True] True by simp
    have "split_runes_loop (drop (rune_cut s m) s) m (out @ [take (rune_cut s m) s]) = Some ps"
      using less.prems(2) True by (subst (asm) split_runes_loop.simps) simp
    from less.hyps [OF lt runes_within_drop [OF less.prems(1)] this] less.prems(3)
      rune_cut_le [OF assms(1) True less.prems(1)]
    show ?thesis by auto
  next
    case False
    with less.prems show ?thesis
      by (subst (asm) split_runes_loop.simps) (auto split: if_splits)
  qed
qed

lemma oversized_ok:
  assumes "acc_ok m n a" "0 < m" "0 \<le> n" "runes_within m line"
    "append_oversized_line line (n + 1) a = Some a'"
  shows "acc_ok m (n + 1) a'"
proof -
  let ?a1 = "flush a"
  have a1: "acc_ok m n ?a1" "ac_current ?a1 = []" using acc_ok_flush [OF assms(1)] by simp_all
  then have m: "ac_max ?a1 = m" by (simp add: acc_ok_def)
  from assms(5) m obtain pieces where ps: "split_runes line m = Some pieces"
    "a' = ?a1\<lparr>ac_chunks := ac_chunks ?a1 @ map (\<lambda>p. mk_chunk p (n + 1) (n + 1))
      (filter (\<lambda>p. p \<noteq> []) (map trim_space pieces))\<rparr>"
    by (auto simp: append_oversized_line_def Let_def split: option.splits)
  have "list_all (\<lambda>p. length p \<le> m) pieces"
    using split_runes_loop_bound [OF assms(2,4)] ps(1) by (simp add: split_runes_def)
  then have "\<forall>p\<in>set pieces. length (trim_space p) \<le> m"
    using trim_space_length le_trans unfolding list_all_iff by blast
  moreover have "list_all (chunk_ok m (n + 1)) (ac_chunks ?a1)"
    using acc_ok_later [OF a1(1), of "n + 1"] by (simp add: acc_ok_def)
  ultimately have "list_all (chunk_ok m (n + 1)) (ac_chunks a')"
    using assms(3) by (auto simp: ps(2) list_all_iff chunk_ok_def mk_chunk_def)
  with a1 show ?thesis by (simp add: acc_ok_def ps(2))
qed

lemma add_lines_ok:
  assumes "0 < m" "list_all (runes_within m) ls" "0 \<le> n" "acc_ok m n a"
    "add_lines ls (n + 1) a = Some a'"
  shows "acc_ok m (n + int (length ls)) a'"
  using assms(2-)
proof (induction ls arbitrary: n a)
  case (Cons l ls)
  from Cons.prems(4) obtain a1 where a1: "add_line l (n + 1) a = Some a1"
    "add_lines ls (n + 1 + 1) a1 = Some a'"
    by (auto split: option.splits)
  have "acc_ok m (n + 1) a1"
  proof (cases "trim_space l = [] \<and> ac_current a \<noteq> []")
    case True
    with a1(1) acc_ok_flush [OF Cons.prems(3)] show ?thesis
      by (auto simp: add_line_def intro: acc_ok_later)
  next
    case False
    moreover have "ac_max a = m" using Cons.prems(3) by (simp add: acc_ok_def)
    ultimately show ?thesis
      using a1(1) append_line_ok [OF Cons.prems(3), of l] oversized_ok [OF Cons.prems(3) assms(1)]
        Cons.prems(1,2)
      by (auto simp: add_line_def split: if_splits)
  qed
  from Cons.IH [OF _ _ this a1(2)] Cons.prems show ?case by (simp add: algebra_simps)
qed simp

text \<open>The chunks \<open>chunkCode\<close> makes of the lines it scans are within the budget and
  carry line numbers inside the file, first line before last.\<close>

theorem chunk_code_bounded:
  assumes "0 < m" "list_all (runes_within m) (scan_lines content)"
    and "add_lines (scan_lines content) 1 (new_accumulator m) = Some a"
  shows "list_all (chunk_ok m (int (length (scan_lines content)))) (ac_chunks (flush a))"
proof -
  have "acc_ok m 0 (new_accumulator m)" by (simp add: acc_ok_def new_accumulator_def)
  from add_lines_ok [OF assms(1,2) _ this, of a] assms(3) show ?thesis
    using acc_ok_flush [of m "int (length (scan_lines content))" a] by (simp add: acc_ok_def)
qed

definition demo_code :: string where
  "demo_code = ''one'' @ [CHR 0x0A] @ ''two three four'' @ [CHR 0x0A, CHR 0x0A] @ ''five''"

lemma demo_code_lines:
  "scan_lines demo_code = [''one'' @ [CHR 0x0A], ''two three four'' @ [CHR 0x0A], [CHR 0x0A], ''five'']"
  by (simp add: demo_code_def scan_lines.simps fits_scanner_def max_scan_token_def)

lemma chunk_code_bounded_witness:
  "\<exists>a. add_lines (scan_lines demo_code) 1 (new_accumulator 6) = Some a \<and>
     list_all (chunk_ok 6 4) (ac_chunks (flush a)) \<and> length (ac_chunks (flush a)) = 6"
proof -
  have pre: "0 < (6::nat)" "list_all (runes_within 6) (scan_lines demo_code)"
    "length (scan_lines demo_code) = 4"
    unfolding demo_code_lines by code_simp+
  have "map_option (\<lambda>a. length (ac_chunks (flush a))) (add_lines (scan_lines demo_code) 1 (new_accumulator 6))
      = Some 6" unfolding demo_code_lines by code_simp
  then obtain a where a: "add_lines (scan_lines demo_code) 1 (new_accumulator 6) = Some a"
    "length (ac_chunks (flush a)) = 6" by auto
  from chunk_code_bounded [OF pre(1,2) a(1)] a pre(3) show ?thesis by simp
qed

end
