(* ===== verification/ChunkerAST.thy ===== *)
theory ChunkerAST
  imports Chunker
begin

text \<open>
  \<open>internal/chunker/chunker_ast.go\<close> and \<open>ChunkFile\<close>: chunks along the symbols
  the analyzer (tree-sitter, an argument here) reports.  A Go slice expression out of range
  panics; \<open>None\<close> stands for a panic or a \<open>splitRunes\<close> loop that never ends.
  Symbols that start on the same line keep their order (Go's \<open>sort.Slice\<close> may swap
  them).
\<close>

record symbol =
  sy_name :: string
  sy_kind :: string
  sy_start :: int
  sy_end :: int

definition go_slice :: "'a list \<Rightarrow> int \<Rightarrow> int \<Rightarrow> 'a list option" where
  "go_slice xs i j =
     (if 0 \<le> i \<and> i \<le> j \<and> j \<le> int (length xs) then Some (slice xs (nat i) (nat j)) else None)"

abbreviation newline :: char where
  "newline \<equiv> CHR 0x0A"

section \<open>Lines between symbols\<close>

definition chunk_lines :: "string list \<Rightarrow> int \<Rightarrow> int \<Rightarrow> nat \<Rightarrow> chunk list option" where
  "chunk_lines lines start0 end0 max_chars =
     (let start = (if start0 < 1 then 1 else start0);
          e = (if end0 > int (length lines) then int (length lines) else end0)
      in if start > e then Some []
         else (case add_lines (slice lines (nat (start - 1)) (nat e)) start (new_accumulator max_chars) of
                 None \<Rightarrow> None
               | Some a \<Rightarrow> Some (ac_chunks (flush a))))"

definition is_comment_line :: "string \<Rightarrow> bool" where
  "is_comment_line line \<longleftrightarrow>
     list_ex (has_prefix line)
       [''//'', ''#'', ''/*'', ''*'', [CHR 0x27, CHR 0x27, CHR 0x27], [CHR 0x22, CHR 0x22, CHR 0x22]]"

text \<open>\<open>i\<close> counts down from \<open>zeroBasedStart - 1\<close> to \<open>lastLine\<close>; \<open>n\<close>
  lines are left to look at.\<close>

fun doc_start :: "string list \<Rightarrow> int \<Rightarrow> nat \<Rightarrow> int \<Rightarrow> int option" where
  "doc_start lines i 0 d = Some d"
| "doc_start lines i (Suc n) d =
     (if i < 0 \<or> i \<ge> int (length lines) then None
      else (let line = trim_space (lines ! nat i)
            in if line = [] then Some d
               else if is_comment_line line then doc_start lines (i - 1) n i
               else Some d))"

definition find_doc_comment_start :: "string list \<Rightarrow> int \<Rightarrow> int \<Rightarrow> int option" where
  "find_doc_comment_start lines last_line zero_start =
     doc_start lines (zero_start - 1) (nat (zero_start - last_line)) zero_start"

definition append_non_symbol_chunks ::
  "chunk list \<Rightarrow> string list \<Rightarrow> int \<Rightarrow> int \<Rightarrow> nat \<Rightarrow> chunk list option" where
  "append_non_symbol_chunks chunks lines last_line zero_start max_chars =
     (if zero_start \<le> last_line then Some chunks
      else (case go_slice lines last_line zero_start of
              None \<Rightarrow> None
            | Some non_sym \<Rightarrow>
                (if trim_space (join_byte newline non_sym) \<noteq> []
                 then map_option (\<lambda>cs. chunks @ cs) (chunk_lines lines (last_line + 1) zero_start max_chars)
                 else Some chunks)))"

definition append_trailing_chunks ::
  "chunk list \<Rightarrow> string list \<Rightarrow> int \<Rightarrow> nat \<Rightarrow> chunk list option" where
  "append_trailing_chunks chunks lines last_line max_chars =
     (if last_line \<ge> int (length lines) then Some chunks
      else (case go_slice lines last_line (int (length lines)) of
              None \<Rightarrow> None
            | Some rest \<Rightarrow>
                (if trim_space (join_byte newline rest) \<noteq> []
                 then map_option (\<lambda>cs. chunks @ cs)
                        (chunk_lines lines (last_line + 1) (int (length lines)) max_chars)
                 else Some chunks)))"

section \<open>Symbols\<close>

definition trim_rune_boundary :: "string \<Rightarrow> string" where
  "trim_rune_boundary piece =
     rev (dropWhile (\<lambda>c. c \<noteq> newline \<and> \<not> is_ascii [c]) (rev piece))"

definition cut_symbol_piece :: "string \<Rightarrow> nat \<Rightarrow> nat \<Rightarrow> string" where
  "cut_symbol_piece remaining space_left max_chars =
     (let e = min space_left (length remaining); piece0 = take e remaining
      in if e \<ge> length remaining then piece0
         else (let piece1 = (case last_index newline piece0 of
                               Some nl \<Rightarrow> if nl > space_left div 2 then take nl piece0 else piece0
                             | None \<Rightarrow> piece0);
                   piece2 = trim_rune_boundary piece1
               in if piece2 = [] then take max_chars remaining else piece2))"

text \<open>Chunks of consecutive pieces: each piece claims one line more than it has newlines.\<close>

fun piece_chunks :: "string \<Rightarrow> int \<Rightarrow> string list \<Rightarrow> chunk list" where
  "piece_chunks pfx current_line [] = []"
| "piece_chunks pfx current_line (p # ps) =
     (let piece_lines = int (count_list p newline) + 1
      in mk_chunk (pfx @ p) current_line (current_line + piece_lines - 1) #
         piece_chunks pfx (current_line + piece_lines) ps)"

definition split_oversized_prefix :: "string \<Rightarrow> string \<Rightarrow> int \<Rightarrow> nat \<Rightarrow> chunk list option" where
  "split_oversized_prefix remaining pfx current_line max_chars =
     map_option (piece_chunks [] current_line) (split_runes (pfx @ remaining) max_chars)"

lemma cut_symbol_piece_nonempty:
  "\<lbrakk>remaining \<noteq> []; 0 < space_left; 0 < max_chars\<rbrakk> \<Longrightarrow> cut_symbol_piece remaining space_left max_chars \<noteq> []"
  by (auto simp: cut_symbol_piece_def Let_def)

function symbol_pieces :: "string \<Rightarrow> nat \<Rightarrow> nat \<Rightarrow> string list" where
  "symbol_pieces remaining prefix_len max_chars =
     (if remaining = [] \<or> max_chars \<le> prefix_len then []
      else (let p = cut_symbol_piece remaining (max_chars - prefix_len) max_chars
            in p # symbol_pieces (drop (length p) remaining) prefix_len max_chars))"
  by pat_completeness auto
termination
  by (relation "measure (\<lambda>(r, k, m). length r)") (auto simp: cut_symbol_piece_nonempty)

declare symbol_pieces.simps [simp del]

text \<open>The length of the prefix never changes, so the fallback is taken at once or never.\<close>

definition split_symbol_chunks :: "string \<Rightarrow> string \<Rightarrow> int \<Rightarrow> nat \<Rightarrow> chunk list option" where
  "split_symbol_chunks content pfx start_line max_chars =
     (if content = [] then Some []
      else if length pfx \<ge> max_chars
      then split_oversized_prefix content pfx start_line max_chars
      else Some (piece_chunks pfx start_line (symbol_pieces content (length pfx) max_chars)))"

definition clip_symbol_end :: "int \<Rightarrow> int \<Rightarrow> int" where
  "clip_symbol_end sym_end line_count = (if sym_end > line_count then line_count else sym_end)"

definition symbol_prefix :: "symbol \<Rightarrow> string" where
  "symbol_prefix sy = ''['' @ sy_kind sy @ ''] '' @ sy_name sy @ [newline]"

definition append_symbol_chunks ::
  "chunk list \<Rightarrow> string list \<Rightarrow> symbol \<Rightarrow> int \<Rightarrow> nat \<Rightarrow> chunk list option" where
  "append_symbol_chunks chunks lines sy sym_end max_chars =
     (case go_slice lines (sy_start sy - 1) sym_end of
        None \<Rightarrow> None
      | Some sym_lines \<Rightarrow>
          (let content = join_byte newline sym_lines; pfx = symbol_prefix sy
           in if length pfx + length content \<le> max_chars
              then Some (chunks @ [mk_chunk (pfx @ content) (sy_start sy) sym_end])
              else map_option (\<lambda>cs. chunks @ cs)
                     (split_symbol_chunks content pfx (sy_start sy) max_chars)))"

fun ast_loop :: "string list \<Rightarrow> nat \<Rightarrow> symbol list \<Rightarrow> chunk list \<Rightarrow> int \<Rightarrow> (chunk list \<times> int) option" where
  "ast_loop lines max_chars [] chunks last_line = Some (chunks, last_line)"
| "ast_loop lines max_chars (sy # syms) chunks last_line =
     (case find_doc_comment_start lines last_line (sy_start sy - 1) of
        None \<Rightarrow> None
      | Some d \<Rightarrow>
          (case append_non_symbol_chunks chunks lines last_line d max_chars of
             None \<Rightarrow> None
           | Some chunks1 \<Rightarrow>
               (let sym_end = clip_symbol_end (sy_end sy) (int (length lines))
                in case append_symbol_chunks chunks1 lines (sy\<lparr>sy_start := d + 1\<rparr>) sym_end max_chars of
                     None \<Rightarrow> None
                   | Some chunks2 \<Rightarrow> ast_loop lines max_chars syms chunks2 sym_end)))"

definition ast_chunk_from_syms :: "string \<Rightarrow> nat \<Rightarrow> symbol list \<Rightarrow> chunk list option" where
  "ast_chunk_from_syms content max_chars syms =
     (let lines = split_byte newline content
      in case ast_loop lines max_chars (sort_key sy_start syms) [] 0 of
           None \<Rightarrow> None
         | Some (chunks, last_line) \<Rightarrow> append_trailing_chunks chunks lines last_line max_chars)"

definition chunk_file_ast ::
  "(string \<Rightarrow> string \<Rightarrow> symbol list) \<Rightarrow> string \<Rightarrow> string \<Rightarrow> nat \<Rightarrow> chunk list option" where
  "chunk_file_ast symbols path content max_chars =
     (let syms = symbols path content
      in if syms = [] then Some [] else ast_chunk_from_syms content max_chars syms)"

definition chunk_file ::
  "(string \<Rightarrow> string) \<Rightarrow> (string \<Rightarrow> string \<Rightarrow> symbol list) \<Rightarrow> string \<Rightarrow> string \<Rightarrow> nat \<Rightarrow> chunk list option" where
  "chunk_file ul symbols path content max_chars =
     (if is_code_file ul path
      then (case chunk_file_ast symbols path content max_chars of
              None \<Rightarrow> None
            | Some ast \<Rightarrow> if ast \<noteq> [] then Some ast else chunk_code content max_chars)
      else chunk_text content max_chars)"

section \<open>Pieces of an oversized symbol\<close>

lemma trim_rune_boundary_prefix: "\<exists>u. piece = trim_rune_boundary piece @ u"
proof -
  let ?P = "\<lambda>c. c \<noteq> newline \<and> \<not> is_ascii [c]"
  have "rev piece = takeWhile ?P (rev piece) @ dropWhile ?P (rev piece)" by simp
  then have "piece = rev (dropWhile ?P (rev piece)) @ rev (takeWhile ?P (rev piece))"
    by (metis rev_append rev_rev_ident)
  then show ?thesis unfolding trim_rune_boundary_def by blast
qed

lemma cut_symbol_piece_take:
  "cut_symbol_piece r k m = take (length (cut_symbol_piece r k m)) r \<and>
   length (cut_symbol_piece r k m) \<le> max k m"
proof -
  have pre: "trim_rune_boundary p = take (length (trim_rune_boundary p)) p \<and>
      length (trim_rune_boundary p) \<le> length p" for p
    using trim_rune_boundary_prefix [of p] by (metis append_eq_conv_conj le_add1 length_append)
  have sub: "trim_rune_boundary (take n r) = take (length (trim_rune_boundary (take n r))) r" for n
    using pre [of "take n r"] by (metis append_eq_append_conv_if append_take_drop_id length_take min.bounded_iff take_take min.absorb1)
  show ?thesis
  proof (cases "length r \<le> k")
    case True
    then show ?thesis by (simp add: cut_symbol_piece_def Let_def)
  next
    case False
    let ?p0 = "take k r"
    obtain n where n: "n \<le> k" "(case last_index newline ?p0 of
        Some nl \<Rightarrow> if nl > k div 2 then take nl ?p0 else ?p0 | None \<Rightarrow> ?p0) = take n r"
    proof (cases "last_index newline ?p0")
      case None
      then show ?thesis by (intro that [of k]) simp_all
    next
      case (Some nl)
      have "nl \<le> k" using last_index_spec [OF Some] by simp
      with Some show ?thesis
        using that [of nl] that [of k] by (cases "nl > k div 2") (simp_all add: min_absorb1)
    qed
    have "cut_symbol_piece r k m =
        (if trim_rune_boundary (take n r) = [] then take m r else trim_rune_boundary (take n r))"
      using False n(2) by (simp add: cut_symbol_piece_def Let_def)
    with sub [of n] pre [of "take n r"] n(1) show ?thesis
      by (auto simp: min_def split: if_splits)
  qed
qed

lemma symbol_pieces_concat:
  "k < m \<Longrightarrow> concat (symbol_pieces r k m) = r \<and> list_all (\<lambda>p. p \<noteq> [] \<and> length p \<le> m) (symbol_pieces r k m)"
proof (induction r k m rule: symbol_pieces.induct)
  case (1 r k m)
  let ?p = "cut_symbol_piece r (m - k) m"
  show ?case
  proof (cases "r = []")
    case True
    then show ?thesis by (simp add: symbol_pieces.simps)
  next
    case False
    with 1 have IH: "concat (symbol_pieces (drop (length ?p) r) k m) = drop (length ?p) r"
      "list_all (\<lambda>p. p \<noteq> [] \<and> length p \<le> m) (symbol_pieces (drop (length ?p) r) k m)" by auto
    have eq: "symbol_pieces r k m = ?p # symbol_pieces (drop (length ?p) r) k m"
      using False 1(2) by (subst symbol_pieces.simps) (simp add: Let_def)
    have "length ?p \<le> m" "?p = take (length ?p) r"
      using cut_symbol_piece_take [of r "m - k" m] by auto
    moreover have "?p \<noteq> []" using False 1(2) by (intro cut_symbol_piece_nonempty) auto
    moreover from calculation(2) have "?p @ drop (length ?p) r = r"
      by (metis append_take_drop_id)
    ultimately show ?thesis
      unfolding eq using IH by simp
  qed
qed

lemma piece_chunks_contents: "map ck_content (piece_chunks pfx n ps) = map (\<lambda>p. pfx @ p) ps"
  by (induction ps arbitrary: n) (simp_all add: mk_chunk_def Let_def)

text \<open>An oversized symbol is cut without loss: every chunk is the symbol's prefix line
  followed by a non-empty piece, and the pieces in order make up the symbol's text.\<close>

theorem split_symbol_chunks_lossless:
  assumes "length pfx < m"
  shows "\<exists>ps cks. split_symbol_chunks content pfx n m = Some cks \<and>
    map ck_content cks = map (\<lambda>p. pfx @ p) ps \<and> concat ps = content \<and>
    list_all (\<lambda>p. p \<noteq> [] \<and> length p \<le> m) ps"
proof (cases "content = []")
  case True
  then show ?thesis by (intro exI [of _ "[]"]) (simp add: split_symbol_chunks_def)
next
  case False
  with symbol_pieces_concat [OF assms, of content] assms show ?thesis
    by (intro exI [of _ "symbol_pieces content (length pfx) m"])
      (simp add: split_symbol_chunks_def piece_chunks_contents)
qed

lemma split_symbol_chunks_lossless_witness:
  "\<exists>ps cks. split_symbol_chunks ''abcdefgh'' ''[f] x'' 3 10 = Some cks \<and>
     map ck_content cks = map (\<lambda>p. ''[f] x'' @ p) ps \<and> concat ps = ''abcdefgh''"
  using split_symbol_chunks_lossless [of "''[f] x''" 10 "''abcdefgh''" 3] by force

section \<open>Line numbers of split symbols\<close>

text \<open>Every piece is given one line more than it has newlines, although a piece may end in
  the middle of a line: the claimed lines run ahead of the symbol's own.\<close>

lemma piece_chunks_empty [simp]: "piece_chunks pfx n ps = [] \<longleftrightarrow> ps = []"
  by (cases ps) (simp_all add: Let_def)

lemma piece_chunks_last_line:
  "ps \<noteq> [] \<Longrightarrow> ck_end (last (piece_chunks pfx n ps)) =
     n - 1 + int (count_list (concat ps) newline) + int (length ps)"
proof (induction ps arbitrary: n)
  case (Cons p ps)
  then show ?case
    by (cases "ps = []") (simp_all add: mk_chunk_def Let_def)
qed simp

text \<open>When a symbol's text of \<open>k\<close> newlines, starting at line \<open>n\<close>, is split
  into \<open>j\<close> chunks, the last chunk claims to end at line \<open>n + k + j - 1\<close>, that is
  \<open>j - 1\<close> lines behind the symbol's last line.\<close>

theorem split_symbol_lines_drift:
  assumes "length pfx < m" "content \<noteq> []" "split_symbol_chunks content pfx n m = Some cks"
  shows "ck_end (last cks) =
    n + int (count_list content newline) + (int (length cks) - 1)"
proof -
  let ?ps = "symbol_pieces content (length pfx) m"
  have cks: "cks = piece_chunks pfx n ?ps"
    using assms by (simp add: split_symbol_chunks_def)
  have "length (map ck_content cks) = length ?ps"
    unfolding cks piece_chunks_contents by simp
  moreover have "?ps \<noteq> []" "concat ?ps = content"
    using symbol_pieces_concat [OF assms(1), of content] assms(2) by auto
  ultimately show ?thesis
    using piece_chunks_last_line [of ?ps pfx n] by (simp add: cks)
qed

lemma split_symbol_lines_drift_witness:
  "\<exists>cks. split_symbol_chunks ''abcdefghijklmnop'' ''[f] x'' 7 10 = Some cks \<and>
     ck_end (last cks) = 10"
proof -
  have run: "map_option length (split_symbol_chunks ''abcdefghijklmnop'' ''[f] x'' 7 10) = Some 4"
    by code_simp
  then obtain cks where cks: "split_symbol_chunks ''abcdefghijklmnop'' ''[f] x'' 7 10 = Some cks"
    "length cks = 4" by auto
  have "length ''[f] x'' < 10" "''abcdefghijklmnop'' \<noteq> []" "count_list ''abcdefghijklmnop'' newline = 0"
    by simp_all
  from split_symbol_lines_drift [OF this(1,2) cks(1)] this(3) cks show ?thesis by simp
qed

end
