(* ===== verification/Graph.thy ===== *)
theory Graph
  imports GoPrelude "HOL-Library.AList" "HOL-Library.Product_Lexorder"
begin

text \<open>
  The dependency graph of \<open>internal/graph/graph.go\<close>: path normalisation, the index built
  from the store's adjacency map, its neighbour functions, the breadth-first shortest path and
  the neighbourhood walk.  A Go map is an association list in the order its iteration happens to
  take; the parent map of the search is a HOL map, its seen set a HOL set.
\<close>

section \<open>Paths and budgets\<close>

record budget =
  bg_max_depth :: int
  bg_max_visit :: int
  bg_max_edges :: int

definition with_defaults :: "int \<Rightarrow> budget \<Rightarrow> budget" where
  "with_defaults depth b =
     \<lparr> bg_max_depth = (if bg_max_depth b \<le> 0 then depth else bg_max_depth b),
       bg_max_visit = (if bg_max_visit b \<le> 0 then 10000 else bg_max_visit b),
       bg_max_edges = (if bg_max_edges b \<le> 0 then 500 else bg_max_edges b) \<rparr>"

definition with_path_defaults :: "budget \<Rightarrow> budget" where
  "with_path_defaults = with_defaults 8"

definition with_subgraph_defaults :: "budget \<Rightarrow> budget" where
  "with_subgraph_defaults = with_defaults 2"

definition normalize_path :: "string \<Rightarrow> string" where
  "normalize_path p0 =
     (let p = replace_byte (CHR 0x5C) (CHR ''/'') (trim_space p0)
      in if p = [] \<or> p = ''.'' then []
         else (let c = path_clean p
               in if c = ''.'' then []
                  else (let t = trim_prefix c ''./''
                        in if has_suffix p ''/'' \<and> t \<noteq> [] \<and> \<not> has_suffix t ''/'' then t @ ''/'' else t)))"

definition package_dir :: "string \<Rightarrow> string" where
  "package_dir p0 =
     (let p = normalize_path p0
      in if p = [] then []
         else if has_suffix p ''/'' then p
         else if CHR ''.'' \<notin> set (path_base p) then p @ ''/''
         else (let d = path_dir p in if d = ''.'' \<or> d = [] then [] else d @ ''/''))"

definition is_package_dir :: "string \<Rightarrow> bool" where
  "is_package_dir p0 = (let p = normalize_path p0 in p = [] \<or> has_suffix p ''/'')"

section \<open>The index\<close>

record edge =
  ed_source :: string
  ed_target :: string
  ed_kind :: string
  ed_reverse :: bool

record graph_index =
  ix_out :: "(string \<times> string list) list"
  ix_pkg :: "(string \<times> string list) list"
  ix_files :: "string list"

definition lookup_list :: "(string \<times> 'a list) list \<Rightarrow> string \<Rightarrow> 'a list" where
  "lookup_list m k = (case map_of m k of None \<Rightarrow> [] | Some xs \<Rightarrow> xs)"

text \<open>\<open>seen\<close> holds exactly the files already in the index.\<close>

definition add_file :: "string \<Rightarrow> graph_index \<Rightarrow> graph_index" where
  "add_file file0 ix =
     (let file = normalize_path file0
      in if file = [] \<or> is_package_dir file then ix
         else if file \<in> set (ix_files ix) then ix
         else (let ix1 = ix\<lparr>ix_files := ix_files ix @ [file]\<rparr>; pkg = package_dir file
               in if pkg \<noteq> []
                  then ix1\<lparr>ix_pkg := AList.update pkg (lookup_list (ix_pkg ix1) pkg @ [file]) (ix_pkg ix1)\<rparr>
                  else ix1))"

fun uniq_targets :: "string list \<Rightarrow> string list \<Rightarrow> string list" where
  "uniq_targets uniq [] = uniq"
| "uniq_targets uniq (t0 # ts) =
     (let t = normalize_path t0
      in if t = [] then uniq_targets uniq ts
         else (let u = (if CHR ''.'' \<notin> set (path_base t) \<and> \<not> has_suffix t ''/'' then t @ ''/'' else t)
               in if u \<in> set uniq then uniq_targets uniq ts else uniq_targets (uniq @ [u]) ts))"

definition normalize_targets :: "string list \<Rightarrow> string list" where
  "normalize_targets ts = sort (uniq_targets [] ts)"

definition add_source :: "string \<times> string list \<Rightarrow> graph_index \<Rightarrow> graph_index" where
  "add_source st ix =
     (let s = normalize_path (fst st)
      in if s = [] then ix
         else (let ix1 = add_file s ix
               in ix1\<lparr>ix_out := AList.update s (normalize_targets (snd st)) (ix_out ix1)\<rparr>))"

definition build :: "(string \<times> string list) list \<Rightarrow> string list \<Rightarrow> graph_index" where
  "build neighbors files =
     (let ix = fold add_file files
                 (fold add_source neighbors \<lparr>ix_out = [], ix_pkg = [], ix_files = []\<rparr>)
      in ix\<lparr>ix_files := sort (ix_files ix), ix_pkg := map (\<lambda>(p, fs). (p, sort fs)) (ix_pkg ix)\<rparr>)"

section \<open>Neighbours\<close>

definition add_slash :: "string \<Rightarrow> string" where
  "add_slash p = (if p \<noteq> [] \<and> \<not> has_suffix p ''/'' then p @ ''/'' else p)"

definition neighbors_directed :: "graph_index \<Rightarrow> string \<Rightarrow> edge list" where
  "neighbors_directed ix node0 =
     (let node = normalize_path node0
      in if node = [] then []
         else if is_package_dir node
         then map (\<lambda>f. \<lparr>ed_source = add_slash node, ed_target = f, ed_kind = ''contains'', ed_reverse = False\<rparr>)
                (lookup_list (ix_pkg ix) (add_slash node))
         else map (\<lambda>t. \<lparr>ed_source = node, ed_target = t, ed_kind = ''imports'', ed_reverse = False\<rparr>)
                (lookup_list (ix_out ix) node))"

definition package_equal :: "string \<Rightarrow> string \<Rightarrow> bool" where
  "package_equal a b \<longleftrightarrow> add_slash (normalize_path a) = add_slash (normalize_path b)"

definition reverse_package_edges :: "graph_index \<Rightarrow> string \<Rightarrow> edge list" where
  "reverse_package_edges ix pkg0 =
     (let pkg = add_slash (normalize_path pkg0)
      in map (\<lambda>(s, ts). \<lparr>ed_source = pkg, ed_target = s, ed_kind = ''imports'', ed_reverse = True\<rparr>)
           (filter (\<lambda>(s, ts). list_ex (\<lambda>t. package_equal t pkg) ts) (ix_out ix)))"

definition reverse_file_edge :: "string \<Rightarrow> edge list" where
  "reverse_file_edge file =
     (let pkg = package_dir file
      in if pkg = [] then []
         else [\<lparr>ed_source = file, ed_target = pkg, ed_kind = ''contains'', ed_reverse = True\<rparr>])"

definition neighbors_undirected :: "graph_index \<Rightarrow> string \<Rightarrow> edge list" where
  "neighbors_undirected ix node0 =
     (let node = normalize_path node0
      in neighbors_directed ix node @
         (if is_package_dir node then reverse_package_edges ix node else reverse_file_edge node))"

definition walk_neighbors :: "graph_index \<Rightarrow> bool \<Rightarrow> string \<Rightarrow> edge list" where
  "walk_neighbors ix inbound node =
     (if inbound then neighbors_undirected ix node else neighbors_directed ix node)"

definition sorted_neighbors :: "graph_index \<Rightarrow> bool \<Rightarrow> string \<Rightarrow> edge list" where
  "sorted_neighbors ix undirected node =
     sort_key (\<lambda>e. (ed_target e, ed_kind e))
       (if undirected then neighbors_undirected ix node else neighbors_directed ix node)"

section \<open>Shortest path\<close>

type_synonym parents = "string \<rightharpoonup> string \<times> edge"

fun enqueue_neighbors ::
  "string \<Rightarrow> string \<Rightarrow> nat \<Rightarrow> edge list \<Rightarrow> string set \<Rightarrow> parents \<Rightarrow> (string \<times> nat) list
     \<Rightarrow> bool \<times> string set \<times> parents \<times> (string \<times> nat) list" where
  "enqueue_neighbors to node depth [] seen parent q = (False, seen, parent, q)"
| "enqueue_neighbors to node depth (e # es) seen parent q =
     (let nxt = normalize_path (ed_target e)
      in if nxt = [] then enqueue_neighbors to node depth es seen parent q
         else if nxt \<in> seen then enqueue_neighbors to node depth es seen parent q
         else if nxt = to then (True, insert nxt seen, parent(nxt \<mapsto> (node, e)), q)
         else enqueue_neighbors to node depth es (insert nxt seen) (parent(nxt \<mapsto> (node, e)))
                (q @ [(nxt, depth + 1)]))"

datatype search = Found parents | Exhausted | OverBudget

function bfs_loop ::
  "(string \<Rightarrow> edge list) \<Rightarrow> string \<Rightarrow> int \<Rightarrow> int \<Rightarrow> (string \<times> nat) list \<Rightarrow> parents \<Rightarrow> string set
     \<Rightarrow> nat \<Rightarrow> search" where
  "bfs_loop nbrs to max_depth max_visit q parent seen visited =
     (case q of
        [] \<Rightarrow> Exhausted
      | (node, depth) # rest \<Rightarrow>
          (if int (visited + 1) > max_visit then OverBudget
           else if int depth \<ge> max_depth
           then bfs_loop nbrs to max_depth max_visit rest parent seen (visited + 1)
           else (case enqueue_neighbors to node depth (nbrs node) seen parent rest of
                   (found, seen1, parent1, q1) \<Rightarrow>
                     (if found then Found parent1
                      else bfs_loop nbrs to max_depth max_visit q1 parent1 seen1 (visited + 1)))))"
  by pat_completeness auto
termination
  by (relation "measure (\<lambda>(nbrs, to, md, mv, q, parent, seen, visited). nat (mv + 1 - int visited))") auto

declare bfs_loop.simps [simp del]

text \<open>\<open>reconstruct\<close>: the Go loop follows the parents from \<open>to\<close>; \<open>None\<close> is a
  loop that never ends, \<open>Some None\<close> a missing parent.\<close>

partial_function (option) follow_parents ::
  "string \<Rightarrow> parents \<Rightarrow> string \<Rightarrow> string list \<Rightarrow> edge list \<Rightarrow> (string list \<times> edge list) option option" where
  "follow_parents from parent cur hops_rev edges_rev =
     (if cur = from then Some (Some (hops_rev @ [from], edges_rev))
      else (case parent cur of
              None \<Rightarrow> Some None
            | Some (prev, e) \<Rightarrow>
                follow_parents from parent prev (hops_rev @ [cur]) (edges_rev @ [e])))"

declare follow_parents.simps [code]

definition reconstruct :: "string \<Rightarrow> string \<Rightarrow> parents \<Rightarrow> (string list \<times> edge list \<times> bool \<times> bool) option" where
  "reconstruct from to parent =
     (case follow_parents from parent to [] [] of
        None \<Rightarrow> None
      | Some None \<Rightarrow> Some ([], [], False, False)
      | Some (Some (hs, es)) \<Rightarrow> Some (rev hs, rev es, False, True))"

text \<open>Hops, edges, truncated, found.\<close>

definition bfs ::
  "graph_index \<Rightarrow> string \<Rightarrow> string \<Rightarrow> budget \<Rightarrow> bool \<Rightarrow> (string list \<times> edge list \<times> bool \<times> bool) option" where
  "bfs ix from to b undirected =
     (case bfs_loop (sorted_neighbors ix undirected) to (bg_max_depth b) (bg_max_visit b)
             [(from, 0)] Map.empty {from} 0 of
        Found parent \<Rightarrow> reconstruct from to parent
      | Exhausted \<Rightarrow> Some ([], [], False, False)
      | OverBudget \<Rightarrow> Some ([], [], True, False))"

record path_result =
  pr_from :: string
  pr_to :: string
  pr_found :: bool
  pr_directed :: bool
  pr_hops :: "string list"
  pr_edges :: "edge list"
  pr_length :: nat
  pr_truncated :: bool

definition shortest_path :: "graph_index \<Rightarrow> string \<Rightarrow> string \<Rightarrow> budget \<Rightarrow> bool \<Rightarrow> path_result option" where
  "shortest_path ix from0 to0 b0 allow_undirected =
     (let b = with_path_defaults b0; from = normalize_path from0; to = normalize_path to0;
          res = \<lparr>pr_from = from, pr_to = to, pr_found = False, pr_directed = True, pr_hops = [],
                 pr_edges = [], pr_length = 0, pr_truncated = False\<rparr>
      in if from = [] \<or> to = [] then Some res
         else if from = to then Some (res\<lparr>pr_found := True, pr_hops := [from]\<rparr>)
         else (case bfs ix from to b False of
                 None \<Rightarrow> None
               | Some (hops, edges, trunc, ok) \<Rightarrow>
                   (if ok then Some (res\<lparr>pr_found := True, pr_hops := hops, pr_edges := edges,
                                      pr_length := length edges, pr_truncated := trunc\<rparr>)
                    else (let res1 = (if trunc then res\<lparr>pr_truncated := True\<rparr> else res)
                          in if \<not> allow_undirected then Some res1
                             else (case bfs ix from to b True of
                                     None \<Rightarrow> None
                                   | Some (hops2, edges2, trunc2, ok2) \<Rightarrow>
                                       (let res2 = res1\<lparr>pr_truncated := pr_truncated res1 \<or> trunc2\<rparr>
                                        in if ok2
                                           then Some (res2\<lparr>pr_found := True, pr_directed := False,
                                                  pr_hops := hops2, pr_edges := edges2,
                                                  pr_length := length edges2\<rparr>)
                                           else Some res2))))))"

section \<open>Neighbourhoods\<close>

record node =
  nd_id :: string
  nd_label :: string
  nd_kind :: string
  nd_seed :: bool
  nd_depth :: nat
  nd_in :: int
  nd_out :: int

record subgraph_result =
  sg_nodes :: "node list"
  sg_edges :: "edge list"
  sg_truncated :: bool

record walk_state =
  ws_queue :: "(string \<times> nat) list"
  ws_seen :: "string set"
  ws_depths :: "(string \<times> nat) list"
  ws_edges :: "edge list"
  ws_edge_seen :: "string set"
  ws_truncated :: bool

definition edge_key :: "edge \<Rightarrow> string" where
  "edge_key e = ed_source e @ CHR 0x00 # ed_target e @ CHR 0x00 # ed_kind e"

definition note_depth :: "string \<Rightarrow> nat \<Rightarrow> (string \<times> nat) list \<Rightarrow> (string \<times> nat) list" where
  "note_depth n d ds = (if map_of ds n = None then ds @ [(n, d)] else ds)"

definition walk_edge :: "int \<Rightarrow> nat \<Rightarrow> edge \<Rightarrow> walk_state \<Rightarrow> walk_state" where
  "walk_edge max_edges depth e s =
     (let target = normalize_path (ed_target e);
          s1 = (if edge_key e \<in> ws_edge_seen s then s
                else (let s0 = s\<lparr>ws_edge_seen := insert (edge_key e) (ws_edge_seen s)\<rparr>
                      in if int (length (ws_edges s0)) \<ge> max_edges then s0\<lparr>ws_truncated := True\<rparr>
                         else s0\<lparr>ws_edges := ws_edges s0 @ [e],
                                ws_depths := note_depth target (depth + 1) (ws_depths s0)\<rparr>))
      in if target \<in> ws_seen s1 then s1
         else if ws_truncated s1 \<and> int (length (ws_edges s1)) \<ge> max_edges then s1
         else s1\<lparr>ws_seen := insert target (ws_seen s1),
                 ws_queue := ws_queue s1 @ [(target, depth + 1)]\<rparr>)"

function bfs_walk_loop ::
  "(string \<Rightarrow> edge list) \<Rightarrow> budget \<Rightarrow> nat \<Rightarrow> walk_state \<Rightarrow> walk_state" where
  "bfs_walk_loop nbrs b visited s =
     (case ws_queue s of
        [] \<Rightarrow> s
      | (node, depth) # rest \<Rightarrow>
          (if int (visited + 1) > bg_max_visit b then s\<lparr>ws_queue := rest, ws_truncated := True\<rparr>
           else (let s1 = s\<lparr>ws_queue := rest, ws_depths := note_depth node depth (ws_depths s)\<rparr>
                 in if int depth \<ge> bg_max_depth b then bfs_walk_loop nbrs b (visited + 1) s1
                    else bfs_walk_loop nbrs b (visited + 1)
                           (fold (walk_edge (bg_max_edges b) depth) (nbrs node) s1))))"
  by pat_completeness auto
termination
  by (relation "measure (\<lambda>(nbrs, b, visited, s). nat (bg_max_visit b + 1 - int visited))") auto

declare bfs_walk_loop.simps [simp del]

definition bfs_walk ::
  "graph_index \<Rightarrow> string list \<Rightarrow> budget \<Rightarrow> bool \<Rightarrow> walk_state" where
  "bfs_walk ix seeds b inbound =
     bfs_walk_loop (\<lambda>n. sort_key ed_target (walk_neighbors ix inbound n)) b 0
       \<lparr>ws_queue = map (\<lambda>s. (s, 0)) seeds, ws_seen = set seeds, ws_depths = [], ws_edges = [],
        ws_edge_seen = {}, ws_truncated = False\<rparr>"

definition in_degree :: "graph_index \<Rightarrow> string \<Rightarrow> int" where
  "in_degree ix n =
     int (length (filter (\<lambda>t. t = n) (concat (map snd (ix_out ix))))) +
     int (length (filter (\<lambda>f. f = n) (concat (map snd (ix_pkg ix)))))"

definition out_degree :: "graph_index \<Rightarrow> string \<Rightarrow> int" where
  "out_degree ix n =
     int (length (lookup_list (ix_out ix) n)) + int (length (lookup_list (ix_pkg ix) n))"

definition hub_seeds :: "nat \<Rightarrow> graph_index \<Rightarrow> string list" where
  "hub_seeds n ix =
     map snd (take n (sort (map (\<lambda>(f, ts). (- int (length ts), f)) (ix_out ix))))"

definition resolve_seeds :: "graph_index \<Rightarrow> string \<Rightarrow> string list" where
  "resolve_seeds ix seed0 =
     (let seed = normalize_path seed0 in if seed \<noteq> [] then [seed] else hub_seeds 16 ix)"

definition neighborhood :: "graph_index \<Rightarrow> string \<Rightarrow> budget \<Rightarrow> bool \<Rightarrow> subgraph_result" where
  "neighborhood ix seed b0 inbound =
     (let b = with_subgraph_defaults b0; seeds = resolve_seeds ix seed
      in if seeds = [] then \<lparr>sg_nodes = [], sg_edges = [], sg_truncated = False\<rparr>
         else (let s = bfs_walk ix seeds b inbound
               in \<lparr>sg_nodes =
                     sort_key nd_id
                       (map (\<lambda>(i, depth).
                           \<lparr>nd_id = i, nd_label = path_base (trim_suffix i ''/''),
                            nd_kind = (if is_package_dir i then ''package'' else ''file''),
                            nd_seed = (i \<in> set seeds), nd_depth = depth,
                            nd_in = in_degree ix i, nd_out = out_degree ix i\<rparr>) (ws_depths s)),
                   sg_edges = sort_key (\<lambda>e. (ed_source e, ed_target e)) (ws_edges s),
                   sg_truncated = ws_truncated s\<rparr>))"

definition subgraph :: "graph_index \<Rightarrow> string \<Rightarrow> budget \<Rightarrow> subgraph_result" where
  "subgraph ix seed b = neighborhood ix seed b False"

section \<open>The search finds shortest walks\<close>

text \<open>The graph the search walks: an edge leads to its normalised target, unless that is
  empty.  A walk is the list of the nodes after its start.\<close>

definition succ_of :: "(string \<Rightarrow> edge list) \<Rightarrow> string \<Rightarrow> string \<Rightarrow> bool" where
  "succ_of nbrs u v \<longleftrightarrow> v \<noteq> [] \<and> (\<exists>e\<in>set (nbrs u). normalize_path (ed_target e) = v)"

fun walk :: "(string \<Rightarrow> edge list) \<Rightarrow> string \<Rightarrow> string list \<Rightarrow> bool" where
  "walk nbrs u [] \<longleftrightarrow> True"
| "walk nbrs u (v # vs) \<longleftrightarrow> succ_of nbrs u v \<and> walk nbrs v vs"

text \<open>A reported path: hops and edges match one another and the graph.\<close>

fun path_ok :: "(string \<Rightarrow> edge list) \<Rightarrow> string list \<Rightarrow> edge list \<Rightarrow> bool" where
  "path_ok nbrs [u] [] \<longleftrightarrow> True"
| "path_ok nbrs (u # v # hs) (e # es) \<longleftrightarrow>
     e \<in> set (nbrs u) \<and> normalize_path (ed_target e) = v \<and> v \<noteq> [] \<and> path_ok nbrs (v # hs) es"
| "path_ok nbrs hs es \<longleftrightarrow> False"

lemma enqueue_spec:
  assumes "enqueue_neighbors to n k es seen parent q = (found, seen', parent', q')" "to \<notin> seen"
  shows "\<exists>vs new. new = set vs \<union> (if found then {to} else {}) \<and>
    q' = q @ map (\<lambda>v. (v, k + 1)) vs \<and> new \<inter> seen = {} \<and> to \<notin> set vs \<and> seen' = seen \<union> new \<and>
    (\<forall>v. v \<notin> new \<longrightarrow> parent' v = parent v) \<and>
    (\<forall>v\<in>new. \<exists>e\<in>set es. normalize_path (ed_target e) = v \<and> v \<noteq> [] \<and> parent' v = Some (n, e)) \<and>
    (\<not> found \<longrightarrow>
      (\<forall>e\<in>set es. normalize_path (ed_target e) \<noteq> [] \<longrightarrow> normalize_path (ed_target e) \<in> seen'))"
  using assms
proof (induction es arbitrary: seen parent q)
  case Nil
  then show ?case by (intro exI [of _ "[]"]) auto
next
  case (Cons e es)
  let ?t = "normalize_path (ed_target e)"
  consider "?t = [] \<or> ?t \<in> seen" | "?t \<noteq> []" "?t \<notin> seen" "?t = to"
    | "?t \<noteq> []" "?t \<notin> seen" "?t \<noteq> to" by blast
  then show ?case
  proof cases
    case 1
    with Cons.prems have *: "enqueue_neighbors to n k es seen parent q = (found, seen', parent', q')"
      by (simp add: Let_def split: if_splits)
    from Cons.IH [OF this Cons.prems(2)] obtain vs new where
      IH: "new = set vs \<union> (if found then {to} else {})" "q' = q @ map (\<lambda>v. (v, k + 1)) vs"
      "new \<inter> seen = {}" "to \<notin> set vs" "seen' = seen \<union> new"
      "\<forall>v. v \<notin> new \<longrightarrow> parent' v = parent v"
      "\<forall>v\<in>new. \<exists>e\<in>set es. normalize_path (ed_target e) = v \<and> v \<noteq> [] \<and> parent' v = Some (n, e)"
      "\<not> found \<longrightarrow> (\<forall>e\<in>set es. normalize_path (ed_target e) \<noteq> [] \<longrightarrow>
        normalize_path (ed_target e) \<in> seen')"
      by (elim exE conjE) (rule that)
    have "\<forall>v\<in>new. \<exists>e'\<in>set (e # es). normalize_path (ed_target e') = v \<and> v \<noteq> [] \<and>
        parent' v = Some (n, e')"
      using IH(7) by (meson list.set_intros(2))
    moreover have "\<not> found \<longrightarrow> (\<forall>e'\<in>set (e # es). normalize_path (ed_target e') \<noteq> [] \<longrightarrow>
        normalize_path (ed_target e') \<in> seen')"
      using IH(5,8) 1 by auto
    ultimately show ?thesis
      using IH(1-6) by (intro exI [of _ vs] exI [of _ new] conjI)
  next
    case 2
    with Cons.prems show ?thesis by (intro exI [of _ "[]"]) (auto simp: Let_def)
  next
    case 3
    with Cons.prems have *: "enqueue_neighbors to n k es (insert ?t seen) (parent(?t \<mapsto> (n, e)))
        (q @ [(?t, k + 1)]) = (found, seen', parent', q')" by (auto simp: Let_def)
    have "to \<notin> insert ?t seen" using Cons.prems(2) 3(3) by simp
    from Cons.IH [OF * this] obtain vs new where
      new: "new = set vs \<union> (if found then {to} else {})"
      "q' = (q @ [(?t, k + 1)]) @ map (\<lambda>v. (v, k + 1)) vs" "new \<inter> insert ?t seen = {}"
      "to \<notin> set vs" "seen' = insert ?t seen \<union> new"
      and par: "\<forall>v. v \<notin> new \<longrightarrow> parent' v = (parent(?t \<mapsto> (n, e))) v"
      and ed: "\<forall>v\<in>new. \<exists>e\<in>set es. normalize_path (ed_target e) = v \<and> v \<noteq> [] \<and>
        parent' v = Some (n, e)"
      and all: "\<not> found \<longrightarrow> (\<forall>e\<in>set es. normalize_path (ed_target e) \<noteq> [] \<longrightarrow>
        normalize_path (ed_target e) \<in> seen')"
      by (elim exE conjE) (rule that)
    have "parent' ?t = Some (n, e)" using spec [OF par, of ?t] new(3) by simp
    with ed 3(1) have "\<forall>v\<in>insert ?t new. \<exists>e'\<in>set (e # es). normalize_path (ed_target e') = v \<and>
        v \<noteq> [] \<and> parent' v = Some (n, e')"
      by fastforce
    moreover have "\<forall>v. v \<notin> insert ?t new \<longrightarrow> parent' v = parent v"
      using par by simp
    ultimately show ?thesis
      using new 3 all by (intro exI [of _ "?t # vs"] exI [of _ "insert ?t new"]) auto
  qed
qed

lemma enqueue_more:
  assumes "enqueue_neighbors to n k es seen parent q = (False, seen', parent', q')" "to \<notin> seen"
  obtains vs where "q' = q @ map (\<lambda>v. (v, k + 1)) vs" "set vs \<inter> seen = {}" "to \<notin> set vs"
    "seen' = seen \<union> set vs" "\<forall>v. v \<notin> set vs \<longrightarrow> parent' v = parent v"
    "\<forall>v\<in>set vs. \<exists>e\<in>set es. normalize_path (ed_target e) = v \<and> v \<noteq> [] \<and> parent' v = Some (n, e)"
    "\<forall>e\<in>set es. normalize_path (ed_target e) \<noteq> [] \<longrightarrow> normalize_path (ed_target e) \<in> seen'"
  using enqueue_spec [OF assms] that by (elim exE conjE) simp

lemma enqueue_hit:
  assumes "enqueue_neighbors to n k es seen parent q = (True, seen', parent', q')" "to \<notin> seen"
  obtains new where "to \<in> new" "new \<inter> seen = {}" "seen' = seen \<union> new"
    "\<forall>v. v \<notin> new \<longrightarrow> parent' v = parent v"
    "\<forall>v\<in>new. \<exists>e\<in>set es. normalize_path (ed_target e) = v \<and> v \<noteq> [] \<and> parent' v = Some (n, e)"
proof -
  from enqueue_spec [OF assms] obtain vs new where "new = set vs \<union> (if True then {to} else {})"
    "new \<inter> seen = {}" "seen' = seen \<union> new" "\<forall>v. v \<notin> new \<longrightarrow> parent' v = parent v"
    "\<forall>v\<in>new. \<exists>e\<in>set es. normalize_path (ed_target e) = v \<and> v \<noteq> [] \<and> parent' v = Some (n, e)"
    by (elim exE conjE) (rule that)
  then show thesis by (intro that [of new]) simp_all
qed

text \<open>The invariant of the loop has three parts; the ghost \<open>d\<close> gives the depth at
  which a node was found.  Parents form a tree over the seen nodes; the queue holds seen nodes
  with their depths, in order and at most one level apart; a node that is no longer queued is
  not deeper than the queue and its successors have been seen.\<close>

definition tree_ok ::
  "(string \<Rightarrow> edge list) \<Rightarrow> string \<Rightarrow> parents \<Rightarrow> string set \<Rightarrow> (string \<Rightarrow> nat) \<Rightarrow> bool" where
  "tree_ok nbrs from parent seen d \<longleftrightarrow>
     from \<in> seen \<and> d from = 0 \<and>
     (\<forall>v\<in>seen - {from}. \<exists>u e. parent v = Some (u, e) \<and> u \<in> seen \<and> e \<in> set (nbrs u) \<and>
        normalize_path (ed_target e) = v \<and> v \<noteq> [] \<and> d v = d u + 1)"

definition queue_ok :: "(string \<times> nat) list \<Rightarrow> string set \<Rightarrow> (string \<Rightarrow> nat) \<Rightarrow> bool" where
  "queue_ok q seen d \<longleftrightarrow>
     (\<forall>x\<in>set q. fst x \<in> seen \<and> d (fst x) = snd x) \<and> sorted (map snd q) \<and>
     (\<forall>x\<in>set q. \<forall>y\<in>set q. snd x \<le> snd y + 1)"

definition done_ok ::
  "(string \<Rightarrow> edge list) \<Rightarrow> int \<Rightarrow> (string \<times> nat) list \<Rightarrow> string set \<Rightarrow> (string \<Rightarrow> nat) \<Rightarrow> bool" where
  "done_ok nbrs md q seen d \<longleftrightarrow>
     (\<forall>v\<in>seen. v \<notin> fst ` set q \<longrightarrow>
        (\<forall>x\<in>set q. d v \<le> snd x) \<and>
        (int (d v) < md \<longrightarrow> (\<forall>t. succ_of nbrs v t \<longrightarrow> t \<in> seen \<and> d t \<le> d v + 1)))"

definition bfs_inv ::
  "(string \<Rightarrow> edge list) \<Rightarrow> string \<Rightarrow> string \<Rightarrow> int \<Rightarrow> (string \<times> nat) list \<Rightarrow> parents \<Rightarrow> string set
     \<Rightarrow> (string \<Rightarrow> nat) \<Rightarrow> bool" where
  "bfs_inv nbrs from to md q parent seen d \<longleftrightarrow>
     tree_ok nbrs from parent seen d \<and> queue_ok q seen d \<and> done_ok nbrs md q seen d \<and>
     to \<notin> seen \<and> (\<forall>v\<in>seen. int (d v) \<le> md)"

lemma bfs_inv_init:
  "\<lbrakk>0 \<le> md; from \<noteq> to\<rbrakk> \<Longrightarrow> bfs_inv nbrs from to md [(from, 0)] Map.empty {from} (\<lambda>_. 0)"
  by (simp add: bfs_inv_def tree_ok_def queue_ok_def done_ok_def)

text \<open>Every node within reach of processed nodes has been seen.\<close>

lemma bfs_inv_closed:
  assumes q: "queue_ok q seen d" and dn: "done_ok nbrs md q seen d"
    and "u \<in> seen" "walk nbrs u vs" "int (d u) + int (length vs) \<le> md"
    and "\<forall>x\<in>set q. d u + length vs \<le> snd x"
  shows "last (u # vs) \<in> seen"
  using assms(3-)
proof (induction vs arbitrary: u)
  case (Cons v vs)
  have "u \<notin> fst ` set q"
    using Cons.prems(4) q by (force simp: queue_ok_def)
  with dn Cons.prems have v: "v \<in> seen" "d v \<le> d u + 1"
    by (auto simp: done_ok_def)
  then show ?case
    using Cons.IH [of v] Cons.prems by fastforce
qed simp

lemma queue_ok_tl: "queue_ok (x # rest) seen d \<Longrightarrow> queue_ok rest seen d"
  by (simp add: queue_ok_def)

lemma bfs_inv_drop:
  assumes inv: "bfs_inv nbrs from to md ((n, k) # rest) parent seen d" and "md \<le> int k"
  shows "bfs_inv nbrs from to md rest parent seen d"
proof -
  have q: "queue_ok ((n, k) # rest) seen d" and dn: "done_ok nbrs md ((n, k) # rest) seen d"
    using inv by (simp_all add: bfs_inv_def)
  have "done_ok nbrs md rest seen d"
    unfolding done_ok_def
  proof (intro ballI impI)
    fix v assume v: "v \<in> seen" "v \<notin> fst ` set rest"
    show "(\<forall>x\<in>set rest. d v \<le> snd x) \<and>
        (int (d v) < md \<longrightarrow> (\<forall>t. succ_of nbrs v t \<longrightarrow> t \<in> seen \<and> d t \<le> d v + 1))"
    proof (cases "v = n")
      case True
      with q assms(2) show ?thesis by (auto simp: queue_ok_def)
    next
      case False
      with dn v show ?thesis by (auto simp: done_ok_def)
    qed
  qed
  with inv queue_ok_tl [OF q] show ?thesis by (simp add: bfs_inv_def)
qed

lemma tree_extend:
  assumes tree: "tree_ok nbrs from parent seen d" and n: "n \<in> seen"
    and old: "\<forall>v. v \<notin> new \<longrightarrow> parent' v = parent v" and disj: "new \<inter> seen = {}"
    and new: "\<forall>v\<in>new. \<exists>e\<in>set (nbrs n). normalize_path (ed_target e) = v \<and> v \<noteq> [] \<and>
      parent' v = Some (n, e)"
  shows "tree_ok nbrs from parent' (seen \<union> new) (\<lambda>v. if v \<in> new then d n + 1 else d v)"
proof -
  have n': "n \<notin> new" using n disj by blast
  have "\<exists>u e. parent' v = Some (u, e) \<and> u \<in> seen \<union> new \<and> e \<in> set (nbrs u) \<and>
      normalize_path (ed_target e) = v \<and> v \<noteq> [] \<and>
      (if v \<in> new then d n + 1 else d v) = (if u \<in> new then d n + 1 else d u) + 1"
    if v: "v \<in> seen \<union> new - {from}" for v
  proof (cases "v \<in> new")
    case True
    with new obtain e where "e \<in> set (nbrs n)" "normalize_path (ed_target e) = v" "v \<noteq> []"
      "parent' v = Some (n, e)" by blast
    with True n n' show ?thesis by auto
  next
    case False
    with v have "v \<in> seen - {from}" by simp
    then obtain u e where *: "parent v = Some (u, e)" "u \<in> seen" "e \<in> set (nbrs u)"
      "normalize_path (ed_target e) = v" "v \<noteq> []" "d v = d u + 1"
      using tree unfolding tree_ok_def by blast
    moreover have "parent' v = Some (u, e)" using old False * by simp
    moreover have "u \<notin> new" using disj *(2) by blast
    ultimately show ?thesis using False
      by (intro exI [of _ u] exI [of _ e]) simp
  qed
  moreover have "from \<notin> new" using tree disj by (auto simp: tree_ok_def)
  ultimately show ?thesis using tree by (auto simp: tree_ok_def)
qed

lemma bfs_inv_step:
  assumes inv: "bfs_inv nbrs from to md ((n, k) # rest) parent seen d" and k: "int k < md"
    and enq: "enqueue_neighbors to n k (nbrs n) seen parent rest = (False, seen1, parent1, q1)"
  shows "\<exists>d1. bfs_inv nbrs from to md q1 parent1 seen1 d1"
proof -
  have tree: "tree_ok nbrs from parent seen d" and q: "queue_ok ((n, k) # rest) seen d"
    and dn: "done_ok nbrs md ((n, k) # rest) seen d" and to: "to \<notin> seen"
    and le: "\<forall>v\<in>seen. int (d v) \<le> md"
    using inv by (simp_all add: bfs_inv_def)
  have n: "n \<in> seen" "d n = k" using q by (auto simp: queue_ok_def)
  obtain vs where
    vs: "q1 = rest @ map (\<lambda>v. (v, k + 1)) vs" "set vs \<inter> seen = {}" "to \<notin> set vs"
    "seen1 = seen \<union> set vs" "\<forall>v. v \<notin> set vs \<longrightarrow> parent1 v = parent v"
    "\<forall>v\<in>set vs. \<exists>e\<in>set (nbrs n). normalize_path (ed_target e) = v \<and> v \<noteq> [] \<and> parent1 v = Some (n, e)"
    and all: "\<forall>e\<in>set (nbrs n). normalize_path (ed_target e) \<noteq> [] \<longrightarrow> normalize_path (ed_target e) \<in> seen1"
    by (rule enqueue_more [OF enq to])
  define d1 where "d1 = (\<lambda>v. if v \<in> set vs then d n + 1 else d v)"
  have d1_old: "d1 v = d v" if "v \<in> seen" for v
    using that vs(2) by (auto simp: d1_def)
  have d1_new: "d1 v = k + 1" if "v \<in> set vs" for v
    using that n(2) by (simp add: d1_def)
  have "tree_ok nbrs from parent1 seen1 d1"
    unfolding vs(4) d1_def by (rule tree_extend [OF tree n(1) vs(5,2,6)])
  moreover have "queue_ok q1 seen1 d1"
  proof -
    have rest: "fst x \<in> seen" "d (fst x) = snd x" "k \<le> snd x" "snd x \<le> k + 1" if "x \<in> set rest" for x
      using q that by (auto simp: queue_ok_def)
    have A: "\<forall>x\<in>set q1. fst x \<in> seen1 \<and> d1 (fst x) = snd x \<and> k \<le> snd x \<and> snd x \<le> k + 1"
      using rest d1_old d1_new by (auto simp: vs(1,4))
    have "sorted (map snd q1)"
      using q rest by (auto simp: vs(1) queue_ok_def sorted_append comp_def map_replicate_const)
    moreover have "snd x \<le> snd y + 1" if "x \<in> set q1" "y \<in> set q1" for x y
      using bspec [OF A that(1)] bspec [OF A that(2)] by simp
    ultimately show ?thesis using A unfolding queue_ok_def by simp
  qed
  moreover have "done_ok nbrs md q1 seen1 d1"
    unfolding done_ok_def
  proof (intro ballI impI)
    fix v assume v: "v \<in> seen1" "v \<notin> fst ` set q1"
    then have vold: "v \<in> seen" "v \<notin> fst ` set rest" by (auto simp: vs(1,4) image_Un image_image)
    have lev: "d v \<le> k"
      using vold n(2) dn by (cases "v = n") (auto simp: done_ok_def)
    have "\<forall>x\<in>set q1. d1 v \<le> snd x"
      using lev q vold by (auto simp: vs(1) d1_old queue_ok_def)
    moreover have "t \<in> seen1 \<and> d1 t \<le> d1 v + 1" if "int (d1 v) < md" "succ_of nbrs v t" for t
    proof (cases "v = n")
      case True
      with that(2) all have t: "t \<in> seen1" by (auto simp: succ_of_def)
      have "d t \<le> k + 1" if "t \<in> seen"
      proof (cases "t \<in> fst ` set ((n, k) # rest)")
        case True
        then obtain x where "x \<in> set ((n, k) # rest)" "t = fst x" by blast
        moreover have "(n, k) \<in> set ((n, k) # rest)" by simp
        ultimately show ?thesis using q unfolding queue_ok_def
          by (metis (no_types, lifting) snd_conv)
      next
        case False
        then have "\<forall>x\<in>set ((n, k) # rest). d t \<le> snd x" using dn \<open>t \<in> seen\<close> unfolding done_ok_def by blast
        then show ?thesis by simp
      qed
      with t True n d1_new [of t] show ?thesis
        by (cases "t \<in> set vs") (auto simp: vs(4) d1_old)
    next
      case False
      with vold that dn have "t \<in> seen" "d t \<le> d v + 1"
        by (auto simp: done_ok_def d1_old)
      with vold show ?thesis by (simp add: vs(4) d1_old)
    qed
    ultimately show "(\<forall>x\<in>set q1. d1 v \<le> snd x) \<and>
        (int (d1 v) < md \<longrightarrow> (\<forall>t. succ_of nbrs v t \<longrightarrow> t \<in> seen1 \<and> d1 t \<le> d1 v + 1))"
      by blast
  qed
  moreover have "to \<notin> seen1" using to vs(3,4) by simp
  moreover have "\<forall>v\<in>seen1. int (d1 v) \<le> md"
    using le k d1_old d1_new by (auto simp: vs(4))
  ultimately show ?thesis unfolding bfs_inv_def by blast
qed

text \<open>What a finished search means.\<close>

definition reaches_in ::
  "(string \<Rightarrow> edge list) \<Rightarrow> string \<Rightarrow> string \<Rightarrow> nat \<Rightarrow> bool" where
  "reaches_in nbrs from to j \<longleftrightarrow> (\<exists>vs. walk nbrs from vs \<and> last (from # vs) = to \<and> length vs = j)"

lemma bfs_found:
  assumes inv: "bfs_inv nbrs from to md ((n, k) # rest) parent seen d" and k: "int k < md"
    and enq: "enqueue_neighbors to n k (nbrs n) seen parent rest = (True, seen1, parent1, q1)"
  shows "\<exists>d1. tree_ok nbrs from parent1 seen1 d1 \<and> to \<in> seen1 \<and> int (d1 to) \<le> md \<and>
    (\<forall>j. reaches_in nbrs from to j \<longrightarrow> d1 to \<le> j)"
proof -
  have tree: "tree_ok nbrs from parent seen d" and q: "queue_ok ((n, k) # rest) seen d"
    and dn: "done_ok nbrs md ((n, k) # rest) seen d" and to: "to \<notin> seen"
    using inv by (simp_all add: bfs_inv_def)
  have n: "n \<in> seen" "d n = k" using q by (auto simp: queue_ok_def)
  obtain new where
    new: "to \<in> new" "new \<inter> seen = {}" "seen1 = seen \<union> new" "\<forall>v. v \<notin> new \<longrightarrow> parent1 v = parent v"
    "\<forall>v\<in>new. \<exists>e\<in>set (nbrs n). normalize_path (ed_target e) = v \<and> v \<noteq> [] \<and> parent1 v = Some (n, e)"
    by (rule enqueue_hit [OF enq to])
  let ?d = "\<lambda>v. if v \<in> new then d n + 1 else d v"
  have "k + 1 \<le> j" if r: "reaches_in nbrs from to j" for j
  proof (rule ccontr)
    assume "\<not> k + 1 \<le> j"
    moreover obtain vs where "walk nbrs from vs" "last (from # vs) = to" "length vs = j"
      using r by (auto simp: reaches_in_def)
    moreover have "from \<in> seen" "d from = 0" using tree by (auto simp: tree_ok_def)
    moreover have "\<forall>x\<in>set ((n, k) # rest). k \<le> snd x" using q by (auto simp: queue_ok_def)
    ultimately have "to \<in> seen"
      using bfs_inv_closed [OF q dn, of "from" vs] k by fastforce
    with to show False by simp
  qed
  moreover have "tree_ok nbrs from parent1 seen1 ?d"
    unfolding new(3) by (rule tree_extend [OF tree n(1) new(4,2,5)])
  ultimately show ?thesis
    using new(1,3) n(2) k by (intro exI [of _ ?d]) simp
qed

lemma bfs_exhausted:
  assumes inv: "bfs_inv nbrs from to md [] parent seen d" and r: "reaches_in nbrs from to j"
  shows "md < int j"
proof (rule ccontr)
  assume "\<not> md < int j"
  moreover obtain vs where "walk nbrs from vs" "last (from # vs) = to" "length vs = j"
    using r by (auto simp: reaches_in_def)
  moreover have "from \<in> seen" "d from = 0" using inv by (auto simp: bfs_inv_def tree_ok_def)
  ultimately have "to \<in> seen"
    using bfs_inv_closed [of "[]" seen d nbrs md "from" vs] inv by (simp add: bfs_inv_def)
  with inv show False by (simp add: bfs_inv_def)
qed

definition search_ok ::
  "(string \<Rightarrow> edge list) \<Rightarrow> string \<Rightarrow> string \<Rightarrow> int \<Rightarrow> search \<Rightarrow> bool" where
  "search_ok nbrs from to md r =
     (case r of
        Found parent \<Rightarrow>
          (\<exists>seen d. tree_ok nbrs from parent seen d \<and> to \<in> seen \<and> int (d to) \<le> md \<and>
             (\<forall>j. reaches_in nbrs from to j \<longrightarrow> d to \<le> j))
      | Exhausted \<Rightarrow> (\<forall>j. reaches_in nbrs from to j \<longrightarrow> md < int j)
      | OverBudget \<Rightarrow> True)"

lemma bfs_loop_Nil: "bfs_loop nbrs to md mv [] parent seen visited = Exhausted"
  by (simp add: bfs_loop.simps)

lemma bfs_loop_Cons:
  "bfs_loop nbrs to md mv ((n, k) # rest) parent seen visited =
     (if int (visited + 1) > mv then OverBudget
      else if md \<le> int k then bfs_loop nbrs to md mv rest parent seen (visited + 1)
      else (case enqueue_neighbors to n k (nbrs n) seen parent rest of
              (found, seen1, parent1, q1) \<Rightarrow>
                if found then Found parent1
                else bfs_loop nbrs to md mv q1 parent1 seen1 (visited + 1)))"
  by (subst bfs_loop.simps) simp

lemma bfs_loop_ok:
  "bfs_inv nbrs from to md q parent seen d \<Longrightarrow>
     search_ok nbrs from to md (bfs_loop nbrs to md mv q parent seen visited)"
proof (induction nbrs to md mv q parent seen visited arbitrary: d rule: bfs_loop.induct)
  case (1 nbrs to md mv q parent seen visited)
  show ?case
  proof (cases q)
    case Nil
    then show ?thesis
      using bfs_exhausted [of nbrs "from" to md parent seen d] 1(3)
      by (simp add: bfs_loop_Nil search_ok_def)
  next
    case (Cons x rest)
    obtain n k where x: "x = (n, k)" by fastforce
    obtain f seen1 parent1 q1 where
      enq: "enqueue_neighbors to n k (nbrs n) seen parent rest = (f, seen1, parent1, q1)"
      by (metis surj_pair)
    note inv = 1(3) [unfolded Cons x]
    consider "int (visited + 1) > mv" | "\<not> int (visited + 1) > mv" "md \<le> int k"
      | "\<not> int (visited + 1) > mv" "int k < md" by linarith
    then show ?thesis
    proof cases
      case 1
      then show ?thesis
        by (simp add: Cons x bfs_loop_Cons search_ok_def)
    next
      case 2
      with "1.IH"(1) [OF Cons x [symmetric] 2(1) 2(2) bfs_inv_drop [OF inv 2(2)]] show ?thesis
        by (simp add: Cons x bfs_loop_Cons)
    next
      case 3
      show ?thesis
      proof (cases f)
        case True
        with bfs_found [OF inv 3(2), of seen1 parent1 q1] enq 3 show ?thesis
          by (auto simp: Cons x bfs_loop_Cons search_ok_def)
      next
        case False
        with bfs_inv_step [OF inv 3(2), of seen1 parent1 q1] enq obtain d1 where
          d1: "bfs_inv nbrs from to md q1 parent1 seen1 d1" by auto
        from 3(2) have "\<not> md \<le> int k" by simp
        from "1.IH"(2) [OF Cons x [symmetric] 3(1) this enq [symmetric] refl refl False d1]
        show ?thesis using 3 enq False
          by (simp add: Cons x bfs_loop_Cons)
      qed
    qed
  qed
qed

section \<open>Reading off the path\<close>

lemma path_ok_snoc:
  "\<lbrakk>path_ok nbrs hs es; e \<in> set (nbrs (last hs)); normalize_path (ed_target e) = v; v \<noteq> []\<rbrakk> \<Longrightarrow>
     path_ok nbrs (hs @ [v]) (es @ [e])"
  by (induction nbrs hs es rule: path_ok.induct) auto

lemma path_ok_length: "path_ok nbrs hs es \<Longrightarrow> length hs = Suc (length es)"
  by (induction nbrs hs es rule: path_ok.induct) auto

lemma follow_parents_ok:
  assumes "tree_ok nbrs from parent seen d" "cur \<in> seen"
  shows "\<exists>hs es. follow_parents from parent cur hr er = Some (Some (hr @ rev hs, er @ rev es)) \<and>
    path_ok nbrs hs es \<and> hd hs = from \<and> last hs = cur \<and> length es = d cur"
  using assms(2)
proof (induction "d cur" arbitrary: cur hr er rule: less_induct)
  case less
  show ?case
  proof (cases "cur = from")
    case True
    with assms(1) show ?thesis
      by (subst follow_parents.simps)
        (intro exI [of _ "[cur]"] exI [of _ "[]"], simp add: tree_ok_def)
  next
    case False
    with less.prems assms(1) obtain u e where
      u: "parent cur = Some (u, e)" "u \<in> seen" "e \<in> set (nbrs u)"
      "normalize_path (ed_target e) = cur" "cur \<noteq> []" "d cur = d u + 1"
      unfolding tree_ok_def by blast
    from less.hyps [of u "hr @ [cur]" "er @ [e]"] u(2,6) obtain hs es where
      IH: "follow_parents from parent u (hr @ [cur]) (er @ [e]) =
        Some (Some ((hr @ [cur]) @ rev hs, (er @ [e]) @ rev es))"
      "path_ok nbrs hs es" "hd hs = from" "last hs = u" "length es = d u" by auto
    have "hs \<noteq> []" using IH(2) by auto
    moreover have "path_ok nbrs (hs @ [cur]) (es @ [e])"
      by (rule path_ok_snoc) (use IH u in simp_all)
    ultimately show ?thesis
      using IH u False
      by (subst follow_parents.simps)
        (intro exI [of _ "hs @ [cur]"] exI [of _ "es @ [e]"], simp)
  qed
qed

text \<open>Everything the search promises about one graph.\<close>

definition path_found ::
  "(string \<Rightarrow> edge list) \<Rightarrow> string \<Rightarrow> string \<Rightarrow> int \<Rightarrow> string list \<Rightarrow> edge list \<Rightarrow> bool" where
  "path_found nbrs from to md hs es \<longleftrightarrow>
     path_ok nbrs hs es \<and> hd hs = from \<and> last hs = to \<and> int (length es) \<le> md \<and>
     (\<forall>j. reaches_in nbrs from to j \<longrightarrow> length es \<le> j)"

lemma reconstruct_ok:
  assumes "tree_ok nbrs from parent seen d" "to \<in> seen"
  shows "\<exists>hs es. reconstruct from to parent = Some (hs, es, False, True) \<and>
    path_ok nbrs hs es \<and> hd hs = from \<and> last hs = to \<and> length es = d to"
  using follow_parents_ok [OF assms, of "[]" "[]"] by (auto simp: reconstruct_def)

lemma bfs_ok:
  assumes "from \<noteq> to" "0 \<le> bg_max_depth b"
  shows "(\<exists>hs es. bfs ix from to b u = Some (hs, es, False, True) \<and>
      path_found (sorted_neighbors ix u) from to (bg_max_depth b) hs es) \<or>
    (bfs ix from to b u = Some ([], [], False, False) \<and>
      (\<forall>j. reaches_in (sorted_neighbors ix u) from to j \<longrightarrow> bg_max_depth b < int j)) \<or>
    bfs ix from to b u = Some ([], [], True, False)"
proof -
  let ?nb = "sorted_neighbors ix u"
  let ?r = "bfs_loop ?nb to (bg_max_depth b) (bg_max_visit b) [(from, 0)] Map.empty {from} 0"
  have ok: "search_ok ?nb from to (bg_max_depth b) ?r"
    by (rule bfs_loop_ok) (rule bfs_inv_init [OF assms(2,1)])
  show ?thesis
  proof (cases ?r)
    case (Found parent)
    with ok obtain seen d where t: "tree_ok ?nb from parent seen d" "to \<in> seen"
      "int (d to) \<le> bg_max_depth b" "\<forall>j. reaches_in ?nb from to j \<longrightarrow> d to \<le> j"
      by (auto simp: search_ok_def)
    from reconstruct_ok [OF t(1,2)] t(3,4) Found show ?thesis
      by (auto simp: bfs_def path_found_def)
  qed (use ok in \<open>auto simp: bfs_def search_ok_def\<close>)
qed

lemma path_depth_nonneg [simp]: "0 \<le> bg_max_depth (with_path_defaults b)"
  by (simp add: with_path_defaults_def with_defaults_def)

section \<open>Properties of ShortestPath\<close>

text \<open>C40: \<open>ShortestPath\<close> returns on every index, pair of nodes, budget and
  direction: following the parents of a search that met its target always ends.\<close>

theorem shortest_path_returns: "\<exists>r. shortest_path ix f t b u = Some r"
proof (cases "normalize_path f = normalize_path t")
  case False
  obtain h1 e1 t1 k1 h2 e2 t2 k2 where
    "bfs ix (normalize_path f) (normalize_path t) (with_path_defaults b) False = Some (h1, e1, t1, k1)"
    "bfs ix (normalize_path f) (normalize_path t) (with_path_defaults b) True = Some (h2, e2, t2, k2)"
    using bfs_ok [OF False path_depth_nonneg, of ix b] by meson
  then show ?thesis by (simp add: shortest_path_def Let_def)
qed (simp add: shortest_path_def Let_def)

text \<open>C30: a reported path is a path of the graph from the one node to the other (directed
  edges only when \<open>Directed\<close> is set), its \<open>Length\<close> is its number of edges and
  within the depth budget, and no walk between the two nodes is shorter.\<close>

theorem shortest_path_sound:
  assumes "shortest_path ix f t b u = Some r" "pr_found r"
  shows "path_found (sorted_neighbors ix (\<not> pr_directed r)) (normalize_path f) (normalize_path t)
      (bg_max_depth (with_path_defaults b)) (pr_hops r) (pr_edges r) \<and>
    pr_length r = length (pr_edges r)"
proof (cases "normalize_path f = normalize_path t")
  case True
  with assms show ?thesis
    by (auto simp: shortest_path_def Let_def path_found_def split: if_splits)
next
  case False
  note ok = bfs_ok [OF False path_depth_nonneg, of ix b]
  from assms False show ?thesis
    using ok [of False] ok [of True]
    by (auto simp: shortest_path_def Let_def split: if_splits option.splits)
qed

text \<open>C31: unless the visit budget cut the search short, a missing directed path means that the
  graph has none within the depth budget, and a missing path with undirected search allowed
  means that the undirected graph has none either.\<close>

theorem shortest_path_complete:
  assumes "shortest_path ix f t b u = Some r" "\<not> pr_truncated r"
    and "normalize_path f \<noteq> []" "normalize_path t \<noteq> []"
  shows "(pr_found r \<and> pr_directed r \<or>
      (\<forall>j. reaches_in (sorted_neighbors ix False) (normalize_path f) (normalize_path t) j \<longrightarrow>
        bg_max_depth (with_path_defaults b) < int j)) \<and>
    (pr_found r \<or> \<not> u \<or>
      (\<forall>j. reaches_in (sorted_neighbors ix True) (normalize_path f) (normalize_path t) j \<longrightarrow>
        bg_max_depth (with_path_defaults b) < int j))"
proof (cases "normalize_path f = normalize_path t")
  case True
  with assms show ?thesis by (auto simp: shortest_path_def Let_def)
next
  case False
  note ok = bfs_ok [OF False path_depth_nonneg, of ix b]
  from assms False show ?thesis
    using ok [of False] ok [of True]
    by (auto simp: shortest_path_def Let_def split: if_splits option.splits)
qed

definition demo_index :: graph_index where
  "demo_index = build [(''a/x.go'', [''b'']), (''b/y.go'', [''c''])] []"

definition no_budget :: budget where
  "no_budget = \<lparr>bg_max_depth = 0, bg_max_visit = 0, bg_max_edges = 0\<rparr>"

definition demo_path :: path_result where
  "demo_path =
     \<lparr>pr_from = ''a/x.go'', pr_to = ''b/y.go'', pr_found = True, pr_directed = True,
      pr_hops = [''a/x.go'', ''b/'', ''b/y.go''],
      pr_edges =
        [\<lparr>ed_source = ''a/x.go'', ed_target = ''b/'', ed_kind = ''imports'', ed_reverse = False\<rparr>,
         \<lparr>ed_source = ''b/'', ed_target = ''b/y.go'', ed_kind = ''contains'', ed_reverse = False\<rparr>],
      pr_length = 2, pr_truncated = False\<rparr>"

lemma demo_runs:
  "shortest_path demo_index ''a/x.go'' ''b/y.go'' no_budget False = Some demo_path"
  "map_option (\<lambda>r. (pr_found r, pr_truncated r))
     (shortest_path demo_index ''b/y.go'' ''a/x.go'' no_budget False) = Some (False, False)"
  "normalize_path ''a/x.go'' = ''a/x.go''" "normalize_path ''b/y.go'' = ''b/y.go''"
  "bg_max_depth (with_path_defaults no_budget) = 8"
  by code_simp+

lemma shortest_path_sound_witness:
  "path_found (sorted_neighbors demo_index False) ''a/x.go'' ''b/y.go'' 8
     [''a/x.go'', ''b/'', ''b/y.go''] (pr_edges demo_path)"
proof -
  have "pr_found demo_path" by (simp add: demo_path_def)
  from shortest_path_sound [OF demo_runs(1) this] show ?thesis
    by (simp add: demo_runs(3-5)) (simp add: demo_path_def)
qed

lemma shortest_path_complete_witness:
  "\<not> reaches_in (sorted_neighbors demo_index False) ''b/y.go'' ''a/x.go'' 8"
proof -
  obtain r where r: "shortest_path demo_index ''b/y.go'' ''a/x.go'' no_budget False = Some r"
    "\<not> pr_found r" "\<not> pr_truncated r"
    using demo_runs(2) by auto
  have "normalize_path ''b/y.go'' \<noteq> []" "normalize_path ''a/x.go'' \<noteq> []"
    by (simp_all add: demo_runs(3,4))
  from shortest_path_complete [OF r(1,3) this] r(2) show ?thesis
    by (auto simp: demo_runs(3-5))
qed

section \<open>The size of a neighbourhood\<close>

text \<open>The edges of a walk are distinct by source, target and kind, and within the budget;
  without truncation every edge met is reported.\<close>

definition walk_inv :: "int \<Rightarrow> walk_state \<Rightarrow> bool" where
  "walk_inv max_edges s \<longleftrightarrow>
     (ws_edges s \<noteq> [] \<longrightarrow> int (length (ws_edges s)) \<le> max_edges) \<and>
     distinct (map edge_key (ws_edges s)) \<and>
     edge_key ` set (ws_edges s) \<subseteq> ws_edge_seen s \<and>
     (\<not> ws_truncated s \<longrightarrow> edge_key ` set (ws_edges s) = ws_edge_seen s) \<and>
     distinct (map fst (ws_depths s))"

lemma note_depth_distinct: "distinct (map fst ds) \<Longrightarrow> distinct (map fst (note_depth n d ds))"
  by (auto simp: note_depth_def map_of_eq_None_iff)

lemma walk_edge_inv: "walk_inv m s \<Longrightarrow> walk_inv m (walk_edge m depth e s)"
  by (auto simp: walk_inv_def walk_edge_def Let_def note_depth_distinct)

lemma walk_edges_inv: "walk_inv m s \<Longrightarrow> walk_inv m (fold (walk_edge m depth) es s)"
  by (induction es arbitrary: s) (auto intro: walk_edge_inv)

lemma walk_inv_queue: "walk_inv m (s\<lparr>ws_queue := q\<rparr>) = walk_inv m s"
  by (simp add: walk_inv_def)

lemma bfs_walk_loop_inv:
  "walk_inv (bg_max_edges b) s \<Longrightarrow> walk_inv (bg_max_edges b) (bfs_walk_loop nbrs b visited s)"
proof (induction nbrs b visited s rule: bfs_walk_loop.induct)
  case (1 nbrs b visited s)
  show ?case
  proof (cases "ws_queue s")
    case Nil
    with 1(3) show ?thesis by (simp add: bfs_walk_loop.simps)
  next
    case (Cons x rest)
    obtain n k where x: "x = (n, k)" by fastforce
    let ?s1 = "s\<lparr>ws_queue := rest, ws_depths := note_depth n k (ws_depths s)\<rparr>"
    have inv1: "walk_inv (bg_max_edges b) ?s1"
      using 1(3) by (auto simp: walk_inv_def note_depth_distinct)
    consider "int (visited + 1) > bg_max_visit b"
      | "\<not> int (visited + 1) > bg_max_visit b" "bg_max_depth b \<le> int k"
      | "\<not> int (visited + 1) > bg_max_visit b" "\<not> bg_max_depth b \<le> int k" by blast
    then show ?thesis
    proof cases
      case 1
      with \<open>walk_inv (bg_max_edges b) s\<close> show ?thesis
        by (subst bfs_walk_loop.simps) (auto simp: Cons x walk_inv_def)
    next
      case 2
      with "1.IH"(1) [OF Cons x [symmetric] 2(1) refl 2(2) inv1] show ?thesis
        by (subst bfs_walk_loop.simps) (simp add: Cons x Let_def)
    next
      case 3
      with "1.IH"(2) [OF Cons x [symmetric] 3(1) refl 3(2) walk_edges_inv [OF inv1]] show ?thesis
        by (subst bfs_walk_loop.simps) (simp add: Cons x Let_def)
    qed
  qed
qed

text \<open>the neighbourhood of any seed stays within the edge budget and reports no edge and
  no node twice.\<close>

theorem neighborhood_bounded:
  "int (length (sg_edges (neighborhood ix seed b inbound))) \<le> bg_max_edges (with_subgraph_defaults b) \<and>
   distinct (map edge_key (sg_edges (neighborhood ix seed b inbound))) \<and>
   distinct (map nd_id (sg_nodes (neighborhood ix seed b inbound)))"
proof -
  let ?b = "with_subgraph_defaults b" and ?seeds = "resolve_seeds ix seed"
  let ?s = "bfs_walk ix ?seeds ?b inbound"
  have pos: "0 \<le> bg_max_edges ?b" by (simp add: with_subgraph_defaults_def with_defaults_def)
  have inv: "walk_inv (bg_max_edges ?b) ?s"
    unfolding bfs_walk_def by (rule bfs_walk_loop_inv) (simp add: walk_inv_def)
  show ?thesis
  proof (cases "?seeds = []")
    case False
    have mset: "mset (map edge_key (sort_key (\<lambda>e. (ed_source e, ed_target e)) (ws_edges ?s))) =
        mset (map edge_key (ws_edges ?s))" by simp
    have "distinct (map edge_key (sort_key (\<lambda>e. (ed_source e, ed_target e)) (ws_edges ?s)))"
      using inv mset_eq_imp_distinct_iff [OF mset] by (simp add: walk_inv_def)
    moreover have "int (length (ws_edges ?s)) \<le> bg_max_edges ?b"
      using inv pos by (cases "ws_edges ?s = []") (auto simp: walk_inv_def)
    moreover have "distinct (map nd_id (sort_key nd_id (map f (ws_depths ?s))))"
      if "\<And>x. nd_id (f x) = fst x" for f :: "string \<times> nat \<Rightarrow> node"
    proof -
      have "mset (map nd_id (sort_key nd_id (map f (ws_depths ?s)))) = mset (map fst (ws_depths ?s))"
        using that by (simp add: image_mset.compositionality comp_def)
      from mset_eq_imp_distinct_iff [OF this] inv show ?thesis by (simp add: walk_inv_def)
    qed
    ultimately show ?thesis
      using False by (simp add: neighborhood_def Let_def split_beta)
  qed (simp add: neighborhood_def Let_def pos)
qed

end
