(* ===== verification/TopK.thy ===== *)
theory TopK
  imports GoPrelude
begin

text \<open>
  The fixed-size min-heap of the similarity scan of \<open>internal/localstore/localstore.go\<close>
  (\<open>pushSimilarHitTopK\<close>, \<open>siftDownHits\<close>, \<open>searchSimilar\<close>).
  A hit is its score and the row it belongs to; scores are any linear order (the floats that
  are numbers).  The heap keeps the best scores: the final list is the prefix of the sorted
  list of all hits, up to ties.
\<close>

section \<open>The heap\<close>

function sift_down :: "('s::linorder \<times> 'r) list \<Rightarrow> nat \<Rightarrow> nat \<Rightarrow> ('s \<times> 'r) list" where
  "sift_down items i n =
     (let left = 2 * i + 1; right = 2 * i + 2;
          s1 = (if left < n \<and> fst (items ! left) < fst (items ! i) then left else i);
          s2 = (if right < n \<and> fst (items ! right) < fst (items ! s1) then right else s1)
      in if s2 = i then items
         else sift_down (items[i := items ! s2, s2 := items ! i]) s2 n)"
  by pat_completeness auto
termination
proof (relation "measure (\<lambda>(items, i, n). n - i)", goal_cases)
  case (2 items i n left right s1 s2)
  have "s1 = i \<or> s1 = left \<and> left < n"
    using 2(3) by metis
  then have "s2 = i \<or> s2 = left \<and> left < n \<or> s2 = right \<and> right < n"
    using 2(4) by metis
  with 2(5) have "i < s2 \<and> s2 < n" using 2(1,2) by auto
  then show ?case by auto
qed simp

declare sift_down.simps [simp del]

definition heapify :: "('s::linorder \<times> 'r) list \<Rightarrow> ('s \<times> 'r) list" where
  "heapify items =
     fold (\<lambda>i xs. sift_down xs i (length xs)) (rev [0..<length items div 2]) items"

definition push_top_k :: "nat \<Rightarrow> 's::linorder \<times> 'r \<Rightarrow> ('s \<times> 'r) list \<Rightarrow> ('s \<times> 'r) list" where
  "push_top_k k r hp =
     (if length hp < k
      then (let hp1 = hp @ [r] in if length hp1 = k then heapify hp1 else hp1)
      else if fst r \<le> fst (hp ! 0) then hp
      else sift_down (hp[0 := r]) 0 (length hp))"

definition search_similar :: "nat \<Rightarrow> ('s::linorder \<times> 'r) list \<Rightarrow> ('s \<times> 'r) list" where
  "search_similar k rows =
     (if k = 0 then rev (sort_key fst (rev rows))
      else rev (sort_key fst (rev (fold (push_top_k k) rows []))))"

section \<open>The heap order\<close>

definition kid :: "nat \<Rightarrow> nat \<Rightarrow> bool" where
  "kid p c \<longleftrightarrow> c = 2 * p + 1 \<or> c = 2 * p + 2"

definition heap_from :: "nat \<Rightarrow> ('s::linorder \<times> 'r) list \<Rightarrow> bool" where
  "heap_from j xs \<longleftrightarrow> (\<forall>p c. j \<le> p \<and> kid p c \<and> c < length xs \<longrightarrow> fst (xs ! p) \<le> fst (xs ! c))"

text \<open>The order holds except below \<open>i\<close>, whose children are above its parent.\<close>

definition heap_but :: "nat \<Rightarrow> nat \<Rightarrow> ('s::linorder \<times> 'r) list \<Rightarrow> bool" where
  "heap_but j i xs \<longleftrightarrow>
     (\<forall>p c. j \<le> p \<and> p \<noteq> i \<and> kid p c \<and> c < length xs \<longrightarrow> fst (xs ! p) \<le> fst (xs ! c)) \<and>
     (\<forall>p c. j \<le> p \<and> kid p i \<and> kid i c \<and> c < length xs \<longrightarrow> fst (xs ! p) \<le> fst (xs ! c))"

lemma kid_inj: "kid p c \<Longrightarrow> kid q c \<Longrightarrow> p = q"
  by (auto simp: kid_def; presburger)

lemma kid_less: "kid p c \<Longrightarrow> p < c"
  by (auto simp: kid_def)

lemma heap_but_swap:
  assumes "heap_but j i xs" "j \<le> i" "kid i s" "s < length xs" "fst (xs ! s) < fst (xs ! i)"
    "\<And>c. kid i c \<Longrightarrow> c < length xs \<Longrightarrow> fst (xs ! s) \<le> fst (xs ! c)"
  shows "heap_but j s (xs[i := xs ! s, s := xs ! i])"
proof -
  have si: "i < s" "i < length xs" using assms kid_less by force+
  have 1: "fst (xs[i := xs ! s, s := xs ! i] ! p) \<le> fst (xs[i := xs ! s, s := xs ! i] ! c)"
    if "j \<le> p" "p \<noteq> s" "kid p c" "c < length xs" for p c
  proof (cases "p = i")
    case True
    with that assms si show ?thesis using kid_less [of i c] by (cases "c = s") auto
  next
    case False
    then have "c \<noteq> s" using that assms(3) kid_inj by blast
    moreover have "fst (xs ! p) \<le> fst (xs ! s)" if "c = i"
      using that \<open>j \<le> p\<close> \<open>kid p c\<close> assms(1,3,4) unfolding heap_but_def by blast
    ultimately show ?thesis using that False si assms(1)
      by (auto simp: nth_list_update heap_but_def)
  qed
  have 2: "fst (xs[i := xs ! s, s := xs ! i] ! p) \<le> fst (xs[i := xs ! s, s := xs ! i] ! c)"
    if "j \<le> p" "kid p s" "kid s c" "c < length xs" for p c
  proof -
    have "p = i" using that assms(3) kid_inj by blast
    moreover have "fst (xs ! s) \<le> fst (xs ! c)"
      using that assms(1,2,3) si unfolding heap_but_def by (metis less_imp_le nat_less_le order_trans)
    ultimately show ?thesis using that si kid_less [of s c] by (auto simp: nth_list_update)
  qed
  show ?thesis unfolding heap_but_def using 1 2 by simp
qed

lemma sift_down_heap:
  assumes "heap_but j i xs" "j \<le> i" "n = length xs"
  shows "heap_from j (sift_down xs i n)"
  using assms
proof (induction xs i n rule: sift_down.induct)
  case (1 xs i n)
  define s1 where "s1 = (if 2 * i + 1 < n \<and> fst (xs ! (2 * i + 1)) < fst (xs ! i) then 2 * i + 1 else i)"
  define s2 where "s2 = (if 2 * i + 2 < n \<and> fst (xs ! (2 * i + 2)) < fst (xs ! s1) then 2 * i + 2 else s1)"
  have least: "fst (xs ! s2) \<le> fst (xs ! c)" if "kid i c" "c < n" for c
    using that by (auto simp: kid_def s1_def s2_def split: if_splits)
  have unf: "sift_down xs i n = (if s2 = i then xs else sift_down (xs[i := xs ! s2, s2 := xs ! i]) s2 n)"
    by (subst sift_down.simps) (simp add: Let_def s1_def s2_def)
  show ?case
  proof (cases "s2 = i")
    case True
    with unf least 1(2,4) show ?thesis unfolding heap_from_def heap_but_def by auto
  next
    case False
    then have s2: "kid i s2" "s2 < n" "fst (xs ! s2) < fst (xs ! i)"
      by (auto simp: kid_def s1_def s2_def split: if_splits)
    have "heap_but j s2 (xs[i := xs ! s2, s2 := xs ! i])"
      by (rule heap_but_swap) (use 1(2-4) s2 least in auto)
    moreover have "j \<le> s2" using 1(3) s2(1) kid_less by force
    ultimately show ?thesis
      using 1(1) [OF refl refl s1_def s2_def False] 1(4) unf False by simp
  qed
qed

lemma sift_down_mset:
  "i < length xs \<Longrightarrow> n = length xs \<Longrightarrow> mset (sift_down xs i n) = mset xs"
proof (induction xs i n rule: sift_down.induct)
  case (1 xs i n)
  define s1 where "s1 = (if 2 * i + 1 < n \<and> fst (xs ! (2 * i + 1)) < fst (xs ! i) then 2 * i + 1 else i)"
  define s2 where "s2 = (if 2 * i + 2 < n \<and> fst (xs ! (2 * i + 2)) < fst (xs ! s1) then 2 * i + 2 else s1)"
  have unf: "sift_down xs i n = (if s2 = i then xs else sift_down (xs[i := xs ! s2, s2 := xs ! i]) s2 n)"
    by (subst sift_down.simps) (simp add: Let_def s1_def s2_def)
  have "s2 < n" using 1(2,3) by (auto simp: s1_def s2_def)
  then show ?case
    using 1(1) [OF refl refl s1_def s2_def] 1(2,3) unf by (auto simp: mset_swap)
qed


lemma sift_down_length: "i < length xs \<Longrightarrow> length (sift_down xs i (length xs)) = length xs"
  using sift_down_mset [of i xs "length xs"] by (metis size_mset)

lemma heapify_from:
  "m \<le> length xs \<Longrightarrow> heap_from m xs \<Longrightarrow>
     heap_from 0 (fold (\<lambda>i xs. sift_down xs i (length xs)) (rev [0..<m]) xs) \<and>
     mset (fold (\<lambda>i xs. sift_down xs i (length xs)) (rev [0..<m]) xs) = mset xs"
proof (induction m arbitrary: xs)
  case (Suc m)
  let ?ys = "sift_down xs m (length xs)"
  have "heap_but m m xs"
    unfolding heap_but_def
  proof (intro conjI allI impI)
    fix p c
    assume "m \<le> p \<and> p \<noteq> m \<and> kid p c \<and> c < length xs"
    with Suc.prems(2) show "fst (xs ! p) \<le> fst (xs ! c)" by (simp add: heap_from_def)
  next
    fix p c
    assume "m \<le> p \<and> kid p m \<and> kid m c \<and> c < length xs"
    then show "fst (xs ! p) \<le> fst (xs ! c)" using kid_less [of p m] by simp
  qed
  then have "heap_from m ?ys" by (rule sift_down_heap) simp_all
  moreover have "mset ?ys = mset xs" using Suc.prems(1) by (simp add: sift_down_mset)
  moreover have "length ?ys = length xs" using Suc.prems(1) by (simp add: sift_down_length)
  ultimately show ?case using Suc.IH [of ?ys] Suc.prems(1) by simp
qed simp

lemma heapify_correct: "heap_from 0 (heapify xs) \<and> mset (heapify xs) = mset xs"
  unfolding heapify_def
  by (rule heapify_from) (auto simp: heap_from_def kid_def)

lemma heap_root_least: "heap_from 0 xs \<Longrightarrow> i < length xs \<Longrightarrow> fst (xs ! 0) \<le> fst (xs ! i)"
proof (induction i rule: less_induct)
  case (less i)
  show ?case
  proof (cases "i = 0")
    case False
    define p where "p = (i - 1) div 2"
    have "kid p i" "p < i" using False unfolding kid_def p_def by presburger+
    then have "fst (xs ! 0) \<le> fst (xs ! p)" "fst (xs ! p) \<le> fst (xs ! i)"
      using less by (auto simp: heap_from_def)
    then show ?thesis by (rule order_trans)
  qed simp
qed

section \<open>The best scores\<close>

definition keeps_best :: "nat \<Rightarrow> ('s::linorder \<times> 'r) list \<Rightarrow> ('s \<times> 'r) list \<Rightarrow> bool" where
  "keeps_best k rows hp \<longleftrightarrow>
     length hp = min k (length rows) \<and>
     (\<exists>D. mset rows = mset hp + D \<and> (\<forall>x\<in>#D. \<forall>h\<in>set hp. fst x \<le> fst h))"

lemma push_keeps_best:
  assumes "0 < k" "keeps_best k rows hp" "k \<le> length rows \<Longrightarrow> heap_from 0 hp"
  shows "keeps_best k (rows @ [r]) (push_top_k k r hp) \<and>
    (k \<le> length (rows @ [r]) \<longrightarrow> heap_from 0 (push_top_k k r hp))"
proof -
  from assms(2) obtain D where D: "mset rows = mset hp + D" "\<forall>x\<in>#D. \<forall>h\<in>set hp. fst x \<le> fst h"
    and len: "length hp = min k (length rows)" by (auto simp: keeps_best_def)
  show ?thesis
  proof (cases "length hp < k")
    case True
    then have eq: "length hp = length rows" using len by simp
    moreover have "length rows = length hp + size D" by (metis D(1) size_mset size_union)
    ultimately have ms: "mset rows = mset hp" using D(1) by simp
    let ?hp = "push_top_k k r hp"
    have "mset ?hp = mset (hp @ [r])"
      using True heapify_correct [of "hp @ [r]"] by (simp add: push_top_k_def Let_def)
    moreover from this have "length ?hp = length (hp @ [r])" by (rule mset_eq_length)
    moreover have "heap_from 0 ?hp" if "length (hp @ [r]) = k"
      using that heapify_correct [of "hp @ [r]"] by (simp add: push_top_k_def Let_def)
    ultimately show ?thesis
      using True ms eq unfolding keeps_best_def
      by (intro conjI exI [of _ "{#}"]) simp_all
  next
    case False
    then have k: "length hp = k" "k \<le> length rows" using len by simp_all
    have heap: "heap_from 0 hp" using assms(3) k by simp
    have root: "fst (hp ! 0) \<le> fst h" if "h \<in> set hp" for h
      using that heap_root_least [OF heap] by (auto simp: in_set_conv_nth)
    obtain a hs where hp: "hp = a # hs" using assms(1) k by (cases hp) auto
    show ?thesis
    proof (cases "fst r \<le> fst a")
      case True
      then have "keeps_best k (rows @ [r]) hp"
        unfolding keeps_best_def using k D root hp
        by (intro conjI exI [of _ "add_mset r D"]) (auto intro: order_trans)
      then show ?thesis using True False heap hp by (simp add: push_top_k_def)
    next
      case False
      let ?hp = "sift_down (r # hs) 0 (length (r # hs))"
      have push: "push_top_k k r hp = ?hp" using False k hp by (simp add: push_top_k_def)
      have "heap_but 0 0 (r # hs)"
        unfolding heap_but_def
      proof (intro conjI allI impI)
        fix p c
        assume pc: "0 \<le> p \<and> p \<noteq> 0 \<and> kid p c \<and> c < length (r # hs)"
        then have "c < length hp" using hp by simp
        then have "fst (hp ! p) \<le> fst (hp ! c)"
          using heap pc unfolding heap_from_def by blast
        moreover have "0 < c" using pc kid_less [of p c] by simp
        ultimately show "fst ((r # hs) ! p) \<le> fst ((r # hs) ! c)" using pc hp by (simp add: nth_Cons')
      next
        fix p c
        assume "0 \<le> p \<and> kid p 0 \<and> kid 0 c \<and> c < length (r # hs)"
        then show "fst ((r # hs) ! p) \<le> fst ((r # hs) ! c)" using kid_less [of p 0] by simp
      qed
      then have "heap_from 0 ?hp" by (rule sift_down_heap) simp_all
      moreover have ms: "mset ?hp = mset (r # hs)" by (rule sift_down_mset) simp_all
      moreover have "set ?hp = set (r # hs)" using ms mset_eq_setD by blast
      moreover have "length ?hp = length (r # hs)" using ms mset_eq_length by blast
      moreover have "\<forall>x\<in>#D. fst x \<le> fst r" using D(2) False hp by auto
      ultimately show ?thesis
        unfolding keeps_best_def push using k D root hp False
        by (intro conjI exI [of _ "add_mset a D"]) auto
    qed
  qed
qed

lemma fold_keeps_best:
  "0 < k \<Longrightarrow> keeps_best k rows (fold (push_top_k k) rows []) \<and>
     (k \<le> length rows \<longrightarrow> heap_from 0 (fold (push_top_k k) rows []))"
proof (induction rows rule: rev_induct)
  case Nil
  then show ?case by (simp add: keeps_best_def)
next
  case (snoc r rows)
  then show ?case using push_keeps_best [of k rows "fold (push_top_k k) rows []" r] by simp
qed

lemma sort_desc_facts:
  "mset (rev (sort_key f (rev xs))) = mset xs"
  "sorted_wrt (\<lambda>a b. f b \<le> f a) (rev (sort_key f (rev xs)))"
proof -
  have "sorted (map f (sort_key f (rev xs)))" by simp
  then show "sorted_wrt (\<lambda>a b. f b \<le> f a) (rev (sort_key f (rev xs)))"
    by (simp add: sorted_wrt_rev sorted_wrt_map)
qed simp

text \<open>C38: The similarity search returns the best hits.  The result is sorted by descending
  score; it has \<open>min k n\<close> of the \<open>n\<close> scanned hits (all of them for \<open>k = 0\<close>), each as often
  as it was scanned at most; and no hit that was left out has a higher score than one that was
  returned.\<close>

theorem search_similar_best:
  "let res = search_similar k rows
   in sorted_wrt (\<lambda>a b. fst b \<le> fst a) res \<and>
      length res = (if k = 0 then length rows else min k (length rows)) \<and>
      (\<exists>left. mset rows = mset res + left \<and> (\<forall>x\<in>#left. \<forall>h\<in>set res. fst x \<le> fst h))"
proof (cases "k = 0")
  case True
  then show ?thesis
    by (auto simp: search_similar_def sort_desc_facts Let_def intro!: exI [of _ "{#}"])
next
  case False
  let ?hp = "fold (push_top_k k) rows []"
  have best: "keeps_best k rows ?hp" using fold_keeps_best [of k rows] False by simp
  have res: "search_similar k rows = rev (sort_key fst (rev ?hp))"
    using False by (simp add: search_similar_def)
  show ?thesis
    using best False unfolding Let_def res keeps_best_def
    by (auto simp: sort_desc_facts)
qed

theorem search_similar_best_witness:
  "map snd (search_similar 2 [(3::nat, ''a''), (9, ''b''), (1, ''c''), (5, ''d'')]) = [''b'', ''d''] \<and>
   length (search_similar 2 [(3::nat, ''a''), (9, ''b''), (1, ''c''), (5, ''d'')]) = 2"
proof
  show "map snd (search_similar 2 [(3::nat, ''a''), (9, ''b''), (1, ''c''), (5, ''d'')]) = [''b'', ''d'']"
    by code_simp
  show "length (search_similar 2 [(3::nat, ''a''), (9, ''b''), (1, ''c''), (5, ''d'')]) = 2"
    using search_similar_best [of 2 "[(3::nat, ''a''), (9, ''b''), (1, ''c''), (5, ''d'')]"]
    by (simp add: Let_def)
qed

end
