(* ===== verification/LocalStore.thy ===== *)
theory LocalStore
  imports EmbedBase Chunker TopK
begin

text \<open>
  The SQLite store of \<open>internal/localstore/localstore.go\<close>: the tables the index lives in
  as lists of rows, the statements as functions on them (with the UNIQUE constraints, ON CONFLICT
  clauses, foreign keys and cascades of the schema) and the binary form of embeddings.  Faults of the database engine are not part of these functions; the interface
  \<open>index_store\<close> through which the indexer uses a store has them as error results.
  SHA-256 is the argument \<open>sha\<close>.
\<close>

unbundle bit_operations_syntax

section \<open>Embeddings as bytes\<close>

definition word_bytes :: "32 word \<Rightarrow> string" where
  "word_bytes w = map (\<lambda>k. char_of (unat (drop_bit (8 * k) w AND 255))) [0, 1, 2, 3]"

definition bytes_word :: "string \<Rightarrow> 32 word" where
  "bytes_word b =
     word_of_nat (of_char (b ! 0)) OR push_bit 8 (word_of_nat (of_char (b ! 1))) OR
     push_bit 16 (word_of_nat (of_char (b ! 2))) OR push_bit 24 (word_of_nat (of_char (b ! 3)))"

definition encode_embedding :: "vec \<Rightarrow> string" where
  "encode_embedding v = concat (map word_bytes v)"

definition decode_embedding :: "string \<Rightarrow> vec" where
  "decode_embedding b = map (\<lambda>i. bytes_word (take 4 (drop (4 * i) b))) [0..<length b div 4]"

section \<open>Tables\<close>

record project_row =
  pj_id :: nat
  pj_name :: string
  pj_path :: string
  pj_model :: string
  pj_status :: string
  pj_source :: string
  pj_identity :: string
  pj_dims :: int
  pj_privacy :: string
  pj_commit :: string

record file_row =
  fr_id :: nat
  fr_project :: nat
  fr_path :: string
  fr_hash :: string
  fr_size :: nat

record chunk_row =
  cr_project :: nat
  cr_file :: nat
  cr_index :: nat
  cr_content :: string
  cr_emb_hash :: "string option"
  cr_dims :: int
  cr_model :: string
  cr_start :: int
  cr_end :: int
  cr_confidence :: string
  cr_symbol :: "string option"

record worktree_row =
  wr_project :: nat
  wr_worktree :: string
  wr_path :: string
  wr_hash :: string

record db =
  db_projects :: "project_row list"
  db_files :: "file_row list"
  db_chunks :: "chunk_row list"
  db_worktrees :: "worktree_row list"
  db_deps :: "(nat \<times> string \<times> string) list"
  db_embeddings :: "(string \<times> string) list"
  db_cache :: "((string \<times> string) \<times> int \<times> string) list"
  db_next_file :: nat
  db_next_project :: nat

definition empty_db :: db where
  "empty_db = \<lparr>db_projects = [], db_files = [], db_chunks = [], db_worktrees = [], db_deps = [],
     db_embeddings = [], db_cache = [], db_next_file = 1, db_next_project = 1\<rparr>"

section \<open>Projects\<close>

text \<open>Both upserts conflict on \<open>identity\<close>; a new row has the next id.\<close>

definition ensure_project_identity ::
  "string \<Rightarrow> string \<Rightarrow> string \<Rightarrow> string \<Rightarrow> string \<Rightarrow> int \<Rightarrow> db \<Rightarrow> nat \<times> db" where
  "ensure_project_identity ident name path model source dims d =
     (case find (\<lambda>p. pj_identity p = ident) (db_projects d) of
        Some p \<Rightarrow>
          (pj_id p,
           d\<lparr>db_projects := map (\<lambda>q. if pj_identity q = ident
               then q\<lparr>pj_path := path, pj_model := model, pj_status := ''indexing'', pj_dims := dims\<rparr>
               else q) (db_projects d)\<rparr>)
      | None \<Rightarrow>
          (db_next_project d,
           d\<lparr>db_projects := db_projects d @
               [\<lparr>pj_id = db_next_project d, pj_name = name, pj_path = path, pj_model = model,
                 pj_status = ''indexing'', pj_source = source, pj_identity = ident, pj_dims = dims,
                 pj_privacy = ''hybrid'', pj_commit = []\<rparr>],
             db_next_project := db_next_project d + 1\<rparr>))"

definition upsert_project :: "string \<Rightarrow> string \<Rightarrow> string \<Rightarrow> int \<Rightarrow> db \<Rightarrow> nat \<times> db" where
  "upsert_project name path model dims d =
     ensure_project_identity name name path model ''path'' dims d"

text \<open>\<open>CreateProject\<close> has no conflict clause: a taken identity is \<open>ErrProjectExists\<close>.\<close>

definition create_project ::
  "string \<Rightarrow> string \<Rightarrow> string \<Rightarrow> int \<Rightarrow> db \<Rightarrow> nat result \<times> db" where
  "create_project name model source dims d =
     (if list_ex (\<lambda>p. pj_identity p = name) (db_projects d)
      then (Inl (Plain ''project already exists''), d)
      else (Inr (db_next_project d),
            d\<lparr>db_projects := db_projects d @
               [\<lparr>pj_id = db_next_project d, pj_name = name, pj_path = [], pj_model = model,
                 pj_status = ''registered'', pj_source = source, pj_identity = name, pj_dims = dims,
                 pj_privacy = ''hybrid'', pj_commit = []\<rparr>],
              db_next_project := db_next_project d + 1\<rparr>))"

definition has_project :: "nat \<Rightarrow> db \<Rightarrow> bool" where
  "has_project pid d = list_ex (\<lambda>p. pj_id p = pid) (db_projects d)"

text \<open>ON DELETE CASCADE from projects: every table with a project id loses the rows.\<close>

definition delete_project :: "string \<Rightarrow> db \<Rightarrow> unit result \<times> db" where
  "delete_project name d =
     (let gone = (\<lambda>i. list_ex (\<lambda>p. pj_id p = i \<and> pj_name p = name) (db_projects d))
      in if \<not> list_ex (\<lambda>p. pj_name p = name) (db_projects d) then (Inl (Plain ''not found''), d)
         else (Inr (),
               d\<lparr>db_projects := filter (\<lambda>p. pj_name p \<noteq> name) (db_projects d),
                 db_files := filter (\<lambda>f. \<not> gone (fr_project f)) (db_files d),
                 db_chunks := filter (\<lambda>c. \<not> gone (cr_project c) \<and>
                     \<not> list_ex (\<lambda>f. fr_id f = cr_file c \<and> gone (fr_project f)) (db_files d)) (db_chunks d),
                 db_worktrees := filter (\<lambda>w. \<not> gone (wr_project w)) (db_worktrees d),
                 db_deps := filter (\<lambda>(p, s, t). \<not> gone p) (db_deps d)\<rparr>))"

definition project_model :: "nat \<Rightarrow> db \<Rightarrow> string" where
  "project_model pid d =
     (case find (\<lambda>p. pj_id p = pid) (db_projects d) of Some p \<Rightarrow> pj_model p | None \<Rightarrow> [])"

definition update_project :: "nat \<Rightarrow> (project_row \<Rightarrow> project_row) \<Rightarrow> db \<Rightarrow> db" where
  "update_project pid f d =
     d\<lparr>db_projects := map (\<lambda>p. if pj_id p = pid then f p else p) (db_projects d)\<rparr>"

definition update_project_status :: "nat \<Rightarrow> string \<Rightarrow> db \<Rightarrow> db" where
  "update_project_status pid status = update_project pid (\<lambda>p. p\<lparr>pj_status := status\<rparr>)"

definition update_project_path :: "nat \<Rightarrow> string \<Rightarrow> db \<Rightarrow> db" where
  "update_project_path pid path = update_project pid (\<lambda>p. p\<lparr>pj_path := path\<rparr>)"

definition update_project_commit :: "nat \<Rightarrow> string \<Rightarrow> db \<Rightarrow> db" where
  "update_project_commit pid sha1 = update_project pid (\<lambda>p. p\<lparr>pj_commit := sha1\<rparr>)"

definition get_project_commit :: "nat \<Rightarrow> db \<Rightarrow> string" where
  "get_project_commit pid d =
     (case find (\<lambda>p. pj_id p = pid) (db_projects d) of Some p \<Rightarrow> pj_commit p | None \<Rightarrow> [])"

definition set_project_privacy ::
  "(string \<Rightarrow> string) \<Rightarrow> nat \<Rightarrow> string \<Rightarrow> db \<Rightarrow> string option \<times> db" where
  "set_project_privacy ul pid mode0 d =
     (let mode = to_lower ul (trim_space mode0)
      in if mode \<notin> {''cloud'', ''hybrid'', ''edge''} then (Some ''invalid privacy mode'', d)
         else if has_project pid d
         then (None, update_project pid (\<lambda>p. p\<lparr>pj_privacy := mode\<rparr>) d)
         else (Some ''not found'', d))"

section \<open>Files\<close>

text \<open>A row whose project (or file) does not exist is refused: \<open>foreign_keys\<close> is on.\<close>

definition fk_failed :: go_err where
  "fk_failed = Plain ''FOREIGN KEY constraint failed''"

text \<open>ON DELETE CASCADE: the chunks of the removed files go with them.\<close>

definition delete_files :: "(file_row \<Rightarrow> bool) \<Rightarrow> db \<Rightarrow> db" where
  "delete_files P d =
     d\<lparr>db_files := filter (\<lambda>f. \<not> P f) (db_files d),
       db_chunks := filter (\<lambda>c. \<not> list_ex (\<lambda>f. fr_id f = cr_file c \<and> P f) (db_files d)) (db_chunks d)\<rparr>"

definition upsert_file :: "nat \<Rightarrow> string \<Rightarrow> string \<Rightarrow> nat \<Rightarrow> db \<Rightarrow> nat result \<times> db" where
  "upsert_file pid path hash sz d =
     (case find (\<lambda>f. fr_project f = pid \<and> fr_path f = path \<and> fr_hash f = hash) (db_files d) of
        Some f \<Rightarrow>
          (Inr (fr_id f),
           d\<lparr>db_files := map (\<lambda>g. if fr_id g = fr_id f then g\<lparr>fr_size := sz\<rparr> else g) (db_files d)\<rparr>)
      | None \<Rightarrow>
          if \<not> has_project pid d then (Inl fk_failed, d)
          else
          (Inr (db_next_file d),
           d\<lparr>db_files := db_files d @
               [\<lparr>fr_id = db_next_file d, fr_project = pid, fr_path = path, fr_hash = hash, fr_size = sz\<rparr>],
             db_next_file := db_next_file d + 1\<rparr>))"

definition file_up_to_date :: "nat \<Rightarrow> string \<Rightarrow> string \<Rightarrow> int \<Rightarrow> db \<Rightarrow> bool" where
  "file_up_to_date pid path hash dims d =
     (case find (\<lambda>f. fr_project f = pid \<and> fr_path f = path \<and> fr_hash f = hash) (db_files d) of
        None \<Rightarrow> False
      | Some f \<Rightarrow> list_ex (\<lambda>c. cr_file c = fr_id f \<and> cr_dims c = dims) (db_chunks d))"

definition count_project_files :: "nat \<Rightarrow> db \<Rightarrow> nat" where
  "count_project_files pid d = length (filter (\<lambda>f. fr_project f = pid) (db_files d))"

definition prune_file_versions :: "nat \<Rightarrow> string \<Rightarrow> string \<Rightarrow> db \<Rightarrow> db" where
  "prune_file_versions pid path keep =
     delete_files (\<lambda>f. fr_project f = pid \<and> fr_path f = path \<and> fr_hash f \<noteq> keep)"

definition delete_file_by_path :: "nat \<Rightarrow> string \<Rightarrow> db \<Rightarrow> db" where
  "delete_file_by_path pid path d =
     delete_files (\<lambda>f. fr_project f = pid \<and> fr_path f = path)
       (d\<lparr>db_deps := filter (\<lambda>(p, s, t). \<not> (p = pid \<and> (s = path \<or> t = path))) (db_deps d)\<rparr>)"

definition delete_file_by_id :: "nat \<Rightarrow> nat \<Rightarrow> db \<Rightarrow> db" where
  "delete_file_by_id pid fid = delete_files (\<lambda>f. fr_project f = pid \<and> fr_id f = fid)"

section \<open>Worktrees\<close>

text \<open>\<open>files\<close> is a Go map, so its paths are distinct; a path given twice would break the primary
  key and roll the transaction back.\<close>

definition set_worktree_files ::
  "nat \<Rightarrow> string \<Rightarrow> (string \<times> string) list \<Rightarrow> db \<Rightarrow> unit result \<times> db" where
  "set_worktree_files pid wt files d =
     (if files \<noteq> [] \<and> \<not> has_project pid d then (Inl fk_failed, d)
      else if \<not> distinct (map fst files) then (Inl (Plain ''UNIQUE constraint failed: worktree_files''), d)
      else (Inr (),
        d\<lparr>db_worktrees := filter (\<lambda>w. \<not> (wr_project w = pid \<and> wr_worktree w = wt)) (db_worktrees d) @
           map (\<lambda>(p, h). \<lparr>wr_project = pid, wr_worktree = wt, wr_path = p, wr_hash = h\<rparr>) files\<rparr>))"

definition remove_worktree_file :: "nat \<Rightarrow> string \<Rightarrow> string \<Rightarrow> db \<Rightarrow> db" where
  "remove_worktree_file pid wt path d =
     d\<lparr>db_worktrees := filter (\<lambda>w. \<not> (wr_project w = pid \<and> wr_worktree w = wt \<and> wr_path w = path))
         (db_worktrees d)\<rparr>"

text \<open>SQLite's \<open>LIKE 'git:%'\<close> ignores the case of ASCII letters.\<close>

definition git_path :: "string \<Rightarrow> bool" where
  "git_path path = has_prefix (map ascii_lower path) ''git:''"

definition referenced :: "db \<Rightarrow> file_row \<Rightarrow> bool" where
  "referenced d f =
     list_ex (\<lambda>w. wr_project w = fr_project f \<and> wr_path w = fr_path f \<and> wr_hash w = fr_hash f)
       (db_worktrees d)"

definition prune_unreferenced_files :: "nat \<Rightarrow> db \<Rightarrow> nat \<times> db" where
  "prune_unreferenced_files pid d =
     (let dead = (\<lambda>f. fr_project f = pid \<and> \<not> git_path (fr_path f) \<and> \<not> referenced d f);
          d1 = delete_files dead d
      in (length (filter dead (db_files d)),
          d1\<lparr>db_deps := filter (\<lambda>(p, s, t). p \<noteq> pid \<or>
              list_ex (\<lambda>f. fr_project f = p \<and> fr_path f = s) (db_files d1)) (db_deps d1)\<rparr>))"

section \<open>Chunks\<close>

definition delete_chunks_for_file :: "nat \<Rightarrow> nat \<Rightarrow> db \<Rightarrow> db" where
  "delete_chunks_for_file pid fid d =
     d\<lparr>db_chunks := filter (\<lambda>c. \<not> (cr_project c = pid \<and> cr_file c = fid)) (db_chunks d)\<rparr>"

definition same_key :: "chunk_row \<Rightarrow> chunk_row \<Rightarrow> bool" where
  "same_key r c \<longleftrightarrow> cr_project c = cr_project r \<and> cr_file c = cr_file r \<and> cr_index c = cr_index r"

definition upsert_chunk :: "chunk_row \<Rightarrow> chunk_row list \<Rightarrow> chunk_row list" where
  "upsert_chunk r rows =
     (if list_ex (same_key r) rows then map (\<lambda>c. if same_key r c then r else c) rows
      else rows @ [r])"

text \<open>\<open>INSERT OR IGNORE INTO unique_embeddings\<close>.\<close>

definition add_embedding :: "string \<Rightarrow> string \<Rightarrow> (string \<times> string) list \<Rightarrow> (string \<times> string) list" where
  "add_embedding h blob embs = (if map_of embs h = None then embs @ [(h, blob)] else embs)"

definition chunk_to_row ::
  "nat \<Rightarrow> nat \<Rightarrow> int \<Rightarrow> string \<Rightarrow> string option \<Rightarrow> nat \<Rightarrow> chunk \<Rightarrow> chunk_row" where
  "chunk_to_row pid fid dims model h i ck =
     \<lparr>cr_project = pid, cr_file = fid, cr_index = i, cr_content = ck_content ck, cr_emb_hash = h,
      cr_dims = dims, cr_model = model, cr_start = ck_start ck, cr_end = ck_end ck,
      cr_confidence = (if ck_confidence ck = [] then ''AMBIGUOUS'' else ck_confidence ck),
      cr_symbol = (if ck_symbol ck = [] then None else Some (ck_symbol ck))\<rparr>"

text \<open>Rows \<open>i, i + 1, ...\<close> of one transaction; no embeddings for text-only rows.\<close>

definition insert_row ::
  "(string \<Rightarrow> string) \<Rightarrow> nat \<Rightarrow> nat \<Rightarrow> int \<Rightarrow> string \<Rightarrow> nat \<Rightarrow> chunk \<Rightarrow> vec option \<Rightarrow> db \<Rightarrow> db" where
  "insert_row sha pid fid dims model i ck e d =
     (let d1 = (case e of
                  None \<Rightarrow> d
                | Some v \<Rightarrow> d\<lparr>db_embeddings :=
                    add_embedding (sha (encode_embedding v)) (encode_embedding v) (db_embeddings d)\<rparr>);
          r = chunk_to_row pid fid dims model (map_option (\<lambda>v. sha (encode_embedding v)) e) i ck
      in d1\<lparr>db_chunks := upsert_chunk r (db_chunks d1)\<rparr>)"

fun insert_rows ::
  "(string \<Rightarrow> string) \<Rightarrow> nat \<Rightarrow> nat \<Rightarrow> int \<Rightarrow> string \<Rightarrow> nat \<Rightarrow> (chunk \<times> vec option) list \<Rightarrow> db \<Rightarrow> db" where
  "insert_rows sha pid fid dims model i [] d = d"
| "insert_rows sha pid fid dims model i ((ck, e) # rest) d =
     insert_rows sha pid fid dims model (i + 1) rest (insert_row sha pid fid dims model i ck e d)"

definition has_file :: "nat \<Rightarrow> db \<Rightarrow> bool" where
  "has_file fid d = list_ex (\<lambda>f. fr_id f = fid) (db_files d)"

text \<open>One transaction: the first row of a missing project or file rolls everything back.\<close>

definition insert_transaction ::
  "(string \<Rightarrow> string) \<Rightarrow> nat \<Rightarrow> nat \<Rightarrow> (chunk \<times> vec option) list \<Rightarrow> int \<Rightarrow> string \<Rightarrow> db
     \<Rightarrow> unit result \<times> db" where
  "insert_transaction sha pid fid rows dims model d =
     (if rows \<noteq> [] \<and> (\<not> has_project pid d \<or> \<not> has_file fid d) then (Inl fk_failed, d)
      else (Inr (), insert_rows sha pid fid dims model 0 rows d))"

definition insert_chunks ::
  "(string \<Rightarrow> string) \<Rightarrow> nat \<Rightarrow> nat \<Rightarrow> chunk list \<Rightarrow> vec list \<Rightarrow> int \<Rightarrow> db \<Rightarrow> unit result \<times> db" where
  "insert_chunks sha pid fid chunks embeddings dims d =
     (if length chunks \<noteq> length embeddings
      then (Inl (Plain ''chunks and embeddings length mismatch''), d)
      else insert_transaction sha pid fid (zip chunks (map Some embeddings)) dims (project_model pid d) d)"

definition insert_chunks_text_only ::
  "(string \<Rightarrow> string) \<Rightarrow> nat \<Rightarrow> nat \<Rightarrow> chunk list \<Rightarrow> int \<Rightarrow> db \<Rightarrow> unit result \<times> db" where
  "insert_chunks_text_only sha pid fid chunks dims d =
     insert_transaction sha pid fid (map (\<lambda>c. (c, None)) chunks) dims (project_model pid d) d"

section \<open>Embedding cache and dictionary\<close>

definition lookup_embedding_cache ::
  "string list \<Rightarrow> string \<Rightarrow> db \<Rightarrow> (string \<times> vec) list result" where
  "lookup_embedding_cache hashes model d =
     (if hashes = [] then Inr []
      else if length hashes > 990 then Inl (Plain ''too many input hashes'')
      else Inr (map (\<lambda>((h, m), (dims, blob)). (h, decode_embedding blob))
                  (filter (\<lambda>((h, m), _). h \<in> set hashes \<and> m = model) (db_cache d))))"

fun add_cache_rows ::
  "string \<Rightarrow> int \<Rightarrow> (string \<times> vec) list \<Rightarrow> ((string \<times> string) \<times> int \<times> string) list
     \<Rightarrow> ((string \<times> string) \<times> int \<times> string) list" where
  "add_cache_rows model dims [] rows = rows"
| "add_cache_rows model dims ((h, e) # rest) rows =
     add_cache_rows model dims rest
       (if map_of rows (h, model) = None then rows @ [((h, model), (dims, encode_embedding e))] else rows)"

definition insert_embedding_cache ::
  "string list \<Rightarrow> string \<Rightarrow> vec list \<Rightarrow> int \<Rightarrow> db \<Rightarrow> unit result \<times> db" where
  "insert_embedding_cache hashes model embeddings dims d =
     (if length hashes \<noteq> length embeddings
      then (Inl (Plain ''inputHashes and embeddings length mismatch''), d)
      else (Inr (), d\<lparr>db_cache := add_cache_rows model dims (zip hashes embeddings) (db_cache d)\<rparr>))"

definition prune_embedding_cache :: "int \<Rightarrow> db \<Rightarrow> nat \<times> db" where
  "prune_embedding_cache dims d =
     (length (filter (\<lambda>(k, dm, b). dm = dims) (db_cache d)),
      d\<lparr>db_cache := filter (\<lambda>(k, dm, b). dm \<noteq> dims) (db_cache d)\<rparr>)"

definition prune_orphan_embeddings :: "db \<Rightarrow> nat \<times> db" where
  "prune_orphan_embeddings d =
     (let used = (\<lambda>h. list_ex (\<lambda>c. cr_emb_hash c = Some h) (db_chunks d))
      in (length (filter (\<lambda>(h, b). \<not> used h) (db_embeddings d)),
          d\<lparr>db_embeddings := filter (\<lambda>(h, b). used h) (db_embeddings d)\<rparr>))"

section \<open>Dependencies\<close>

text \<open>The rows of one source are replaced; the primary key makes a repeated target an error that
  rolls the transaction back.\<close>

definition insert_file_dependencies ::
  "nat \<Rightarrow> string \<Rightarrow> string list \<Rightarrow> db \<Rightarrow> unit result \<times> db" where
  "insert_file_dependencies pid source targets d =
     (if targets \<noteq> [] \<and> \<not> has_project pid d then (Inl fk_failed, d)
      else if \<not> distinct targets then (Inl (Plain ''UNIQUE constraint failed: file_dependencies''), d)
      else (Inr (), d\<lparr>db_deps := filter (\<lambda>(p, s, t). \<not> (p = pid \<and> s = source)) (db_deps d) @
                          map (\<lambda>t. (pid, source, t)) targets\<rparr>))"

definition fetch_graph_neighbors :: "nat \<Rightarrow> db \<Rightarrow> string \<Rightarrow> string list" where
  "fetch_graph_neighbors pid d source =
     map (\<lambda>(p, s, t). t) (filter (\<lambda>(p, s, t). p = pid \<and> s = source) (db_deps d))"

definition sql_limit :: "int \<Rightarrow> 'a list \<Rightarrow> 'a list" where
  "sql_limit n xs = (if n < 0 then xs else take (nat n) xs)"

definition fetch_chunks_by_path :: "nat \<Rightarrow> string \<Rightarrow> int \<Rightarrow> db \<Rightarrow> chunk_row list" where
  "fetch_chunks_by_path pid path limit d =
     sql_limit limit (sort_key cr_index
       (filter (\<lambda>c. cr_project c = pid \<and> list_ex (\<lambda>f. fr_id f = cr_file c \<and> fr_path f = path) (db_files d))
         (db_chunks d)))"

section \<open>Similarity search\<close>

text \<open>The scanned rows: chunks of the project with an embedding in the dictionary, of files of
  the worktree when one is given.  The scan scores each against the query with the argument
  \<open>cosine\<close> (floating-point arithmetic).\<close>

definition in_worktree :: "string \<Rightarrow> db \<Rightarrow> chunk_row \<Rightarrow> bool" where
  "in_worktree wt d c \<longleftrightarrow>
     list_ex (\<lambda>f. fr_id f = cr_file c \<and>
        (wt = [] \<or> list_ex (\<lambda>w. wr_project w = cr_project c \<and> wr_path w = fr_path f \<and>
                          wr_hash w = fr_hash f \<and> wr_worktree w = wt) (db_worktrees d))) (db_files d)"

definition chunk_blob :: "db \<Rightarrow> chunk_row \<Rightarrow> string option" where
  "chunk_blob d c = Option.bind (cr_emb_hash c) (map_of (db_embeddings d))"

definition scanned_rows :: "nat \<Rightarrow> string \<Rightarrow> db \<Rightarrow> (chunk_row \<times> string) list" where
  "scanned_rows pid wt d =
     map (\<lambda>c. (c, the (chunk_blob d c)))
       (filter (\<lambda>c. cr_project c = pid \<and> in_worktree wt d c \<and> chunk_blob d c \<noteq> None) (db_chunks d))"

definition search_similar_db ::
  "(vec \<Rightarrow> string \<Rightarrow> 's::linorder) \<Rightarrow> nat \<Rightarrow> vec \<Rightarrow> int \<Rightarrow> string \<Rightarrow> db \<Rightarrow> ('s \<times> chunk_row) list" where
  "search_similar_db cosine pid q k wt d =
     search_similar (nat k) (map (\<lambda>(c, blob). (cosine q blob, c)) (scanned_rows pid wt d))"

section \<open>Embeddings survive storage\<close>

lemma byte_of_word:
  "word_of_nat (of_char (char_of (unat (w AND 255)) :: char)) = take_bit 8 (w :: 32 word)"
proof -
  have m: "(255 :: 32 word) = mask 8" by (simp add: mask_eq_exp_minus_1)
  have w: "w AND 255 = take_bit 8 w" unfolding m by (simp add: take_bit_eq_mask)
  have "unat (w AND 255) mod 256 = take_bit 8 (unat (take_bit 8 w))"
    unfolding w by (simp add: take_bit_eq_mod)
  also have "\<dots> = unat (take_bit 8 w)"
    by (metis unsigned_take_bit_eq take_bit_take_bit min.idem)
  finally show ?thesis by simp
qed

lemma bytes_of_word: "bytes_word (word_bytes w) = w"
proof -
  have "bytes_word (word_bytes w) =
    take_bit 8 (drop_bit 0 w) OR push_bit 8 (take_bit 8 (drop_bit 8 w)) OR
    push_bit 16 (take_bit 8 (drop_bit 16 w)) OR push_bit 24 (take_bit 8 (drop_bit 24 w))"
  proof -
    have "word_bytes w ! 0 = char_of (unat (drop_bit 0 w AND 255))"
      "word_bytes w ! 1 = char_of (unat (drop_bit 8 w AND 255))"
      "word_bytes w ! 2 = char_of (unat (drop_bit 16 w AND 255))"
      "word_bytes w ! 3 = char_of (unat (drop_bit 24 w AND 255))"
      by (simp_all add: word_bytes_def numeral_2_eq_2 numeral_3_eq_3)
    then show ?thesis by (simp only: bytes_word_def byte_of_word)
  qed
  also have "\<dots> = w"
  proof (rule bit_word_eqI)
    fix n
    assume n: "n < LENGTH(32)"
    consider "n < 8" | "8 \<le> n" "n < 16" | "16 \<le> n" "n < 24" | "24 \<le> n" by linarith
    then show "bit (take_bit 8 (drop_bit 0 w) OR push_bit 8 (take_bit 8 (drop_bit 8 w)) OR
      push_bit 16 (take_bit 8 (drop_bit 16 w)) OR push_bit 24 (take_bit 8 (drop_bit 24 w))) n = bit w n"
      by cases (use n in \<open>auto simp add: bit_simps less_diff_conv2\<close>)
  qed
  finally show ?thesis .
qed

lemma length_word_bytes [simp]: "length (word_bytes w) = 4"
  by (simp add: word_bytes_def)

lemma length_encode: "length (encode_embedding v) = 4 * length v"
  by (induction v) (simp_all add: encode_embedding_def)

lemma encode_block:
  "i < length v \<Longrightarrow> take 4 (drop (4 * i) (encode_embedding v)) = word_bytes (v ! i)"
proof (induction v arbitrary: i)
  case (Cons w v)
  have c: "encode_embedding (w # v) = word_bytes w @ encode_embedding v"
    by (simp add: encode_embedding_def)
  show ?case
  proof (cases i)
    case 0
    then show ?thesis using c by simp
  next
    case (Suc j)
    then have "drop (4 * i) (encode_embedding (w # v)) = drop (4 * j) (encode_embedding v)"
      unfolding c by simp
    then show ?thesis using Cons Suc by simp
  qed
qed simp

text \<open>Decoding an encoded vector gives the vector back, bit for bit, and the blob has four
  bytes per component.\<close>

theorem decode_encode_embedding:
  "decode_embedding (encode_embedding v) = v \<and> length (encode_embedding v) = 4 * length v"
proof
  show "decode_embedding (encode_embedding v) = v"
    by (rule nth_equalityI)
      (simp_all add: decode_embedding_def length_encode encode_block bytes_of_word)
qed (rule length_encode)

section \<open>Operations\<close>

text \<open>Every statement that changes the database, as one type.\<close>

datatype db_op =
    EnsureIdentity string string string string string int
  | CreateProject string string string int
  | DeleteProject string
  | SetStatus nat string
  | SetPath nat string
  | SetCommit nat string
  | SetPrivacy "string \<Rightarrow> string" nat string
  | UpsertFile nat string string nat
  | PruneVersions nat string string
  | DeleteByPath nat string
  | DeleteById nat nat
  | SetWorktree nat string "(string \<times> string) list"
  | RemoveWorktree nat string string
  | PruneUnreferenced nat
  | DeleteChunks nat nat
  | InsertChunks nat nat "chunk list" "vec list" int
  | InsertText nat nat "chunk list" int
  | InsertCache "string list" string "vec list" int
  | PruneCache int
  | PruneOrphans
  | InsertDeps nat string "string list"

fun apply_op :: "(string \<Rightarrow> string) \<Rightarrow> db_op \<Rightarrow> db \<Rightarrow> db" where
  "apply_op sha (EnsureIdentity i n p m s k) d = snd (ensure_project_identity i n p m s k d)"
| "apply_op sha (CreateProject n m s k) d = snd (create_project n m s k d)"
| "apply_op sha (DeleteProject n) d = snd (delete_project n d)"
| "apply_op sha (SetStatus i s) d = update_project_status i s d"
| "apply_op sha (SetPath i s) d = update_project_path i s d"
| "apply_op sha (SetCommit i s) d = update_project_commit i s d"
| "apply_op sha (SetPrivacy ul i s) d = snd (set_project_privacy ul i s d)"
| "apply_op sha (UpsertFile i p h n) d = snd (upsert_file i p h n d)"
| "apply_op sha (PruneVersions i p h) d = prune_file_versions i p h d"
| "apply_op sha (DeleteByPath i p) d = delete_file_by_path i p d"
| "apply_op sha (DeleteById i f) d = delete_file_by_id i f d"
| "apply_op sha (SetWorktree i w fs) d = snd (set_worktree_files i w fs d)"
| "apply_op sha (RemoveWorktree i w p) d = remove_worktree_file i w p d"
| "apply_op sha (PruneUnreferenced i) d = snd (prune_unreferenced_files i d)"
| "apply_op sha (DeleteChunks i f) d = delete_chunks_for_file i f d"
| "apply_op sha (InsertChunks i f cs es k) d = snd (insert_chunks sha i f cs es k d)"
| "apply_op sha (InsertText i f cs k) d = snd (insert_chunks_text_only sha i f cs k d)"
| "apply_op sha (InsertCache hs m es k) d = snd (insert_embedding_cache hs m es k d)"
| "apply_op sha (PruneCache k) d = snd (prune_embedding_cache k d)"
| "apply_op sha PruneOrphans d = snd (prune_orphan_embeddings d)"
| "apply_op sha (InsertDeps i s ts) d = snd (insert_file_dependencies i s ts d)"

section \<open>Integrity\<close>

definition projects_ok :: "db \<Rightarrow> bool" where
  "projects_ok d \<longleftrightarrow>
     distinct (map pj_id (db_projects d)) \<and> distinct (map pj_identity (db_projects d)) \<and>
     (\<forall>p\<in>set (db_projects d). pj_id p < db_next_project d)"

definition file_key :: "file_row \<Rightarrow> nat \<times> string \<times> string" where
  "file_key f = (fr_project f, fr_path f, fr_hash f)"

definition files_ok :: "db \<Rightarrow> bool" where
  "files_ok d \<longleftrightarrow>
     distinct (map fr_id (db_files d)) \<and> distinct (map file_key (db_files d)) \<and>
     (\<forall>f\<in>set (db_files d). fr_id f < db_next_file d \<and> has_project (fr_project f) d)"

definition chunk_key :: "chunk_row \<Rightarrow> nat \<times> nat \<times> nat" where
  "chunk_key c = (cr_project c, cr_file c, cr_index c)"

definition chunks_ok :: "db \<Rightarrow> bool" where
  "chunks_ok d \<longleftrightarrow>
     distinct (map chunk_key (db_chunks d)) \<and>
     (\<forall>c\<in>set (db_chunks d). has_project (cr_project c) d \<and> has_file (cr_file c) d \<and>
        (cr_emb_hash c \<noteq> None \<longrightarrow> chunk_blob d c \<noteq> None))"

definition dict_ok :: "(string \<Rightarrow> string) \<Rightarrow> db \<Rightarrow> bool" where
  "dict_ok sha d \<longleftrightarrow>
     distinct (map fst (db_embeddings d)) \<and> (\<forall>(h, b)\<in>set (db_embeddings d). h = sha b) \<and>
     distinct (map fst (db_cache d))"

definition worktree_key :: "worktree_row \<Rightarrow> nat \<times> string \<times> string" where
  "worktree_key w = (wr_project w, wr_worktree w, wr_path w)"

definition worktrees_ok :: "db \<Rightarrow> bool" where
  "worktrees_ok d \<longleftrightarrow>
     distinct (map worktree_key (db_worktrees d)) \<and> (\<forall>w\<in>set (db_worktrees d). has_project (wr_project w) d)"

definition deps_ok :: "db \<Rightarrow> bool" where
  "deps_ok d \<longleftrightarrow> distinct (db_deps d) \<and> (\<forall>(p, s, t)\<in>set (db_deps d). has_project p d)"

definition db_ok :: "(string \<Rightarrow> string) \<Rightarrow> db \<Rightarrow> bool" where
  "db_ok sha d \<longleftrightarrow>
     projects_ok d \<and> files_ok d \<and> worktrees_ok d \<and> deps_ok d \<and> chunks_ok d \<and> dict_ok sha d"

lemmas db_ok_parts = db_ok_def projects_ok_def files_ok_def worktrees_ok_def deps_ok_def chunks_ok_def dict_ok_def

lemma distinct_map_filterI: "distinct (map f xs) \<Longrightarrow> distinct (map f (filter P xs))"
  by (induction xs) auto

lemma has_project_iff: "has_project i d \<longleftrightarrow> i \<in> pj_id ` set (db_projects d)"
  by (auto simp: has_project_def list_ex_iff)

lemma has_file_iff: "has_file i d \<longleftrightarrow> i \<in> fr_id ` set (db_files d)"
  by (auto simp: has_file_def list_ex_iff)

lemma ok_empty: "db_ok sha empty_db"
  by (simp add: db_ok_parts empty_db_def)

text \<open>Changes of columns no constraint is about.\<close>

lemma ok_map_projects:
  assumes "db_ok sha d" "\<And>p. pj_id (g p) = pj_id p \<and> pj_identity (g p) = pj_identity p"
  shows "db_ok sha (d\<lparr>db_projects := map g (db_projects d)\<rparr>)"
proof -
  have "map pj_id (map g ps) = map pj_id ps" "map pj_identity (map g ps) = map pj_identity ps" for ps
    using assms(2) by simp_all
  moreover have "pj_id ` g ` S = pj_id ` S" for S using assms(2) by (force simp: image_iff)
  ultimately show ?thesis
    using assms by (simp add: db_ok_parts has_project_iff has_file_iff chunk_blob_def del: map_map)
qed

lemma ok_update_project:
  assumes "db_ok sha d" "\<And>p. pj_id (f p) = pj_id p \<and> pj_identity (f p) = pj_identity p"
  shows "db_ok sha (update_project i f d)"
  unfolding update_project_def by (rule ok_map_projects) (use assms in auto)

lemma ok_add_project:
  assumes "db_ok sha d" "pj_id p = db_next_project d" "pj_identity p \<notin> pj_identity ` set (db_projects d)"
  shows "db_ok sha (d\<lparr>db_projects := db_projects d @ [p], db_next_project := db_next_project d + 1\<rparr>)"
  using assms
  by (fastforce simp: db_ok_parts has_project_iff has_file_iff chunk_blob_def)

lemma ok_worktrees:
  assumes "db_ok sha d" "worktrees_ok (d\<lparr>db_worktrees := ws\<rparr>)" shows "db_ok sha (d\<lparr>db_worktrees := ws\<rparr>)"
  using assms by (simp add: db_ok_parts has_project_iff has_file_iff chunk_blob_def)

lemma ok_deps:
  assumes "db_ok sha d" "deps_ok (d\<lparr>db_deps := ds\<rparr>)" shows "db_ok sha (d\<lparr>db_deps := ds\<rparr>)"
  using assms by (simp add: db_ok_parts has_project_iff has_file_iff chunk_blob_def)

lemma ok_filter_worktrees:
  "db_ok sha d \<Longrightarrow> db_ok sha (d\<lparr>db_worktrees := filter P (db_worktrees d)\<rparr>)"
  by (rule ok_worktrees) (auto simp: db_ok_parts has_project_iff distinct_map_filterI)

lemma ok_filter_deps: "db_ok sha d \<Longrightarrow> db_ok sha (d\<lparr>db_deps := filter P (db_deps d)\<rparr>)"
  by (rule ok_deps) (auto simp: db_ok_parts has_project_iff)

lemma ok_set_worktree: "db_ok sha d \<Longrightarrow> db_ok sha (snd (set_worktree_files i w fs d))"
proof (cases "(fs = [] \<or> has_project i d) \<and> distinct (map fst fs)")
  case True
  assume ok: "db_ok sha d"
  let ?rows = "map (\<lambda>(p, h). \<lparr>wr_project = i, wr_worktree = w, wr_path = p, wr_hash = h\<rparr>) fs"
  let ?keep = "filter (\<lambda>r. \<not> (wr_project r = i \<and> wr_worktree r = w)) (db_worktrees d)"
  have "map worktree_key ?rows = map (\<lambda>p. (i, w, p)) (map fst fs)" by (auto simp: worktree_key_def)
  moreover have "distinct (map (\<lambda>p. (i, w, p)) (map fst fs))"
    using True by (subst distinct_map) (simp add: inj_on_def)
  ultimately have "distinct (map worktree_key ?rows)" by (simp only:)
  moreover have "distinct (map worktree_key ?keep)" using ok by (simp add: db_ok_parts distinct_map_filterI)
  ultimately have "distinct (map worktree_key (?keep @ ?rows))"
    by (simp only: map_append distinct_append) (auto simp: worktree_key_def)
  then have "worktrees_ok (d\<lparr>db_worktrees := ?keep @ ?rows\<rparr>)"
    using ok True by (auto simp: db_ok_parts has_project_iff)
  with ok_worktrees [OF ok this] True show ?thesis by (auto simp: set_worktree_files_def)
qed (auto simp: set_worktree_files_def)

lemma ok_insert_deps: "db_ok sha d \<Longrightarrow> db_ok sha (snd (insert_file_dependencies i src ts d))"
proof (cases "(ts = [] \<or> has_project i d) \<and> distinct ts")
  case True
  assume ok: "db_ok sha d"
  have "deps_ok (d\<lparr>db_deps := filter (\<lambda>(p, s, t). \<not> (p = i \<and> s = src)) (db_deps d) @ map (\<lambda>t. (i, src, t)) ts\<rparr>)"
    using ok True by (auto simp: db_ok_parts has_project_iff distinct_map inj_on_def)
  from ok_deps [OF ok this] True show ?thesis by (auto simp: insert_file_dependencies_def)
qed (auto simp: insert_file_dependencies_def)

lemma ok_delete_files: "db_ok sha d \<Longrightarrow> db_ok sha (delete_files P d)"
  by (auto simp: db_ok_parts has_project_iff has_file_iff chunk_blob_def delete_files_def
      list_ex_iff distinct_map_filterI)

lemma ok_delete_project: "db_ok sha d \<Longrightarrow> db_ok sha (snd (delete_project n d))"
  by (auto simp: db_ok_parts has_project_iff has_file_iff chunk_blob_def delete_project_def
      list_ex_iff distinct_map_filterI Let_def)

lemma ok_ensure: "db_ok sha d \<Longrightarrow> db_ok sha (snd (ensure_project_identity i n p m s k d))"
proof (cases "find (\<lambda>p. pj_identity p = i) (db_projects d)")
  case None
  assume "db_ok sha d"
  moreover from None have "i \<notin> pj_identity ` set (db_projects d)" by (auto simp: find_None_iff)
  ultimately show ?thesis using None ok_add_project [simplified]
    by (simp add: ensure_project_identity_def)
next
  case (Some q)
  assume "db_ok sha d"
  then show ?thesis unfolding ensure_project_identity_def Some
    by (auto intro!: ok_map_projects)
qed

lemma ok_create: "db_ok sha d \<Longrightarrow> db_ok sha (snd (create_project n m s k d))"
  by (auto simp: create_project_def list_ex_iff intro!: ok_add_project [simplified])

lemma ok_upsert_file: "db_ok sha d \<Longrightarrow> db_ok sha (snd (upsert_file i p h n d))"
proof (cases "find (\<lambda>f. fr_project f = i \<and> fr_path f = p \<and> fr_hash f = h) (db_files d)")
  case None
  assume ok: "db_ok sha d"
  from None have new: "(i, p, h) \<notin> file_key ` set (db_files d)"
    by (force simp: find_None_iff file_key_def)
  show ?thesis
  proof (cases "has_project i d")
    case True
    with ok None new show ?thesis
      by (fastforce simp: upsert_file_def db_ok_parts has_project_iff has_file_iff chunk_blob_def file_key_def)
  qed (use ok None in \<open>simp add: upsert_file_def\<close>)
next
  case (Some f)
  let ?g = "\<lambda>g::file_row. if fr_id g = fr_id f then g\<lparr>fr_size := n\<rparr> else g"
  assume ok: "db_ok sha d"
  have g: "fr_id (?g x) = fr_id x" "fr_project (?g x) = fr_project x" "file_key (?g x) = file_key x" for x
    by (simp_all add: file_key_def)
  then have "map fr_id (map ?g xs) = map fr_id xs" "map file_key (map ?g xs) = map file_key xs" for xs
    by simp_all
  moreover have "fr_id ` ?g ` S = fr_id ` S" for S by (simp only: image_image g)
  ultimately show ?thesis using ok
    by (auto simp: upsert_file_def Some db_ok_parts has_project_iff has_file_iff chunk_blob_def simp del: map_map)
qed

lemma ok_delete_chunks: "db_ok sha d \<Longrightarrow> db_ok sha (delete_chunks_for_file i f d)"
  by (auto simp: db_ok_parts has_project_iff has_file_iff chunk_blob_def delete_chunks_for_file_def
      distinct_map_filterI)

lemma ok_prune_orphans: "db_ok sha d \<Longrightarrow> db_ok sha (snd (prune_orphan_embeddings d))"
proof -
  assume ok: "db_ok sha d"
  have mo: "P h \<Longrightarrow> map_of (filter (\<lambda>(h, b). P h) xs) h = map_of xs h" for P :: "string \<Rightarrow> bool" and h and xs :: "(string \<times> string) list"
    by (induction xs) auto
  have "chunk_blob (snd (prune_orphan_embeddings d)) c = chunk_blob d c" if "c \<in> set (db_chunks d)" for c
    using that mo [of "\<lambda>h. \<exists>c\<in>set (db_chunks d). cr_emb_hash c = Some h"]
    by (cases "cr_emb_hash c") (auto simp: chunk_blob_def prune_orphan_embeddings_def Let_def list_ex_iff)
  then show ?thesis using ok
    by (auto simp: db_ok_parts has_project_iff has_file_iff prune_orphan_embeddings_def
        Let_def distinct_map_filterI chunk_blob_def)
qed

lemma add_cache_distinct: "distinct (map fst rows) \<Longrightarrow> distinct (map fst (add_cache_rows m k hes rows))"
  by (induction m k hes rows rule: add_cache_rows.induct) (auto simp: map_of_eq_None_iff)

lemma ok_cache:
  "db_ok sha d \<Longrightarrow> distinct (map fst c) \<Longrightarrow> db_ok sha (d\<lparr>db_cache := c\<rparr>)"
  by (simp add: db_ok_parts has_project_iff has_file_iff chunk_blob_def)

lemma cache_distinct: "db_ok sha d \<Longrightarrow> distinct (map fst (db_cache d))"
  by (simp add: db_ok_parts)

lemma same_key_iff: "same_key r c \<longleftrightarrow> chunk_key c = chunk_key r"
  by (auto simp: same_key_def chunk_key_def)

lemma upsert_chunk_distinct:
  "distinct (map chunk_key rows) \<Longrightarrow> distinct (map chunk_key (upsert_chunk r rows))"
proof -
  assume d: "distinct (map chunk_key rows)"
  have "map chunk_key (map (\<lambda>c. if same_key r c then r else c) rows) = map chunk_key rows"
    by (simp add: same_key_iff)
  with d show ?thesis
    by (auto simp: upsert_chunk_def same_key_iff list_ex_iff image_iff simp del: map_map)
qed

lemma upsert_chunk_elem: "c \<in> set (upsert_chunk r rows) \<Longrightarrow> c = r \<or> c \<in> set rows"
  by (auto simp: upsert_chunk_def split: if_splits)

lemma map_of_add_embedding:
  "map_of (add_embedding h b embs) k = (if k = h \<and> map_of embs h = None then Some b else map_of embs k)"
  by (auto simp: add_embedding_def map_add_def split: option.splits)

lemma insert_row_other [simp]:
  "db_projects (insert_row sha i f k m n ck e d) = db_projects d"
  "db_files (insert_row sha i f k m n ck e d) = db_files d"
  "db_next_project (insert_row sha i f k m n ck e d) = db_next_project d"
  "db_next_file (insert_row sha i f k m n ck e d) = db_next_file d"
  "db_cache (insert_row sha i f k m n ck e d) = db_cache d"
  "has_project j (insert_row sha i f k m n ck e d) = has_project j d"
  "has_file g (insert_row sha i f k m n ck e d) = has_file g d"
  "db_worktrees (insert_row sha i f k m n ck e d) = db_worktrees d"
  "db_deps (insert_row sha i f k m n ck e d) = db_deps d"
  by (simp_all add: insert_row_def Let_def has_project_def has_file_def split: option.splits)

lemma insert_row_chunks:
  "db_chunks (insert_row sha i f k m n ck e d) =
     upsert_chunk (chunk_to_row i f k m (map_option (\<lambda>v. sha (encode_embedding v)) e) n ck) (db_chunks d)"
  by (simp add: insert_row_def Let_def split: option.splits)

lemma chunk_blob_row:
  "chunk_blob d c \<noteq> None \<Longrightarrow> chunk_blob (insert_row sha i f k m n ck e d) c = chunk_blob d c"
  by (cases e; cases "cr_emb_hash c")
    (auto simp: chunk_blob_def insert_row_def Let_def map_of_add_embedding)

lemma ok_insert_row:
  assumes ok: "db_ok sha d" and fk: "has_project i d" "has_file f d"
  shows "db_ok sha (insert_row sha i f k m n ck e d)"
proof -
  let ?d = "insert_row sha i f k m n ck e d"
  let ?r = "chunk_to_row i f k m (map_option (\<lambda>v. sha (encode_embedding v)) e) n ck"
  have blob: "chunk_blob ?d c \<noteq> None" if "c \<in> set (db_chunks ?d)" "cr_emb_hash c \<noteq> None" for c
  proof -
    have "c = ?r \<or> c \<in> set (db_chunks d)" using that(1) upsert_chunk_elem by (simp add: insert_row_chunks)
    moreover have "chunk_blob ?d c \<noteq> None" if "c \<in> set (db_chunks d)"
      using that \<open>cr_emb_hash c \<noteq> None\<close> ok chunk_blob_row [of d c] by (simp add: db_ok_parts)
    ultimately show ?thesis using that(2)
      by (cases e) (auto simp: chunk_blob_def insert_row_def Let_def map_of_add_embedding chunk_to_row_def)
  qed
  have dict: "dict_ok sha ?d" using ok
    by (auto simp: db_ok_parts add_embedding_def insert_row_def Let_def map_of_eq_None_iff split: option.splits)
  have row: "cr_project ?r = i" "cr_file ?r = f" by (simp_all add: chunk_to_row_def)
  have "chunks_ok ?d"
    unfolding chunks_ok_def
  proof (intro conjI ballI)
    show "distinct (map chunk_key (db_chunks ?d))"
      using ok upsert_chunk_distinct by (simp add: insert_row_chunks db_ok_parts)
    fix c assume c: "c \<in> set (db_chunks ?d)"
    then have "c = ?r \<or> c \<in> set (db_chunks d)" using upsert_chunk_elem by (simp add: insert_row_chunks)
    then show "has_project (cr_project c) ?d" "has_file (cr_file c) ?d"
      using ok fk row by (auto simp: db_ok_parts)
    show "cr_emb_hash c \<noteq> None \<longrightarrow> chunk_blob ?d c \<noteq> None" using blob c by blast
  qed
  moreover have "projects_ok ?d" "files_ok ?d" "worktrees_ok ?d" "deps_ok ?d" using ok by (simp_all add: db_ok_parts)
  ultimately show ?thesis using dict by (simp add: db_ok_def)
qed

lemma ok_insert_rows:
  "db_ok sha d \<Longrightarrow> has_project i d \<Longrightarrow> has_file f d \<Longrightarrow> db_ok sha (insert_rows sha i f k m n rows d)"
  by (induction sha i f k m n rows d rule: insert_rows.induct) (simp_all add: ok_insert_row)

lemma ok_transaction: "db_ok sha d \<Longrightarrow> db_ok sha (snd (insert_transaction sha i f rows k m d))"
  by (cases "rows = []") (simp_all add: insert_transaction_def ok_insert_rows)

lemma apply_ok: "db_ok sha d \<Longrightarrow> db_ok sha (apply_op sha op d)"
proof (cases op)
  case (SetPrivacy ul i s)
  assume "db_ok sha d"
  then show ?thesis using SetPrivacy by (auto simp: set_project_privacy_def Let_def intro: ok_update_project)
qed (auto simp: ok_ensure ok_create ok_delete_project ok_upsert_file ok_delete_files
    ok_delete_chunks ok_prune_orphans update_project_status_def update_project_path_def
    update_project_commit_def prune_file_versions_def delete_file_by_path_def delete_file_by_id_def
    remove_worktree_file_def prune_unreferenced_files_def Let_def ok_set_worktree ok_insert_deps
    ok_filter_worktrees ok_filter_deps
    insert_chunks_def insert_chunks_text_only_def ok_transaction insert_embedding_cache_def
    prune_embedding_cache_def distinct_map_filterI cache_distinct
    intro!: ok_update_project ok_cache add_cache_distinct)

lemma store_reachable: "db_ok sha (fold (apply_op sha) ops empty_db)"
  by (rule fold_invariant [where Q = "\<lambda>_. True"]) (simp_all add: ok_empty apply_ok)

text \<open>C37: The constraints of the schema hold in every database the operations can produce:
  project ids and identities, file keys and ids, the keys of worktree entries, of dependencies and of
  chunks and the keys of both embedding tables are unique; every file, every worktree entry and every
  dependency belongs to an existing project, and every chunk to a project and a file; every
  embedding hash in a chunk has its vector in the dictionary, stored under the hash of its
  bytes.\<close>

theorem store_integrity: "db_ok sha (fold (apply_op sha) ops empty_db)"
  by (rule store_reachable)

section \<open>What a file's chunks read as\<close>

definition row_chunk :: "chunk_row \<Rightarrow> chunk" where
  "row_chunk c =
     \<lparr>ck_content = cr_content c, ck_start = cr_start c, ck_end = cr_end c,
      ck_confidence = cr_confidence c,
      ck_symbol = (case cr_symbol c of None \<Rightarrow> [] | Some s \<Rightarrow> s)\<rparr>"

definition chunk_view :: "nat \<Rightarrow> nat \<Rightarrow> db \<Rightarrow> nat \<Rightarrow> (chunk \<times> vec option) option" where
  "chunk_view pid fid d i =
     map_option (\<lambda>c. (row_chunk c, map_option decode_embedding (chunk_blob d c)))
       (find (\<lambda>c. chunk_key c = (pid, fid, i)) (db_chunks d))"

definition stored_chunk :: "chunk \<Rightarrow> chunk" where
  "stored_chunk ck = ck\<lparr>ck_confidence := (if ck_confidence ck = [] then ''AMBIGUOUS'' else ck_confidence ck)\<rparr>"

lemma find_map_key:
  "find (\<lambda>c. chunk_key c = k) (map (\<lambda>c. if same_key r c then r else c) rows) =
     (if k = chunk_key r \<and> list_ex (same_key r) rows then Some r
      else find (\<lambda>c. chunk_key c = k) rows)"
  by (induction rows) (auto simp: same_key_iff list_ex_iff)

lemma find_append: "find P (xs @ ys) = (case find P xs of None \<Rightarrow> find P ys | Some x \<Rightarrow> Some x)"
  by (induction xs) auto

lemma find_upsert_chunk:
  "find (\<lambda>c. chunk_key c = k) (upsert_chunk r rows) =
     (if k = chunk_key r then Some r else find (\<lambda>c. chunk_key c = k) rows)"
proof (cases "list_ex (same_key r) rows")
  case True
  then show ?thesis by (simp add: upsert_chunk_def find_map_key)
next
  case False
  then have "find (\<lambda>c. chunk_key c = chunk_key r) rows = None"
    by (auto simp: find_None_iff list_ex_iff same_key_iff)
  with False show ?thesis
    by (auto simp: upsert_chunk_def find_append split: option.splits)
qed

lemma row_chunk_stored: "row_chunk (chunk_to_row i f k m h n ck) = stored_chunk ck"
  by (simp add: row_chunk_def chunk_to_row_def stored_chunk_def)

lemma dict_hash: "dict_ok sha d \<Longrightarrow> map_of (db_embeddings d) h = Some b \<Longrightarrow> h = sha b"
  by (auto simp: dict_ok_def dest!: map_of_SomeD)

lemma blob_of_new_row:
  assumes "dict_ok sha d" "inj sha"
  shows "chunk_blob (insert_row sha i f k m n ck e d)
      (chunk_to_row i f k m (map_option (\<lambda>v. sha (encode_embedding v)) e) n ck) =
    map_option encode_embedding e"
proof (cases e)
  case (Some v)
  show ?thesis
  proof (cases "map_of (db_embeddings d) (sha (encode_embedding v))")
    case (Some b)
    with dict_hash assms have "b = encode_embedding v" by (metis injD)
    with \<open>e = Some v\<close> Some show ?thesis
      by (simp add: chunk_blob_def chunk_to_row_def insert_row_def Let_def map_of_add_embedding)
  qed (use \<open>e = Some v\<close> in \<open>simp add: chunk_blob_def chunk_to_row_def insert_row_def Let_def map_of_add_embedding\<close>)
qed (simp add: chunk_blob_def chunk_to_row_def)

lemma insert_row_view:
  assumes ok: "db_ok sha d" and inj: "inj sha"
  shows "chunk_view p g (insert_row sha i f k m n ck e d) j =
    (if (p, g, j) = (i, f, n) then Some (stored_chunk ck, e) else chunk_view p g d j)"
proof (cases "(p, g, j) = (i, f, n)")
  case True
  have "map_option decode_embedding (map_option encode_embedding e) = e"
    by (cases e) (simp_all add: decode_encode_embedding [THEN conjunct1])
  with True show ?thesis
    using blob_of_new_row [OF _ inj, of d i f k m n ck e] ok
    by (simp add: chunk_view_def insert_row_chunks find_upsert_chunk row_chunk_stored db_ok_def)
      (simp add: chunk_key_def chunk_to_row_def)
next
  case False
  have "chunk_blob (insert_row sha i f k m n ck e d) c = chunk_blob d c" if "c \<in> set (db_chunks d)" for c
  proof (cases "cr_emb_hash c")
    case None then show ?thesis by (simp add: chunk_blob_def)
  next
    case (Some h)
    with ok that have "chunk_blob d c \<noteq> None" by (simp add: db_ok_parts)
    then show ?thesis by (rule chunk_blob_row)
  qed
  moreover have "c \<in> set (db_chunks d)" if "find P (db_chunks d) = Some c" for P c
    using that by (auto simp: find_Some_iff)
  moreover have "chunk_key (chunk_to_row i f k m h n ck) = (i, f, n)" for h
    by (simp add: chunk_key_def chunk_to_row_def)
  ultimately show ?thesis using False
    by (auto simp: chunk_view_def insert_row_chunks find_upsert_chunk split: option.splits
      intro!: map_option_cong)
qed

lemma insert_rows_view:
  "db_ok sha d \<Longrightarrow> inj sha \<Longrightarrow> has_project i d \<Longrightarrow> has_file f d \<Longrightarrow>
   chunk_view p g (insert_rows sha i f k m n rows d) j =
    (if p = i \<and> g = f \<and> n \<le> j \<and> j < n + length rows
     then Some (stored_chunk (fst (rows ! (j - n))), snd (rows ! (j - n)))
     else chunk_view p g d j)"
proof (induction sha i f k m n rows d rule: insert_rows.induct)
  case (2 sha i f k m n ck e rest d)
  show ?case using 2
    by (auto simp: insert_row_view ok_insert_row nth_Cons' less_Suc_eq_le)
qed auto

text \<open>The contract the indexer relies on when it stores the chunks of one file: a batch
  replaces the rows \<open>0, 1, ...\<close> it covers, and deleting leaves no row.\<close>

locale chunk_store =
  fixes good :: "'d \<Rightarrow> bool"
    and ins :: "chunk list \<Rightarrow> vec list \<Rightarrow> 'd \<Rightarrow> unit result \<times> 'd"
    and del :: "'d \<Rightarrow> 'd"
    and view :: "'d \<Rightarrow> nat \<Rightarrow> (chunk \<times> vec option) option"
  assumes ins_ok: "good d \<Longrightarrow> length cs = length vs \<Longrightarrow>
      fst (ins cs vs d) = Inr () \<and> good (snd (ins cs vs d)) \<and>
      view (snd (ins cs vs d)) j =
        (if j < length cs then Some (stored_chunk (cs ! j), Some (vs ! j)) else view d j)"
    and ins_mismatch: "length cs \<noteq> length vs \<Longrightarrow> \<exists>e. ins cs vs d = (Inl e, d)"
    and del_ok: "good d \<Longrightarrow> good (del d) \<and> view (del d) j = None"
begin

lemma reindexed:
  "good d \<Longrightarrow> length cs = length vs \<Longrightarrow>
   view (snd (ins cs vs (del d))) j =
     (if j < length cs then Some (stored_chunk (cs ! j), Some (vs ! j)) else None)"
  using ins_ok [of "del d" cs vs j] del_ok by auto

text \<open>Two batches do not add up: the second takes the place of the first.\<close>

lemma second_batch:
  assumes "good d" "length cs = length vs" "length cs2 = length vs2"
  shows "view (snd (ins cs2 vs2 (snd (ins cs vs (del d))))) j =
     (if j < length cs2 then Some (stored_chunk (cs2 ! j), Some (vs2 ! j))
      else if j < length cs then Some (stored_chunk (cs ! j), Some (vs ! j)) else None)"
  using assms ins_ok [of "snd (ins cs vs (del d))" cs2 vs2 j] ins_ok [of "del d" cs vs j] del_ok [of d]
  by auto

end

definition store_good :: "(string \<Rightarrow> string) \<Rightarrow> nat \<Rightarrow> nat \<Rightarrow> db \<Rightarrow> bool" where
  "store_good sha pid fid d \<longleftrightarrow> inj sha \<and> db_ok sha d \<and> has_project pid d \<and> has_file fid d"

lemma view_deleted: "chunk_view i f (delete_chunks_for_file i f d) j = None"
  by (auto simp: chunk_view_def delete_chunks_for_file_def find_None_iff chunk_key_def)

lemma store_good_delete: "store_good sha i f d \<Longrightarrow> store_good sha i f (delete_chunks_for_file i f d)"
  by (auto simp: store_good_def ok_delete_chunks) (simp_all add: has_project_def has_file_def delete_chunks_for_file_def)

lemma insert_rows_has [simp]:
  "has_project j (insert_rows sha i f k m n rows d) = has_project j d"
  "has_file g (insert_rows sha i f k m n rows d) = has_file g d"
  by (induction sha i f k m n rows d rule: insert_rows.induct) simp_all

lemma insert_chunks_ok:
  assumes "store_good sha i f d" "length cs = length vs"
  shows "fst (insert_chunks sha i f cs vs k d) = Inr () \<and>
    store_good sha i f (snd (insert_chunks sha i f cs vs k d)) \<and>
    chunk_view i f (snd (insert_chunks sha i f cs vs k d)) j =
      (if j < length cs then Some (stored_chunk (cs ! j), Some (vs ! j)) else chunk_view i f d j)"
  using assms
  by (auto simp: insert_chunks_def insert_transaction_def store_good_def ok_insert_rows insert_rows_view)

interpretation file_chunks: chunk_store "store_good sha pid fid"
  "\<lambda>cs vs d. insert_chunks sha pid fid cs vs dims d"
  "delete_chunks_for_file pid fid" "chunk_view pid fid" for sha pid fid dims
proof unfold_locales
  fix cs :: "chunk list" and vs :: "vec list" and d
  assume "length cs \<noteq> length vs"
  then show "\<exists>e. insert_chunks sha pid fid cs vs dims d = (Inl e, d)" by (simp add: insert_chunks_def)
qed (simp_all add: insert_chunks_ok view_deleted store_good_delete)

text \<open>C36: Re-indexing a file stores exactly the new chunks.  After the old chunks of the file are
  deleted and a batch is inserted, row \<open>i\<close> of the file reads as chunk \<open>i\<close> of the batch with
  its vector, bit for bit, and there is no other row.  SHA-256 is taken to be free of
  collisions.\<close>

theorem reindex_reads_back:
  assumes "inj sha" "db_ok sha d" "has_project pid d" "has_file fid d" "length cs = length vs"
  shows "chunk_view pid fid
      (snd (insert_chunks sha pid fid cs vs dims (delete_chunks_for_file pid fid d))) j =
    (if j < length cs then Some (stored_chunk (cs ! j), Some (vs ! j)) else None)"
  by (rule file_chunks.reindexed) (use assms in \<open>simp_all add: store_good_def\<close>)

definition demo_db :: db where
  "demo_db = fold (apply_op id) [EnsureIdentity ''id'' ''p'' ''/p'' ''m'' ''path'' 2, UpsertFile 1 ''a.go'' ''h'' 3] empty_db"

lemma demo_db_facts: "has_project 1 demo_db" "has_file 1 demo_db" "db_ok id demo_db"
proof -
  show "has_project 1 demo_db" "has_file 1 demo_db" by code_simp+
  show "db_ok id demo_db" unfolding demo_db_def by (rule store_reachable)
qed

theorem reindex_reads_back_witness:
  "chunk_view 1 1 (snd (insert_chunks id 1 1 [mk_chunk ''x'' 1 1] [[1, 2]] 2
      (delete_chunks_for_file 1 1 demo_db))) 0 =
    Some ((mk_chunk ''x'' 1 1)\<lparr>ck_confidence := ''AMBIGUOUS''\<rparr>, Some [1, 2])"
  using reindex_reads_back [of id demo_db 1 1 "[mk_chunk ''x'' 1 1]" "[[1, 2]]" 2 0] demo_db_facts
  by (simp add: stored_chunk_def mk_chunk_def)

text \<open>Pruning keeps what a worktree still shows.  Right after the manifest of a worktree is
  set, pruning the project's unreferenced files keeps every file of that manifest, and afterwards
  each remaining file of the project is referenced by some worktree or holds git history
  (\<open>git:\<close> paths, in any case); other projects lose nothing.\<close>

theorem prune_keeps_referenced:
  assumes "set_worktree_files pid wt files d = (Inr (), d1)" "prune_unreferenced_files pid d1 = (n, d2)"
  shows "(\<forall>f\<in>set (db_files d). fr_project f = pid \<and> (fr_path f, fr_hash f) \<in> set files \<longrightarrow> f \<in> set (db_files d2)) \<and>
    (\<forall>f\<in>set (db_files d2). fr_project f = pid \<longrightarrow> git_path (fr_path f) \<or> referenced d2 f) \<and>
    (\<forall>f\<in>set (db_files d). fr_project f \<noteq> pid \<longrightarrow> f \<in> set (db_files d2)) \<and>
    n + length (db_files d2) = length (db_files d)"
proof -
  have fs: "db_files d1 = db_files d" using assms(1) by (auto simp: set_worktree_files_def split: if_splits)
  have d2: "db_files d2 = filter (\<lambda>f. \<not> (fr_project f = pid \<and> \<not> git_path (fr_path f) \<and> \<not> referenced d1 f)) (db_files d)"
    "n = length (filter (\<lambda>f. fr_project f = pid \<and> \<not> git_path (fr_path f) \<and> \<not> referenced d1 f) (db_files d))"
    "db_worktrees d2 = db_worktrees d1"
    using assms(2) fs by (auto simp: prune_unreferenced_files_def Let_def delete_files_def)
  have r: "referenced d2 f = referenced d1 f" for f using d2(3) by (simp add: referenced_def)
  have "referenced d1 f" if "fr_project f = pid" "(fr_path f, fr_hash f) \<in> set files" for f
    using assms(1) that
    by (auto simp: set_worktree_files_def referenced_def list_ex_iff split: if_splits
        intro!: bexI [OF _ UnI2, OF _ imageI]) simp_all
  moreover have "n + length (db_files d2) = length (db_files d)"
    unfolding d2(1,2) by (rule sum_length_filter_compl)
  ultimately show ?thesis using d2(1) r by auto
qed

theorem prune_keeps_referenced_witness:
  "\<exists>d1 n d2. set_worktree_files 1 ''w'' [(''a.go'', ''h'')] demo_db = (Inr (), d1) \<and>
     prune_unreferenced_files 1 d1 = (n, d2) \<and> n + length (db_files d2) = length (db_files demo_db)"
proof -
  obtain d1 where 1: "set_worktree_files 1 ''w'' [(''a.go'', ''h'')] demo_db = (Inr (), d1)"
    using demo_db_facts by (simp add: set_worktree_files_def)
  obtain n d2 where 2: "prune_unreferenced_files 1 d1 = (n, d2)" by fastforce
  from prune_keeps_referenced [OF 1 2] 1 2 show ?thesis by blast
qed

text \<open>Deleting a project by name deletes every project of that name.  Names are not unique
  (\<open>identity\<close> is), so a second repository that happens to have the same base name loses its
  index too.\<close>

theorem delete_project_takes_namesakes:
  assumes "p \<in> set (db_projects d)" "q \<in> set (db_projects d)" "pj_name q = pj_name p"
    and "delete_project (pj_name p) d = (r, d2)"
  shows "r = Inr () \<and> q \<notin> set (db_projects d2) \<and>
    (\<forall>f\<in>set (db_files d2). fr_project f \<noteq> pj_id q) \<and>
    (\<forall>c\<in>set (db_chunks d2). cr_project c \<noteq> pj_id q)"
  using assms by (auto simp: delete_project_def Let_def list_ex_iff split: if_splits)

theorem delete_project_takes_namesakes_witness:
  "let d = fold (apply_op id) [EnsureIdentity ''git:a/app'' ''app'' ''/a/app'' ''m'' ''path'' 2,
       EnsureIdentity ''git:b/app'' ''app'' ''/b/app'' ''m'' ''path'' 2,
       UpsertFile 2 ''main.go'' ''h'' 3] empty_db
   in length (db_projects d) = 2 \<and> length (db_files d) = 1 \<and>
      (\<forall>f\<in>set (db_files (snd (delete_project ''app'' d))). fr_project f \<noteq> 2)"
proof -
  let ?d = "fold (apply_op id) [EnsureIdentity ''git:a/app'' ''app'' ''/a/app'' ''m'' ''path'' 2,
       EnsureIdentity ''git:b/app'' ''app'' ''/b/app'' ''m'' ''path'' 2,
       UpsertFile 2 ''main.go'' ''h'' 3] empty_db"
  have len: "length (db_projects ?d) = 2" "length (db_files ?d) = 1" by code_simp+
  have names: "pj_name (db_projects ?d ! 0) = ''app''" "pj_name (db_projects ?d ! 1) = ''app''"
    "pj_id (db_projects ?d ! 1) = 2" by code_simp+
  have "\<forall>f\<in>set (db_files (snd (delete_project ''app'' ?d))). fr_project f \<noteq> 2"
    using delete_project_takes_namesakes [of "db_projects ?d ! 0" ?d "db_projects ?d ! 1"
        "fst (delete_project ''app'' ?d)" "snd (delete_project ''app'' ?d)"] len names
    by (simp del: fold.simps)
  with len show ?thesis unfolding Let_def by blast
qed

end
