(* ===== verification/Privacy.thy ===== *)
theory Privacy
  imports GoPrelude
begin

text \<open>
  \<open>internal/privacy/privacy.go\<close>: the project's data routing policy and the classification
  of paths that must not reach a cloud provider.  Paths use \<open>/\<close>
  (\<open>filepath.Separator\<close> on Unix).
\<close>

section \<open>The policy\<close>

datatype mode = Cloud | Hybrid | Edge

definition normalize_mode :: "(string \<Rightarrow> string) \<Rightarrow> string \<Rightarrow> mode result" where
  "normalize_mode ul value =
     (let m = to_lower ul (trim_space value)
      in if m = ''cloud'' then Inr Cloud
         else if m = ''hybrid'' \<or> m = [] then Inr Hybrid
         else if m = ''edge'' then Inr Edge
         else Inl (Plain ''privacy mode must be cloud, hybrid, or edge''))"

section \<open>Sensitive paths\<close>

definition sensitive_keywords :: "string list" where
  "sensitive_keywords =
     [''env'', ''secret'', ''key'', ''password'', ''credential'', ''token'', ''auth'', ''config'',
      ''db'', ''database'', ''private'', ''pem'', ''jwks'', ''cert'', ''ssl'']"

definition sensitive_exts :: "string list" where
  "sensitive_exts = [''.env'', ''.pem'', ''.key'', ''.conf'', ''.config'']"

text \<open>\<open>strings.FieldsFunc\<close>: the maximal runs of bytes that are not separators.\<close>

fun pieces :: "(char \<Rightarrow> bool) \<Rightarrow> string \<Rightarrow> string list" where
  "pieces P [] = [[]]"
| "pieces P (c # s) =
     (if P c then [] # pieces P s
      else (case pieces P s of [] \<Rightarrow> [[c]] | p # ps \<Rightarrow> (c # p) # ps))"

definition fields_func :: "(char \<Rightarrow> bool) \<Rightarrow> string \<Rightarrow> string list" where
  "fields_func P s = filter (\<lambda>p. p \<noteq> []) (pieces P s)"

definition token_sep :: "char \<Rightarrow> bool" where
  "token_sep c \<longleftrightarrow> c = CHR ''.'' \<or> c = CHR ''_'' \<or> c = CHR ''-''"

definition segment_matches :: "string \<Rightarrow> string \<Rightarrow> bool" where
  "segment_matches part kw = list_ex (\<lambda>t. t = kw) (fields_func token_sep part)"

definition is_sensitive :: "(string \<Rightarrow> string) \<Rightarrow> string \<Rightarrow> bool" where
  "is_sensitive ul path0 =
     (let path = to_lower ul path0
      in list_ex (\<lambda>part. list_ex (segment_matches part) sensitive_keywords)
           (split_byte (CHR ''/'') path) \<or>
         List.member sensitive_exts (path_ext path))"

section \<open>What makes a path sensitive\<close>

lemma pieces_nonempty [simp]: "pieces P s \<noteq> []"
  by (induction s) (auto split: list.splits)

lemma pieces_append_sep: "P c \<Longrightarrow> pieces P (a @ c # b) = pieces P a @ pieces P b"
  by (induction a) (auto split: list.splits)

lemma pieces_free: "list_all (\<lambda>c. \<not> P c) s \<Longrightarrow> pieces P s = [s]"
  by (induction s) auto

lemma split_byte_pieces: "split_byte d s = pieces (\<lambda>c. c = d) s"
  by (induction s) (auto split: list.splits)

lemma pieces_refine:
  "concat (map (pieces Q) (pieces P s)) = pieces (\<lambda>c. P c \<or> Q c) s"
proof (induction s)
  case (Cons c s)
  obtain p ps where ps: "pieces P s = p # ps" by (meson neq_Nil_conv pieces_nonempty)
  obtain q qs where qs: "pieces Q p = q # qs" by (meson neq_Nil_conv pieces_nonempty)
  show ?case using Cons ps qs by (auto split: list.splits)
qed simp

text \<open>All separators at once: a path is cut into tokens at \<open>/\<close>, \<open>.\<close>, \<open>_\<close> and
  \<open>-\<close>.\<close>

definition path_tokens :: "string \<Rightarrow> string list" where
  "path_tokens = fields_func (\<lambda>c. c = CHR ''/'' \<or> token_sep c)"

lemma segments_tokens:
  "(\<exists>part\<in>set (split_byte (CHR ''/'') p). segment_matches part kw) \<longleftrightarrow> kw \<in> set (path_tokens p)"
proof -
  have "set (path_tokens p) = {t. t \<noteq> [] \<and> (\<exists>part\<in>set (split_byte (CHR ''/'') p). t \<in> set (pieces token_sep part))}"
    unfolding path_tokens_def fields_func_def split_byte_pieces
    using arg_cong [OF pieces_refine [of token_sep "\<lambda>c. c = CHR ''/''" p], of set] by auto
  then show ?thesis by (auto simp: segment_matches_def fields_func_def list_ex_iff)
qed

lemma upto_after_last: "upto_last d s @ after_last d s = s"
  unfolding upto_last_def after_last_def
  by (metis rev_append rev_rev_ident takeWhile_dropWhile_id)

lemma upto_last_ends: "d \<in> set s \<Longrightarrow> \<exists>a. upto_last d s = a @ [d]"
proof -
  assume "d \<in> set s"
  then have "dropWhile (\<lambda>c. c \<noteq> d) (rev s) \<noteq> []" by (auto simp: dropWhile_eq_Nil_conv)
  then obtain x xs where x: "dropWhile (\<lambda>c. c \<noteq> d) (rev s) = x # xs" by (meson neq_Nil_conv)
  then have "x = d" by (metis (mono_tags, lifting) dropWhile_eq_Cons_conv)
  with x show ?thesis by (simp add: upto_last_def)
qed

lemma after_last_free: "c \<in> set (after_last d s) \<Longrightarrow> c \<noteq> d"
  by (auto simp: after_last_def dest: set_takeWhileD)

text \<open>The extension of a path is one of its tokens.\<close>

lemma ext_token:
  assumes "path_ext p = CHR ''.'' # e" "e \<noteq> []" "list_all (\<lambda>c. \<not> token_sep c \<and> c \<noteq> CHR ''/'') e"
  shows "e \<in> set (path_tokens p)"
proof -
  let ?b = "after_last (CHR ''/'') p"
  have e: "CHR ''.'' \<in> set ?b" "e = after_last (CHR ''.'') ?b"
    using assms(1) by (auto simp: path_ext_def Let_def split: if_splits)
  then obtain a where "upto_last (CHR ''.'') ?b = a @ ''.''" using upto_last_ends by blast
  then have "?b = a @ CHR ''.'' # e" using upto_after_last [of "CHR ''.''" ?b] e(2) by simp
  then have p: "p = (upto_last (CHR ''/'') p @ a) @ CHR ''.'' # e"
    using upto_after_last [of "CHR ''/''" p] by simp
  let ?P = "\<lambda>c. c = CHR ''/'' \<or> token_sep c"
  have "pieces ?P e = [e]"
    by (rule pieces_free) (use assms(3) in \<open>auto simp: list_all_iff\<close>)
  moreover have "pieces ?P ((upto_last (CHR ''/'') p @ a) @ CHR ''.'' # e) =
      pieces ?P (upto_last (CHR ''/'') p @ a) @ pieces ?P e"
    by (rule pieces_append_sep) (simp add: token_sep_def)
  ultimately have "e \<in> set (pieces ?P p)" using arg_cong [OF p, of "pieces ?P"] by simp
  with assms(2) show ?thesis by (simp add: path_tokens_def fields_func_def)
qed

text \<open>A path is sensitive exactly when one of its tokens, in lower case and cut at \<open>/\<close>,
  \<open>.\<close>, \<open>_\<close> and \<open>-\<close>, is one of the fifteen keywords, or its extension is
  \<open>.conf\<close>; the other four extensions of the list add nothing.  In particular a token that
  only contains a keyword does not count.\<close>

theorem sensitive_iff_token:
  "is_sensitive ul path \<longleftrightarrow>
     list_ex (\<lambda>t. List.member sensitive_keywords t) (path_tokens (to_lower ul path)) \<or>
     path_ext (to_lower ul path) = ''.conf''"
proof -
  let ?p = "to_lower ul path"
  have "e \<in> set (path_tokens ?p)" if "path_ext ?p = CHR ''.'' # e" "e \<in> {''env'', ''pem'', ''key'', ''config''}" for e
    by (rule ext_token) (use that in \<open>auto simp: token_sep_def\<close>)
  then have "List.member sensitive_exts (path_ext ?p) \<longrightarrow>
      path_ext ?p = ''.conf'' \<or> list_ex (\<lambda>t. List.member sensitive_keywords t) (path_tokens ?p)"
    by (auto simp: sensitive_exts_def sensitive_keywords_def list_ex_iff)
  moreover have "list_ex (\<lambda>part. list_ex (segment_matches part) sensitive_keywords) (split_byte (CHR ''/'') ?p) \<longleftrightarrow>
      list_ex (\<lambda>t. List.member sensitive_keywords t) (path_tokens ?p)"
    by (simp add: list_ex_iff) (use segments_tokens [of ?p] in blast)
  ultimately show ?thesis
    by (auto simp: is_sensitive_def Let_def sensitive_exts_def)
qed

text \<open>The plural of a keyword is not one: \<open>credentials.json\<close>, \<open>secrets.yaml\<close> and
  a directory \<open>tokens\<close> are not sensitive.\<close>

theorem plural_names_not_sensitive:
  "\<not> is_sensitive ul ''home/credentials.json'' \<and> \<not> is_sensitive ul ''deploy/secrets.yaml'' \<and>
   \<not> is_sensitive ul ''tokens/prod.txt'' \<and> is_sensitive ul ''home/credential.json''"
proof -
  have l: "to_lower ul ''home/credentials.json'' = ''home/credentials.json''"
    "to_lower ul ''deploy/secrets.yaml'' = ''deploy/secrets.yaml''"
    "to_lower ul ''tokens/prod.txt'' = ''tokens/prod.txt''"
    "to_lower ul ''home/credential.json'' = ''home/credential.json''"
    by (simp_all add: to_lower_def is_ascii_def ascii_lower_def)
  show ?thesis unfolding is_sensitive_def l Let_def by (intro conjI) code_simp+
qed

end
