(* ===== verification/IndexUnits.thy ===== *)
theory IndexUnits
  imports ChunkerAST
begin

text \<open>
  The parts of \<open>internal/indexing/indexer.go\<close> that touch neither the store nor an
  embedder: limits and the shared chunk budget (as a transition system of compare-and-swap
  steps), confidence tags, the text sent for embedding, outcome merging, the splitter of
  \<open>git log -p\<close> output and the checks of git arguments.
\<close>

section \<open>Limits\<close>

definition effective_max_files :: "int \<Rightarrow> int \<Rightarrow> int" where
  "effective_max_files request_max project_cap =
     (if request_max > 0 \<and> project_cap > 0 then min request_max project_cap
      else if request_max > 0 then request_max else project_cap)"

text \<open>One run of \<open>takeChunkBudget\<close> that nobody interferes with: the chunks granted and the
  new counter; a negative counter is unlimited.\<close>

definition take_chunk_budget :: "int \<Rightarrow> int \<Rightarrow> int \<times> int" where
  "take_chunk_budget want rem =
     (if want \<le> 0 then (0, rem)
      else if rem < 0 then (want, rem)
      else if rem = 0 then (0, rem)
      else let tk = (if want > rem then rem else want) in (tk, rem - tk))"

text \<open>Its loads and compare-and-swaps interleaved among workers: \<open>bg_seen i\<close> is the counter
  worker \<open>i\<close> loaded, \<open>bg_granted\<close> the chunks granted so far.\<close>

record budget_state =
  bg_rem :: int
  bg_seen :: "nat \<Rightarrow> int option"
  bg_granted :: int

inductive budget_step :: "budget_state \<Rightarrow> budget_state \<Rightarrow> bool" where
  load: "budget_step b (b\<lparr>bg_seen := (bg_seen b)(i := Some (bg_rem b))\<rparr>)"
| swap: "\<lbrakk>bg_seen b i = Some r; 0 < want; 0 < r; bg_rem b = r; tk = min want r\<rbrakk> \<Longrightarrow>
     budget_step b (b\<lparr>bg_rem := r - tk, bg_seen := (bg_seen b)(i := None), bg_granted := bg_granted b + tk\<rparr>)"
| again: "\<lbrakk>bg_seen b i = Some r; 0 < r; bg_rem b \<noteq> r\<rbrakk> \<Longrightarrow>
     budget_step b (b\<lparr>bg_seen := (bg_seen b)(i := None)\<rparr>)"
| nothing: "bg_seen b i = Some 0 \<Longrightarrow> budget_step b (b\<lparr>bg_seen := (bg_seen b)(i := None)\<rparr>)"

definition budget_start :: "int \<Rightarrow> budget_state" where
  "budget_start n = \<lparr>bg_rem = n, bg_seen = (\<lambda>_. None), bg_granted = 0\<rparr>"

inductive_cases budget_stepE: "budget_step b c"

text \<open>The workers never store more chunks than the project's budget: in every interleaving
  of their loads and swaps the chunks granted and the chunks left add up to the budget, and
  neither is negative.\<close>

theorem budget_conserved:
  assumes "budget_step\<^sup>*\<^sup>* (budget_start n) b" "0 \<le> n"
  shows "bg_granted b + bg_rem b = n \<and> 0 \<le> bg_rem b \<and> 0 \<le> bg_granted b"
  using assms
proof (induction rule: rtranclp_induct)
  case base
  then show ?case by (simp add: budget_start_def)
next
  case (step b c)
  from step.hyps(2) step.IH step.prems show ?case by (auto elim!: budget_stepE)
qed

lemma budget_two_steps:
  assumes "0 < want" "0 < r"
  shows "budget_step\<^sup>*\<^sup>* (b\<lparr>bg_rem := r\<rparr>)
    (b\<lparr>bg_rem := snd (take_chunk_budget want r), bg_seen := (bg_seen b)(i := None),
       bg_granted := bg_granted b + fst (take_chunk_budget want r)\<rparr>)"
proof -
  let ?b = "b\<lparr>bg_rem := r\<rparr>"
  have 1: "budget_step ?b (?b\<lparr>bg_seen := (bg_seen ?b)(i := Some (bg_rem ?b))\<rparr>)" by (rule load)
  have 2: "budget_step (?b\<lparr>bg_seen := (bg_seen ?b)(i := Some (bg_rem ?b))\<rparr>)
    (b\<lparr>bg_rem := snd (take_chunk_budget want r), bg_seen := (bg_seen b)(i := None),
       bg_granted := bg_granted b + fst (take_chunk_budget want r)\<rparr>)"
    using swap [of "?b\<lparr>bg_seen := (bg_seen ?b)(i := Some (bg_rem ?b))\<rparr>" i r want "min want r"] assms
    by (cases "want \<le> r") (simp_all add: take_chunk_budget_def Let_def)
  from 1 2 show ?thesis by (meson r_into_rtranclp rtranclp.rtrancl_into_rtrancl)
qed

theorem budget_conserved_witness:
  "bg_granted (budget_start 5\<lparr>bg_rem := 2, bg_seen := (\<lambda>_. None)(0 := None), bg_granted := 3\<rparr>) = 3 \<and>
   budget_step\<^sup>*\<^sup>* (budget_start 5)
     (budget_start 5\<lparr>bg_rem := 2, bg_seen := (\<lambda>_. None)(0 := None), bg_granted := 3\<rparr>)"
proof -
  have "budget_step\<^sup>*\<^sup>* (budget_start 5)
     (budget_start 5\<lparr>bg_rem := 2, bg_seen := (\<lambda>_. None)(0 := None), bg_granted := 3\<rparr>)"
    using budget_two_steps [of 3 5 "budget_start 5" 0]
    by (simp add: take_chunk_budget_def budget_start_def)
  with budget_conserved [OF this] show ?thesis by simp
qed

section \<open>Symbols of a chunk\<close>

definition overlaps :: "symbol \<Rightarrow> chunk \<Rightarrow> bool" where
  "overlaps s c \<longleftrightarrow> sy_start s \<le> ck_end c \<and> sy_end s \<ge> ck_start c"

fun join_comma :: "string list \<Rightarrow> string" where
  "join_comma [] = []"
| "join_comma [s] = s"
| "join_comma (s # t # ss) = s @ '', '' @ join_comma (t # ss)"

definition chunk_input :: "symbol list \<Rightarrow> chunk \<Rightarrow> string" where
  "chunk_input syms c =
     (let cs = map (\<lambda>s. sy_kind s @ '' '' @ sy_name s) (filter (\<lambda>s. overlaps s c) syms);
          shown = (if length cs > 20 then take 20 cs @ [''...''] else cs)
      in if shown \<noteq> [] then ''Symbols: '' @ join_comma shown @ [CHR 0x0A] @ ck_content c
         else ck_content c)"

definition build_chunk_inputs :: "chunk list \<Rightarrow> symbol list \<Rightarrow> string list" where
  "build_chunk_inputs chunks syms = map (chunk_input syms) chunks"

definition classify_chunk :: "symbol list \<Rightarrow> chunk \<Rightarrow> string \<times> string" where
  "classify_chunk syms c =
     (let over = filter (\<lambda>s. overlaps s c) syms
      in case find (\<lambda>s. sy_start s \<ge> ck_start c \<and> sy_start s \<le> ck_end c \<and> sy_name s \<noteq> []) over of
           Some s \<Rightarrow> (''EXTRACTED'', sy_name s)
         | None \<Rightarrow>
             (case find (\<lambda>s. sy_name s \<noteq> []) over of
                Some s \<Rightarrow> (''INFERRED'', sy_name s)
              | None \<Rightarrow>
                  (case find (\<lambda>s. sy_name s \<noteq> [] \<and> str_contains (ck_content c) (sy_name s)) syms of
                     Some s \<Rightarrow> (''INFERRED'', sy_name s)
                   | None \<Rightarrow> (''AMBIGUOUS'', []))))"

definition classify_chunks :: "symbol list \<Rightarrow> chunk list \<Rightarrow> chunk list" where
  "classify_chunks syms chunks =
     map (\<lambda>c. c\<lparr>ck_confidence := fst (classify_chunk syms c), ck_symbol := snd (classify_chunk syms c)\<rparr>) chunks"

text \<open>The confidence tag says how a chunk relates to the file's named symbols.  EXTRACTED:
  some named symbol's declaration starts in the chunk's lines (and its range reaches the chunk).
  INFERRED: none does, but a named symbol's range overlaps the chunk, or a symbol's name occurs
  in its text.  AMBIGUOUS: neither.  In the first two cases the chunk's symbol is such a
  symbol.\<close>

theorem classify_chunk_meaning:
  "(case classify_chunk syms c of (conf, nm) \<Rightarrow>
     (let named = (\<lambda>P. \<exists>s\<in>set syms. sy_name s \<noteq> [] \<and> P s);
          starts = (\<lambda>s. overlaps s c \<and> ck_start c \<le> sy_start s);
          known = (\<lambda>s. overlaps s c \<or> str_contains (ck_content c) (sy_name s))
      in (conf = ''EXTRACTED'' \<longleftrightarrow> named starts) \<and>
         (conf = ''INFERRED'' \<longleftrightarrow> \<not> named starts \<and> named known) \<and>
         (conf = ''AMBIGUOUS'' \<longleftrightarrow> \<not> named known) \<and>
         (if named starts then named (\<lambda>s. starts s \<and> sy_name s = nm)
          else if named known then named (\<lambda>s. known s \<and> sy_name s = nm) else nm = [])))"
proof -
  let ?over = "filter (\<lambda>s. overlaps s c) syms"
  let ?named = "\<lambda>P. \<exists>s\<in>set syms. sy_name s \<noteq> [] \<and> P s"
  let ?starts = "\<lambda>s. overlaps s c \<and> ck_start c \<le> sy_start s"
  let ?known = "\<lambda>s. overlaps s c \<or> str_contains (ck_content c) (sy_name s)"
  let ?P = "\<lambda>s. sy_start s \<ge> ck_start c \<and> sy_start s \<le> ck_end c \<and> sy_name s \<noteq> []"
  let ?Q = "\<lambda>s. sy_name s \<noteq> [] \<and> str_contains (ck_content c) (sy_name s)"
  show ?thesis
  proof (cases "find ?P ?over")
    case (Some s)
    then have s: "s \<in> set syms" "?starts s" "sy_name s \<noteq> []" by (auto dest: find_SomeD)
    moreover from Some have "classify_chunk syms c = (''EXTRACTED'', sy_name s)"
      by (simp add: classify_chunk_def)
    ultimately show ?thesis by (auto simp: Let_def)
  next
    case None
    then have no: "\<not> ?named ?starts" by (auto simp: find_None_iff overlaps_def)
    show ?thesis
    proof (cases "find (\<lambda>s. sy_name s \<noteq> []) ?over")
      case (Some s)
      then have s: "s \<in> set syms" "overlaps s c" "sy_name s \<noteq> []" by (auto dest: find_SomeD)
      moreover from None Some have "classify_chunk syms c = (''INFERRED'', sy_name s)"
        by (simp add: classify_chunk_def)
      ultimately show ?thesis using no by (auto simp: Let_def)
    next
      case over: None
      then have no2: "\<not> ?named (\<lambda>s. overlaps s c)" by (auto simp: find_None_iff)
      show ?thesis
      proof (cases "find ?Q syms")
        case (Some s)
        then have s: "s \<in> set syms" "?Q s" by (auto dest: find_SomeD)
        moreover from None over Some have "classify_chunk syms c = (''INFERRED'', sy_name s)"
          by (simp add: classify_chunk_def)
        ultimately show ?thesis using no by (auto simp: Let_def)
      next
        case content: None
        then have "\<not> ?named ?known" using no2 by (auto simp: find_None_iff)
        moreover from None over content have "classify_chunk syms c = (''AMBIGUOUS'', [])"
          by (simp add: classify_chunk_def)
        ultimately show ?thesis using no by (auto simp: Let_def)
      qed
    qed
  qed
qed

section \<open>Commits of \<open>git log -p\<close>\<close>

definition max_commit_block :: nat where
  "max_commit_block = 2 ^ 20"

record splitter =
  sp_block :: string
  sp_out :: "string list"

definition append_capped :: "nat \<Rightarrow> string \<Rightarrow> splitter \<Rightarrow> splitter" where
  "append_capped cap line s =
     (let room = int cap - int (length (sp_block s))
      in if room > 0 then s\<lparr>sp_block := sp_block s @ (if int (length line) > room then take (nat room) line else line)\<rparr>
         else s)"

definition sp_flush :: "bool \<Rightarrow> splitter \<Rightarrow> splitter" where
  "sp_flush trim s =
     (if sp_block s = [] then s
      else \<lparr>sp_block = [],
            sp_out = sp_out s @ [if trim then trim_suffix (sp_block s) [newline] else sp_block s]\<rparr>)"

definition sp_line :: "nat \<Rightarrow> string \<Rightarrow> splitter \<Rightarrow> splitter" where
  "sp_line cap line s =
     (if line = [] then s
      else append_capped cap line (if has_prefix line ''commit '' then sp_flush True s else s))"

text \<open>The lines \<open>ReadBytes\<close> returns, each with its newline (but maybe the last).\<close>

fun read_lines :: "string \<Rightarrow> string list" where
  "read_lines [] = []"
| "read_lines (c # s) =
     (if c = newline then [c] # read_lines s
      else (case read_lines s of [] \<Rightarrow> [[c]] | l # ls \<Rightarrow> (c # l) # ls))"

definition for_each_commit :: "nat \<Rightarrow> string \<Rightarrow> string list" where
  "for_each_commit cap s =
     sp_out (sp_flush False (fold (sp_line cap) (read_lines s) \<lparr>sp_block = [], sp_out = []\<rparr>))"

lemma concat_read_lines: "concat (read_lines s) = s"
  by (induction s) (auto split: list.splits)

lemma read_lines_nonempty: "l \<in> set (read_lines s) \<Longrightarrow> l \<noteq> []"
  by (induction s arbitrary: l) (auto split: list.splits if_splits)

lemma read_lines_newline: "l \<in> set (butlast (read_lines s)) \<Longrightarrow> \<exists>u. l = u @ [newline]"
proof (induction s arbitrary: l)
  case (Cons c s)
  show ?case
  proof (cases "c = newline")
    case True
    then show ?thesis using Cons by (cases "read_lines s") (auto split: if_splits)
  next
    case False
    show ?thesis
    proof (cases "read_lines s")
      case Nil
      then show ?thesis using False Cons.prems by simp
    next
      case (Cons k ks)
      have "l = c # k \<and> k \<in> set (butlast (k # ks)) \<or> l \<in> set (butlast (k # ks))"
        using Cons.prems False Cons by (auto split: if_splits)
      then show ?thesis using Cons.IH [unfolded Cons] by (metis append_Cons)
    qed
  qed
qed simp

lemma append_capped_take:
  "length (sp_block s) \<le> cap \<Longrightarrow> append_capped cap line s = s\<lparr>sp_block := take cap (sp_block s @ line)\<rparr>"
  by (cases "length (sp_block s) = cap") (auto simp: append_capped_def Let_def nat_diff_distrib)

lemma trim_newline_length: "length b \<le> Suc (length (trim_suffix b [newline]))"
  by (cases b) (auto simp: trim_suffix_def)

lemma trim_newline_prefix: "\<exists>u. b = trim_suffix b [newline] @ u"
proof (cases "has_suffix b [newline]")
  case True
  then show ?thesis unfolding trim_suffix_def
    by (intro exI [of _ "drop (length b - length [newline]) b"]) simp
qed (simp add: trim_suffix_def)

lemma trim_newline_take: "m < length b \<Longrightarrow> take m (trim_suffix b [newline]) = take m b"
proof -
  assume m: "m < length b"
  obtain u where u: "b = trim_suffix b [newline] @ u" using trim_newline_prefix by blast
  have "m \<le> length (trim_suffix b [newline])" using m trim_newline_length [of b] by simp
  then show ?thesis using arg_cong [OF u, of "take m"] by simp
qed

lemma trim_capped: "m < c \<Longrightarrow> take m (trim_suffix (take c b) [newline]) = take m (trim_suffix b [newline])"
proof (cases "length b \<le> c")
  case False
  assume m: "m < c"
  then show ?thesis using False
    by (subst (1 2) trim_newline_take) (auto simp: min_def)
qed simp

text \<open>Two caps: the smaller one only shortens blocks.\<close>

definition shortened :: "nat \<Rightarrow> nat \<Rightarrow> nat \<Rightarrow> splitter \<Rightarrow> splitter \<Rightarrow> bool" where
  "shortened m c c2 s s2 \<longleftrightarrow>
     sp_block s = take c (sp_block s2) \<and> length (sp_block s2) \<le> c2 \<and>
     map (take m) (sp_out s) = map (take m) (sp_out s2)"

lemma shortened_flush: "m < c \<Longrightarrow> shortened m c c2 s s2 \<Longrightarrow> shortened m c c2 (sp_flush t s) (sp_flush t s2)"
  by (cases "sp_block s2 = []") (auto simp: shortened_def sp_flush_def trim_capped min_def)

lemma shortened_line:
  assumes "m < c" "c \<le> c2" "shortened m c c2 s s2"
  shows "shortened m c c2 (sp_line c l s) (sp_line c2 l s2)"
proof -
  have app: "shortened m c c2 (append_capped c l t) (append_capped c2 l t2)" if "shortened m c c2 t t2" for t t2
    using that assms(2) by (auto simp: shortened_def append_capped_take min_def)
  show ?thesis using assms app shortened_flush [OF assms(1,3), of True]
    by (auto simp: sp_line_def)
qed

lemma shortened_fold:
  "m < c \<Longrightarrow> c \<le> c2 \<Longrightarrow> shortened m c c2 s s2 \<Longrightarrow>
     shortened m c c2 (fold (sp_line c) ls s) (fold (sp_line c2) ls s2)"
  by (induction ls arbitrary: s s2) (simp_all add: shortened_line)

lemma capped_blocks:
  "m < c \<Longrightarrow> c \<le> c2 \<Longrightarrow> map (take m) (for_each_commit c s) = map (take m) (for_each_commit c2 s)"
  using shortened_flush [OF _ shortened_fold, of m c c2 "\<lparr>sp_block = [], sp_out = []\<rparr>"
      "\<lparr>sp_block = [], sp_out = []\<rparr>" False "read_lines s"]
  by (simp add: for_each_commit_def shortened_def)

lemma join_snoc: "join_byte d (xs @ [p @ [d]]) @ l = join_byte d (xs @ [p, l])"
  by (induction xs rule: join_byte.induct) auto

definition commit_line :: "string \<Rightarrow> bool" where
  "commit_line l = has_prefix l ''commit ''"

text \<open>With room for everything the blocks are the pieces of the input.\<close>

lemma split_invariant:
  assumes "\<And>l. l \<in> set ls \<Longrightarrow> l \<noteq> []" "\<And>l. l \<in> set (butlast ls) \<Longrightarrow> \<exists>u. l = u @ [newline]"
    and "length (concat ls) \<le> cap" "ls \<noteq> []"
    and "s = fold (sp_line cap) ls \<lparr>sp_block = [], sp_out = []\<rparr>"
  shows "sp_block s \<noteq> [] \<and> (\<exists>u. sp_block s = u @ last ls) \<and>
    join_byte newline (sp_out s @ [sp_block s]) = concat ls \<and> length (sp_block s) \<le> length (concat ls) \<and>
    Suc (length (sp_out s)) = length (filter commit_line ls) + (if commit_line (hd ls) then 0 else 1)"
  using assms
proof (induction ls arbitrary: s rule: rev_induct)
  case (snoc l ls)
  define t where "t = fold (sp_line cap) ls \<lparr>sp_block = [], sp_out = []\<rparr>"
  have s: "s = sp_line cap l t" using snoc.prems(5) t_def by simp
  have l: "l \<noteq> []" using snoc.prems(1) by simp
  show ?case
  proof (cases "ls = []")
    case True
    then have "s = \<lparr>sp_block = take cap l, sp_out = []\<rparr>"
      using s l t_def by (simp add: sp_line_def sp_flush_def append_capped_take)
    then show ?thesis using True l snoc.prems(3) by (simp add: commit_line_def)
  next
    case False
    have prems: "\<And>l. l \<in> set ls \<Longrightarrow> l \<noteq> []" "\<And>l. l \<in> set (butlast ls) \<Longrightarrow> \<exists>u. l = u @ [newline]"
      "length (concat ls) \<le> cap"
      using snoc.prems(1,2,3) by (auto simp: butlast_append dest: in_set_butlastD)
    have ih: "sp_block t \<noteq> []" "\<exists>u. sp_block t = u @ last ls"
      "join_byte newline (sp_out t @ [sp_block t]) = concat ls" "length (sp_block t) \<le> length (concat ls)"
      "Suc (length (sp_out t)) = length (filter commit_line ls) + (if commit_line (hd ls) then 0 else 1)"
      using snoc.IH [OF _ _ _ False t_def] prems by blast+
    have "\<exists>u. last ls = u @ [newline]" using snoc.prems(2) False by (simp add: butlast_append)
    with ih(2) obtain b where b: "sp_block t = b @ [newline]" by (metis append_assoc)
    show ?thesis
    proof (cases "commit_line l")
      case True
      then have "s = \<lparr>sp_block = take cap l, sp_out = sp_out t @ [b]\<rparr>"
        using s l b by (simp add: sp_line_def sp_flush_def append_capped_take commit_line_def trim_suffix_def has_suffix_def)
      moreover have "join_byte newline (sp_out t @ [b, l]) = concat ls @ l"
        using join_snoc [of newline "sp_out t" b l] ih(3) b by simp
      ultimately show ?thesis using l True False ih(5) snoc.prems(3) by simp
    next
      case no: False
      have "join_byte newline (xs @ [p]) @ l = join_byte newline (xs @ [p @ l])" for xs p
        by (induction xs rule: join_byte.induct) auto
      from this [of "sp_out t" "sp_block t"] have
        "join_byte newline (sp_out t @ [sp_block t @ l]) = concat ls @ l" using ih(3) by simp
      moreover have "s = t\<lparr>sp_block := sp_block t @ l\<rparr>"
        using s l no ih(4) snoc.prems(3) by (simp add: sp_line_def append_capped_take commit_line_def)
      ultimately show ?thesis using l no False ih by simp
    qed
  qed
qed simp

lemma commit_blocks_whole:
  assumes "out \<noteq> []" "length out \<le> cap"
  shows "join_byte newline (for_each_commit cap out) = out \<and>
    length (for_each_commit cap out) = length (filter commit_line (read_lines out)) +
      (if commit_line (hd (read_lines out)) then 0 else 1)"
proof -
  have ne: "read_lines out \<noteq> []" using assms(1) concat_read_lines [of out] by auto
  define s where "s = fold (sp_line cap) (read_lines out) \<lparr>sp_block = [], sp_out = []\<rparr>"
  have "length (concat (read_lines out)) \<le> cap" using assms(2) by (simp add: concat_read_lines)
  from split_invariant [OF read_lines_nonempty read_lines_newline this ne s_def]
  show ?thesis unfolding s_def by (simp add: for_each_commit_def sp_flush_def concat_read_lines)
qed

text \<open>Splitting the output of \<open>git log -p\<close> loses nothing that is indexed.  Whatever the
  length of the commits, the first \<open>m\<close> bytes of every block, for any \<open>m\<close> below the cap of
  1 MiB, are those of the pieces the output falls into; joined with newlines these pieces are the
  output, and there is one for every line that starts a commit (and one for text before the
  first).\<close>

theorem commit_blocks_lossless:
  assumes "out \<noteq> []" "m < max_commit_block"
  shows "\<exists>whole. join_byte newline whole = out \<and>
    map (take m) (for_each_commit max_commit_block out) = map (take m) whole \<and>
    length whole = length (filter commit_line (read_lines out)) +
      (if commit_line (hd (read_lines out)) then 0 else 1)"
  using commit_blocks_whole [OF assms(1), of "max max_commit_block (length out)"]
    capped_blocks [OF assms(2), of "max max_commit_block (length out)" out] by auto

theorem commit_blocks_lossless_witness:
  "\<exists>whole. join_byte newline whole = ''commit a'' @ [newline] @ ''commit b'' \<and> length whole = 2"
  using commit_blocks_lossless [of "''commit a'' @ [newline] @ ''commit b''" 1]
  by (force simp: commit_line_def has_prefix_def max_commit_block_def)

section \<open>Outcomes\<close>

datatype file_outcome = OIndexed | OSkippedEmpty | OSkippedUnchanged | OEncrypted

definition merge_outcome :: "file_outcome \<Rightarrow> file_outcome \<Rightarrow> file_outcome" where
  "merge_outcome current new =
     (if new = OIndexed then OIndexed
      else if new = OSkippedUnchanged \<and> current \<noteq> OIndexed then OSkippedUnchanged
      else current)"

lemma merged_outcomes:
  "fold (\<lambda>x acc. merge_outcome acc x) os acc =
     (if acc = OIndexed \<or> OIndexed \<in> set os then OIndexed
      else if OSkippedUnchanged \<in> set os then OSkippedUnchanged else acc)"
  by (induction os arbitrary: acc) (auto simp: merge_outcome_def)

section \<open>Arguments of git\<close>

definition safe_git_dir :: "string \<Rightarrow> bool" where
  "safe_git_dir dir \<longleftrightarrow>
     \<not> str_contains dir ''..'' \<and> \<not> has_prefix dir ''-'' \<and> \<not> has_prefix dir [CHR 0x7E]"

definition ref_char :: "char \<Rightarrow> bool" where
  "ref_char c \<longleftrightarrow>
     (let n = (of_char c :: nat)
      in (97 \<le> n \<and> n \<le> 122) \<or> (65 \<le> n \<and> n \<le> 90) \<or> (48 \<le> n \<and> n \<le> 57) \<or>
         c \<in> {CHR ''.'', CHR ''_'', CHR ''/'', CHR ''-'', CHR '':'', CHR 0x40})"

text \<open>Every other rune, and every byte of an invalid one, is refused.\<close>

definition safe_git_ref :: "string \<Rightarrow> bool" where
  "safe_git_ref ref \<longleftrightarrow> ref \<noteq> [] \<and> hd ref \<noteq> CHR ''-'' \<and> list_all ref_char ref"

definition append_unique_dir :: "string list \<Rightarrow> string \<Rightarrow> string list" where
  "append_unique_dir out d =
     (if d = [] then out
      else let e = (if has_suffix d ''/'' then d else d @ ''/'')
           in if e \<in> set out then out else out @ [e])"

end
