(* ===== verification/Indexing.thy ===== *)
theory Indexing
  imports IndexUnits EmbedChain LocalStore Privacy "HOL-Library.AList"
begin

text \<open>
  \<open>internal/indexing/indexer.go\<close>: from a file's bytes to stored rows.  The store is the
  interface \<open>store.IndexStore\<close> (a record of operations on a state \<open>'s\<close>, each of which may
  fail), instantiated with the SQLite store of \<open>LocalStore\<close>; the embedder is that of
  \<open>EmbedBase\<close>.  Arguments: SHA-256, the analyzer's symbols and imports, the secret detector,
  document extraction, the random jitter.  Files are processed one after another in list order;
  \<open>None\<close> is a panic or a chunker loop that never ends.  Logging is left out.
\<close>

section \<open>The indexer and what it calls\<close>

record indexer =
  ix_dims :: int
  ix_batch :: nat
  ix_max_file_size :: nat
  ix_max_chunks_file :: nat
  ix_max_chunks_project :: int
  ix_max_files :: int
  ix_max_chars :: nat
  ix_git_mode :: bool
  ix_git_since :: string
  ix_keyword_only :: bool
  ix_ast_only :: bool
  ix_privacy :: mode
  ix_no_symbols :: bool
  ix_force :: bool
  ix_worktree :: string
  ix_secret_scan :: bool
  ix_secret_block :: bool

record indexer_opts =
  op_batch :: int
  op_max_file_size :: int
  op_max_chunks_file :: int
  op_max_chunks_project :: int
  op_max_files :: int
  op_git_mode :: bool
  op_git_since :: string
  op_privacy :: "mode option"
  op_force :: bool

definition new_indexer :: "int \<Rightarrow> indexer_opts \<Rightarrow> indexer" where
  "new_indexer dims op =
     \<lparr> ix_dims = dims,
       ix_batch = nat (if op_batch op < 1 then 32 else op_batch op),
       ix_max_file_size = nat (if op_max_file_size op < 1 then 1024 * 1024 else op_max_file_size op),
       ix_max_chunks_file = nat (if op_max_chunks_file op < 1 then 32 else op_max_chunks_file op),
       ix_max_chunks_project = op_max_chunks_project op, ix_max_files = op_max_files op,
       ix_max_chars = 4000, ix_git_mode = op_git_mode op, ix_git_since = op_git_since op,
       ix_keyword_only = False, ix_ast_only = False,
       ix_privacy = (case op_privacy op of None \<Rightarrow> Hybrid | Some m \<Rightarrow> m),
       ix_no_symbols = False, ix_force = op_force op, ix_worktree = [],
       ix_secret_scan = False, ix_secret_block = False \<rparr>"

definition initial_budget :: "indexer_opts \<Rightarrow> int" where
  "initial_budget op = (if op_max_chunks_project op > 0 then op_max_chunks_project op else - 1)"

definition set_keyword_only :: "bool \<Rightarrow> indexer \<Rightarrow> indexer" where
  "set_keyword_only v ix = ix\<lparr>ix_keyword_only := v\<rparr>"

definition set_ast_only :: "bool \<Rightarrow> indexer \<Rightarrow> indexer" where
  "set_ast_only v ix =
     (let ix1 = ix\<lparr>ix_ast_only := v\<rparr> in if v then ix1\<lparr>ix_keyword_only := True\<rparr> else ix1)"

text \<open>\<open>detector_ok\<close>: the detector could be built.\<close>

definition set_secret_scan :: "bool \<Rightarrow> bool \<Rightarrow> bool \<Rightarrow> indexer \<Rightarrow> indexer" where
  "set_secret_scan detector_ok enabled block ix =
     ix\<lparr>ix_secret_scan := enabled \<and> detector_ok, ix_secret_block := block\<rparr>"

datatype extraction = Docs "(string \<times> string) list" | EncryptedDoc | MalformedDoc

record tools =
  tl_sha :: "string \<Rightarrow> string"
  tl_symbols :: "string \<Rightarrow> string \<Rightarrow> symbol list"
  tl_findings :: "string \<Rightarrow> string \<Rightarrow> nat"
  tl_deps :: "string \<Rightarrow> string \<Rightarrow> string list"
  tl_supported :: "string \<Rightarrow> bool"
  tl_extract :: "string \<Rightarrow> string \<Rightarrow> extraction"
  tl_can_encrypt :: "string \<Rightarrow> bool"
  tl_jitter :: "nat \<Rightarrow> int"

record 's index_store =
  st_deps :: "nat \<Rightarrow> string \<Rightarrow> string list \<Rightarrow> 's \<Rightarrow> unit result \<times> 's"
  st_up_to_date :: "nat \<Rightarrow> string \<Rightarrow> string \<Rightarrow> int \<Rightarrow> 's \<Rightarrow> bool result \<times> 's"
  st_upsert_file :: "nat \<Rightarrow> string \<Rightarrow> string \<Rightarrow> nat \<Rightarrow> 's \<Rightarrow> nat result \<times> 's"
  st_delete_chunks :: "nat \<Rightarrow> nat \<Rightarrow> 's \<Rightarrow> unit result \<times> 's"
  st_delete_by_id :: "nat \<Rightarrow> nat \<Rightarrow> 's \<Rightarrow> unit result \<times> 's"
  st_delete_by_path :: "nat \<Rightarrow> string \<Rightarrow> 's \<Rightarrow> unit result \<times> 's"
  st_insert_chunks :: "nat \<Rightarrow> nat \<Rightarrow> chunk list \<Rightarrow> vec list \<Rightarrow> int \<Rightarrow> 's \<Rightarrow> unit result \<times> 's"
  st_insert_text :: "nat \<Rightarrow> nat \<Rightarrow> chunk list \<Rightarrow> int \<Rightarrow> 's \<Rightarrow> unit result \<times> 's"
  st_lookup :: "string list \<Rightarrow> string \<Rightarrow> int \<Rightarrow> 's \<Rightarrow> (string \<times> vec) list result \<times> 's"
  st_insert_cache :: "string list \<Rightarrow> string \<Rightarrow> vec list \<Rightarrow> int \<Rightarrow> 's \<Rightarrow> unit result \<times> 's"
  st_set_worktree :: "nat \<Rightarrow> string \<Rightarrow> (string \<times> string) list \<Rightarrow> 's \<Rightarrow> unit result \<times> 's"
  st_remove_worktree :: "nat \<Rightarrow> string \<Rightarrow> string \<Rightarrow> 's \<Rightarrow> unit result \<times> 's"
  st_prune :: "nat \<Rightarrow> 's \<Rightarrow> nat result \<times> 's"
  st_commit :: "nat \<Rightarrow> string \<Rightarrow> 's \<Rightarrow> unit result \<times> 's"
  st_status :: "nat \<Rightarrow> string \<Rightarrow> 's \<Rightarrow> unit result \<times> 's"

definition sqlite_store :: "(string \<Rightarrow> string) \<Rightarrow> db index_store" where
  "sqlite_store sha =
     \<lparr> st_deps = insert_file_dependencies,
       st_up_to_date = (\<lambda>i p h k d. (Inr (file_up_to_date i p h k d), d)),
       st_upsert_file = upsert_file,
       st_delete_chunks = (\<lambda>i f d. (Inr (), delete_chunks_for_file i f d)),
       st_delete_by_id = (\<lambda>i f d. (Inr (), delete_file_by_id i f d)),
       st_delete_by_path = (\<lambda>i p d. (Inr (), delete_file_by_path i p d)),
       st_insert_chunks = insert_chunks sha,
       st_insert_text = insert_chunks_text_only sha,
       st_lookup = (\<lambda>hs m k d. (lookup_embedding_cache hs m d, d)),
       st_insert_cache = insert_embedding_cache,
       st_set_worktree = set_worktree_files,
       st_remove_worktree = (\<lambda>i w p d. (Inr (), remove_worktree_file i w p d)),
       st_prune = (\<lambda>i d. (Inr (fst (prune_unreferenced_files i d)), snd (prune_unreferenced_files i d))),
       st_commit = (\<lambda>i c d. (Inr (), update_project_commit i c d)),
       st_status = (\<lambda>i s d. (Inr (), update_project_status i s d)) \<rparr>"

text \<open>The state of a run: the store, the outside world, the chunks left in the budget.\<close>

record 's run =
  rn_store :: 's
  rn_world :: world
  rn_left :: int

definition on_store :: "('s \<Rightarrow> 'a result \<times> 's) \<Rightarrow> 's run \<Rightarrow> 'a result \<times> 's run" where
  "on_store f s = (let (r, d) = f (rn_store s) in (r, s\<lparr>rn_store := d\<rparr>))"

definition on_world :: "(world \<Rightarrow> 'a \<times> world) \<Rightarrow> 's run \<Rightarrow> 'a \<times> 's run" where
  "on_world f s = (let (r, w) = f (rn_world s) in (r, s\<lparr>rn_world := w\<rparr>))"

section \<open>Embedding one batch\<close>

definition max_embed_attempts :: nat where
  "max_embed_attempts = 3"

definition sleep_backoff :: "env \<Rightarrow> tools \<Rightarrow> ctx \<Rightarrow> nat \<Rightarrow> world \<Rightarrow> go_err option \<times> world" where
  "sleep_backoff en tk cx attempt w =
     (let backoff = 500 * 1000000 * 2 ^ (attempt - 1)
      in wait_or_cancel en cx (backoff + tl_jitter tk attempt) w)"

text \<open>\<open>n\<close> attempts are left, the next is attempt number \<open>k\<close>.\<close>

fun embed_attempts ::
  "env \<Rightarrow> tools \<Rightarrow> embedder \<Rightarrow> ctx \<Rightarrow> string \<Rightarrow> string list \<Rightarrow> nat \<Rightarrow> nat \<Rightarrow> go_err \<Rightarrow> world
     \<Rightarrow> vec list result \<times> world" where
  "embed_attempts en tk em cx model inputs k 0 last_err w = (Inl last_err, w)"
| "embed_attempts en tk em cx model inputs k (Suc n) last_err w =
     (case (if k > 0 then sleep_backoff en tk cx k w else (None, w)) of
        (Some e, w1) \<Rightarrow> (Inl e, w1)
      | (None, w1) \<Rightarrow>
          (case em_embed em cx model inputs w1 of
             (Inr vs, w2) \<Rightarrow> (Inr vs, w2)
           | (Inl e, w2) \<Rightarrow>
               (case ctx_err cx w2 of
                  Some ce \<Rightarrow> (Inl ce, w2)
                | None \<Rightarrow> embed_attempts en tk em cx model inputs (k + 1) n e w2)))"

definition embed_with_retry ::
  "env \<Rightarrow> tools \<Rightarrow> embedder \<Rightarrow> ctx \<Rightarrow> string \<Rightarrow> string list \<Rightarrow> world \<Rightarrow> vec list result \<times> world" where
  "embed_with_retry en tk em cx model inputs w =
     embed_attempts en tk em cx model inputs 0 max_embed_attempts (Plain []) w"

record batch_result =
  br_embeddings :: "vec list"
  br_idx :: "nat list"
  br_inputs :: "string list"
  br_hashes :: "string list"
  br_hits :: nat

fun resolve_loop ::
  "(string \<times> vec) list \<Rightarrow> nat \<Rightarrow> string list \<Rightarrow> string list \<Rightarrow> batch_result \<Rightarrow> batch_result" where
  "resolve_loop cached i inputs [] r = r"
| "resolve_loop cached i inputs (h # hs) r =
     resolve_loop cached (i + 1) inputs hs
       (case map_of cached h of
          Some e \<Rightarrow> r\<lparr>br_embeddings := (br_embeddings r)[i := e], br_hits := br_hits r + 1\<rparr>
        | None \<Rightarrow> r\<lparr>br_idx := br_idx r @ [i], br_inputs := br_inputs r @ [inputs ! i],
                    br_hashes := br_hashes r @ [h]\<rparr>)"

text \<open>The slots of \<open>make([][]float32, total)\<close> start as nil.\<close>

definition resolve_batch_embeddings ::
  "string list \<Rightarrow> string list \<Rightarrow> (string \<times> vec) list \<Rightarrow> batch_result" where
  "resolve_batch_embeddings inputs hashes cached =
     resolve_loop cached 0 inputs hashes
       \<lparr>br_embeddings = replicate (length inputs) [], br_idx = [], br_inputs = [], br_hashes = [], br_hits = 0\<rparr>"

text \<open>\<open>res.embeddings[origIdx] = embeddings[i]\<close>: too few vectors are a panic.\<close>

fun merge_embeddings :: "nat list \<Rightarrow> vec list \<Rightarrow> vec list \<Rightarrow> vec list option" where
  "merge_embeddings [] es out = Some out"
| "merge_embeddings (j # js) [] out = None"
| "merge_embeddings (j # js) (e # es) out = merge_embeddings js es (out[j := e])"

text \<open>The soft errors and the vectors of the batch; no vectors when the provider failed.\<close>

definition embed_uncached_batch ::
  "env \<Rightarrow> tools \<Rightarrow> indexer \<Rightarrow> 's index_store \<Rightarrow> embedder \<Rightarrow> ctx \<Rightarrow> string \<Rightarrow> batch_result \<Rightarrow> 's run
     \<Rightarrow> ((nat \<times> vec list option) \<times> 's run) option" where
  "embed_uncached_batch en tk ix st em cx model res s =
     (case on_world (embed_with_retry en tk em cx model (br_inputs res)) s of
        (Inl e, s1) \<Rightarrow> Some ((1, None), s1)
      | (Inr vs, s1) \<Rightarrow>
          (case on_store (st_insert_cache st (br_hashes res) model vs (ix_dims ix)) s1 of
             (_, s2) \<Rightarrow>
               (case merge_embeddings (br_idx res) vs (br_embeddings res) of
                  None \<Rightarrow> None
                | Some es \<Rightarrow> Some ((0, Some es), s2))))"

definition compute_hashes :: "tools \<Rightarrow> string list \<Rightarrow> string list" where
  "compute_hashes tk = map (tl_sha tk)"

text \<open>One sub-batch: the chunks stored and the soft errors.\<close>

definition embed_batch ::
  "env \<Rightarrow> tools \<Rightarrow> indexer \<Rightarrow> 's index_store \<Rightarrow> embedder \<Rightarrow> ctx \<Rightarrow> nat \<Rightarrow> nat \<Rightarrow> string \<Rightarrow> symbol list
     \<Rightarrow> chunk list \<Rightarrow> 's run \<Rightarrow> ((nat \<times> nat) \<times> 's run) option" where
  "embed_batch en tk ix st em cx pid fid model syms sub s =
     (let inputs = build_chunk_inputs sub syms; hashes = compute_hashes tk inputs
      in case on_store (st_lookup st hashes model (ix_dims ix)) s of
           (looked, s1) \<Rightarrow>
             (let cached = (case looked of Inl e \<Rightarrow> [] | Inr c \<Rightarrow> c);
                  res = resolve_batch_embeddings inputs hashes cached
              in case (if br_idx res = [] then Some ((0, Some (br_embeddings res)), s1)
                       else embed_uncached_batch en tk ix st em cx model res s1) of
                   None \<Rightarrow> None
                 | Some ((soft, None), s2) \<Rightarrow> Some ((0, soft), s2)
                 | Some ((soft, Some es), s2) \<Rightarrow>
                     (case on_store (st_insert_chunks st pid fid sub es (ix_dims ix)) s2 of
                        (Inl e, s3) \<Rightarrow> Some ((0, soft + 1), s3)
                      | (Inr _, s3) \<Rightarrow> Some ((length sub, soft), s3))))"

text \<open>A batch size of 0 would loop forever; \<open>NewIndexer\<close> never sets it.\<close>

function embed_and_insert ::
  "env \<Rightarrow> tools \<Rightarrow> indexer \<Rightarrow> 's index_store \<Rightarrow> embedder \<Rightarrow> ctx \<Rightarrow> nat \<Rightarrow> nat \<Rightarrow> string \<Rightarrow> symbol list
     \<Rightarrow> chunk list \<Rightarrow> 's run \<Rightarrow> ((nat \<times> nat) \<times> 's run) option" where
  "embed_and_insert en tk ix st em cx pid fid model syms chunks s =
     (if chunks = [] then Some ((0, 0), s)
      else if ix_batch ix = 0 then None
      else (case embed_batch en tk ix st em cx pid fid model syms (take (ix_batch ix) chunks) s of
              None \<Rightarrow> None
            | Some ((c, e), s1) \<Rightarrow>
                (case embed_and_insert en tk ix st em cx pid fid model syms (drop (ix_batch ix) chunks) s1 of
                   None \<Rightarrow> None
                 | Some ((c2, e2), s2) \<Rightarrow> Some ((c + c2, e + e2), s2))))"
  by pat_completeness auto
termination
  by (relation "measure (\<lambda>(en, tk, ix, st, em, cx, pid, fid, model, syms, chunks, s). length chunks)") auto

declare embed_and_insert.simps [simp del]

section \<open>Storing a unit's chunks\<close>

record unit_params =
  up_project :: nat
  up_file :: nat
  up_rel :: string
  up_model :: string
  up_chunks :: "chunk list"
  up_syms :: "symbol list"
  up_secrets :: bool

definition detect_secrets :: "tools \<Rightarrow> indexer \<Rightarrow> string \<Rightarrow> string \<Rightarrow> bool" where
  "detect_secrets tk ix rel content \<longleftrightarrow> ix_secret_scan ix \<and> tl_findings tk rel content \<noteq> 0"

definition store_chunks_keyword_only ::
  "indexer \<Rightarrow> 's index_store \<Rightarrow> unit_params \<Rightarrow> 's run \<Rightarrow> (nat \<times> nat) result \<times> 's run" where
  "store_chunks_keyword_only ix st p s =
     (let cs = (if ix_ast_only ix \<and> up_syms p \<noteq> []
                then map (\<lambda>(c, inp). c\<lparr>ck_content := inp\<rparr>)
                       (zip (up_chunks p) (build_chunk_inputs (up_chunks p) (up_syms p)))
                else up_chunks p)
      in case on_store (st_insert_text st (up_project p) (up_file p) cs (ix_dims ix)) s of
           (Inl e, s1) \<Rightarrow> (Inl e, s1)
         | (Inr _, s1) \<Rightarrow> (Inr (length (up_chunks p), 0), s1))"

text \<open>Both the sensitive and the edge branch: embed under force-local if the model is known
  there (\<open>Inr None\<close>), otherwise store text only (\<open>Inr (Some n)\<close>).\<close>

definition store_local_or_text ::
  "indexer \<Rightarrow> 's index_store \<Rightarrow> embedder \<Rightarrow> ctx \<Rightarrow> unit_params \<Rightarrow> 's run \<Rightarrow> nat option result \<times> 's run" where
  "store_local_or_text ix st em cx p s =
     (case on_world (em_info em (with_force_local cx True) (up_model p)) s of
        (Inr _, s1) \<Rightarrow> (Inr None, s1)
      | (Inl _, s1) \<Rightarrow>
          (case on_store (st_insert_text st (up_project p) (up_file p) (up_chunks p) (ix_dims ix)) s1 of
             (Inl e, s2) \<Rightarrow> (Inl e, s2)
           | (Inr _, s2) \<Rightarrow> (Inr (Some (length (up_chunks p))), s2)))"

text \<open>\<open>(created, expected, softErrs)\<close> and the hard error.\<close>

definition store_chunks ::
  "env \<Rightarrow> tools \<Rightarrow> indexer \<Rightarrow> 's index_store \<Rightarrow> embedder \<Rightarrow> ctx \<Rightarrow> unit_params \<Rightarrow> 's run
     \<Rightarrow> ((nat \<times> nat \<times> nat) \<times> go_err option) option \<times> 's run" where
  "store_chunks en tk ix st em cx p0 s0 =
     (let (got, left) = take_chunk_budget (int (length (up_chunks p0))) (rn_left s0);
          s = s0\<lparr>rn_left := left\<rparr>;
          p1 = p0\<lparr>up_chunks := take (nat got) (up_chunks p0)\<rparr>;
          expected = length (up_chunks p1);
          p = p1\<lparr>up_chunks := classify_chunks (up_syms p1) (up_chunks p1)\<rparr>;
          embed = (\<lambda>c s. case embed_and_insert en tk ix st em c (up_project p) (up_file p) (up_model p)
                            (up_syms p) (up_chunks p) s of
                     None \<Rightarrow> (None, s)
                   | Some ((created, soft), s1) \<Rightarrow> (Some ((created, expected, soft), None), s1));
          forced = (\<lambda>s. case store_local_or_text ix st em cx p s of
                     (Inl e, s1) \<Rightarrow> (Some ((0, expected, 0), Some e), s1)
                   | (Inr (Some n), s1) \<Rightarrow> (Some ((n, expected, 0), None), s1)
                   | (Inr None, s1) \<Rightarrow> embed (with_force_local cx True) s1)
      in if got = 0 then (Some ((0, 0, 0), None), s)
         else if ix_keyword_only ix then
           (case store_chunks_keyword_only ix st p s of
              (Inl e, s1) \<Rightarrow> (Some ((0, expected, 0), Some e), s1)
            | (Inr (created, soft), s1) \<Rightarrow> (Some ((created, expected, soft), None), s1))
         else if is_sensitive (en_lower en) (up_rel p) \<or> (up_secrets p \<and> ix_secret_block ix) then forced s
         else if ix_privacy ix = Edge then forced s
         else embed cx s)"

section \<open>Units\<close>

definition rollback_incomplete_unit :: "'s index_store \<Rightarrow> nat \<Rightarrow> nat \<Rightarrow> 's run \<Rightarrow> 's run" where
  "rollback_incomplete_unit st pid fid s =
     snd (on_store (st_delete_by_id st pid fid) (snd (on_store (st_delete_chunks st pid fid) s)))"

record unit_outcome =
  uo_created :: nat
  uo_soft :: nat
  uo_outcome :: file_outcome
  uo_hash :: string

definition skipped :: unit_outcome where
  "skipped = \<lparr>uo_created = 0, uo_soft = 0, uo_outcome = OSkippedEmpty, uo_hash = []\<rparr>"

text \<open>A unit that has to be (re)indexed, from the file row to the stored chunks.\<close>

definition index_changed_unit ::
  "env \<Rightarrow> tools \<Rightarrow> indexer \<Rightarrow> 's index_store \<Rightarrow> embedder \<Rightarrow> ctx \<Rightarrow> nat \<Rightarrow> string \<Rightarrow> string \<Rightarrow> string \<Rightarrow> string
     \<Rightarrow> 's run \<Rightarrow> (unit_outcome \<times> go_err option) option \<times> 's run" where
  "index_changed_unit en tk ix st em cx pid rel model content hash s1 =
     (case on_store (st_upsert_file st pid rel hash (length content)) s1 of
        (Inl e, s2) \<Rightarrow> (Some (skipped, Some e), s2)
      | (Inr fid, s2) \<Rightarrow>
     (case chunk_file (en_lower en) (tl_symbols tk) rel content (ix_max_chars ix) of
        None \<Rightarrow> (None, s2)
      | Some chunks \<Rightarrow>
         if chunks = [] then (Some (skipped, None), s2)
         else
     (case on_store (st_delete_chunks st pid fid) s2 of
        (Inl e, s3) \<Rightarrow> (Some (skipped, Some e), s3)
      | (Inr _, s3) \<Rightarrow>
        (let syms = (if \<not> ix_no_symbols ix \<and> (\<not> ix_keyword_only ix \<or> ix_ast_only ix)
                     then tl_symbols tk rel content else []);
             p = \<lparr>up_project = pid, up_file = fid, up_rel = rel, up_model = model,
                  up_chunks = take (ix_max_chunks_file ix) chunks, up_syms = syms,
                  up_secrets = detect_secrets tk ix rel content\<rparr>
         in case store_chunks en tk ix st em cx p s3 of
              (None, s4) \<Rightarrow> (None, s4)
            | (Some (_, Some e), s4) \<Rightarrow> (Some (skipped, Some e), s4)
            | (Some ((created, expected, soft), None), s4) \<Rightarrow>
                if created < expected
                then (Some (\<lparr>uo_created = created, uo_soft = soft, uo_outcome = OSkippedEmpty, uo_hash = []\<rparr>, None),
                      rollback_incomplete_unit st pid fid s4)
                else (Some (\<lparr>uo_created = created, uo_soft = soft, uo_outcome = OIndexed, uo_hash = hash\<rparr>, None),
                      s4)))))"

definition index_unit ::
  "env \<Rightarrow> tools \<Rightarrow> indexer \<Rightarrow> 's index_store \<Rightarrow> embedder \<Rightarrow> ctx \<Rightarrow> nat \<Rightarrow> string \<Rightarrow> string \<Rightarrow> string \<Rightarrow> 's run
     \<Rightarrow> (unit_outcome \<times> go_err option) option \<times> 's run" where
  "index_unit en tk ix st em cx pid rel model content s0 =
     (case on_store (st_deps st pid rel (tl_deps tk rel content)) s0 of
        (Inl e, s) \<Rightarrow> (Some (skipped, Some (Wrapped (''record dependencies for '' @ rel @ '': '') e)), s)
      | (Inr _, s) \<Rightarrow>
         (if trim_space content = [] then (Some (skipped, None), s)
          else
          let hash = tl_sha tk content;
              (fresh, s1) = (if ix_force ix then (False, s)
                             else (case on_store (st_up_to_date st pid rel hash (ix_dims ix)) s of
                                     (Inr b, s1) \<Rightarrow> (b, s1) | (Inl e, s1) \<Rightarrow> (False, s1)))
          in if fresh
             then (Some (skipped\<lparr>uo_outcome := OSkippedUnchanged, uo_hash := hash\<rparr>, None), s1)
             else index_changed_unit en tk ix st em cx pid rel model content hash s1))"

section \<open>Files\<close>

record file_result =
  fl_created :: nat
  fl_soft :: nat
  fl_outcome :: file_outcome
  fl_units :: "(string \<times> string) list"
  fl_err :: "go_err option"

definition remove_file :: "indexer \<Rightarrow> 's index_store \<Rightarrow> nat \<Rightarrow> string \<Rightarrow> 's run \<Rightarrow> unit result \<times> 's run" where
  "remove_file ix st pid rel s =
     (if ix_worktree ix = [] then on_store (st_delete_by_path st pid rel) s
      else (case on_store (st_remove_worktree st pid (ix_worktree ix) rel) s of
              (Inl e, s1) \<Rightarrow> (Inl e, s1)
            | (Inr _, s1) \<Rightarrow>
                (case on_store (st_prune st pid) s1 of
                   (Inl e, s2) \<Rightarrow> (Inl e, s2)
                 | (Inr _, s2) \<Rightarrow> (Inr (), s2))))"

fun index_docs ::
  "env \<Rightarrow> tools \<Rightarrow> indexer \<Rightarrow> 's index_store \<Rightarrow> embedder \<Rightarrow> ctx \<Rightarrow> nat \<Rightarrow> string
     \<Rightarrow> (string \<times> string) list \<Rightarrow> file_result \<Rightarrow> 's run \<Rightarrow> file_result option \<times> 's run" where
  "index_docs en tk ix st em cx pid model [] acc s = (Some acc, s)"
| "index_docs en tk ix st em cx pid model ((path, body) # docs) acc s =
     (case index_unit en tk ix st em cx pid path model body s of
        (None, s1) \<Rightarrow> (None, s1)
      | (Some (u, Some e), s1) \<Rightarrow> (Some (acc\<lparr>fl_outcome := OSkippedEmpty, fl_err := Some e\<rparr>), s1)
      | (Some (u, None), s1) \<Rightarrow>
          index_docs en tk ix st em cx pid model docs
            (acc\<lparr>fl_created := fl_created acc + uo_created u, fl_soft := fl_soft acc + uo_soft u,
                 fl_units := fl_units acc @ (if uo_hash u \<noteq> [] then [(path, uo_hash u)] else []),
                 fl_outcome := merge_outcome (fl_outcome acc) (uo_outcome u)\<rparr>) s1)"

definition no_result :: file_result where
  "no_result = \<lparr>fl_created = 0, fl_soft = 0, fl_outcome = OSkippedEmpty, fl_units = [], fl_err = None\<rparr>"

definition index_extracted ::
  "env \<Rightarrow> tools \<Rightarrow> indexer \<Rightarrow> 's index_store \<Rightarrow> embedder \<Rightarrow> ctx \<Rightarrow> nat \<Rightarrow> string \<Rightarrow> string \<Rightarrow> string \<Rightarrow> 's run
     \<Rightarrow> file_result option \<times> 's run" where
  "index_extracted en tk ix st em cx pid rel model content s =
     (case tl_extract tk rel content of
        EncryptedDoc \<Rightarrow>
          (Some (no_result\<lparr>fl_outcome := (if tl_can_encrypt tk rel then OEncrypted else OSkippedEmpty)\<rparr>), s)
      | MalformedDoc \<Rightarrow> (Some (no_result\<lparr>fl_soft := 1\<rparr>), s)
      | Docs docs \<Rightarrow> index_docs en tk ix st em cx pid model docs no_result s)"

definition index_content ::
  "env \<Rightarrow> tools \<Rightarrow> indexer \<Rightarrow> 's index_store \<Rightarrow> embedder \<Rightarrow> ctx \<Rightarrow> nat \<Rightarrow> string \<Rightarrow> string \<Rightarrow> string \<Rightarrow> 's run
     \<Rightarrow> file_result option \<times> 's run" where
  "index_content en tk ix st em cx pid rel model content0 s =
     (if trim_space content0 = [] then
        (case remove_file ix st pid rel s of
           (Inl e, s1) \<Rightarrow>
             (Some (no_result\<lparr>fl_err := Some (Wrapped (''remove empty file '' @ rel @ '': '') e)\<rparr>), s1)
         | (Inr _, s1) \<Rightarrow> (Some no_result, s1))
      else
        (let content = take (ix_max_file_size ix) content0
         in if tl_supported tk rel then index_extracted en tk ix st em cx pid rel model content s
            else (case index_unit en tk ix st em cx pid rel model content s of
                    (None, s1) \<Rightarrow> (None, s1)
                  | (Some (u, err), s1) \<Rightarrow>
                      (Some \<lparr>fl_created = uo_created u, fl_soft = uo_soft u, fl_outcome = uo_outcome u,
                             fl_units = (if uo_hash u \<noteq> [] then [(rel, uo_hash u)] else []),
                             fl_err = err\<rparr>, s1))))"

section \<open>Git history\<close>

text \<open>What git prints: \<open>log -p\<close> of a directory since some time, with the error of the
  command if it fails, and the commit of HEAD (empty outside a repository).\<close>

record git_host =
  gh_log :: "string \<Rightarrow> string \<Rightarrow> string \<times> go_err option"
  gh_head :: "string \<Rightarrow> string"

definition embed_single_with_cache ::
  "tools \<Rightarrow> indexer \<Rightarrow> 's index_store \<Rightarrow> embedder \<Rightarrow> ctx \<Rightarrow> string \<Rightarrow> string \<Rightarrow> 's run \<Rightarrow> vec option \<times> 's run" where
  "embed_single_with_cache tk ix st em cx model body s =
     (let hash = tl_sha tk body
      in case on_store (st_lookup st [hash] model (ix_dims ix)) s of
           (looked, s1) \<Rightarrow>
             (case (case looked of Inl e \<Rightarrow> None | Inr c \<Rightarrow> map_of c hash) of
                Some v \<Rightarrow> (Some v, s1)
              | None \<Rightarrow>
                  (case on_world (em_single em cx model body) s1 of
                     (Inl e, s2) \<Rightarrow> (None, s2)
                   | (Inr v, s2) \<Rightarrow>
                       (Some v, snd (on_store (st_insert_cache st [hash] model [v] (ix_dims ix)) s2)))))"

definition index_commit ::
  "tools \<Rightarrow> indexer \<Rightarrow> 's index_store \<Rightarrow> embedder \<Rightarrow> ctx \<Rightarrow> nat \<Rightarrow> string \<Rightarrow> string \<Rightarrow> 's run \<Rightarrow> bool \<times> 's run" where
  "index_commit tk ix st em cx pid model commit0 s =
     (let commit = take (ix_max_chars ix) commit0;
          path = ''git:'' @ trim_space (takeWhile (\<lambda>c. c \<noteq> newline) commit)
      in case on_store (st_upsert_file st pid path (tl_sha tk commit) (length commit)) s of
           (Inl e, s1) \<Rightarrow> (False, s1)
         | (Inr fid, s1) \<Rightarrow>
             (case on_store (st_delete_chunks st pid fid) s1 of
                (Inl e, s2) \<Rightarrow> (False, s2)
              | (Inr _, s2) \<Rightarrow>
                  (case embed_single_with_cache tk ix st em cx model commit s2 of
                     (None, s3) \<Rightarrow> (False, rollback_incomplete_unit st pid fid s3)
                   | (Some v, s3) \<Rightarrow>
                       (case on_store (st_insert_chunks st pid fid [mk_chunk commit 1 1] [v] (ix_dims ix)) s3 of
                          (Inl e, s4) \<Rightarrow> (False, rollback_incomplete_unit st pid fid s4)
                        | (Inr _, s4) \<Rightarrow> (True, s4)))))"

definition default_git_since :: string where
  "default_git_since = ''30.days''"

definition index_git_history ::
  "tools \<Rightarrow> git_host \<Rightarrow> indexer \<Rightarrow> 's index_store \<Rightarrow> embedder \<Rightarrow> ctx \<Rightarrow> nat \<Rightarrow> string \<Rightarrow> string \<Rightarrow> 's run
     \<Rightarrow> go_err option \<times> 's run" where
  "index_git_history tk gh ix st em cx pid path model s =
     (let since = (if ix_git_since ix = [] then default_git_since else ix_git_since ix)
      in if \<not> safe_git_dir path then (Some (Plain ''unsafe git project path''), s)
         else if \<not> safe_git_ref since then (Some (Plain ''unsafe git since value''), s)
         else (case gh_log gh path since of
                 (out, err) \<Rightarrow>
                   (map_option (Wrapped ''git log -p: '') err,
                    fold (\<lambda>c s. snd (index_commit tk ix st em cx pid model c s))
                      (for_each_commit max_commit_block out) s)))"

section \<open>A run over a project\<close>

record index_stats =
  is_scanned :: nat
  is_indexed :: nat
  is_skipped :: nat
  is_chunks :: nat
  is_errors :: nat
  is_encrypted :: nat
  is_encrypted_paths :: "string list"

definition accumulate ::
  "indexer \<Rightarrow> string \<Rightarrow> file_result \<Rightarrow> index_stats \<times> (string \<times> string) list \<Rightarrow> index_stats \<times> (string \<times> string) list" where
  "accumulate ix rel r acc =
     (let (st0, manifest) = acc;
          st = st0\<lparr>is_errors := is_errors st0 + fl_soft r\<rparr>;
          st1 = (if fl_err r \<noteq> None then st\<lparr>is_errors := is_errors st + 1\<rparr>
                 else if fl_outcome r = OIndexed then
                   (if ix_max_chunks_project ix > 0 \<and> int (is_chunks st + fl_created r) > ix_max_chunks_project ix
                    then st else st\<lparr>is_chunks := is_chunks st + fl_created r\<rparr>)\<lparr>is_indexed := is_indexed st + 1\<rparr>
                 else if fl_outcome r = OSkippedUnchanged then st\<lparr>is_skipped := is_skipped st + 1\<rparr>
                 else if fl_outcome r = OEncrypted then
                   st\<lparr>is_encrypted := is_encrypted st + 1, is_encrypted_paths := is_encrypted_paths st @ [rel]\<rparr>
                 else st)
      in (st1, fold (\<lambda>(path, hash). AList.update path hash) (fl_units r) manifest))"

definition record_worktree ::
  "indexer \<Rightarrow> 's index_store \<Rightarrow> nat \<Rightarrow> (string \<times> string) list \<Rightarrow> 's run \<Rightarrow> 's run" where
  "record_worktree ix st pid manifest s =
     (case on_store (st_set_worktree st pid (ix_worktree ix) manifest) s of
        (Inl e, s1) \<Rightarrow> s1
      | (Inr _, s1) \<Rightarrow> snd (on_store (st_prune st pid) s1))"

definition finalize_project ::
  "tools \<Rightarrow> git_host \<Rightarrow> indexer \<Rightarrow> 's index_store \<Rightarrow> embedder \<Rightarrow> ctx \<Rightarrow> nat \<Rightarrow> string \<Rightarrow> string
     \<Rightarrow> index_stats \<times> (string \<times> string) list \<Rightarrow> 's run \<Rightarrow> index_stats \<times> 's run" where
  "finalize_project tk gh ix st em cx pid path model acc s =
     (let (stats, manifest) = acc;
          s1 = (if ix_worktree ix \<noteq> [] then record_worktree ix st pid manifest s else s);
          (gerr, s2) = (if ix_git_mode ix then index_git_history tk gh ix st em cx pid path model s1
                        else (None, s1));
          stats1 = (if gerr \<noteq> None then stats\<lparr>is_errors := is_errors stats + 1\<rparr> else stats);
          sha1 = gh_head gh path;
          s3 = (if sha1 \<noteq> [] then snd (on_store (st_commit st pid sha1) s2) else s2);
          status = (if is_errors stats1 > 0 then ''degraded'' else ''ready'')
      in (stats1, snd (on_store (st_status st pid status) s3)))"

text \<open>A file of the run: its relative path and what reading it gives.\<close>

type_synonym input_file = "string \<times> string result"

definition index_file ::
  "env \<Rightarrow> tools \<Rightarrow> indexer \<Rightarrow> 's index_store \<Rightarrow> embedder \<Rightarrow> ctx \<Rightarrow> nat \<Rightarrow> string \<Rightarrow> input_file \<Rightarrow> 's run
     \<Rightarrow> file_result option \<times> 's run" where
  "index_file en tk ix st em cx pid model f s =
     (case f of
        (rel, Inl e) \<Rightarrow> (Some (no_result\<lparr>fl_err := Some e\<rparr>), s)
      | (rel, Inr content) \<Rightarrow>
          index_content en tk ix st em cx pid rel model (take (ix_max_file_size ix) content) s)"

fun index_files ::
  "env \<Rightarrow> tools \<Rightarrow> indexer \<Rightarrow> 's index_store \<Rightarrow> embedder \<Rightarrow> ctx \<Rightarrow> nat \<Rightarrow> string \<Rightarrow> input_file list
     \<Rightarrow> index_stats \<times> (string \<times> string) list \<Rightarrow> 's run \<Rightarrow> (index_stats \<times> (string \<times> string) list) option \<times> 's run" where
  "index_files en tk ix st em cx pid model [] acc s = (Some acc, s)"
| "index_files en tk ix st em cx pid model (f # fs) acc s =
     (if ctx_err cx (rn_world s) \<noteq> None then (Some acc, s)
      else (case index_file en tk ix st em cx pid model f s of
              (None, s1) \<Rightarrow> (None, s1)
            | (Some r, s1) \<Rightarrow>
                index_files en tk ix st em cx pid model fs (accumulate ix (fst f) r acc) s1))"

definition start_stats :: "nat \<Rightarrow> index_stats" where
  "start_stats n =
     \<lparr>is_scanned = n, is_indexed = 0, is_skipped = 0, is_chunks = 0, is_errors = 0,
      is_encrypted = 0, is_encrypted_paths = []\<rparr>"

definition index_project ::
  "env \<Rightarrow> tools \<Rightarrow> git_host \<Rightarrow> indexer \<Rightarrow> 's index_store \<Rightarrow> embedder \<Rightarrow> ctx \<Rightarrow> nat \<Rightarrow> string \<Rightarrow> string
     \<Rightarrow> input_file list \<Rightarrow> 's run \<Rightarrow> (index_stats \<times> go_err option) option \<times> 's run" where
  "index_project en tk gh ix st em cx pid path model files s =
     (case index_files en tk ix st em cx pid model files (start_stats (length files), []) s of
        (None, s1) \<Rightarrow> (None, s1)
      | (Some acc, s1) \<Rightarrow>
          (case ctx_err cx (rn_world s1) of
             Some e \<Rightarrow> (Some (fst acc, Some e), s1)
           | None \<Rightarrow>
               (let (stats, s2) = finalize_project tk gh ix st em cx pid path model acc s1
                in (Some (stats, None), s2))))"

text \<open>Which files a run visits: \<open>scan n\<close> lists at most \<open>n\<close> eligible files of the tree
  (all for 0); \<open>changed\<close> is the result of \<open>git diff\<close> against the last indexed commit.\<close>

definition resolve_index_files ::
  "(int \<Rightarrow> string list result) \<Rightarrow> string list result \<Rightarrow> (string \<Rightarrow> string) \<Rightarrow> indexer \<Rightarrow> int \<Rightarrow> string list result" where
  "resolve_index_files scan changed join ix max_files =
     (let full = scan (effective_max_files max_files (ix_max_files ix));
          diff = (case changed of Inl e \<Rightarrow> [] | Inr c \<Rightarrow> c)
      in if ix_force ix then full
         else if diff \<noteq> [] then (if ix_worktree ix \<noteq> [] then full else Inr (map join diff))
         else full)"

section \<open>What a run may send\<close>

lemma on_store_world [simp]: "rn_world (snd (on_store f s)) = rn_world s"
  by (simp add: on_store_def split_beta)

lemma on_store_worldD: "on_store f s = (r, s1) \<Longrightarrow> rn_world s1 = rn_world s"
  by (metis on_store_world snd_conv)

lemma on_world_world: "on_world f s = (r, s1) \<Longrightarrow> rn_world s1 = snd (f (rn_world s))"
  by (auto simp: on_world_def split_beta Let_def)

lemma rollback_world [simp]: "rn_world (rollback_incomplete_unit st i f s) = rn_world s"
  by (simp add: rollback_incomplete_unit_def)

lemma set_left_world [simp]: "rn_world (s\<lparr>rn_left := n\<rparr>) = rn_world s" by simp

lemma sleep_sent: "sleep_backoff en tk cx k w = (r, w1) \<Longrightarrow> w_sent w1 = w_sent w"
  by (auto simp: sleep_backoff_def Let_def wait_or_cancel_def split: if_splits)

context confined_embedder
begin

lemma attempts_confined:
  "C cx \<Longrightarrow> confined P w (snd (embed_attempts en tk em cx m xs k n le w))"
proof (induction n arbitrary: k le w)
  case (Suc n)
  obtain r w1 where 1: "(if k > 0 then sleep_backoff en tk cx k w else (None, w)) = (r, w1)" by fastforce
  then have sent: "w_sent w1 = w_sent w" using sleep_sent by (auto split: if_splits)
  obtain q w2 where 2: "em_embed em cx m xs w1 = (q, w2)" by fastforce
  have "confined P w w2" using embed_confined [OF Suc.prems, of w1 m xs] 2 sent by (simp add: confined_def)
  moreover have "confined P w w1" using sent by (simp add: confined_def)
  ultimately show ?case using 1 2 Suc
    by (auto split: option.splits sum.splits intro: confined_trans)
qed simp

lemma embed_batch_confined:
  assumes "C cx" "embed_batch en tk ix st em cx i f m syms sub s = Some (r, s1)"
  shows "confined P (rn_world s) (rn_world s1)"
proof -
  have retry: "confined P (rn_world t) (rn_world t1)"
    if "on_world (embed_with_retry en tk em cx m xs) t = (q, t1)" for t t1 q xs
    using on_world_world [OF that] attempts_confined [OF assms(1)] by (simp add: embed_with_retry_def)
  have unc: "confined P (rn_world t) (rn_world t1)"
    if "embed_uncached_batch en tk ix st em cx m res t = Some (q, t1)" for t t1 q res
    using that unfolding embed_uncached_batch_def
    by (auto split: sum.splits prod.splits option.splits dest!: retry on_store_worldD)
  show ?thesis
    using assms(2) unfolding embed_batch_def Let_def
    by (auto split: sum.splits prod.splits option.splits if_splits dest!: on_store_worldD unc)
qed

lemma embed_and_insert_confined:
  "C cx \<Longrightarrow> embed_and_insert en tk ix st em cx i f m syms cs s = Some (r, s1) \<Longrightarrow>
     confined P (rn_world s) (rn_world s1)"
proof (induction "length cs" arbitrary: cs s r s1 rule: less_induct)
  case less
  show ?case
  proof (cases "cs = [] \<or> ix_batch ix = 0")
    case True
    with less.prems show ?thesis by (subst (asm) embed_and_insert.simps) (auto split: if_splits)
  next
    case False
    then obtain q s2 r2 where 1: "embed_batch en tk ix st em cx i f m syms (take (ix_batch ix) cs) s = Some (q, s2)"
      and 2: "embed_and_insert en tk ix st em cx i f m syms (drop (ix_batch ix) cs) s2 = Some (r2, s1)"
      using less.prems(2) by (subst (asm) embed_and_insert.simps) (auto split: option.splits)
    have "length (drop (ix_batch ix) cs) < length cs" using False by auto
    from less.hyps [OF this less.prems(1) 2] embed_batch_confined [OF less.prems(1) 1]
    show ?thesis by (rule confined_trans [rotated])
  qed
qed

lemma local_or_text_confined:
  "C (with_force_local cx True) \<Longrightarrow> store_local_or_text ix st em cx p s = (r, s1) \<Longrightarrow>
     confined P (rn_world s) (rn_world s1)"
  unfolding store_local_or_text_def
  by (auto split: sum.splits prod.splits dest!: on_store_worldD on_world_world)
    (metis info_confined)+

text \<open>Whether a unit's chunks may only be embedded locally.\<close>

lemma store_chunks_confined:
  assumes "C (with_force_local cx True)"
    and "ix_privacy ix = Edge \<or> is_sensitive (en_lower en) (up_rel p) \<or> (up_secrets p \<and> ix_secret_block ix)"
    and "store_chunks en tk ix st em cx p s = (r, s1)"
  shows "confined P (rn_world s) (rn_world s1)"
proof -
  have kw: "rn_world t1 = rn_world t" if "store_chunks_keyword_only ix st q t = (z, t1)" for q t z t1
    using that unfolding store_chunks_keyword_only_def Let_def
    by (auto split: sum.splits prod.splits dest!: on_store_worldD)
  show ?thesis
    using assms(2,3) unfolding store_chunks_def Let_def
    by (auto split: sum.splits prod.splits option.splits if_splits
        dest!: kw local_or_text_confined [OF assms(1)] embed_and_insert_confined [OF assms(1)]
        intro: confined_trans)
qed

lemma index_unit_confined:
  assumes "C (with_force_local cx True)"
    and "ix_privacy ix = Edge \<or> is_sensitive (en_lower en) rel \<or>
      (detect_secrets tk ix rel content \<and> ix_secret_block ix)"
    and "index_unit en tk ix st em cx i rel m content s = (r, s1)"
  shows "confined P (rn_world s) (rn_world s1)"
proof -
  have sc: "confined P (rn_world t) (rn_world t1)"
    if "store_chunks en tk ix st em cx \<lparr>up_project = i, up_file = f, up_rel = rel, up_model = m,
      up_chunks = cs, up_syms = syms, up_secrets = detect_secrets tk ix rel content\<rparr> t = (z, t1)" for f cs syms t z t1
    by (rule store_chunks_confined [OF assms(1) _ that]) (use assms(2) in simp)
  show ?thesis
    using assms(3) unfolding index_unit_def index_changed_unit_def Let_def
    by (auto split: sum.splits prod.splits option.splits if_splits dest!: on_store_worldD sc)
qed

lemma index_docs_confined:
  "C (with_force_local cx True) \<Longrightarrow> ix_privacy ix = Edge \<Longrightarrow>
     index_docs en tk ix st em cx i m docs acc s = (r, s1) \<Longrightarrow> confined P (rn_world s) (rn_world s1)"
proof (induction docs arbitrary: acc s)
  case (Cons d docs)
  obtain path body where d: "d = (path, body)" by fastforce
  obtain u t where u: "index_unit en tk ix st em cx i path m body s = (u, t)" by fastforce
  have "confined P (rn_world s) (rn_world t)"
    by (rule index_unit_confined [OF Cons.prems(1) _ u]) (use Cons.prems(2) in simp)
  then show ?case using Cons u d
    by (auto split: option.splits prod.splits intro: confined_trans)
qed simp

lemma index_content_confined:
  assumes "C (with_force_local cx True)" "ix_privacy ix = Edge"
    and "index_content en tk ix st em cx i rel m content s = (r, s1)"
  shows "confined P (rn_world s) (rn_world s1)"
proof -
  have rm: "rn_world t = rn_world s" if "remove_file ix st i rel s = (z, t)" for z t
    using that unfolding remove_file_def
    by (auto split: sum.splits prod.splits if_splits dest!: on_store_worldD)
  have un: "confined P (rn_world s) (rn_world t)"
    if "index_unit en tk ix st em cx i rel m c s = (z, t)" for c z t
    by (rule index_unit_confined [OF assms(1) _ that]) (use assms(2) in simp)
  show ?thesis
    using assms(3) unfolding index_content_def index_extracted_def Let_def
    by (auto split: sum.splits prod.splits option.splits if_splits extraction.splits
        dest!: rm un index_docs_confined [OF assms(1,2)])
qed

lemma index_files_confined:
  "C (with_force_local cx True) \<Longrightarrow> ix_privacy ix = Edge \<Longrightarrow>
     index_files en tk ix st em cx i m fs acc s = (r, s1) \<Longrightarrow> confined P (rn_world s) (rn_world s1)"
proof (induction fs arbitrary: acc s)
  case (Cons f fs)
  obtain u t where u: "index_file en tk ix st em cx i m f s = (u, t)" by fastforce
  have "confined P (rn_world s) (rn_world t)"
    using u index_content_confined [OF Cons.prems(1,2)] unfolding index_file_def
    by (auto split: sum.splits prod.splits)
  note first = this
  show ?case
  proof (cases "ctx_err cx (rn_world s) = None \<and> u \<noteq> None")
    case True
    then obtain x where "index_files en tk ix st em cx i m fs (accumulate ix (fst f) x acc) t = (r, s1)"
      using Cons.prems(3) u by auto
    from first Cons.IH [OF Cons.prems(1,2) this] show ?thesis by (rule confined_trans)
  next
    case False
    with Cons.prems(3) u first show ?thesis by (auto split: if_splits)
  qed
qed simp

lemma index_project_confined:
  assumes "C (with_force_local cx True)" "ix_privacy ix = Edge" "\<not> ix_git_mode ix"
  shows "confined P (rn_world s) (rn_world (snd (index_project en tk gh ix st em cx i path m fs s)))"
proof -
  have fin: "rn_world (snd (finalize_project tk gh ix st em cx i path m acc t)) = rn_world t" for acc t
  proof -
    have "rn_world (record_worktree ix st i mf t) = rn_world t" for mf t
      unfolding record_worktree_def by (auto split: sum.splits prod.splits dest!: on_store_worldD)
    then show ?thesis using assms(3) by (simp add: finalize_project_def Let_def split_beta)
  qed
  obtain a t where a: "index_files en tk ix st em cx i m fs (start_stats (length fs), []) s = (a, t)"
    by fastforce
  from index_files_confined [OF assms(1,2) this] a fin show ?thesis
    by (auto simp: index_project_def Let_def split_beta split: option.splits)
qed

end

section \<open>Privacy of a run\<close>



end
