(* ===== verification/StoreKeeps.thy ===== *)
theory StoreKeeps
  imports Indexing
begin

text \<open>
  What a whole run of the indexer (\<open>internal/indexing/indexer.go\<close>) does to its store: any
  condition on the store that every operation of the interface \<open>IndexStore\<close> keeps is kept by
  every function of the indexer.  The locale is the interface; the SQLite store of
  \<open>LocalStore\<close> provides it with its integrity, and the server's store with its job table
  (theory \<open>JobWorker\<close>).
\<close>

text \<open>The part of the interface that storing a file's chunks uses.\<close>

locale kept_chunks =
  fixes st :: "'s index_store" and I :: "'s \<Rightarrow> bool"
  assumes keeps_insert_chunks: "I d \<Longrightarrow> I (snd (st_insert_chunks st i f cs es k d))"
    and keeps_insert_text: "I d \<Longrightarrow> I (snd (st_insert_text st i f cs k d))"
    and keeps_lookup: "I d \<Longrightarrow> I (snd (st_lookup st hs m k d))"
    and keeps_insert_cache: "I d \<Longrightarrow> I (snd (st_insert_cache st hs m es k d))"
begin

lemma on_store_keeps:
  assumes "on_store f s = (r, s1)" "\<And>d. I d \<Longrightarrow> I (snd (f d))"
  shows "I (rn_store s) \<longrightarrow> I (rn_store s1)"
  using assms(1) assms(2) [of "rn_store s"] by (auto simp: on_store_def split_beta Let_def)

lemma snd_on_store_keeps:
  "I (rn_store s) \<Longrightarrow> (\<And>d. I d \<Longrightarrow> I (snd (f d))) \<Longrightarrow> I (rn_store (snd (on_store f s)))"
  using on_store_keeps [OF surjective_pairing] by blast

lemma on_world_keeps: "on_world f s = (r, s1) \<Longrightarrow> rn_store s1 = rn_store s"
  by (auto simp: on_world_def split_beta Let_def)

lemmas chunk_store_keeps = on_store_keeps [OF _ keeps_insert_chunks] on_store_keeps [OF _ keeps_insert_text]
  on_store_keeps [OF _ keeps_lookup] on_store_keeps [OF _ keeps_insert_cache]

lemma embed_uncached_keeps:
  "embed_uncached_batch en tk ix st em cx m res s = Some (r, s1) \<Longrightarrow> I (rn_store s) \<longrightarrow> I (rn_store s1)"
  unfolding embed_uncached_batch_def
  by (auto split: sum.splits prod.splits option.splits dest!: on_world_keeps dest!: chunk_store_keeps)

lemma embed_batch_keeps:
  "embed_batch en tk ix st em cx i f m syms sub s = Some (r, s1) \<Longrightarrow> I (rn_store s) \<longrightarrow> I (rn_store s1)"
  unfolding embed_batch_def Let_def
  by (auto split: sum.splits prod.splits option.splits if_splits dest!: chunk_store_keeps embed_uncached_keeps)

lemma embed_and_insert_keeps:
  "embed_and_insert en tk ix st em cx i f m syms cs s = Some (r, s1) \<Longrightarrow> I (rn_store s) \<longrightarrow> I (rn_store s1)"
proof (induction "length cs" arbitrary: cs s r s1 rule: less_induct)
  case less
  show ?case
  proof (cases "cs = [] \<or> ix_batch ix = 0")
    case True
    with less.prems show ?thesis by (subst (asm) embed_and_insert.simps) (auto split: if_splits)
  next
    case False
    then obtain q s2 r2 where 1: "embed_batch en tk ix st em cx i f m syms (take (ix_batch ix) cs) s = Some (q, s2)"
      and 2: "embed_and_insert en tk ix st em cx i f m syms (drop (ix_batch ix) cs) s2 = Some (r2, s1)"
      using less.prems by (subst (asm) embed_and_insert.simps) (auto split: option.splits)
    have "length (drop (ix_batch ix) cs) < length cs" using False by auto
    from less.hyps [OF this 2] embed_batch_keeps [OF 1] show ?thesis by blast
  qed
qed

lemma local_or_text_keeps:
  "store_local_or_text ix st em cx p s = (r, s1) \<Longrightarrow> I (rn_store s) \<longrightarrow> I (rn_store s1)"
  unfolding store_local_or_text_def
  by (auto split: sum.splits prod.splits dest!: on_world_keeps dest!: chunk_store_keeps)

lemma keyword_only_keeps:
  "store_chunks_keyword_only ix st p s = (r, s1) \<Longrightarrow> I (rn_store s) \<longrightarrow> I (rn_store s1)"
  unfolding store_chunks_keyword_only_def Let_def
  by (auto split: sum.splits prod.splits dest!: chunk_store_keeps)

lemma store_chunks_keeps:
  assumes "store_chunks en tk ix st em cx p s = (r, s1)"
  shows "I (rn_store s) \<longrightarrow> I (rn_store s1)"
  using assms unfolding store_chunks_def Let_def
  by (auto split: sum.splits prod.splits option.splits if_splits
      dest!: keyword_only_keeps local_or_text_keeps embed_and_insert_keeps)

end

locale kept_store = kept_chunks st I for st :: "'s index_store" and I :: "'s \<Rightarrow> bool" +
  assumes keeps_deps: "I d \<Longrightarrow> I (snd (st_deps st i p ts d))"
    and keeps_up_to_date: "I d \<Longrightarrow> I (snd (st_up_to_date st i p h k d))"
    and keeps_upsert_file: "I d \<Longrightarrow> I (snd (st_upsert_file st i p h n d))"
    and keeps_delete_chunks: "I d \<Longrightarrow> I (snd (st_delete_chunks st i f d))"
    and keeps_delete_by_id: "I d \<Longrightarrow> I (snd (st_delete_by_id st i f d))"
    and keeps_delete_by_path: "I d \<Longrightarrow> I (snd (st_delete_by_path st i p d))"
    and keeps_set_worktree: "I d \<Longrightarrow> I (snd (st_set_worktree st i w fs d))"
    and keeps_remove_worktree: "I d \<Longrightarrow> I (snd (st_remove_worktree st i w p d))"
    and keeps_prune: "I d \<Longrightarrow> I (snd (st_prune st i d))"
    and keeps_commit: "I d \<Longrightarrow> I (snd (st_commit st i c d))"
    and keeps_status: "I d \<Longrightarrow> I (snd (st_status st i x d))"
begin

lemmas keeps_ops = keeps_deps keeps_up_to_date keeps_upsert_file keeps_delete_chunks keeps_delete_by_id
  keeps_delete_by_path keeps_insert_chunks keeps_insert_text keeps_lookup keeps_insert_cache
  keeps_set_worktree keeps_remove_worktree keeps_prune keeps_commit keeps_status

lemmas store_keeps = on_store_keeps [OF _ keeps_deps] on_store_keeps [OF _ keeps_up_to_date]
  on_store_keeps [OF _ keeps_upsert_file] on_store_keeps [OF _ keeps_delete_chunks]
  on_store_keeps [OF _ keeps_delete_by_id] on_store_keeps [OF _ keeps_delete_by_path]
  on_store_keeps [OF _ keeps_insert_chunks] on_store_keeps [OF _ keeps_insert_text]
  on_store_keeps [OF _ keeps_lookup] on_store_keeps [OF _ keeps_insert_cache]
  on_store_keeps [OF _ keeps_set_worktree] on_store_keeps [OF _ keeps_remove_worktree]
  on_store_keeps [OF _ keeps_prune] on_store_keeps [OF _ keeps_commit]
  on_store_keeps [OF _ keeps_status]

lemmas snd_keeps = snd_on_store_keeps [OF _ keeps_insert_cache] snd_on_store_keeps [OF _ keeps_prune]

lemma rollback_keeps: "I (rn_store s) \<Longrightarrow> I (rn_store (rollback_incomplete_unit st i f s))"
  unfolding rollback_incomplete_unit_def
  by (simp add: snd_on_store_keeps keeps_delete_by_id keeps_delete_chunks)

lemma index_changed_keeps:
  assumes "index_changed_unit en tk ix st em cx i rel m content h s = (r, s1)"
  shows "I (rn_store s) \<longrightarrow> I (rn_store s1)"
  using assms unfolding index_changed_unit_def Let_def
  by (auto split: sum.splits prod.splits option.splits if_splits intro!: rollback_keeps
      dest!: store_keeps store_chunks_keeps)

lemma index_unit_keeps:
  assumes "index_unit en tk ix st em cx i rel m content s = (r, s1)"
  shows "I (rn_store s) \<longrightarrow> I (rn_store s1)"
  using assms unfolding index_unit_def Let_def
  by (auto split: sum.splits prod.splits option.splits if_splits dest!: store_keeps index_changed_keeps)

lemma remove_file_keeps:
  "remove_file ix st i rel s = (r, s1) \<Longrightarrow> I (rn_store s) \<longrightarrow> I (rn_store s1)"
  unfolding remove_file_def
  by (auto split: sum.splits prod.splits if_splits dest!: store_keeps)

lemma index_docs_keeps:
  "index_docs en tk ix st em cx i m docs acc s = (r, s1) \<Longrightarrow> I (rn_store s) \<longrightarrow> I (rn_store s1)"
proof (induction docs arbitrary: acc s)
  case (Cons d docs)
  then show ?case
    by (cases d) (auto split: option.splits prod.splits dest!: index_unit_keeps)
qed simp

lemma index_content_keeps:
  "index_content en tk ix st em cx i rel m content s = (r, s1) \<Longrightarrow> I (rn_store s) \<longrightarrow> I (rn_store s1)"
  unfolding index_content_def index_extracted_def Let_def
  by (auto split: sum.splits prod.splits option.splits if_splits extraction.splits
      dest!: remove_file_keeps index_unit_keeps index_docs_keeps)

lemma index_files_keeps:
  "index_files en tk ix st em cx i m fs acc s = (r, s1) \<Longrightarrow> I (rn_store s) \<longrightarrow> I (rn_store s1)"
proof (induction fs arbitrary: acc s)
  case (Cons f fs)
  have step: "I (rn_store s) \<longrightarrow> I (rn_store t)" if "index_file en tk ix st em cx i m f s = (u, t)" for u t
    using that unfolding index_file_def
    by (auto split: sum.splits prod.splits dest!: index_content_keeps)
  obtain u t where u: "index_file en tk ix st em cx i m f s = (u, t)" by fastforce
  with Cons step [OF u] show ?case by (auto split: if_splits option.splits)
qed simp

lemma embed_single_keeps:
  "embed_single_with_cache tk ix st em cx m body s = (r, s1) \<Longrightarrow> I (rn_store s) \<longrightarrow> I (rn_store s1)"
  unfolding embed_single_with_cache_def Let_def
  by (auto intro!: snd_keeps split: sum.splits prod.splits option.splits dest!: on_world_keeps dest!: store_keeps)

lemma index_commit_keeps:
  "index_commit tk ix st em cx i m c s = (r, s1) \<Longrightarrow> I (rn_store s) \<longrightarrow> I (rn_store s1)"
  unfolding index_commit_def Let_def
  by (auto split: sum.splits prod.splits option.splits intro!: rollback_keeps
      dest!: store_keeps embed_single_keeps)

lemma index_commits_keep:
  "I (rn_store s) \<Longrightarrow> I (rn_store (fold (\<lambda>c s. snd (index_commit tk ix st em cx i m c s)) cs s))"
proof (induction cs arbitrary: s)
  case (Cons c cs)
  then show ?case using index_commit_keeps [OF surjective_pairing] by simp
qed simp

lemma git_history_keeps:
  "index_git_history tk gh ix st em cx i path m s = (r, s1) \<Longrightarrow> I (rn_store s) \<longrightarrow> I (rn_store s1)"
  unfolding index_git_history_def Let_def
  by (auto split: if_splits prod.splits intro: index_commits_keep)

lemma record_worktree_keeps:
  "I (rn_store s) \<Longrightarrow> I (rn_store (record_worktree ix st i mf s))"
  unfolding record_worktree_def
  by (auto intro!: snd_keeps split: sum.splits prod.splits dest!: store_keeps)

lemma finalize_keeps:
  assumes "I (rn_store s)"
  shows "I (rn_store (snd (finalize_project tk gh ix st em cx i path m acc s)))"
proof -
  let ?s1 = "if ix_worktree ix \<noteq> [] then record_worktree ix st i (snd acc) s else s"
  have 1: "I (rn_store ?s1)" using assms record_worktree_keeps by simp
  obtain g s2 where 2: "(if ix_git_mode ix then index_git_history tk gh ix st em cx i path m ?s1 else (None, ?s1)) = (g, s2)"
    by fastforce
  then have "I (rn_store s2)" using 1 git_history_keeps by (auto split: if_splits)
  then show ?thesis using 2
    by (simp add: finalize_project_def Let_def split_beta keeps_commit keeps_status snd_on_store_keeps)
qed

lemma index_project_keeps:
  assumes "index_project en tk gh ix st em cx i path m fs s = (r, s1)"
  shows "I (rn_store s) \<longrightarrow> I (rn_store s1)"
proof -
  obtain a t where a: "index_files en tk ix st em cx i m fs (start_stats (length fs), []) s = (a, t)" by fastforce
  from index_files_keeps [OF this] have "I (rn_store s) \<longrightarrow> I (rn_store t)" .
  with assms a finalize_keeps [of t] show ?thesis
    by (auto simp: index_project_def Let_def split_beta split: option.splits)
qed

end


section \<open>The SQLite store\<close>

lemma keeps_op: "db_ok sha d \<Longrightarrow> apply_op sha op d = d1 \<Longrightarrow> db_ok sha d1"
  using apply_ok by blast

interpretation sqlite_integrity: kept_store "sqlite_store sha" "db_ok sha" for sha
proof (unfold_locales, goal_cases)
  case (5 d i p ts) then show ?case using keeps_op [of sha d "InsertDeps i p ts"] by (simp add: sqlite_store_def)
next
  case (7 d i p h n) then show ?case using keeps_op [of sha d "UpsertFile i p h n"] by (simp add: sqlite_store_def)
next
  case (8 d i f) then show ?case using keeps_op [of sha d "DeleteChunks i f"] by (simp add: sqlite_store_def)
next
  case (9 d i f) then show ?case using keeps_op [of sha d "DeleteById i f"] by (simp add: sqlite_store_def)
next
  case (10 d i p) then show ?case using keeps_op [of sha d "DeleteByPath i p"] by (simp add: sqlite_store_def)
next
  case (1 d i f cs es k) then show ?case using keeps_op [of sha d "InsertChunks i f cs es k"] by (simp add: sqlite_store_def)
next
  case (2 d i f cs k) then show ?case using keeps_op [of sha d "InsertText i f cs k"] by (simp add: sqlite_store_def)
next
  case (4 d hs m es k) then show ?case using keeps_op [of sha d "InsertCache hs m es k"] by (simp add: sqlite_store_def)
next
  case (11 d i w fs) then show ?case using keeps_op [of sha d "SetWorktree i w fs"] by (simp add: sqlite_store_def)
next
  case (12 d i w p) then show ?case using keeps_op [of sha d "RemoveWorktree i w p"] by (simp add: sqlite_store_def)
next
  case (13 d i) then show ?case using keeps_op [of sha d "PruneUnreferenced i"] by (simp add: sqlite_store_def)
next
  case (14 d i c) then show ?case using keeps_op [of sha d "SetCommit i c"] by (simp add: sqlite_store_def)
next
  case (15 d i x) then show ?case using keeps_op [of sha d "SetStatus i x"] by (simp add: sqlite_store_def)
qed (simp_all add: sqlite_store_def)

text \<open>Storing chunks leaves the table of files alone.\<close>

lemma insert_rows_files [simp]: "db_files (insert_rows sha i f k m n rows d) = db_files d"
  by (induction sha i f k m n rows d rule: insert_rows.induct) simp_all

interpretation sqlite_files: kept_chunks "sqlite_store sha" "\<lambda>d. db_files d = fs" for sha fs
  by unfold_locales
    (auto simp: sqlite_store_def insert_chunks_def insert_chunks_text_only_def insert_transaction_def
      insert_embedding_cache_def)

text \<open>C4: Whatever the files, the embedder and the network do, a run of the indexer over the
  SQLite store leaves a database that was sound as sound as it was: all keys unique, those of the
  worktree manifests and of the dependencies the run rewrites included, and no reference to a missing
  project, file or embedding.\<close>

theorem index_run_keeps_integrity:
  assumes "db_ok sha (rn_store s)"
  shows "db_ok sha (rn_store (snd (index_project en tk gh ix (sqlite_store sha) em cx pid path model files s)))"
  using sqlite_integrity.index_project_keeps [OF surjective_pairing] assms by blast

end
