(* ===== verification/IndexProps.thy ===== *)
theory IndexProps
  imports StoreKeeps
begin

text \<open>
  Properties of the indexer of \<open>Indexing\<close> on the SQLite store: what git history does to
  the routing policy, what sub-batches leave in the store, short replies of a provider, and what a
  failed update does to a worktree's index.
\<close>

section \<open>A concrete run\<close>

definition demo_tools :: tools where
  "demo_tools =
     \<lparr> tl_sha = id, tl_symbols = (\<lambda>p c. []), tl_findings = (\<lambda>p c. 0), tl_deps = (\<lambda>p c. []),
       tl_supported = (\<lambda>p. False), tl_extract = (\<lambda>p c. MalformedDoc), tl_can_encrypt = (\<lambda>p. False),
       tl_jitter = (\<lambda>k. 0) \<rparr>"

definition demo_opts :: indexer_opts where
  "demo_opts =
     \<lparr> op_batch = 0, op_max_file_size = 0, op_max_chunks_file = 0, op_max_chunks_project = 0,
       op_max_files = 0, op_git_mode = False, op_git_since = [], op_privacy = Some Edge, op_force = False \<rparr>"

definition demo_run :: "db run" where
  "demo_run = \<lparr> rn_store = demo_db, rn_world = start_world (new_circuit_breaker 0 0), rn_left = - 1 \<rparr>"

definition demo_host :: git_host where
  "demo_host = \<lparr> gh_log = (\<lambda>p s. ([], None)), gh_head = (\<lambda>p. []) \<rparr>"



section \<open>Git history\<close>

lemma sqlite_ops [simp]:
  "st_upsert_file (sqlite_store sha) = upsert_file"
  "st_delete_chunks (sqlite_store sha) = (\<lambda>i f d. (Inr (), delete_chunks_for_file i f d))"
  "st_delete_by_id (sqlite_store sha) = (\<lambda>i f d. (Inr (), delete_file_by_id i f d))"
  "st_insert_chunks (sqlite_store sha) = insert_chunks sha"
  "st_insert_text (sqlite_store sha) = insert_chunks_text_only sha"
  "st_lookup (sqlite_store sha) = (\<lambda>hs m k d. (lookup_embedding_cache hs m d, d))"
  "st_insert_cache (sqlite_store sha) = insert_embedding_cache"
  "st_set_worktree (sqlite_store sha) = set_worktree_files"
  "st_prune (sqlite_store sha) =
     (\<lambda>i d. (Inr (fst (prune_unreferenced_files i d)), snd (prune_unreferenced_files i d)))"
  "st_commit (sqlite_store sha) = (\<lambda>i c d. (Inr (), update_project_commit i c d))"
  "st_status (sqlite_store sha) = (\<lambda>i s d. (Inr (), update_project_status i s d))"
  by (simp_all add: sqlite_store_def)

lemma upsert_file_succeeds:
  "has_project i d \<Longrightarrow> \<exists>f d2. upsert_file i p h n d = (Inr f, d2) \<and> db_cache d2 = db_cache d"
  by (cases "find (\<lambda>f. fr_project f = i \<and> fr_path f = p \<and> fr_hash f = h) (db_files d)")
    (auto simp: upsert_file_def)

lemma lookup_miss:
  "map_of (db_cache d) (h, m) = None \<Longrightarrow> \<exists>c. lookup_embedding_cache [h] m d = Inr c \<and> map_of c h = None"
  by (auto simp: lookup_embedding_cache_def map_of_eq_None_iff image_iff)

text \<open>Git history ignores the project's policy.  Even for an edge project, a commit that is
  not in the embedding cache is posted, diff and all, to the provider of an OpenAI-compatible
  client: \<open>indexCommit\<close> embeds with the plain context, and neither the mode nor the paths in
  the diff are looked at.\<close>

theorem edge_history_reaches_cloud:
  assumes "ix_privacy ix = Edge" "has_project pid (rn_store s)"
    and "map_of (db_cache (rn_store s)) (tl_sha tk (take (ix_max_chars ix) commit), model) = None"
    and "en_url_error en (base @ ''/embeddings'') = None"
  shows "w_sent (rn_world (snd (index_commit tk ix (sqlite_store sha) (new_openai_client en base key) cx
      pid model commit s))) =
    w_sent (rn_world s) @
      [\<lparr> rq_method = ''POST'', rq_url = base @ ''/embeddings'', rq_auth = openai_auth key,
         rq_payload = OpenAIEmbedRequest model [take (ix_max_chars ix) commit] \<rparr>]"
proof -
  let ?c = "take (ix_max_chars ix) commit"
  let ?p = "''git:'' @ trim_space (takeWhile (\<lambda>c. c \<noteq> newline) ?c)"
  let ?em = "new_openai_client en base key"
  obtain f d2 where u: "upsert_file pid ?p (tl_sha tk ?c) (length ?c) (rn_store s) = (Inr f, d2)"
    and cache: "db_cache d2 = db_cache (rn_store s)"
    using upsert_file_succeeds [OF assms(2)] by blast
  let ?d3 = "delete_chunks_for_file pid f d2"
  have "map_of (db_cache ?d3) (tl_sha tk ?c, model) = None"
    using assms(3) cache by (simp add: delete_chunks_for_file_def)
  from lookup_miss [OF this] obtain c where
    c: "lookup_embedding_cache [tl_sha tk ?c] model ?d3 = Inr c" "map_of c (tl_sha tk ?c) = None" by blast
  have sent: "w_sent (snd (em_single ?em cx model ?c (rn_world s))) = w_sent (rn_world s) @
      [\<lparr> rq_method = ''POST'', rq_url = base @ ''/embeddings'', rq_auth = openai_auth key,
         rq_payload = OpenAIEmbedRequest model [?c] \<rparr>]"
    using openai_embed_sends [of "[?c]" en base key cx model "rn_world s", OF _ assms(4)]
    by (simp add: new_openai_client_def openai_embed_single_def)
  have "w_sent (rn_world (snd (embed_single_with_cache tk ix (sqlite_store sha) ?em cx model ?c
      (s\<lparr>rn_store := ?d3\<rparr>)))) = w_sent (snd (em_single ?em cx model ?c (rn_world s)))"
    using c by (auto simp: embed_single_with_cache_def on_store_def on_world_def Let_def split_beta
        split: sum.splits)
  with sent u show ?thesis
    by (auto simp: index_commit_def on_store_def Let_def split_beta split: sum.splits option.splits prod.splits)
qed

theorem edge_history_reaches_cloud_witness:
  "w_sent (rn_world (snd (index_commit demo_tools (new_indexer 2 demo_opts) (sqlite_store id)
      (new_openai_client (fixed_env ok_reply) ''https://c'' ''k'') \<lparr>cx_force_local = False, cx_deadline = None\<rparr>
      1 ''m'' ''commit 1'' demo_run))) =
    [\<lparr> rq_method = ''POST'', rq_url = ''https://c/embeddings'', rq_auth = Some ''Bearer k'',
       rq_payload = OpenAIEmbedRequest ''m'' [''commit 1''] \<rparr>]"
proof -
  have cache: "db_cache demo_db = []" by code_simp
  have ix: "ix_privacy (new_indexer 2 demo_opts) = Edge" "ix_max_chars (new_indexer 2 demo_opts) = 4000"
    by (simp_all add: new_indexer_def demo_opts_def)
  show ?thesis
    using edge_history_reaches_cloud [OF ix(1), of 1 demo_run demo_tools "''commit 1''" "''m''"
        "fixed_env ok_reply" "''https://c''" id "''k''" "\<lparr>cx_force_local = False, cx_deadline = None\<rparr>"]
      demo_db_facts(1) cache
    by (simp add: ix demo_run_def fixed_env_def start_world_def openai_auth_def)
qed

section \<open>Sub-batches\<close>

lemma view_cache [simp]: "chunk_view i f (d\<lparr>db_cache := c\<rparr>) = chunk_view i f d"
  by (rule ext) (simp add: chunk_view_def chunk_blob_def)

lemma store_good_cache:
  "store_good sha i f d \<Longrightarrow> store_good sha i f (snd (insert_embedding_cache hs m vs k d))"
  by (auto simp: store_good_def insert_embedding_cache_def has_project_def has_file_def
      intro!: ok_cache add_cache_distinct cache_distinct)

lemma view_cache_insert [simp]:
  "chunk_view i f (snd (insert_embedding_cache hs m vs k d)) = chunk_view i f d"
  by (simp add: insert_embedding_cache_def)

lemma embed_batch_sqlite:
  assumes "embed_batch en tk ix (sqlite_store sha) em cx pid fid m syms sub s = Some ((c, e), s1)"
    and good: "store_good sha pid fid (rn_store s)"
  shows "store_good sha pid fid (rn_store s1) \<and>
    (c = 0 \<and> e > 0 \<and> chunk_view pid fid (rn_store s1) = chunk_view pid fid (rn_store s) \<or>
     c = length sub \<and> e = 0 \<and> (\<exists>vs. \<forall>j. chunk_view pid fid (rn_store s1) j =
       (if j < length sub then Some (stored_chunk (sub ! j), Some (vs ! j)) else chunk_view pid fid (rn_store s) j)))"
proof -
  let ?st = "sqlite_store sha"
  have unc: "store_good sha pid fid (rn_store t1) \<and> chunk_view pid fid (rn_store t1) = chunk_view pid fid (rn_store t)
      \<and> (es = None \<longrightarrow> n = 1) \<and> (es \<noteq> None \<longrightarrow> n = 0)"
    if "embed_uncached_batch en tk ix ?st em cx m res t = Some ((n, es), t1)" "store_good sha pid fid (rn_store t)"
    for t t1 n es res
    using that store_good_cache
    by (auto simp: embed_uncached_batch_def on_store_def on_world_def Let_def split_beta
        split: sum.splits option.splits dest: sym)
  have ins: "store_good sha pid fid (rn_store t1) \<and> (\<forall>j. chunk_view pid fid (rn_store t1) j =
       (if j < length sub then Some (stored_chunk (sub ! j), Some (vs ! j)) else chunk_view pid fid (rn_store t) j))"
    if "on_store (st_insert_chunks ?st pid fid sub vs (ix_dims ix)) t = (Inr u, t1)" "store_good sha pid fid (rn_store t)"
    for t t1 u vs
  proof -
    have "length sub = length vs"
      using that(1) by (auto simp: on_store_def Let_def split_beta insert_chunks_def split: if_splits)
    from insert_chunks_ok [OF that(2) this, of "ix_dims ix"] that(1) show ?thesis
      by (auto simp: on_store_def Let_def split_beta)
  qed
  have fail: "rn_store t1 = rn_store t"
    if "on_store (st_insert_chunks ?st pid fid sub vs (ix_dims ix)) t = (Inl u, t1)" for t t1 u vs
    using that by (auto simp: on_store_def Let_def split_beta insert_chunks_def insert_transaction_def split: if_splits)
  have look: "rn_store t1 = rn_store t" if "on_store (st_lookup ?st hs m (ix_dims ix)) t = (q, t1)" for hs q t t1
    using that by (auto simp: on_store_def Let_def)
  obtain inputs hashes looked s0 res where
    0: "on_store (st_lookup ?st hashes m (ix_dims ix)) s = (looked, s0)"
    and 1: "(case (if br_idx res = [] then Some ((0, Some (br_embeddings res)), s0)
                       else embed_uncached_batch en tk ix ?st em cx m res s0) of
                   None \<Rightarrow> None
                 | Some ((soft, None), s2) \<Rightarrow> Some ((0, soft), s2)
                 | Some ((soft, Some es), s2) \<Rightarrow>
                     (case on_store (st_insert_chunks ?st pid fid sub es (ix_dims ix)) s2 of
                        (Inl e, s3) \<Rightarrow> Some ((0, soft + 1), s3)
                      | (Inr _, s3) \<Rightarrow> Some ((length sub, soft), s3))) = Some ((c, e), s1)"
    using assms(1) unfolding embed_batch_def Let_def by (auto split: prod.splits)
  have g0: "store_good sha pid fid (rn_store s0)" "rn_store s0 = rn_store s"
    using look [OF 0] good by simp_all
  obtain soft es s2 where 2: "(if br_idx res = [] then Some ((0, Some (br_embeddings res)), s0)
      else embed_uncached_batch en tk ix ?st em cx m res s0) = Some ((soft, es), s2)"
    using 1 by (cases "if br_idx res = [] then Some ((0::nat, Some (br_embeddings res)), s0)
      else embed_uncached_batch en tk ix ?st em cx m res s0") auto
  have g2: "store_good sha pid fid (rn_store s2)" "chunk_view pid fid (rn_store s2) = chunk_view pid fid (rn_store s)"
    "es = None \<longrightarrow> soft = 1" "es \<noteq> None \<longrightarrow> soft = 0"
    using 2 g0 unc by (auto split: if_splits)
  show ?thesis
  proof (cases es)
    case None
    with 1 2 g2 show ?thesis by simp
  next
    case (Some vs)
    obtain q s3 where 3: "on_store (st_insert_chunks ?st pid fid sub vs (ix_dims ix)) s2 = (q, s3)" by fastforce
    show ?thesis
    proof (cases q)
      case (Inl x)
      with fail [of vs s2 x s3] 1 2 3 Some g2 show ?thesis by simp
    next
      case (Inr x)
      with ins [of vs s2 x s3] 1 2 3 Some g2 show ?thesis by auto
    qed
  qed
qed

lemma embed_and_insert_step:
  "chunks \<noteq> [] \<Longrightarrow> 0 < ix_batch ix \<Longrightarrow>
   embed_and_insert en tk ix st em cx pid fid m syms chunks s = Some ((created, soft), s1) \<Longrightarrow>
   \<exists>c e s2 c2 e2. embed_batch en tk ix st em cx pid fid m syms (take (ix_batch ix) chunks) s = Some ((c, e), s2) \<and>
     embed_and_insert en tk ix st em cx pid fid m syms (drop (ix_batch ix) chunks) s2 = Some ((c2, e2), s1) \<and>
     created = c + c2 \<and> soft = e + e2"
  by (subst (asm) embed_and_insert.simps) (auto split: option.splits)

lemma embed_and_insert_Nil [simp]:
  "embed_and_insert en tk ix st em cx pid fid m syms [] s = Some ((0, 0), s)"
  by (subst embed_and_insert.simps) simp

lemma batches_sqlite:
  assumes "0 < ix_batch ix" "store_good sha pid fid (rn_store s)"
    and "embed_and_insert en tk ix (sqlite_store sha) em cx pid fid m syms chunks s = Some ((created, soft), s1)"
  shows "store_good sha pid fid (rn_store s1) \<and>
    (\<forall>j \<ge> ix_batch ix. chunk_view pid fid (rn_store s1) j = chunk_view pid fid (rn_store s) j) \<and>
    created \<le> length chunks \<and> (soft = 0 \<longleftrightarrow> created = length chunks)"
  using assms(2,3)
proof (induction "length chunks" arbitrary: chunks s created soft rule: less_induct)
  case less
  show ?case
  proof (cases "chunks = []")
    case True
    with less.prems show ?thesis by simp
  next
    case False
    obtain c e s2 c2 e2 where
      b: "embed_batch en tk ix (sqlite_store sha) em cx pid fid m syms (take (ix_batch ix) chunks) s = Some ((c, e), s2)"
      and r: "embed_and_insert en tk ix (sqlite_store sha) em cx pid fid m syms (drop (ix_batch ix) chunks) s2 = Some ((c2, e2), s1)"
      and sum: "created = c + c2" "soft = e + e2"
      using embed_and_insert_step [OF False assms(1) less.prems(2)] by blast
    note bb = embed_batch_sqlite [OF b less.prems(1)]
    then have g: "store_good sha pid fid (rn_store s2)" by blast
    have "length (drop (ix_batch ix) chunks) < length chunks" using False assms(1) by auto
    note ih = less.hyps [OF this g r]
    have c: "c \<le> length (take (ix_batch ix) chunks)" "e = 0 \<longleftrightarrow> c = length (take (ix_batch ix) chunks)"
      using bb False assms(1) by (auto simp: min_def split: if_splits)
    have v: "chunk_view pid fid (rn_store s2) j = chunk_view pid fid (rn_store s) j" if "ix_batch ix \<le> j" for j
      using bb that by auto
    have len: "length chunks = length (take (ix_batch ix) chunks) + length (drop (ix_batch ix) chunks)"
      by simp
    show ?thesis
    proof (intro conjI)
      show "soft = 0 \<longleftrightarrow> created = length chunks"
        using ih c sum len by linarith
      show "created \<le> length chunks" using ih c sum len by linarith
    qed (use ih v in auto)
  qed
qed

text \<open>A provider that answers every call with one vector per text.\<close>

definition answers :: "embedder \<Rightarrow> bool" where
  "answers em \<longleftrightarrow> (\<forall>cx m xs w. \<exists>vs w2. em_embed em cx m xs w = (Inr vs, w2) \<and> length vs = length xs)"

lemma resolve_loop_lengths:
  "length (br_embeddings (resolve_loop cached i inputs hs r)) = length (br_embeddings r) \<and>
   (length (br_idx r) = length (br_inputs r) \<longrightarrow>
     length (br_idx (resolve_loop cached i inputs hs r)) = length (br_inputs (resolve_loop cached i inputs hs r)))"
  by (induction cached i inputs hs r rule: resolve_loop.induct) (auto split: option.splits)

lemma merge_embeddings_ok:
  "length idx \<le> length es \<Longrightarrow> \<exists>out2. merge_embeddings idx es out = Some out2 \<and> length out2 = length out"
  by (induction idx es out rule: merge_embeddings.induct) auto

lemma embed_with_retry_answers:
  "answers em \<Longrightarrow> \<exists>vs w2. embed_with_retry en tk em cx m xs w = (Inr vs, w2) \<and> length vs = length xs"
proof -
  assume "answers em"
  then obtain vs w2 where "em_embed em cx m xs w = (Inr vs, w2)" "length vs = length xs"
    unfolding answers_def by blast
  then show ?thesis by (simp add: embed_with_retry_def max_embed_attempts_def numeral_3_eq_3)
qed

lemma embed_batch_answers:
  assumes ans: "answers em" and good: "store_good sha pid fid (rn_store s)"
  shows "\<exists>s1. embed_batch en tk ix (sqlite_store sha) em cx pid fid m syms sub s = Some ((length sub, 0), s1)"
proof -
  let ?st = "sqlite_store sha"
  let ?inputs = "build_chunk_inputs sub syms"
  obtain looked s0 where 0: "on_store (st_lookup ?st (compute_hashes tk ?inputs) m (ix_dims ix)) s = (looked, s0)"
    by fastforce
  then have g0: "store_good sha pid fid (rn_store s0)" using good by (auto simp: on_store_def Let_def)
  define cached where "cached = (case looked of Inl e \<Rightarrow> [] | Inr c \<Rightarrow> c)"
  define res where "res = resolve_batch_embeddings ?inputs (compute_hashes tk ?inputs) cached"
  have len: "length (br_embeddings res) = length sub" "length (br_idx res) = length (br_inputs res)"
    unfolding res_def resolve_batch_embeddings_def by (simp_all add: resolve_loop_lengths build_chunk_inputs_def)
  have "\<exists>es s2. (if br_idx res = [] then Some ((0::nat, Some (br_embeddings res)), s0)
      else embed_uncached_batch en tk ix ?st em cx m res s0) = Some ((0, Some es), s2) \<and>
      length es = length sub \<and> store_good sha pid fid (rn_store s2)"
  proof (cases "br_idx res = []")
    case True
    then show ?thesis using len g0 by auto
  next
    case False
    obtain vs w2 where "embed_with_retry en tk em cx m (br_inputs res) (rn_world s0) = (Inr vs, w2)"
      "length vs = length (br_inputs res)" using embed_with_retry_answers [OF ans] by blast
    moreover obtain es where "merge_embeddings (br_idx res) vs (br_embeddings res) = Some es"
      "length es = length sub" using merge_embeddings_ok [of "br_idx res" vs "br_embeddings res"] calculation len by auto
    ultimately show ?thesis using False store_good_cache [OF g0]
      by (simp add: embed_uncached_batch_def on_store_def on_world_def Let_def split_beta)
  qed
  then obtain es s2 where 2: "(if br_idx res = [] then Some ((0::nat, Some (br_embeddings res)), s0)
      else embed_uncached_batch en tk ix ?st em cx m res s0) = Some ((0, Some es), s2)"
    "length es = length sub" "store_good sha pid fid (rn_store s2)" by blast
  have "\<exists>s3. on_store (st_insert_chunks ?st pid fid sub es (ix_dims ix)) s2 = (Inr (), s3)"
    using insert_chunks_ok [OF 2(3), of sub es "ix_dims ix"] 2(2)
    by (simp add: on_store_def Let_def split_beta prod_eq_iff)
  then show ?thesis
    using 0 2(1) by (auto simp: embed_batch_def Let_def cached_def [symmetric] res_def [symmetric])
qed

lemma embed_and_insert_answers:
  assumes "answers em" "0 < ix_batch ix"
  shows "store_good sha pid fid (rn_store s) \<Longrightarrow>
    \<exists>s1. embed_and_insert en tk ix (sqlite_store sha) em cx pid fid m syms chunks s = Some ((length chunks, 0), s1)"
proof (induction "length chunks" arbitrary: chunks s rule: less_induct)
  case less
  show ?case
  proof (cases "chunks = []")
    case False
    obtain s1 where b: "embed_batch en tk ix (sqlite_store sha) em cx pid fid m syms (take (ix_batch ix) chunks) s =
        Some ((length (take (ix_batch ix) chunks), 0), s1)"
      using embed_batch_answers [OF assms(1) less.prems] by blast
    then have "store_good sha pid fid (rn_store s1)" using embed_batch_sqlite less.prems by blast
    moreover have "length (drop (ix_batch ix) chunks) < length chunks" using False assms(2) by auto
    ultimately obtain s2 where "embed_and_insert en tk ix (sqlite_store sha) em cx pid fid m syms
        (drop (ix_batch ix) chunks) s1 = Some ((length (drop (ix_batch ix) chunks), 0), s2)"
      using less.hyps by blast
    with b False assms(2) show ?thesis by (subst embed_and_insert.simps) simp
  qed simp
qed

text \<open>Sub-batches overwrite each other.  When the provider answers every call, embedding a
  file's chunks in sub-batches of \<open>b\<close> reports every chunk as stored and no error; yet only rows
  \<open>0, ..., b - 1\<close> exist afterwards, so of a file with more than \<open>b\<close> chunks the rest is
  missing.\<close>

theorem batches_overwrite:
  assumes "answers em" "0 < ix_batch ix" "inj sha" "db_ok sha d" "has_project pid d" "has_file fid d"
    and "rn_store s = delete_chunks_for_file pid fid d"
  shows "\<exists>s1. embed_and_insert en tk ix (sqlite_store sha) em cx pid fid m syms chunks s =
      Some ((length chunks, 0), s1) \<and>
    (\<forall>j \<ge> ix_batch ix. chunk_view pid fid (rn_store s1) j = None)"
proof -
  have good: "store_good sha pid fid (rn_store s)"
    unfolding assms(7) by (rule store_good_delete) (use assms(3-6) in \<open>simp add: store_good_def\<close>)
  from embed_and_insert_answers [where sha = sha, OF assms(1,2) this] obtain s1 where
    "embed_and_insert en tk ix (sqlite_store sha) em cx pid fid m syms chunks s = Some ((length chunks, 0), s1)"
    by blast
  with batches_sqlite [OF assms(2) good this] show ?thesis
    by (auto simp: assms(7) view_deleted)
qed

definition const_embedder :: "vec \<Rightarrow> embedder" where
  "const_embedder v =
     \<lparr> em_info = (\<lambda>cx m w. (Inr \<lparr>mi_name = m, mi_dims = 1\<rparr>, w)),
       em_embed = (\<lambda>cx m xs w. (Inr (map (\<lambda>x. v) xs), w)),
       em_single = (\<lambda>cx m x w. (Inr v, w)), em_list = (\<lambda>cx w. (Inr [], w)) \<rparr>"

definition plain_ctx :: ctx where
  "plain_ctx = \<lparr>cx_force_local = False, cx_deadline = None\<rparr>"

lemma const_answers: "answers (const_embedder v)"
  by (simp add: answers_def const_embedder_def)

theorem batches_overwrite_witness:
  "\<exists>s1. embed_and_insert (fixed_env ok_reply) demo_tools (new_indexer 1 (demo_opts\<lparr>op_batch := 1\<rparr>)) (sqlite_store id)
       (const_embedder [7]) plain_ctx 1 1 ''m'' [] [mk_chunk ''x'' 1 1, mk_chunk ''y'' 2 2, mk_chunk ''z'' 3 3]
       (demo_run\<lparr>rn_store := delete_chunks_for_file 1 1 demo_db\<rparr>) = Some ((3, 0), s1) \<and>
     chunk_view 1 1 (rn_store s1) 1 = None \<and> chunk_view 1 1 (rn_store s1) 2 = None"
proof -
  have "ix_batch (new_indexer 1 (demo_opts\<lparr>op_batch := 1\<rparr>)) = 1"
    by (simp add: new_indexer_def demo_opts_def)
  with batches_overwrite [OF const_answers [of "[7]"], of "new_indexer 1 (demo_opts\<lparr>op_batch := 1\<rparr>)" id demo_db 1 1
      "demo_run\<lparr>rn_store := delete_chunks_for_file 1 1 demo_db\<rparr>" "fixed_env ok_reply" demo_tools plain_ctx "''m''" "[]"
      "[mk_chunk ''x'' 1 1, mk_chunk ''y'' 2 2, mk_chunk ''z'' 3 3]"] demo_db_facts
  show ?thesis by (auto simp: numeral_3_eq_3)
qed

section \<open>Complete units\<close>

lemma insert_text_ok:
  assumes "store_good sha i f d"
  shows "fst (insert_chunks_text_only sha i f cs k d) = Inr () \<and>
    store_good sha i f (snd (insert_chunks_text_only sha i f cs k d)) \<and>
    chunk_view i f (snd (insert_chunks_text_only sha i f cs k d)) j =
      (if j < length cs then Some (stored_chunk (cs ! j), None) else chunk_view i f d j)"
  using assms
  by (auto simp: insert_chunks_text_only_def insert_transaction_def store_good_def ok_insert_rows insert_rows_view)

lemma one_batch:
  assumes "0 < ix_batch ix" "store_good sha pid fid (rn_store s)" "length chunks \<le> ix_batch ix"
    and "embed_and_insert en tk ix (sqlite_store sha) em cx pid fid m syms chunks s = Some ((created, soft), s1)"
    and "length chunks \<le> created"
  shows "store_good sha pid fid (rn_store s1) \<and> created = length chunks \<and>
    (\<exists>vs. \<forall>j. chunk_view pid fid (rn_store s1) j =
       (if j < length chunks then Some (stored_chunk (chunks ! j), Some (vs ! j)) else chunk_view pid fid (rn_store s) j))"
proof (cases "chunks = []")
  case True
  with assms show ?thesis by simp
next
  case False
  from embed_and_insert_step [OF False assms(1,4)] assms(3) obtain e where
    "embed_batch en tk ix (sqlite_store sha) em cx pid fid m syms chunks s = Some ((created, e), s1)"
    by auto
  from embed_batch_sqlite [OF this assms(2)] assms(5) False show ?thesis by auto
qed

lemma local_or_text_sqlite:
  assumes "store_local_or_text ix (sqlite_store sha) em cx p s = (Inr r, s1)"
    and "store_good sha (up_project p) (up_file p) (rn_store s)"
  shows "case r of
      None \<Rightarrow> rn_store s1 = rn_store s
    | Some n \<Rightarrow> n = length (up_chunks p) \<and> store_good sha (up_project p) (up_file p) (rn_store s1) \<and>
        (\<forall>j. chunk_view (up_project p) (up_file p) (rn_store s1) j =
          (if j < length (up_chunks p) then Some (stored_chunk (up_chunks p ! j), None)
           else chunk_view (up_project p) (up_file p) (rn_store s) j))"
  using assms insert_text_ok [OF assms(2), of "up_chunks p" "ix_dims ix"]
  by (auto simp: store_local_or_text_def on_store_def on_world_def Let_def split_beta split: sum.splits)

definition rows_are :: "nat \<Rightarrow> nat \<Rightarrow> chunk list \<Rightarrow> db \<Rightarrow> bool" where
  "rows_are pid fid cs d \<longleftrightarrow>
     (\<forall>j. map_option fst (chunk_view pid fid d j) = (if j < length cs then Some (stored_chunk (cs ! j)) else None))"

lemma store_chunks_complete:
  assumes b: "0 < ix_batch ix" and good: "store_good sha (up_project p) (up_file p) (rn_store s)"
    and empty: "\<And>j. chunk_view (up_project p) (up_file p) (rn_store s) j = None"
    and kw: "\<not> ix_keyword_only ix" and fits: "length (up_chunks p) \<le> ix_batch ix"
    and run: "store_chunks en tk ix (sqlite_store sha) em cx p s = (Some ((created, expected, soft), None), s1)"
    and all: "\<not> created < expected"
  shows "created = nat (fst (take_chunk_budget (int (length (up_chunks p))) (rn_left s))) \<and>
    rows_are (up_project p) (up_file p) (take created (classify_chunks (up_syms p) (up_chunks p))) (rn_store s1)"
proof -
  obtain got left where g: "take_chunk_budget (int (length (up_chunks p))) (rn_left s) = (got, left)" by fastforce
  then have got: "0 \<le> got" "nat got \<le> length (up_chunks p)"
    by (auto simp: take_chunk_budget_def Let_def split: if_splits)
  let ?s = "s\<lparr>rn_left := left\<rparr>"
  let ?cs = "classify_chunks (up_syms p) (take (nat got) (up_chunks p))"
  let ?p = "p\<lparr>up_chunks := ?cs\<rparr>"
  have cs: "?cs = take (nat got) (classify_chunks (up_syms p) (up_chunks p))" "length ?cs = nat got"
    using got by (simp_all add: classify_chunks_def take_map)
  have emb: "created = nat got \<and> rows_are (up_project p) (up_file p) ?cs (rn_store s1)"
    if "embed_and_insert en tk ix (sqlite_store sha) em c (up_project p) (up_file p) (up_model p) (up_syms p) ?cs t
         = Some ((created, soft), s1)" "rn_store t = rn_store s" "nat got \<le> created" for c t
    using one_batch [OF b _ _ that(1)] that good fits got cs(2) empty by (auto simp: rows_are_def)
  show ?thesis
  proof (cases "got = 0")
    case True
    with run g empty show ?thesis by (auto simp: store_chunks_def rows_are_def Let_def)
  next
    case False
    have loc: "case r of
        None \<Rightarrow> rn_store s2 = rn_store s
      | Some n \<Rightarrow> n = nat got \<and> rows_are (up_project p) (up_file p) ?cs (rn_store s2)"
      if "store_local_or_text ix (sqlite_store sha) em cx ?p ?s = (Inr r, s2)" for r s2
      using local_or_text_sqlite [OF that] good empty cs(2) by (auto simp: rows_are_def split: option.splits)
    have "created = nat got \<and> rows_are (up_project p) (up_file p) ?cs (rn_store s1)"
      using run g False kw all got emb loc
      by (auto simp: store_chunks_def Let_def split: option.splits sum.splits prod.splits if_splits)
    then show ?thesis using g cs by simp
  qed
qed

lemma upsert_file_ok:
  assumes "db_ok sha d" "upsert_file i p h n d = (Inr f, d2)"
  shows "db_ok sha d2 \<and> has_project i d2 \<and>
     list_ex (\<lambda>r. fr_id r = f \<and> file_key r = (i, p, h)) (db_files d2)"
proof -
  have "db_ok sha d2" using ok_upsert_file [OF assms(1), of i p h n] assms(2) by simp
  moreover have ex: "list_ex (\<lambda>r. fr_id r = f \<and> file_key r = (i, p, h)) (db_files d2)"
  proof (cases "find (\<lambda>f. fr_project f = i \<and> fr_path f = p \<and> fr_hash f = h) (db_files d)")
    case None
    with assms(2) show ?thesis by (auto simp: upsert_file_def file_key_def split: if_splits)
  next
    case (Some r)
    then have "r \<in> set (db_files d)" "fr_project r = i \<and> fr_path r = p \<and> fr_hash r = h"
      by (auto dest: find_SomeD)
    with assms(2) Some show ?thesis
      by (auto simp: upsert_file_def file_key_def list_ex_iff intro!: bexI [of _ "r\<lparr>fr_size := n\<rparr>"])
  qed
  moreover have "has_project i d2"
    using ex calculation(1) by (auto simp: list_ex_iff file_key_def db_ok_parts)
  ultimately show ?thesis by blast
qed

lemma on_store_eq [simp]: "rn_store (snd (on_store f s)) = snd (f (rn_store s))" "fst (on_store f s) = fst (f (rn_store s))"
  "rn_left (snd (on_store f s)) = rn_left s"
  by (simp_all add: on_store_def split_beta Let_def)

lemma changed_unit_complete:
  assumes "inj sha" "db_ok sha (rn_store s)" "0 < ix_batch ix" "ix_max_chunks_file ix \<le> ix_batch ix"
    and "\<not> ix_keyword_only ix" "\<not> ix_no_symbols ix"
    and run: "index_changed_unit en tk ix (sqlite_store sha) em cx pid rel m content h s = (Some (u, None), s1)"
    and "uo_outcome u = OIndexed"
  shows "\<exists>cs. \<exists>f\<in>set (db_files (rn_store s1)).
    chunk_file (en_lower en) (tl_symbols tk) rel content (ix_max_chars ix) = Some cs \<and>
    file_key f = (pid, rel, h) \<and> uo_hash u = h \<and>
    uo_created u = nat (fst (take_chunk_budget (int (min (ix_max_chunks_file ix) (length cs))) (rn_left s))) \<and>
    rows_are pid (fr_id f) (take (uo_created u) (classify_chunks (tl_symbols tk rel content) cs)) (rn_store s1)"
proof -
  let ?st = "sqlite_store sha"
  obtain r t2 where 2: "on_store (st_upsert_file ?st pid rel h (length content)) s = (r, t2)" by fastforce
  with run assms(8) obtain fid where fid: "r = Inr fid"
    by (cases r) (auto simp: index_changed_unit_def skipped_def)
  have u2: "upsert_file pid rel h (length content) (rn_store s) = (Inr fid, rn_store t2)" "rn_left t2 = rn_left s"
    using 2 fid on_store_eq [of "st_upsert_file ?st pid rel h (length content)" s] by (auto simp: prod_eq_iff)
  note ok2 = upsert_file_ok [OF assms(2) u2(1)]
  obtain cs where cs: "chunk_file (en_lower en) (tl_symbols tk) rel content (ix_max_chars ix) = Some cs" "cs \<noteq> []"
    using run 2 fid assms(8) by (auto simp: index_changed_unit_def skipped_def split: option.splits if_splits)
  let ?t3 = "t2\<lparr>rn_store := delete_chunks_for_file pid fid (rn_store t2)\<rparr>"
  have 3: "on_store (st_delete_chunks ?st pid fid) t2 = (Inr (), ?t3)" by (simp add: on_store_def)
  have good: "store_good sha pid fid (rn_store ?t3)"
    using ok2 assms(1) store_good_delete [of sha pid fid "rn_store t2"]
    by (auto simp: store_good_def has_file_def list_ex_iff)
  let ?p = "\<lparr>up_project = pid, up_file = fid, up_rel = rel, up_model = m,
      up_chunks = take (ix_max_chunks_file ix) cs, up_syms = tl_symbols tk rel content,
      up_secrets = detect_secrets tk ix rel content\<rparr>"
  obtain q s4 where 4: "store_chunks en tk ix ?st em cx ?p ?t3 = (q, s4)" by fastforce
  with run 2 3 fid cs assms(5,6,8) obtain created expected soft where
    q: "q = Some ((created, expected, soft), None)" "\<not> created < expected" "s1 = s4"
      "uo_created u = created" "uo_hash u = h"
    by (auto simp: index_changed_unit_def skipped_def Let_def split: option.splits if_splits prod.splits)
  have "db_files (rn_store s4) = db_files (rn_store t2)"
    using sqlite_files.store_chunks_keeps [OF 4, of "db_files (rn_store t2)"] by (simp add: delete_chunks_for_file_def)
  with ok2 obtain f where f: "f \<in> set (db_files (rn_store s4))" "fr_id f = fid" "file_key f = (pid, rel, h)"
    by (auto simp: list_ex_iff)
  have left: "rn_left ?t3 = rn_left t2" by simp
  define p where "p = ?p"
  have p: "up_project p = pid" "up_file p = fid" "up_chunks p = take (ix_max_chunks_file ix) cs"
    "up_syms p = tl_symbols tk rel content" by (simp_all add: p_def)
  have "created = nat (fst (take_chunk_budget (int (length (up_chunks p))) (rn_left ?t3))) \<and>
    rows_are (up_project p) (up_file p) (take created (classify_chunks (up_syms p) (up_chunks p))) (rn_store s4)"
    by (rule store_chunks_complete [OF assms(3) _ _ assms(5) _ 4 [folded p_def, unfolded q(1)] q(2)])
      (use good assms(4) in \<open>simp_all add: p view_deleted\<close>)
  then have "created = nat (fst (take_chunk_budget (int (min (ix_max_chunks_file ix) (length cs))) (rn_left t2)))"
    and "rows_are pid fid (take created (classify_chunks (tl_symbols tk rel content) (take (ix_max_chunks_file ix) cs))) (rn_store s4)"
    unfolding p length_take min.commute [of "length cs"] unfolding left by - (elim conjE, assumption)+
  moreover have "take created (classify_chunks syms (take (ix_max_chunks_file ix) cs)) =
      take created (classify_chunks syms cs)" if "created \<le> ix_max_chunks_file ix" for syms
    using that by (simp add: classify_chunks_def take_map min_def)
  moreover have "nat (fst (take_chunk_budget (int n) left)) \<le> n" for n left
    by (auto simp: take_chunk_budget_def Let_def)
  ultimately show ?thesis
    using cs(1) q u2(2) f
    by (intro exI [of _ cs] bexI [of _ f]) (simp_all, metis min.boundedE)
qed

definition deaf_embedder :: embedder where
  "deaf_embedder =
     \<lparr> em_info = (\<lambda>cx m w. (Inl (Plain ''down''), w)), em_embed = (\<lambda>cx m xs w. (Inl (Plain ''down''), w)),
       em_single = (\<lambda>cx m x w. (Inl (Plain ''down''), w)), em_list = (\<lambda>cx w. (Inl (Plain ''down''), w)) \<rparr>"

lemma demo_db_value:
  "demo_db = \<lparr>db_projects = [\<lparr>pj_id = 1, pj_name = ''p'', pj_path = ''/p'', pj_model = ''m'', pj_status = ''indexing'',
      pj_source = ''path'', pj_identity = ''id'', pj_dims = 2, pj_privacy = ''hybrid'', pj_commit = []\<rparr>],
    db_files = [\<lparr>fr_id = 1, fr_project = 1, fr_path = ''a.go'', fr_hash = ''h'', fr_size = 3\<rparr>],
    db_chunks = [], db_worktrees = [], db_deps = [], db_embeddings = [], db_cache = [], db_next_file = 2, db_next_project = 2\<rparr>"
  by (simp add: demo_db_def empty_db_def ensure_project_identity_def upsert_file_def has_project_def)

lemma pem_chunks: "chunk_file (en_lower (fixed_env ok_reply)) (tl_symbols demo_tools) ''a.pem'' ''k'' 4000 = Some [mk_chunk ''k'' 1 1]"
  by code_simp

lemma pem_unit:
  "\<exists>u s1. index_unit (fixed_env ok_reply) demo_tools (new_indexer 2 demo_opts) (sqlite_store id) deaf_embedder
     plain_ctx 1 ''a.pem'' ''m'' ''k'' demo_run = (Some (u, None), s1) \<and> uo_outcome u = OIndexed \<and> uo_created u = 1"
proof -
  have t: "trim_space ''k'' = ''k''" by code_simp
  have s: "is_sensitive (en_lower (fixed_env ok_reply)) ''a.pem''" by code_simp
  show ?thesis
    using pem_chunks s
    by (simp add: index_unit_def index_changed_unit_def store_chunks_def store_local_or_text_def t
      demo_tools_def demo_run_def deaf_embedder_def demo_db_value sqlite_store_def on_store_def on_world_def Let_def
      new_indexer_def demo_opts_def insert_file_dependencies_def file_up_to_date_def upsert_file_def has_project_def has_file_def
      delete_chunks_for_file_def take_chunk_budget_def insert_chunks_text_only_def insert_transaction_def classify_chunks_def)
qed

section \<open>Short replies\<close>

lemma merge_embeddings_None: "merge_embeddings idx es out = None \<longleftrightarrow> length es < length idx"
  by (induction idx es out rule: merge_embeddings.induct) auto

text \<open>A provider that answers with fewer vectors than texts crashes the indexer: the merge
  indexes past the end of the reply, which is a panic in a worker goroutine.\<close>

theorem short_reply_panics:
  assumes "em_embed em cx model (br_inputs res) (rn_world s) = (Inr vs, w2)" "length vs < length (br_idx res)"
  shows "embed_uncached_batch en tk ix st em cx model res s = None"
  using assms merge_embeddings_None [of "br_idx res" vs "br_embeddings res"]
  by (auto simp: embed_uncached_batch_def on_world_def embed_with_retry_def max_embed_attempts_def
      numeral_3_eq_3 Let_def split: prod.splits)

theorem short_reply_panics_witness:
  "embed_uncached_batch (fixed_env ok_reply) demo_tools (new_indexer 2 demo_opts) (sqlite_store id)
     (new_openai_client (fixed_env ok_reply) ''https://c'' ''k'') plain_ctx ''m''
     (resolve_batch_embeddings [''x'', ''y''] [''x'', ''y''] []) demo_run = None"
proof -
  have r: "br_idx (resolve_batch_embeddings [''x'', ''y''] [''x'', ''y''] []) = [0, 1]"
    "br_inputs (resolve_batch_embeddings [''x'', ''y''] [''x'', ''y''] []) = [''x'', ''y'']"
    by (simp_all add: resolve_batch_embeddings_def)
  have "fst (em_embed (new_openai_client (fixed_env ok_reply) ''https://c'' ''k'') plain_ctx ''m''
      [''x'', ''y''] (rn_world demo_run)) = Inr [[]]"
    by (simp add: new_openai_client_def openai_embed_def http_do_def fixed_env_def ok_reply_def demo_run_def
        start_world_def Let_def)
  then obtain w2 where "em_embed (new_openai_client (fixed_env ok_reply) ''https://c'' ''k'') plain_ctx ''m''
      [''x'', ''y''] (rn_world demo_run) = (Inr [[]], w2)"
    by (metis prod.collapse)
  then show ?thesis by (intro short_reply_panics [where vs = "[[]]"]) (simp_all add: r)
qed

section \<open>Failed updates in a worktree\<close>

text \<open>The manifest of a run is a map: no path twice.\<close>

lemma manifest_updates: "distinct (map fst m) \<Longrightarrow> distinct (map fst (fold (\<lambda>(p, h). AList.update p h) us m))"
  by (induction us arbitrary: m) (auto intro: distinct_update)

lemma accumulate_manifest: "distinct (map fst (snd acc)) \<Longrightarrow> distinct (map fst (snd (accumulate ix rel r acc)))"
  by (simp add: accumulate_def split_beta Let_def manifest_updates)

lemma index_files_manifest:
  "index_files en tk ix st em cx pid model files acc s = (Some acc1, s1) \<Longrightarrow> distinct (map fst (snd acc)) \<Longrightarrow>
   distinct (map fst (snd acc1))"
proof (induction files arbitrary: acc s)
  case (Cons f files)
  then show ?case by (auto split: if_splits option.splits prod.splits) (metis accumulate_manifest prod.collapse)
qed simp


definition shown_db :: db where
  "shown_db = snd (set_worktree_files 1 ''w'' [(''a.go'', ''h'')] demo_db)"

definition worktree_indexer :: indexer where
  "worktree_indexer = (new_indexer 2 (demo_opts\<lparr>op_privacy := None\<rparr>))\<lparr>ix_worktree := ''w''\<rparr>"

lemma go_file_facts:
  "trim_space ''package b'' = ''package b''"
  "chunk_file (en_lower (fixed_env ok_reply)) (tl_symbols demo_tools) ''a.go'' ''package b'' 4000 =
     Some [mk_chunk ''package b'' 1 1]"
  "is_sensitive (en_lower (fixed_env ok_reply)) ''a.go'' = False"
  by code_simp+

lemma deaf_batch:
  assumes "db_cache (rn_store s) = []" "w_canceled (rn_world s) = None"
  shows "embed_and_insert (fixed_env ok_reply) demo_tools worktree_indexer (sqlite_store id) deaf_embedder plain_ctx
      i f ''m'' [] [c] s = Some ((0, 1), s\<lparr>rn_world := (rn_world s)\<lparr>w_now := w_now (rn_world s) + 1500000000\<rparr>\<rparr>)"
proof -
  have retry: "embed_with_retry (fixed_env ok_reply) demo_tools deaf_embedder plain_ctx m xs w =
      (Inl (Plain ''down''), w\<lparr>w_now := w_now w + 1500000000\<rparr>)" if "w_canceled w = None" for m xs w
    using that
    by (simp add: embed_with_retry_def max_embed_attempts_def numeral_3_eq_3 deaf_embedder_def sleep_backoff_def
        wait_or_cancel_def fixed_env_def plain_ctx_def ctx_err_def demo_tools_def Let_def)
  have "embed_batch (fixed_env ok_reply) demo_tools worktree_indexer (sqlite_store id) deaf_embedder plain_ctx
      i f ''m'' [] [c] s = Some ((0, 1), s\<lparr>rn_world := (rn_world s)\<lparr>w_now := w_now (rn_world s) + 1500000000\<rparr>\<rparr>)"
    using assms
    by (simp add: embed_batch_def build_chunk_inputs_def compute_hashes_def on_store_def Let_def
        lookup_embedding_cache_def resolve_batch_embeddings_def embed_uncached_batch_def on_world_def retry)
  then show ?thesis
    by (subst embed_and_insert.simps) (simp add: worktree_indexer_def new_indexer_def demo_opts_def)
qed

definition after_outage :: "db run" where
  "after_outage = demo_run\<lparr>rn_store := shown_db\<lparr>db_next_file := 3\<rparr>,
     rn_world := (rn_world demo_run)\<lparr>w_now := 1500000000\<rparr>\<rparr>"

lemma shown_db_value: "shown_db = demo_db\<lparr>db_worktrees := [\<lparr>wr_project = 1, wr_worktree = ''w'', wr_path = ''a.go'', wr_hash = ''h''\<rparr>]\<rparr>"
  by (simp add: shown_db_def set_worktree_files_def demo_db_value has_project_def)

lemma demo_run_parts [simp]:
  "rn_left (demo_run\<lparr>rn_store := x\<rparr>) = - 1" "w_canceled (rn_world demo_run) = None" "w_now (rn_world demo_run) = 0"
  "rn_left demo_run = - 1"
  by (simp_all add: demo_run_def start_world_def)

lemma worktree_indexer_parts [simp]:
  "ix_worktree worktree_indexer = ''w''" "ix_force worktree_indexer = False" "ix_max_chars worktree_indexer = 4000"
  "ix_max_chunks_file worktree_indexer = 32" "ix_keyword_only worktree_indexer = False"
  "ix_no_symbols worktree_indexer = False" "ix_secret_scan worktree_indexer = False" "ix_secret_block worktree_indexer = False"
  "ix_privacy worktree_indexer = Hybrid" "ix_max_file_size worktree_indexer = 1048576" "ix_git_mode worktree_indexer = False"
  by (simp_all add: worktree_indexer_def new_indexer_def demo_opts_def)

lemma demo_tools_parts [simp]:
  "tl_sha demo_tools = id" "tl_deps demo_tools p x = []" "tl_symbols demo_tools p x = []" "tl_supported demo_tools p = False"
  by (simp_all add: demo_tools_def)

lemma more_sqlite_ops [simp]:
  "st_deps (sqlite_store sha) = insert_file_dependencies"
  "st_up_to_date (sqlite_store sha) = (\<lambda>i p h k d. (Inr (file_up_to_date i p h k d), d))"
  by (simp_all add: sqlite_store_def)

lemma outage_unit:
  "index_unit (fixed_env ok_reply) demo_tools worktree_indexer (sqlite_store id) deaf_embedder plain_ctx 1
     ''a.go'' ''m'' ''package b'' (demo_run\<lparr>rn_store := shown_db\<rparr>) =
   (Some (skipped\<lparr>uo_soft := 1\<rparr>, None), after_outage)"
proof -
  have cf: "chunk_file (en_lower (fixed_env ok_reply)) (tl_symbols demo_tools) ''a.go'' ''package b'' 4000 =
     Some [mk_chunk ''package b'' 1 1]" by (rule go_file_facts)
  have left: "take_chunk_budget 1 (- 1) = (1, - 1)" by (simp add: take_chunk_budget_def)
  show ?thesis
    by (simp add: index_unit_def index_changed_unit_def go_file_facts cf left store_chunks_def on_store_def Let_def
        insert_file_dependencies_def shown_db_value demo_db_value file_up_to_date_def upsert_file_def
        has_project_def delete_chunks_for_file_def classify_chunks_def deaf_batch rollback_incomplete_unit_def
        delete_file_by_id_def delete_files_def skipped_def after_outage_def detect_secrets_def demo_run_def start_world_def)
qed




text \<open>The integrity theorem of \<open>StoreKeeps\<close> at a run with a provider that is down.\<close>

theorem index_run_keeps_integrity_witness:
  "db_ok id (rn_store (snd (index_project (fixed_env ok_reply) demo_tools demo_host worktree_indexer
     (sqlite_store id) deaf_embedder plain_ctx 1 ''/p'' ''m'' [(''a.go'', Inr ''package b'')] demo_run)))"
  by (rule index_run_keeps_integrity) (simp add: demo_run_def demo_db_facts)

end
