(* ===== verification/JobQueue.thy ===== *)
theory JobQueue
  imports GoPrelude
begin

text \<open>
  The durable job queue of the server: the statements of \<open>internal/store/jobs.go\<close> on the
  tables \<open>index_jobs\<close> and \<open>projects\<close> (migrations 00004, 00013, 00017), scoped by the
  tenant of the request context (\<open>internal/tenant\<close>), and the server processes and workers
  of \<open>internal/server/jobs.go\<close> as a step relation over those statements.  Each statement is
  one atomic step; \<open>FOR UPDATE SKIP LOCKED\<close> makes concurrent claims take different rows.
  Times are nanoseconds.  The rows of \<open>index_jobs\<close> are kept in the order of their ids.
\<close>

section \<open>Tenants\<close>

record tenant_ctx =
  tc_id :: int
  tc_slug :: string
  tc_workspace :: int
  tc_ws_slug :: string
  tc_user :: int
  tc_role :: string
  tc_global :: bool

text \<open>The Go literal \<open>tenant.Context{ID: t}\<close>: the other fields are zero.\<close>

definition bare_tenant :: "int \<Rightarrow> tenant_ctx" where
  "bare_tenant t =
     \<lparr>tc_id = t, tc_slug = [], tc_workspace = 0, tc_ws_slug = [], tc_user = 0, tc_role = [], tc_global = False\<rparr>"

lemma bare_tenant_sel [simp]: "tc_id (bare_tenant t) = t" "tc_workspace (bare_tenant t) = 0"
  by (simp_all add: bare_tenant_def)

definition tenant_with :: "tenant_ctx \<Rightarrow> tenant_ctx option result" where
  "tenant_with tc =
     (if tc_id tc \<le> 0 then Inl (Plain ''tenant: id must be positive'') else Inr (Some tc))"

definition tenant_from :: "tenant_ctx option \<Rightarrow> tenant_ctx option" where
  "tenant_from cx = (case cx of Some tc \<Rightarrow> if tc_id tc > 0 then Some tc else None | None \<Rightarrow> None)"

definition default_tenant :: int where
  "default_tenant = 1"

definition tenant_id :: "tenant_ctx option \<Rightarrow> int" where
  "tenant_id cx = (case tenant_from cx of Some tc \<Rightarrow> tc_id tc | None \<Rightarrow> default_tenant)"

definition active_workspace_id :: "tenant_ctx option \<Rightarrow> int" where
  "active_workspace_id cx =
     (case tenant_from cx of
        Some tc \<Rightarrow> if tc_workspace tc > 0 then tc_workspace tc else 0
      | None \<Rightarrow> 0)"

section \<open>The tables\<close>

record pg_project =
  pp_id :: nat
  pp_tenant :: int
  pp_workspace :: int
  pp_name :: string
  pp_path :: string
  pp_model :: string
  pp_status :: string
  pp_source :: string
  pp_privacy :: string

datatype job_status = Queued | Running | Succeeded | Failed

record job_row =
  jr_id :: nat
  jr_project :: nat
  jr_type :: string
  jr_status :: job_status
  jr_error :: "string option"
  jr_files :: int
  jr_chunks :: int
  jr_payload :: "string option"
  jr_deleted :: int
  jr_errors :: int
  jr_total :: int
  jr_done :: int
  jr_started :: "int option"
  jr_finished :: "int option"

record jobs_db =
  jd_projects :: "pg_project list"
  jd_jobs :: "job_row list"
  jd_next :: nat

text \<open>The Go struct \<open>Job\<close>, which the store hands out.\<close>

record job =
  jb_id :: nat
  jb_project :: nat
  jb_tenant :: int
  jb_type :: string
  jb_status :: job_status
  jb_error :: string
  jb_files :: int
  jb_chunks :: int
  jb_payload :: string
  jb_deleted :: int
  jb_errors :: int
  jb_total :: int
  jb_done :: int

definition err_not_found :: go_err where
  "err_not_found = Plain ''not found''"

definition coalesce :: "string option \<Rightarrow> string" where
  "coalesce v = (case v of Some s \<Rightarrow> s | None \<Rightarrow> [])"

definition find_pg_project :: "(pg_project \<Rightarrow> bool) \<Rightarrow> jobs_db \<Rightarrow> pg_project option" where
  "find_pg_project P d = find P (jd_projects d)"

definition update_job :: "(job_row \<Rightarrow> bool) \<Rightarrow> (job_row \<Rightarrow> job_row) \<Rightarrow> jobs_db \<Rightarrow> jobs_db" where
  "update_job P f d = d\<lparr>jd_jobs := map (\<lambda>r. if P r then f r else r) (jd_jobs d)\<rparr>"

section \<open>Statements on projects\<close>

definition scoped :: "tenant_ctx option \<Rightarrow> pg_project \<Rightarrow> bool" where
  "scoped cx p \<longleftrightarrow>
     pp_tenant p = tenant_id cx \<and>
     (active_workspace_id cx = 0 \<or> pp_workspace p = active_workspace_id cx)"

definition get_project_by_id :: "tenant_ctx option \<Rightarrow> nat \<Rightarrow> jobs_db \<Rightarrow> pg_project result" where
  "get_project_by_id cx pid d =
     (case find_pg_project (\<lambda>p. scoped cx p \<and> pp_id p = pid) d of
        Some p \<Rightarrow> Inr p | None \<Rightarrow> Inl err_not_found)"

definition pg_update_project ::
  "tenant_ctx option \<Rightarrow> nat \<Rightarrow> (pg_project \<Rightarrow> pg_project) \<Rightarrow> jobs_db \<Rightarrow> jobs_db" where
  "pg_update_project cx pid f d =
     d\<lparr>jd_projects := map (\<lambda>p. if scoped cx p \<and> pp_id p = pid then f p else p) (jd_projects d)\<rparr>"

definition pg_update_project_status :: "tenant_ctx option \<Rightarrow> nat \<Rightarrow> string \<Rightarrow> jobs_db \<Rightarrow> jobs_db" where
  "pg_update_project_status cx pid status = pg_update_project cx pid (\<lambda>p. p\<lparr>pp_status := status\<rparr>)"

definition pg_update_project_path :: "tenant_ctx option \<Rightarrow> nat \<Rightarrow> string \<Rightarrow> jobs_db \<Rightarrow> jobs_db" where
  "pg_update_project_path cx pid path = pg_update_project cx pid (\<lambda>p. p\<lparr>pp_path := path\<rparr>)"

text \<open>\<open>DELETE FROM projects\<close> takes the jobs along (ON DELETE CASCADE).\<close>

definition pg_delete_project :: "tenant_ctx option \<Rightarrow> string \<Rightarrow> jobs_db \<Rightarrow> unit result \<times> jobs_db" where
  "pg_delete_project cx name d =
     (let gone = filter (\<lambda>p. scoped cx p \<and> pp_name p = name) (jd_projects d)
      in if gone = [] then (Inl err_not_found, d)
         else (Inr (),
               d\<lparr>jd_projects := filter (\<lambda>p. \<not> (scoped cx p \<and> pp_name p = name)) (jd_projects d),
                 jd_jobs := filter (\<lambda>r. \<not> list_ex (\<lambda>p. pp_id p = jr_project r) gone) (jd_jobs d)\<rparr>))"

section \<open>Statements on jobs\<close>

text \<open>A new row with the defaults of the table.\<close>

definition insert_job ::
  "tenant_ctx option \<Rightarrow> nat \<Rightarrow> string \<Rightarrow> string \<Rightarrow> jobs_db \<Rightarrow> nat result \<times> jobs_db" where
  "insert_job cx pid ty payload d =
     (case find_pg_project (\<lambda>p. pp_id p = pid \<and> pp_tenant p = tenant_id cx) d of
        None \<Rightarrow> (Inl err_not_found, d)
      | Some p \<Rightarrow>
          (Inr (jd_next d),
           d\<lparr>jd_jobs := jd_jobs d @
               [\<lparr>jr_id = jd_next d, jr_project = pid, jr_type = ty, jr_status = Queued, jr_error = None,
                 jr_files = 0, jr_chunks = 0, jr_payload = Some payload, jr_deleted = 0, jr_errors = 0,
                 jr_total = 0, jr_done = 0, jr_started = None, jr_finished = None\<rparr>],
             jd_next := jd_next d + 1\<rparr>))"

definition enqueue_job_with_payload ::
  "tenant_ctx option \<Rightarrow> nat \<Rightarrow> string \<Rightarrow> string \<Rightarrow> jobs_db \<Rightarrow> nat result \<times> jobs_db" where
  "enqueue_job_with_payload cx pid ty payload d = insert_job cx pid ty payload d"

definition enqueue_job :: "tenant_ctx option \<Rightarrow> nat \<Rightarrow> string \<Rightarrow> jobs_db \<Rightarrow> nat result \<times> jobs_db" where
  "enqueue_job cx pid ty d = enqueue_job_with_payload cx pid ty [] d"

definition enqueue_batch_job ::
  "tenant_ctx option \<Rightarrow> nat \<Rightarrow> string \<Rightarrow> jobs_db \<Rightarrow> nat result \<times> jobs_db" where
  "enqueue_batch_job cx pid payload d = insert_job cx pid ''batch'' payload d"

text \<open>\<open>SELECT tenant_id FROM projects WHERE id = ...\<close>; the foreign key makes the project
  exist, a NULL could not be scanned.\<close>

definition project_tenant :: "nat \<Rightarrow> jobs_db \<Rightarrow> int option" where
  "project_tenant pid d = map_option pp_tenant (find_pg_project (\<lambda>p. pp_id p = pid) d)"

definition claim_job :: "int \<Rightarrow> jobs_db \<Rightarrow> job option result \<times> jobs_db" where
  "claim_job now d =
     (case find (\<lambda>r. jr_status r = Queued) (jd_jobs d) of
        None \<Rightarrow> (Inr None, d)
      | Some r \<Rightarrow>
          (let d1 = update_job (\<lambda>q. jr_id q = jr_id r) (\<lambda>q. q\<lparr>jr_status := Running, jr_started := Some now\<rparr>) d
           in (case project_tenant (jr_project r) d of
                 None \<Rightarrow> (Inl (Plain ''cannot scan NULL''), d1)
               | Some t \<Rightarrow>
                   (Inr (Some \<lparr>jb_id = jr_id r, jb_project = jr_project r, jb_tenant = t,
                      jb_type = jr_type r, jb_status = Running, jb_error = [], jb_files = 0,
                      jb_chunks = 0, jb_payload = coalesce (jr_payload r), jb_deleted = 0,
                      jb_errors = 0, jb_total = 0, jb_done = 0\<rparr>), d1))))"

definition update_job_progress ::
  "nat \<Rightarrow> int \<Rightarrow> int \<Rightarrow> int \<Rightarrow> int \<Rightarrow> int \<Rightarrow> jobs_db \<Rightarrow> jobs_db" where
  "update_job_progress i done_n tot files chunks errs =
     update_job (\<lambda>r. jr_id r = i \<and> jr_status r = Running)
       (\<lambda>r. r\<lparr>jr_done := done_n, jr_total := (if tot > 0 then tot else jr_total r),
               jr_files := files, jr_chunks := chunks, jr_errors := errs\<rparr>)"

definition complete_job :: "int \<Rightarrow> nat \<Rightarrow> int \<Rightarrow> int \<Rightarrow> int \<Rightarrow> int \<Rightarrow> jobs_db \<Rightarrow> jobs_db" where
  "complete_job now i files chunks deleted errs =
     update_job (\<lambda>r. jr_id r = i)
       (\<lambda>r. r\<lparr>jr_status := Succeeded, jr_finished := Some now, jr_files := files,
               jr_chunks := chunks, jr_deleted := deleted, jr_errors := errs\<rparr>)"

definition fail_job :: "int \<Rightarrow> nat \<Rightarrow> string \<Rightarrow> jobs_db \<Rightarrow> jobs_db" where
  "fail_job now i msg =
     update_job (\<lambda>r. jr_id r = i)
       (\<lambda>r. r\<lparr>jr_status := Failed, jr_finished := Some now, jr_error := Some msg\<rparr>)"

definition minute :: int where
  "minute = 60 * 1000000000"

definition stale_row :: "int \<Rightarrow> int \<Rightarrow> job_row \<Rightarrow> bool" where
  "stale_row now max_age r \<longleftrightarrow>
     jr_status r = Running \<and> (case jr_started r of Some t \<Rightarrow> t < now - max_age | None \<Rightarrow> False)"

definition requeue_stale_jobs :: "int \<Rightarrow> int \<Rightarrow> jobs_db \<Rightarrow> nat \<times> jobs_db" where
  "requeue_stale_jobs now max_age0 d =
     (let max_age = (if max_age0 \<le> 0 then 30 * minute else max_age0)
      in (length (filter (stale_row now max_age) (jd_jobs d)),
          update_job (stale_row now max_age)
            (\<lambda>r. r\<lparr>jr_status := Queued, jr_started := None, jr_finished := None, jr_error := None\<rparr>) d))"

definition job_of_row :: "int \<Rightarrow> job_row \<Rightarrow> job" where
  "job_of_row t r =
     \<lparr>jb_id = jr_id r, jb_project = jr_project r, jb_tenant = t, jb_type = jr_type r,
      jb_status = jr_status r, jb_error = coalesce (jr_error r), jb_files = jr_files r,
      jb_chunks = jr_chunks r, jb_payload = coalesce (jr_payload r), jb_deleted = jr_deleted r,
      jb_errors = jr_errors r, jb_total = jr_total r, jb_done = jr_done r\<rparr>"

text \<open>The rows of the join with \<open>projects\<close> that belong to the tenant of the context.\<close>

definition tenant_jobs :: "tenant_ctx option \<Rightarrow> jobs_db \<Rightarrow> job_row list" where
  "tenant_jobs cx d =
     filter (\<lambda>r. list_ex (\<lambda>p. pp_id p = jr_project r \<and> pp_tenant p = tenant_id cx) (jd_projects d)) (jd_jobs d)"

definition get_job :: "tenant_ctx option \<Rightarrow> nat \<Rightarrow> jobs_db \<Rightarrow> job result" where
  "get_job cx i d =
     (case find (\<lambda>r. jr_id r = i) (tenant_jobs cx d) of
        None \<Rightarrow> Inl err_not_found
      | Some r \<Rightarrow> Inr (job_of_row (tenant_id cx) r))"

definition list_recent_jobs :: "tenant_ctx option \<Rightarrow> nat \<Rightarrow> int \<Rightarrow> jobs_db \<Rightarrow> job list" where
  "list_recent_jobs cx pid limit0 d =
     (let limit = (if limit0 \<le> 0 then 10 else if limit0 > 50 then 50 else limit0);
          mine = filter (\<lambda>r. pid > 0 \<longrightarrow> jr_project r = pid) (tenant_jobs cx d)
      in map (job_of_row (tenant_id cx)) (take (nat limit) (rev mine)))"

section \<open>Processes and workers\<close>

text \<open>
  A worker is a pair of a process and a number.  \<open>Start\<close> is \<open>StartWorkers\<close>: it requeues
  the stale jobs and then lets the workers of the process claim.  Between its claim and its end a
  worker holds the job it got from \<open>ClaimJob\<close>; how it ends is up to \<open>runJob\<close>
  (theory \<open>JobWorker\<close>).  \<open>Crash\<close> is the end of a process with everything its workers held.
\<close>

definition stale_job_age :: int where
  "stale_job_age = 30 * minute"

type_synonym worker = "nat \<times> nat"

record cluster =
  cl_now :: int
  cl_db :: jobs_db
  cl_procs :: "nat list"
  cl_held :: "(worker \<times> job) list"

datatype job_event =
    Tick nat
  | Enqueue "tenant_ctx option" nat string string
  | Drop_project "tenant_ctx option" string
  | Start nat
  | Claim worker
  | Progress worker int int int int int
  | Complete worker int int int int
  | Fail worker string
  | Crash nat

inductive job_step :: "cluster \<Rightarrow> job_event \<Rightarrow> cluster \<Rightarrow> bool" where
  tick: "job_step c (Tick dt) (c\<lparr>cl_now := cl_now c + int dt\<rparr>)"
| enqueue:
    "job_step c (Enqueue cx pid ty payload)
       (c\<lparr>cl_db := snd (enqueue_job_with_payload cx pid ty payload (cl_db c))\<rparr>)"
| drop_project: "job_step c (Drop_project cx name) (c\<lparr>cl_db := snd (pg_delete_project cx name (cl_db c))\<rparr>)"
| start:
    "p \<notin> set (cl_procs c) \<Longrightarrow>
     job_step c (Start p)
       (c\<lparr>cl_procs := p # cl_procs c, cl_db := snd (requeue_stale_jobs (cl_now c) stale_job_age (cl_db c))\<rparr>)"
| claim:
    "\<lbrakk>fst w \<in> set (cl_procs c); w \<notin> fst ` set (cl_held c);
      claim_job (cl_now c) (cl_db c) = (Inr (Some j), d)\<rbrakk> \<Longrightarrow>
     job_step c (Claim w) (c\<lparr>cl_db := d, cl_held := (w, j) # cl_held c\<rparr>)"
| progress:
    "(w, j) \<in> set (cl_held c) \<Longrightarrow>
     job_step c (Progress w done_n tot files chunks errs)
       (c\<lparr>cl_db := update_job_progress (jb_id j) done_n tot files chunks errs (cl_db c)\<rparr>)"
| complete:
    "(w, j) \<in> set (cl_held c) \<Longrightarrow>
     job_step c (Complete w files chunks deleted errs)
       (c\<lparr>cl_db := complete_job (cl_now c) (jb_id j) files chunks deleted errs (cl_db c),
          cl_held := filter (\<lambda>h. fst h \<noteq> w) (cl_held c)\<rparr>)"
| fail:
    "(w, j) \<in> set (cl_held c) \<Longrightarrow>
     job_step c (Fail w msg)
       (c\<lparr>cl_db := fail_job (cl_now c) (jb_id j) msg (cl_db c),
          cl_held := filter (\<lambda>h. fst h \<noteq> w) (cl_held c)\<rparr>)"
| crash:
    "job_step c (Crash p)
       (c\<lparr>cl_procs := filter (\<lambda>q. q \<noteq> p) (cl_procs c), cl_held := filter (\<lambda>h. fst (fst h) \<noteq> p) (cl_held c)\<rparr>)"

inductive_cases job_stepE: "job_step c e c'"

inductive_cases start_stepE: "job_step c (Start p) c'"

inductive job_steps :: "cluster \<Rightarrow> job_event list \<Rightarrow> cluster \<Rightarrow> bool" where
  steps_nil: "job_steps c [] c"
| steps_cons: "\<lbrakk>job_step c e c1; job_steps c1 es c2\<rbrakk> \<Longrightarrow> job_steps c (e # es) c2"

inductive_cases job_steps_consE: "job_steps c (e # es) c'"

inductive_simps job_steps_nil_iff: "job_steps c [] c'"

definition jobs_start :: "pg_project list \<Rightarrow> int \<Rightarrow> cluster" where
  "jobs_start ps now =
     \<lparr>cl_now = now, cl_db = \<lparr>jd_projects = ps, jd_jobs = [], jd_next = 1\<rparr>, cl_procs = [], cl_held = []\<rparr>"


text \<open>The same steps as a function, to run a given history.\<close>

fun exec_event :: "job_event \<Rightarrow> cluster \<Rightarrow> cluster option" where
  "exec_event (Tick dt) c = Some (c\<lparr>cl_now := cl_now c + int dt\<rparr>)"
| "exec_event (Enqueue cx pid ty payload) c =
     Some (c\<lparr>cl_db := snd (enqueue_job_with_payload cx pid ty payload (cl_db c))\<rparr>)"
| "exec_event (Drop_project cx name) c = Some (c\<lparr>cl_db := snd (pg_delete_project cx name (cl_db c))\<rparr>)"
| "exec_event (Start p) c =
     (if p \<in> set (cl_procs c) then None
      else Some (c\<lparr>cl_procs := p # cl_procs c,
                   cl_db := snd (requeue_stale_jobs (cl_now c) stale_job_age (cl_db c))\<rparr>))"
| "exec_event (Claim w) c =
     (if fst w \<in> set (cl_procs c) \<and> map_of (cl_held c) w = None
      then (case claim_job (cl_now c) (cl_db c) of
              (Inr (Some j), d) \<Rightarrow> Some (c\<lparr>cl_db := d, cl_held := (w, j) # cl_held c\<rparr>)
            | _ \<Rightarrow> None)
      else None)"
| "exec_event (Progress w done_n tot files chunks errs) c =
     map_option (\<lambda>j. c\<lparr>cl_db := update_job_progress (jb_id j) done_n tot files chunks errs (cl_db c)\<rparr>)
       (map_of (cl_held c) w)"
| "exec_event (Complete w files chunks deleted errs) c =
     map_option (\<lambda>j. c\<lparr>cl_db := complete_job (cl_now c) (jb_id j) files chunks deleted errs (cl_db c),
                        cl_held := filter (\<lambda>h. fst h \<noteq> w) (cl_held c)\<rparr>)
       (map_of (cl_held c) w)"
| "exec_event (Fail w msg) c =
     map_option (\<lambda>j. c\<lparr>cl_db := fail_job (cl_now c) (jb_id j) msg (cl_db c),
                        cl_held := filter (\<lambda>h. fst h \<noteq> w) (cl_held c)\<rparr>)
       (map_of (cl_held c) w)"
| "exec_event (Crash p) c =
     Some (c\<lparr>cl_procs := filter (\<lambda>q. q \<noteq> p) (cl_procs c),
             cl_held := filter (\<lambda>h. fst (fst h) \<noteq> p) (cl_held c)\<rparr>)"

fun exec_events :: "job_event list \<Rightarrow> cluster \<Rightarrow> cluster option" where
  "exec_events [] c = Some c"
| "exec_events (e # es) c = (case exec_event e c of None \<Rightarrow> None | Some c1 \<Rightarrow> exec_events es c1)"

lemma exec_event_step:
  assumes "exec_event e c = Some c'" shows "job_step c e c'"
proof (cases e)
  case (Claim w)
  with assms obtain j d where "fst w \<in> set (cl_procs c)" "w \<notin> fst ` set (cl_held c)"
      "claim_job (cl_now c) (cl_db c) = (Inr (Some j), d)" "c' = c\<lparr>cl_db := d, cl_held := (w, j) # cl_held c\<rparr>"
    by (auto simp: map_of_eq_None_iff split: if_splits prod.splits sum.splits option.splits)
  with Claim show ?thesis by (auto intro: claim)
qed (use assms in \<open>auto dest!: map_of_SomeD split: if_splits intro: job_step.intros\<close>)

lemma exec_events_steps: "exec_events es c = Some c' \<Longrightarrow> job_steps c es c'"
  by (induction es arbitrary: c) (auto split: option.splits intro: job_steps.intros exec_event_step)

section \<open>Lemmas on the statements\<close>

lemma jobs_update_job [simp]: "jd_jobs (update_job P f d) = map (\<lambda>r. if P r then f r else r) (jd_jobs d)"
  by (simp add: update_job_def)

lemma update_job_all:
  assumes "list_all Q (jd_jobs d)" "\<And>r. Q r \<Longrightarrow> P r \<Longrightarrow> R (f r)" "\<And>r. Q r \<Longrightarrow> R r"
  shows "list_all R (jd_jobs (update_job P f d))"
  using assms by (auto simp: list_all_iff)

definition job_ids :: "jobs_db \<Rightarrow> nat list" where
  "job_ids d = map jr_id (jd_jobs d)"

lemma update_job_ids:
  assumes "\<And>r. jr_id (f r) = jr_id r" shows "job_ids (update_job P f d) = job_ids d"
  using assms by (simp add: job_ids_def)

lemma next_update_job [simp]: "jd_next (update_job P f d) = jd_next d"
  by (simp add: update_job_def)

lemma claim_job_cases:
  assumes "claim_job now d = (Inr (Some j), d1)"
  obtains r where "find (\<lambda>r. jr_status r = Queued) (jd_jobs d) = Some r" "jb_id j = jr_id r"
    "d1 = update_job (\<lambda>q. jr_id q = jr_id r) (\<lambda>q. q\<lparr>jr_status := Running, jr_started := Some now\<rparr>) d"
  using assms by (auto simp: claim_job_def Let_def split: option.splits)

text \<open>Ids grow along the table; a new job gets a fresh one.\<close>

definition ids_ok :: "jobs_db \<Rightarrow> bool" where
  "ids_ok d \<longleftrightarrow> sorted_wrt (<) (job_ids d) \<and> list_all (\<lambda>i. i < jd_next d) (job_ids d)"

lemma ids_ok_update: "ids_ok d \<Longrightarrow> (\<And>r. jr_id (f r) = jr_id r) \<Longrightarrow> ids_ok (update_job P f d)"
  by (simp add: ids_ok_def update_job_ids)

lemma ids_ok_inj: "ids_ok d \<Longrightarrow> r \<in> set (jd_jobs d) \<Longrightarrow> q \<in> set (jd_jobs d) \<Longrightarrow> jr_id r = jr_id q \<Longrightarrow> r = q"
  unfolding ids_ok_def job_ids_def
  by (metis distinct_map inj_on_eq_iff strict_sorted_iff)

lemma ids_ok_insert: "ids_ok d \<Longrightarrow> ids_ok (snd (insert_job cx pid ty payload d))"
  by (auto simp: ids_ok_def job_ids_def insert_job_def sorted_wrt_append list_all_iff split: option.splits)

lemma ids_ok_delete: "ids_ok d \<Longrightarrow> ids_ok (snd (pg_delete_project cx name d))"
  by (auto simp: ids_ok_def job_ids_def pg_delete_project_def Let_def list_all_iff sorted_wrt_map sorted_wrt_filter)

lemma ids_ok_step: "job_step c e c' \<Longrightarrow> ids_ok (cl_db c) \<Longrightarrow> ids_ok (cl_db c')"
  by (induction rule: job_step.induct)
    (auto simp: ids_ok_insert ids_ok_delete enqueue_job_with_payload_def requeue_stale_jobs_def Let_def
      update_job_progress_def complete_job_def fail_job_def elim!: claim_job_cases intro!: ids_ok_update)

lemma ids_ok_steps: "job_steps c es c' \<Longrightarrow> ids_ok (cl_db c) \<Longrightarrow> ids_ok (cl_db c')"
  by (induction rule: job_steps.induct) (auto intro: ids_ok_step)

lemma ids_ok_start: "ids_ok (cl_db (jobs_start ps now))"
  by (simp add: ids_ok_def job_ids_def jobs_start_def)

lemmas ids_ok_reach = ids_ok_steps [OF _ ids_ok_start]

text \<open>The claimed job is the oldest queued one.\<close>

lemma claim_oldest:
  assumes "ids_ok d" "claim_job now d = (Inr (Some j), d1)" "r \<in> set (jd_jobs d)" "jr_status r = Queued"
  shows "jb_id j \<le> jr_id r"
proof -
  from claim_job_cases [OF assms(2)] obtain q where
    q: "find (\<lambda>r. jr_status r = Queued) (jd_jobs d) = Some q" "jb_id j = jr_id q" by metis
  then obtain i where i: "i < length (jd_jobs d)" "jd_jobs d ! i = q"
      "\<And>k. k < i \<Longrightarrow> jr_status (jd_jobs d ! k) \<noteq> Queued"
    by (auto simp: find_Some_iff)
  obtain k where k: "k < length (jd_jobs d)" "jd_jobs d ! k = r" using assms(3) by (auto simp: in_set_conv_nth)
  with i assms(4) have "i \<le> k" by (meson not_le)
  with i k assms(1) q show ?thesis
    by (cases "i = k") (auto simp: ids_ok_def job_ids_def sorted_wrt_map sorted_wrt_iff_nth_less less_imp_le)
qed


section \<open>Rows\<close>

text \<open>What a row says about itself at time \<open>now\<close>, by its status.\<close>

definition row_ok :: "int \<Rightarrow> job_row \<Rightarrow> bool" where
  "row_ok now r \<longleftrightarrow>
     (case jr_status r of
        Queued \<Rightarrow> jr_started r = None \<and> jr_finished r = None \<and> jr_error r = None
      | Running \<Rightarrow> (case jr_started r of Some t \<Rightarrow> t \<le> now | None \<Rightarrow> False)
          \<and> jr_finished r = None \<and> jr_error r = None
      | Succeeded \<Rightarrow> (case jr_finished r of Some t \<Rightarrow> t \<le> now | None \<Rightarrow> False)
      | Failed \<Rightarrow> (case jr_finished r of Some t \<Rightarrow> t \<le> now | None \<Rightarrow> False) \<and> jr_error r \<noteq> None)"

lemma row_ok_later: "row_ok now r \<Longrightarrow> now \<le> now2 \<Longrightarrow> row_ok now2 r"
  by (auto simp: row_ok_def split: job_status.splits option.splits)

lemma rows_ok_update:
  "list_all (row_ok now) (jd_jobs d) \<Longrightarrow> (\<And>r. row_ok now r \<Longrightarrow> P r \<Longrightarrow> row_ok now (f r)) \<Longrightarrow>
     list_all (row_ok now) (jd_jobs (update_job P f d))"
  by (rule update_job_all)

lemma rows_ok_claim:
  assumes "ids_ok d" "list_all (row_ok now) (jd_jobs d)" "claim_job now d = (Inr (Some j), d1)"
  shows "list_all (row_ok now) (jd_jobs d1)"
proof -
  from claim_job_cases [OF assms(3)] obtain r where
    r: "find (\<lambda>r. jr_status r = Queued) (jd_jobs d) = Some r"
      "d1 = update_job (\<lambda>q. jr_id q = jr_id r) (\<lambda>q. q\<lparr>jr_status := Running, jr_started := Some now\<rparr>) d" by metis
  from find_SomeD [OF r(1)] have "row_ok now r" "jr_status r = Queued" "r \<in> set (jd_jobs d)"
    using assms(2) by (auto simp: list_all_iff)
  then have "row_ok now q" "jr_status q = Queued" if "q \<in> set (jd_jobs d)" "jr_id q = jr_id r" for q
    using ids_ok_inj [OF assms(1)] that by metis+
  then show ?thesis using assms(2) unfolding r(2)
    by (auto simp: list_all_iff row_ok_def)
qed

lemma rows_ok_step:
  "job_step c e c' \<Longrightarrow> ids_ok (cl_db c) \<Longrightarrow> list_all (row_ok (cl_now c)) (jd_jobs (cl_db c)) \<Longrightarrow>
     list_all (row_ok (cl_now c')) (jd_jobs (cl_db c'))"
proof (induction rule: job_step.induct)
  case (tick c dt)
  then show ?case by (auto simp: list_all_iff intro: row_ok_later)
next
  case (enqueue c cx pid ty payload)
  then show ?case
    by (auto simp: enqueue_job_with_payload_def insert_job_def row_ok_def split: option.splits)
next
  case (drop_project c cx name)
  then show ?case by (auto simp: pg_delete_project_def Let_def list_all_iff)
next
  case (claim w c j d)
  then show ?case by (auto intro: rows_ok_claim)
qed (auto simp: requeue_stale_jobs_def Let_def update_job_progress_def complete_job_def fail_job_def row_ok_def
    simp del: jobs_update_job intro!: rows_ok_update)

lemma rows_ok_steps:
  "job_steps c es c' \<Longrightarrow> ids_ok (cl_db c) \<Longrightarrow> list_all (row_ok (cl_now c)) (jd_jobs (cl_db c)) \<Longrightarrow>
     list_all (row_ok (cl_now c')) (jd_jobs (cl_db c'))"
  by (induction rule: job_steps.induct) (auto intro: rows_ok_step ids_ok_step)


section \<open>One process at a time\<close>

text \<open>Histories in which no process starts while another one lives.\<close>

fun is_start :: "job_event \<Rightarrow> bool" where
  "is_start (Start p) = True"
| "is_start e = False"

inductive solo_steps :: "cluster \<Rightarrow> job_event list \<Rightarrow> cluster \<Rightarrow> bool" where
  solo_nil: "solo_steps c [] c"
| solo_cons: "\<lbrakk>job_step c e c1; is_start e \<longrightarrow> cl_procs c = []; solo_steps c1 es c2\<rbrakk> \<Longrightarrow>
     solo_steps c (e # es) c2"

fun exec_solo :: "job_event list \<Rightarrow> cluster \<Rightarrow> cluster option" where
  "exec_solo [] c = Some c"
| "exec_solo (e # es) c =
     (if is_start e \<and> cl_procs c \<noteq> [] then None
      else case exec_event e c of None \<Rightarrow> None | Some c1 \<Rightarrow> exec_solo es c1)"

lemma exec_solo_steps: "exec_solo es c = Some c' \<Longrightarrow> solo_steps c es c'"
  by (induction es arbitrary: c) (auto split: option.splits if_splits intro!: solo_steps.intros exec_event_step)

definition held_ids :: "cluster \<Rightarrow> nat list" where
  "held_ids c = map (\<lambda>h. jb_id (snd h)) (cl_held c)"

definition solo_inv :: "cluster \<Rightarrow> bool" where
  "solo_inv c \<longleftrightarrow>
     ids_ok (cl_db c) \<and> distinct (held_ids c) \<and> distinct (map fst (cl_held c)) \<and>
     (\<forall>h\<in>set (cl_held c). fst (fst h) \<in> set (cl_procs c)) \<and>
     (\<forall>i\<in>set (held_ids c). \<forall>r\<in>set (jd_jobs (cl_db c)). jr_id r = i \<longrightarrow> jr_status r = Running) \<and>
     (\<forall>i\<in>set (held_ids c). i < jd_next (cl_db c))"

lemma solo_inv_finish:
  assumes inv: "solo_inv c" and held: "(w, j) \<in> set (cl_held c)"
    and f: "\<And>r. jr_id (f r) = jr_id r"
  shows "solo_inv (c\<lparr>cl_db := update_job (\<lambda>r. jr_id r = jb_id j) f (cl_db c),
                     cl_held := filter (\<lambda>h. fst h \<noteq> w) (cl_held c)\<rparr>)"
proof -
  have keys: "distinct (map fst (cl_held c))" and ids: "distinct (held_ids c)"
    using inv by (auto simp: solo_inv_def)
  have other: "jb_id (snd h) \<noteq> jb_id j" if "h \<in> set (cl_held c)" "fst h \<noteq> w" for h
    using ids held that unfolding held_ids_def by (metis (mono_tags, lifting) distinct_map fst_conv inj_onD snd_conv)
  show ?thesis using inv f
    by (auto simp: solo_inv_def ids_ok_update held_ids_def distinct_map_filter dest: other)
qed

lemma solo_inv_claim:
  assumes inv: "solo_inv c" and w: "fst w \<in> set (cl_procs c)" "w \<notin> fst ` set (cl_held c)"
    and cl: "claim_job (cl_now c) (cl_db c) = (Inr (Some j), d)"
  shows "solo_inv (c\<lparr>cl_db := d, cl_held := (w, j) # cl_held c\<rparr>)"
proof -
  from claim_job_cases [OF cl] obtain r where r: "find (\<lambda>r. jr_status r = Queued) (jd_jobs (cl_db c)) = Some r"
    "jb_id j = jr_id r" "d = update_job (\<lambda>q. jr_id q = jr_id r)
       (\<lambda>q. q\<lparr>jr_status := Running, jr_started := Some (cl_now c)\<rparr>) (cl_db c)" by metis
  from find_SomeD [OF r(1)] have "r \<in> set (jd_jobs (cl_db c))" "jr_status r = Queued" by auto
  moreover from this have "jr_id r \<notin> set (held_ids c)" using inv by (auto simp: solo_inv_def)
  moreover have "jr_id r < jd_next (cl_db c)"
    using inv \<open>r \<in> _\<close> by (auto simp: solo_inv_def ids_ok_def job_ids_def list_all_iff)
  ultimately show ?thesis using inv w r(2,3)
    by (auto simp: solo_inv_def held_ids_def intro!: ids_ok_update)
qed

lemma solo_inv_step:
  "job_step c e c' \<Longrightarrow> is_start e \<longrightarrow> cl_procs c = [] \<Longrightarrow> solo_inv c \<Longrightarrow> solo_inv c'"
proof (induction rule: job_step.induct)
  case (enqueue c cx pid ty payload)
  then show ?case
    by (auto simp: solo_inv_def held_ids_def enqueue_job_with_payload_def ids_ok_insert)
      (auto simp: insert_job_def split: option.splits)
next
  case (drop_project c cx name)
  then show ?case
    by (auto simp: solo_inv_def held_ids_def ids_ok_delete) (auto simp: pg_delete_project_def Let_def split: if_splits)
next
  case (start p c)
  then show ?case
    by (auto simp: solo_inv_def held_ids_def requeue_stale_jobs_def Let_def intro!: ids_ok_update)
next
  case (claim w c j d)
  then show ?case by (blast intro: solo_inv_claim)
next
  case (progress w j c done_n tot files chunks errs)
  then show ?case
    by (auto simp: solo_inv_def held_ids_def update_job_progress_def intro!: ids_ok_update split: if_splits)
next
  case (complete w j c files chunks deleted errs)
  then show ?case unfolding complete_job_def by (intro solo_inv_finish) auto
next
  case (fail w j c msg)
  then show ?case unfolding fail_job_def by (intro solo_inv_finish) auto
next
  case (crash c p)
  then show ?case by (auto simp: solo_inv_def held_ids_def distinct_map_filter)
qed (auto simp: solo_inv_def held_ids_def)

lemma solo_inv_steps: "solo_steps c es c' \<Longrightarrow> solo_inv c \<Longrightarrow> solo_inv c'"
  by (induction rule: solo_steps.induct) (auto intro: solo_inv_step)

lemma solo_inv_start: "solo_inv (jobs_start ps now)"
  using ids_ok_start by (simp add: solo_inv_def held_ids_def) (simp add: jobs_start_def)

section \<open>Jobs nobody works on\<close>

text \<open>Events that can touch a job whose worker is gone: a start, or the end of its project.\<close>

fun is_drop :: "job_event \<Rightarrow> bool" where
  "is_drop (Drop_project cx name) = True"
| "is_drop e = False"

definition orphaned :: "job_row \<Rightarrow> cluster \<Rightarrow> bool" where
  "orphaned r c \<longleftrightarrow> ids_ok (cl_db c) \<and> r \<in> set (jd_jobs (cl_db c)) \<and> jr_status r = Running
     \<and> jr_id r \<notin> set (held_ids c)"

lemma update_job_keeps: "r \<in> set (jd_jobs d) \<Longrightarrow> \<not> P r \<Longrightarrow> r \<in> set (jd_jobs (update_job P f d))"
  by force

lemma orphaned_other: "orphaned r c \<Longrightarrow> (w, j) \<in> set (cl_held c) \<Longrightarrow> jr_id r \<noteq> jb_id j"
  by (force simp: orphaned_def held_ids_def)

lemma orphaned_step:
  "job_step c e c' \<Longrightarrow> \<not> is_start e \<Longrightarrow> \<not> is_drop e \<Longrightarrow> orphaned r c \<Longrightarrow> orphaned r c'"
proof (induction rule: job_step.induct)
  case (enqueue c cx pid ty payload)
  then show ?case
    by (auto simp: orphaned_def held_ids_def enqueue_job_with_payload_def ids_ok_insert)
      (auto simp: insert_job_def split: option.splits)
next
  case (claim w c j d)
  from claim_job_cases [OF claim(3)] obtain q where q: "find (\<lambda>r. jr_status r = Queued) (jd_jobs (cl_db c)) = Some q"
    "jb_id j = jr_id q" "d = update_job (\<lambda>r. jr_id r = jr_id q)
       (\<lambda>q. q\<lparr>jr_status := Running, jr_started := Some (cl_now c)\<rparr>) (cl_db c)" by metis
  from find_SomeD [OF q(1)] have "q \<in> set (jd_jobs (cl_db c))" "jr_status q = Queued" by auto
  with claim(6) ids_ok_inj [of "cl_db c" r q] have "jr_id r \<noteq> jr_id q" by (auto simp: orphaned_def)
  then show ?case using claim(6) q(2,3)
    by (auto simp: orphaned_def held_ids_def simp del: jobs_update_job intro!: ids_ok_update update_job_keeps)
next
  case (progress w j c done_n tot files chunks errs)
  then have "jr_id r \<noteq> jb_id j" using orphaned_other by blast
  with progress show ?case
    by (auto simp: orphaned_def held_ids_def update_job_progress_def simp del: jobs_update_job
        intro!: ids_ok_update update_job_keeps)
next
  case (complete w j c files chunks deleted errs)
  then have "jr_id r \<noteq> jb_id j" using orphaned_other by blast
  with complete show ?case
    by (auto simp: orphaned_def held_ids_def complete_job_def simp del: jobs_update_job
        intro!: ids_ok_update update_job_keeps)
next
  case (fail w j c msg)
  then have "jr_id r \<noteq> jb_id j" using orphaned_other by blast
  with fail show ?case
    by (auto simp: orphaned_def held_ids_def fail_job_def simp del: jobs_update_job
        intro!: ids_ok_update update_job_keeps)
qed (auto simp: orphaned_def held_ids_def)

lemma orphaned_steps:
  "job_steps c es c' \<Longrightarrow> filter (\<lambda>e. is_start e \<or> is_drop e) es = [] \<Longrightarrow> orphaned r c \<Longrightarrow> orphaned r c'"
  by (induction rule: job_steps.induct) (auto intro: orphaned_step split: if_splits)

lemma start_effect:
  assumes "job_step c (Start p) c'"
  shows "cl_db c' = update_job (stale_row (cl_now c) stale_job_age)
      (\<lambda>r. r\<lparr>jr_status := Queued, jr_started := None, jr_finished := None, jr_error := None\<rparr>) (cl_db c)"
    and "cl_held c' = cl_held c"
  using assms by (auto elim!: start_stepE simp: requeue_stale_jobs_def stale_job_age_def minute_def)

lemma orphaned_start:
  assumes "job_step c (Start p) c'" "orphaned r c" "jr_started r = Some t" "cl_now c \<le> t + stale_job_age"
  shows "orphaned r c'"
proof -
  have "\<not> stale_row (cl_now c) stale_job_age r" using assms(3,4) by (simp add: stale_row_def)
  then show ?thesis using assms(2)
    by (auto simp: start_effect [OF assms(1)] orphaned_def held_ids_def simp del: jobs_update_job
        intro!: ids_ok_update update_job_keeps)
qed

text \<open>A start that comes later hands the job out again.\<close>

lemma late_start_requeues:
  assumes "job_step c (Start p) c'" "r \<in> set (jd_jobs (cl_db c))" "jr_status r = Running"
    "jr_started r = Some t" "t + stale_job_age < cl_now c"
  shows "r\<lparr>jr_status := Queued, jr_started := None, jr_finished := None, jr_error := None\<rparr> \<in> set (jd_jobs (cl_db c'))"
proof -
  have "stale_row (cl_now c) stale_job_age r" using assms(3-5) by (simp add: stale_row_def)
  then show ?thesis using assms(2) by (force simp: start_effect [OF assms(1)])
qed


section \<open>Tenants see their own jobs\<close>

lemma get_job_tenant:
  assumes "get_job cx i d = Inr j"
  shows "jb_tenant j = tenant_id cx \<and> (\<exists>p\<in>set (jd_projects d). pp_id p = jb_project j \<and> pp_tenant p = tenant_id cx)"
  using assms by (auto simp: get_job_def tenant_jobs_def job_of_row_def list_ex_iff
      split: option.splits dest!: find_SomeD)

lemma list_recent_jobs_tenant:
  "j \<in> set (list_recent_jobs cx pid limit d) \<Longrightarrow>
     jb_tenant j = tenant_id cx \<and> (pid > 0 \<longrightarrow> jb_project j = pid)"
  by (auto simp: list_recent_jobs_def job_of_row_def Let_def dest!: in_set_takeD)

lemma list_recent_jobs_length: "length (list_recent_jobs cx pid limit d) \<le> 50"
  by (auto simp: list_recent_jobs_def Let_def min_def)

section \<open>The queue over the life of the server\<close>

text \<open>C6: In every state the server processes can reach, whatever they enqueue, claim, finish or
  lose in a crash, a queued job has no times and no error, a running one its start time only, a
  finished one its end time and a failed one its message; times never lie in the future and ids are
  unique.\<close>

theorem job_rows_typed:
  assumes "job_steps (jobs_start ps now) es c"
  shows "list_all (row_ok (cl_now c)) (jd_jobs (cl_db c)) \<and> distinct (map jr_id (jd_jobs (cl_db c)))"
proof -
  have "list_all (row_ok (cl_now (jobs_start ps now))) (jd_jobs (cl_db (jobs_start ps now)))"
    by (simp add: jobs_start_def)
  from rows_ok_steps [OF assms ids_ok_start this]
  have "list_all (row_ok (cl_now c)) (jd_jobs (cl_db c))" .
  with ids_ok_reach [OF assms] show ?thesis
    by (auto simp: ids_ok_def job_ids_def strict_sorted_iff)
qed

text \<open>C5: When no server process starts while another one lives, no job is ever in the hands of
  two workers, and every job in the hands of a worker is marked running.\<close>

theorem one_worker_per_job:
  assumes "solo_steps (jobs_start ps now) es c"
  shows "distinct (map (\<lambda>h. jb_id (snd h)) (cl_held c)) \<and>
    list_all (\<lambda>r. jr_id r \<in> set (map (\<lambda>h. jb_id (snd h)) (cl_held c)) \<longrightarrow> jr_status r = Running)
      (jd_jobs (cl_db c))"
  using solo_inv_steps [OF assms solo_inv_start] by (auto simp: solo_inv_def held_ids_def list_all_iff)

text \<open>C1: A process that starts at most 30 minutes after a job was claimed leaves the job as it
  is; if its worker died with the previous process, then no matter how much time passes and what
  the workers do, the job stays running and nobody works on it (until yet another start, or the
  end of its project).\<close>

theorem restart_strands_job:
  assumes "job_steps (jobs_start ps now) es0 c"
    and "r \<in> set (jd_jobs (cl_db c))" "jr_status r = Running" "jr_started r = Some t"
    and "jr_id r \<notin> set (map (\<lambda>h. jb_id (snd h)) (cl_held c))"
    and "cl_now c \<le> t + stale_job_age" "job_step c (Start p) c1"
    and "job_steps c1 es c2" "filter (\<lambda>e. is_start e \<or> is_drop e) es = []"
  shows "r \<in> set (jd_jobs (cl_db c2)) \<and> jr_id r \<notin> set (map (\<lambda>h. jb_id (snd h)) (cl_held c2))"
proof -
  have "orphaned r c"
    using ids_ok_reach [OF assms(1)] assms(2,3,5) by (simp add: orphaned_def held_ids_def)
  from orphaned_steps [OF assms(8,9) orphaned_start [OF assms(7) this assms(4,6)]]
  show ?thesis by (simp add: orphaned_def held_ids_def)
qed

section \<open>Histories\<close>

definition demo_project :: pg_project where
  "demo_project =
     \<lparr>pp_id = 1, pp_tenant = 1, pp_workspace = 1, pp_name = ''demo'', pp_path = ''/srv/demo'',
      pp_model = ''m'', pp_status = ''ready'', pp_source = ''path'', pp_privacy = ''hybrid''\<rparr>"

definition demo_row :: "job_status \<Rightarrow> int \<Rightarrow> job_row" where
  "demo_row st t =
     \<lparr>jr_id = 1, jr_project = 1, jr_type = ''full'', jr_status = st, jr_error = None, jr_files = 0,
      jr_chunks = 0, jr_payload = Some [], jr_deleted = 0, jr_errors = 0, jr_total = 0, jr_done = 0,
      jr_started = Some t, jr_finished = None\<rparr>"

definition demo_job :: job where
  "demo_job =
     \<lparr>jb_id = 1, jb_project = 1, jb_tenant = 1, jb_type = ''full'', jb_status = Running, jb_error = [],
      jb_files = 0, jb_chunks = 0, jb_payload = [], jb_deleted = 0, jb_errors = 0, jb_total = 0, jb_done = 0\<rparr>"

lemmas demo_defs = demo_project_def demo_row_def demo_job_def jobs_start_def enqueue_job_with_payload_def
  insert_job_def find_pg_project_def claim_job_def update_job_def project_tenant_def requeue_stale_jobs_def
  stale_row_def stale_job_age_def minute_def tenant_id_def tenant_from_def default_tenant_def coalesce_def
  complete_job_def fail_job_def Let_def

definition claimed :: cluster where
  "claimed =
     \<lparr>cl_now = 0, cl_db = \<lparr>jd_projects = [demo_project], jd_jobs = [demo_row Running 0], jd_next = 2\<rparr>,
      cl_procs = [1], cl_held = [((1, 0), demo_job)]\<rparr>"

lemma claimed_run:
  "exec_solo [Start 1, Enqueue None 1 ''full'' [], Claim (1, 0)] (jobs_start [demo_project] 0) = Some claimed"
  by (simp add: claimed_def demo_defs)

lemma claimed_steps:
  "job_steps (jobs_start [demo_project] 0) [Start 1, Enqueue None 1 ''full'' [], Claim (1, 0)] claimed"
  by (rule exec_events_steps) (simp add: claimed_def demo_defs)

lemma job_rows_typed_witness:
  "list_all (row_ok 0) [demo_row Running 0] \<and> distinct (map jr_id [demo_row Running 0])"
proof -
  have "cl_now claimed = 0" "jd_jobs (cl_db claimed) = [demo_row Running 0]" by (simp_all add: claimed_def)
  with job_rows_typed [OF claimed_steps] show ?thesis by metis
qed

lemma one_worker_per_job_witness:
  "distinct (map (\<lambda>h. jb_id (snd h)) (cl_held claimed)) \<and> jr_status (demo_row Running 0) = Running"
  using one_worker_per_job [OF exec_solo_steps [OF claimed_run]]
  by (simp add: claimed_def demo_row_def demo_job_def)

text \<open>A crash ten minutes into the job, a restart a minute later, and a year of polling: the
  job is still marked running and no worker has it.\<close>

definition crashed :: cluster where
  "crashed = claimed\<lparr>cl_now := 11 * minute, cl_procs := [], cl_held := []\<rparr>"

lemma restart_strands_job_witness:
  "demo_row Running 0 \<in> set (jd_jobs (cl_db (crashed\<lparr>cl_now := 11 * minute + 31536000000000000, cl_procs := [2]\<rparr>)))"
proof -
  let ?es0 = "[Start 1, Enqueue None 1 ''full'' [], Claim (1, 0), Tick 600000000000, Crash 1, Tick 60000000000]"
  let ?c2 = "crashed\<lparr>cl_now := 11 * minute + 31536000000000000, cl_procs := [2]\<rparr>"
  have 1: "job_steps (jobs_start [demo_project] 0) ?es0 crashed"
    by (rule exec_events_steps) (simp add: crashed_def claimed_def demo_defs)
  have 2: "job_step crashed (Start 2) (crashed\<lparr>cl_procs := [2]\<rparr>)"
    by (rule exec_event_step) (simp add: crashed_def claimed_def demo_defs)
  have 3: "job_steps (crashed\<lparr>cl_procs := [2]\<rparr>) [Tick 31536000000000000] ?c2"
    by (rule exec_events_steps) (simp add: crashed_def claimed_def demo_defs)
  from restart_strands_job [OF 1 _ _ _ _ _ 2 3, of "demo_row Running 0" 0] show ?thesis
    by (simp add: crashed_def claimed_def demo_row_def minute_def stale_job_age_def)
qed

text \<open>Two processes at once (a rolling restart): the job of a live worker is handed to the new
  process after 30 minutes, both complete it, and a late failure overwrites a success.\<close>

lemma rolling_restart_runs_twice:
  "map_option (\<lambda>c. map (\<lambda>h. (fst h, jb_id (snd h))) (cl_held c))
     (exec_events [Start 1, Enqueue None 1 ''full'' [], Claim (1, 0), Tick 1860000000000, Start 2, Claim (2, 0)]
        (jobs_start [demo_project] 0))
   = Some [((2, 0), 1), ((1, 0), 1)]"
  "map_option (\<lambda>c. map jr_status (jd_jobs (cl_db c)))
     (exec_events [Start 1, Enqueue None 1 ''full'' [], Claim (1, 0), Tick 1860000000000, Start 2, Claim (2, 0),
        Complete (2, 0) 1 1 0 0, Fail (1, 0) ''late''] (jobs_start [demo_project] 0))
   = Some [Failed]"
  by (simp_all add: demo_defs)

end
