(* ===== verification/PushFiles.thy ===== *)
theory PushFiles
  imports IndexProps JobQueue
begin

text \<open>
  Push ingestion, \<open>internal/server/files.go\<close>, \<open>paths.go\<close> and \<open>limits.go\<close>: the
  validation of a batch, the diff against the indexed files, and what a batch of uploaded files
  does to the store, for raw contents (the indexer of \<open>Indexing\<close>) and for chunks the client
  embedded itself.  The store is the interface \<open>index_store\<close> with the two operations only push
  uses; the analyzer's imports depend on the project's file list and are an argument.  Files are
  taken in the order of the request; JSON decoding and the HTTP responses' bodies are left out.
\<close>

section \<open>Paths\<close>

definition validate_relative_path :: "string \<Rightarrow> go_err option" where
  "validate_relative_path path0 =
     (let path = trim_space path0
      in if path = [] then Some (Plain ''path is required'')
         else if has_prefix path ''/'' then Some (Plain ''path must be relative'')
         else let clean = path_clean path
              in if clean = ''.'' \<or> clean = ''..'' then Some (Plain ''path is required'')
                 else if list_ex (\<lambda>seg. seg = ''..'') (split_byte (CHR ''/'') clean)
                 then Some (Plain ''path must not contain parent directory segments'')
                 else None)"

section \<open>The request\<close>

record embedded_chunk =
  ec_start :: int
  ec_end :: int
  ec_content :: string
  ec_embedding :: vec

record batch_file =
  bf_path :: string
  bf_content :: string
  bf_chunks :: "embedded_chunk list"
  bf_present :: bool

record batch_body =
  bb_files :: "batch_file list"
  bb_delete :: "string list"
  bb_inventory :: "string list"

text \<open>\<open>UnmarshalJSON\<close> of a file: an omitted content is not an empty one.\<close>

definition decode_batch_file :: "string \<Rightarrow> string option \<Rightarrow> embedded_chunk list \<Rightarrow> batch_file" where
  "decode_batch_file path content chunks =
     \<lparr>bf_path = path, bf_content = (case content of Some c \<Rightarrow> c | None \<Rightarrow> []), bf_chunks = chunks,
      bf_present = (content \<noteq> None)\<rparr>"

definition encode_batch_file :: "batch_file \<Rightarrow> string \<times> string option \<times> embedded_chunk list" where
  "encode_batch_file f =
     (bf_path f, (if bf_present f \<or> bf_content f \<noteq> [] then Some (bf_content f) else None), bf_chunks f)"

definition max_pre_chunks :: nat where
  "max_pre_chunks = 32"

definition max_pre_chunk_chars :: nat where
  "max_pre_chunk_chars = 4000"

text \<open>\<open>%d\<close> of an \<open>int\<close>.\<close>

definition format_int :: "int \<Rightarrow> string" where
  "format_int n = (if n < 0 then CHR ''-'' # itoa (nat (- n)) else itoa (nat n))"

definition validate_pre_embedded ::
  "env \<Rightarrow> string \<Rightarrow> embedded_chunk list \<Rightarrow> int \<Rightarrow> string \<Rightarrow> go_err option" where
  "validate_pre_embedded en path cs dims model =
     (if is_sensitive (en_lower en) path
      then Some (Plain (''path '' @ en_quote en path @ '' is classified as sensitive; pre-embedded uploads are not allowed''))
      else
     (case find (\<lambda>(i, c). int (length (ec_embedding c)) \<noteq> dims) (enumerate 0 cs) of
        Some (i, c) \<Rightarrow>
          Some (Plain (''embedding dimension mismatch (chunk '' @ itoa i @ ''): got '' @
            itoa (length (ec_embedding c)) @ '' dims, expected '' @ format_int dims @ '' for model '' @ en_quote en model))
      | None \<Rightarrow>
     (if length cs > max_pre_chunks
      then Some (Plain (''too many chunks: '' @ itoa (length cs) @ '' (max '' @ itoa max_pre_chunks @ '')''))
      else
     (case find (\<lambda>(i, c). length (ec_content c) > max_pre_chunk_chars) (enumerate 0 cs) of
        Some (i, c) \<Rightarrow>
          Some (Plain (''chunk '' @ itoa i @ '' too large: '' @ itoa (length (ec_content c)) @ '' chars (max '' @
            itoa max_pre_chunk_chars @ '')''))
      | None \<Rightarrow> None))))"

text \<open>The three path lists of a request, with their error messages.\<close>

datatype path_list = BatchFiles | BatchDelete | BatchInventory

primrec invalid_path_msg :: "path_list \<Rightarrow> string" where
  "invalid_path_msg BatchFiles = ''invalid path ''"
| "invalid_path_msg BatchDelete = ''invalid delete path ''"
| "invalid_path_msg BatchInventory = ''invalid project inventory path ''"

primrec path_list_name :: "path_list \<Rightarrow> string" where
  "path_list_name BatchFiles = ''files''"
| "path_list_name BatchDelete = ''delete''"
| "path_list_name BatchInventory = ''inventory''"

definition duplicate_path :: "path_list \<Rightarrow> string \<Rightarrow> string \<Rightarrow> go_err" where
  "duplicate_path kind p previous =
     (if kind = BatchInventory then Plain (''duplicate project inventory path '' @ p)
      else Plain (''duplicate batch path '' @ p @ '' in '' @ previous @ '' and '' @ path_list_name kind))"

text \<open>\<open>seen\<close> holds the paths of the list so far with the list they came from.\<close>

fun check_paths :: "path_list \<Rightarrow> (string \<times> string) list \<Rightarrow> string list \<Rightarrow> (string \<times> string) list result" where
  "check_paths kind seen [] = Inr seen"
| "check_paths kind seen (p # ps) =
     (case validate_relative_path p of
        Some e \<Rightarrow> Inl (Wrapped (invalid_path_msg kind @ p @ '': '') e)
      | None \<Rightarrow>
          (case map_of seen p of
             Some previous \<Rightarrow> Inl (duplicate_path kind p previous)
           | None \<Rightarrow> check_paths kind ((p, path_list_name kind) # seen) ps))"

definition validate_batch_body :: "batch_body \<Rightarrow> go_err option" where
  "validate_batch_body b =
     (case check_paths BatchFiles [] (map bf_path (bb_files b)) of
        Inl e \<Rightarrow> Some e
      | Inr seen \<Rightarrow>
          (case check_paths BatchDelete seen (bb_delete b) of
             Inl e \<Rightarrow> Some e
           | Inr _ \<Rightarrow>
               (case check_paths BatchInventory [] (bb_inventory b) of Inl e \<Rightarrow> Some e | Inr _ \<Rightarrow> None)))"

text \<open>\<open>handleFilesDiff\<close>: the stale and the deleted paths.\<close>

definition files_diff ::
  "(string \<times> string) list \<Rightarrow> (string \<times> string) list \<Rightarrow> (string list \<times> string list) result" where
  "files_diff existing files =
     (case find (\<lambda>f. validate_relative_path (fst f) \<noteq> None) files of
        Some f \<Rightarrow> Inl (Wrapped (''invalid path '' @ fst f @ '': '') (the (validate_relative_path (fst f))))
      | None \<Rightarrow>
          Inr (map fst (filter (\<lambda>(p, h). (case map_of existing p of Some g \<Rightarrow> g | None \<Rightarrow> []) \<noteq> h) files),
               filter (\<lambda>p. map_of files p = None) (map fst existing)))"

section \<open>A batch\<close>

record 's push_store =
  pu_index :: "'s index_store"
  pu_paths :: "nat \<Rightarrow> 's \<Rightarrow> string list result \<times> 's"
  pu_prune_versions :: "nat \<Rightarrow> string \<Rightarrow> string \<Rightarrow> 's \<Rightarrow> unit result \<times> 's"

definition push_project_files ::
  "'s push_store \<Rightarrow> nat \<Rightarrow> batch_body \<Rightarrow> 's run \<Rightarrow> string list result \<times> 's run" where
  "push_project_files pu pid b s =
     (case on_store (pu_paths pu pid) s of
        (Inl e, s1) \<Rightarrow> (Inl e, s1)
      | (Inr existing, s1) \<Rightarrow>
          (Inr (sort (remdups
             (filter (\<lambda>p. p \<notin> set (bb_delete b)) (existing @ bb_inventory b) @ map bf_path (bb_files b)))), s1))"

definition prune_old_versions ::
  "'s push_store \<Rightarrow> pg_project \<Rightarrow> string \<Rightarrow> string \<Rightarrow> nat \<Rightarrow> 's run \<Rightarrow> nat result \<times> 's run" where
  "prune_old_versions pu pj path hash created s =
     (if pp_source pj = ''push''
      then (case on_store (pu_prune_versions pu (pp_id pj) path hash) s of
              (Inl e, s1) \<Rightarrow> (Inl (Wrapped ''prune old file versions: '' e), s1)
            | (Inr _, s1) \<Rightarrow> (Inr created, s1))
      else (Inr created, s))"

definition index_pre_embedded ::
  "env \<Rightarrow> tools \<Rightarrow> 's push_store \<Rightarrow> pg_project \<Rightarrow> string \<Rightarrow> string \<Rightarrow> embedded_chunk list \<Rightarrow> int
     \<Rightarrow> 's run \<Rightarrow> nat result \<times> 's run" where
  "index_pre_embedded en tk pu pj path content cs dims s =
     (case validate_pre_embedded en path cs dims (pp_model pj) of
        Some e \<Rightarrow> (Inl e, s)
      | None \<Rightarrow>
     (let st = pu_index pu; pid = pp_id pj; hash = tl_sha tk content
      in case on_store (st_deps st pid path (tl_deps tk path content)) s of
        (Inl e, s1) \<Rightarrow> (Inl (Wrapped (''record dependencies for '' @ path @ '': '') e), s1)
      | (Inr _, s1) \<Rightarrow>
     (case on_store (st_up_to_date st pid path hash dims) s1 of
        (Inl e, s2) \<Rightarrow> (Inl (Wrapped ''check file up-to-date: '' e), s2)
      | (Inr fresh, s2) \<Rightarrow>
     (if fresh then (Inr 0, s2) else
      case on_store (st_upsert_file st pid path hash (length content)) s2 of
        (Inl e, s3) \<Rightarrow> (Inl (Wrapped ''upsert file: '' e), s3)
      | (Inr fid, s3) \<Rightarrow>
     (case on_store (st_delete_chunks st pid fid) s3 of
        (Inl e, s4) \<Rightarrow> (Inl (Wrapped ''delete old chunks: '' e), s4)
      | (Inr _, s4) \<Rightarrow>
     (let chunks = map (\<lambda>c. mk_chunk (ec_content c) (ec_start c) (ec_end c)) cs; vs = map ec_embedding cs
      in case on_store (st_insert_chunks st pid fid chunks vs dims) s4 of
        (Inl e, s5) \<Rightarrow> (Inl (Wrapped ''insert chunks: '' e), s5)
      | (Inr _, s5) \<Rightarrow>
          (let s6 = snd (on_store (st_insert_cache st (map (tl_sha tk \<circ> ec_content) cs) (pp_model pj) vs dims) s5)
           in prune_old_versions pu pj path hash (length cs) s6)))))))"

text \<open>\<open>None\<close> is a panic of the indexer.\<close>

definition index_batch_file ::
  "env \<Rightarrow> tools \<Rightarrow> indexer \<Rightarrow> 's push_store \<Rightarrow> embedder \<Rightarrow> ctx \<Rightarrow> pg_project \<Rightarrow> int \<Rightarrow> batch_file
     \<Rightarrow> 's run \<Rightarrow> nat result option \<times> 's run" where
  "index_batch_file en tk ix pu em cx pj dims f s =
     (if bf_chunks f \<noteq> [] then
        map_prod Some id (index_pre_embedded en tk pu pj (bf_path f) (bf_content f) (bf_chunks f) dims s)
      else if bf_content f \<noteq> [] \<and> trim_space (bf_content f) \<noteq> [] then
        (case index_content en tk ix (pu_index pu) em cx (pp_id pj) (bf_path f) (pp_model pj) (bf_content f) s of
           (None, s1) \<Rightarrow> (None, s1)
         | (Some r, s1) \<Rightarrow>
             (case fl_err r of
                Some e \<Rightarrow> (Some (Inl e), s1)
              | None \<Rightarrow>
                  (if fl_created r > 0
                   then map_prod Some id
                          (prune_old_versions pu pj (bf_path f) (tl_sha tk (bf_content f)) (fl_created r) s1)
                   else (Some (Inr (fl_created r)), s1))))
      else if bf_present f then
        (case on_store (st_delete_by_path (pu_index pu) (pp_id pj) (bf_path f)) s of
           (Inl e, s1) \<Rightarrow> (Some (Inl (Wrapped ''remove empty file: '' e)), s1)
         | (Inr _, s1) \<Rightarrow> (Some (Inr 0), s1))
      else (Some (Inl (Plain ''file has no content or chunks'')), s))"

record batch_counts =
  bc_indexed :: nat
  bc_chunks :: nat
  bc_deleted :: nat
  bc_errors :: nat

definition no_counts :: batch_counts where
  "no_counts = \<lparr>bc_indexed = 0, bc_chunks = 0, bc_deleted = 0, bc_errors = 0\<rparr>"

fun delete_batch_paths ::
  "'s push_store \<Rightarrow> nat \<Rightarrow> string list \<Rightarrow> batch_counts \<Rightarrow> 's run \<Rightarrow> batch_counts \<times> 's run" where
  "delete_batch_paths pu pid [] n s = (n, s)"
| "delete_batch_paths pu pid (p # ps) n s =
     (case on_store (st_delete_by_path (pu_index pu) pid p) s of
        (Inl e, s1) \<Rightarrow> delete_batch_paths pu pid ps (n\<lparr>bc_errors := bc_errors n + 1\<rparr>) s1
      | (Inr _, s1) \<Rightarrow> delete_batch_paths pu pid ps (n\<lparr>bc_deleted := bc_deleted n + 1\<rparr>) s1)"

fun index_batch_files ::
  "env \<Rightarrow> tools \<Rightarrow> indexer \<Rightarrow> 's push_store \<Rightarrow> embedder \<Rightarrow> ctx \<Rightarrow> pg_project \<Rightarrow> int \<Rightarrow> batch_file list
     \<Rightarrow> batch_counts \<Rightarrow> 's run \<Rightarrow> batch_counts option \<times> 's run" where
  "index_batch_files en tk ix pu em cx pj dims [] n s = (Some n, s)"
| "index_batch_files en tk ix pu em cx pj dims (f # fs) n s =
     (case index_batch_file en tk ix pu em cx pj dims f s of
        (None, s1) \<Rightarrow> (None, s1)
      | (Some (Inl e), s1) \<Rightarrow>
          index_batch_files en tk ix pu em cx pj dims fs (n\<lparr>bc_errors := bc_errors n + 1\<rparr>) s1
      | (Some (Inr created), s1) \<Rightarrow>
          index_batch_files en tk ix pu em cx pj dims fs
            (n\<lparr>bc_indexed := bc_indexed n + 1, bc_chunks := bc_chunks n + created\<rparr>) s1)"

text \<open>\<open>tks\<close> are the tools for a given inventory of the project's files.\<close>

definition process_batch_files ::
  "env \<Rightarrow> (string list \<Rightarrow> tools) \<Rightarrow> indexer_opts \<Rightarrow> 's push_store \<Rightarrow> embedder \<Rightarrow> ctx \<Rightarrow> pg_project
     \<Rightarrow> batch_body \<Rightarrow> int \<Rightarrow> 's run \<Rightarrow> batch_counts option \<times> 's run" where
  "process_batch_files en tks limits pu em cx pj b dims s0 =
     (let st = pu_index pu; pid = pp_id pj;
          (n1, s1) = delete_batch_paths pu pid (bb_delete b) no_counts s0;
          degraded = (\<lambda>s. (Some (n1\<lparr>bc_errors := bc_errors n1 + 1\<rparr>),
                           snd (on_store (st_status st pid ''degraded'') s)))
      in case push_project_files pu pid b s1 of
           (Inl e, s2) \<Rightarrow> degraded s2
         | (Inr inventory, s2) \<Rightarrow>
             (case normalize_mode (en_lower en) (pp_privacy pj) of
                Inl e \<Rightarrow> degraded s2
              | Inr m \<Rightarrow>
                  (let opts = limits\<lparr>op_privacy := Some m\<rparr>
                   in case index_batch_files en (tks inventory) (new_indexer dims opts) pu em cx pj dims
                             (bb_files b) n1 (s2\<lparr>rn_left := initial_budget opts\<rparr>) of
                        (None, s3) \<Rightarrow> (None, s3)
                      | (Some n, s3) \<Rightarrow>
                          (Some n, snd (on_store (st_status st pid
                             (if bc_errors n > 0 then ''degraded'' else ''ready'')) s3)))))"

text \<open>\<open>handleFilesBatchSync\<close>: the answer to a batch sent with \<open>?sync=true\<close>;
  \<open>ensure\<close> is \<open>EnsureChunksTable\<close>.\<close>

datatype batch_reply = Batch_error nat string | Batch_counts batch_counts

definition handle_files_batch_sync ::
  "env \<Rightarrow> (string list \<Rightarrow> tools) \<Rightarrow> indexer_opts \<Rightarrow> (int \<Rightarrow> 's \<Rightarrow> unit result \<times> 's) \<Rightarrow> 's push_store \<Rightarrow> embedder
     \<Rightarrow> ctx \<Rightarrow> pg_project \<Rightarrow> batch_body \<Rightarrow> 's run \<Rightarrow> batch_reply option \<times> 's run" where
  "handle_files_batch_sync en tks limits ensure pu em cx pj b s =
     (case normalize_mode (en_lower en) (pp_privacy pj) of
        Inl e \<Rightarrow> (Some (Batch_error 500 ''invalid project privacy policy''), s)
      | Inr m \<Rightarrow>
          (let mcx = (if m = Edge then with_force_local cx True else cx)
           in case on_world (em_info em mcx (pp_model pj)) s of
                (Inl e, s1) \<Rightarrow> (Some (Batch_error 502 ''model unavailable''), s1)
              | (Inr info, s1) \<Rightarrow>
                  (case on_store (ensure (mi_dims info)) s1 of
                     (Inl e, s2) \<Rightarrow> (Some (Batch_error 500 ''could not prepare storage''), s2)
                   | (Inr _, s2) \<Rightarrow>
                       (case process_batch_files en tks limits pu em cx pj b (mi_dims info) s2 of
                          (None, s3) \<Rightarrow> (None, s3)
                        | (Some n, s3) \<Rightarrow> (Some (Batch_counts n), s3)))))"


section \<open>A provider that is down\<close>

text \<open>An operation that succeeds and keeps a condition on the store.\<close>

definition works :: "('s \<Rightarrow> bool) \<Rightarrow> ('s \<Rightarrow> 'a result \<times> 's) \<Rightarrow> bool" where
  "works I f \<longleftrightarrow> (\<forall>d. I d \<longrightarrow> (\<exists>r d1. f d = (Inr r, d1) \<and> I d1))"

lemma works_store:
  "works I f \<Longrightarrow> I (rn_store s) \<Longrightarrow> \<exists>r s1. on_store f s = (Inr r, s1) \<and> I (rn_store s1)"
  by (fastforce simp: works_def on_store_def Let_def)

text \<open>A store whose statements succeed and whose embedding cache has nothing to offer, as a
  project's first push finds it.\<close>

locale cold_store =
  fixes st :: "'s index_store" and pid :: nat and I :: "'s \<Rightarrow> bool"
  assumes deps_work: "distinct ts \<Longrightarrow> works I (st_deps st pid p ts)"
    and up_to_date_works: "works I (st_up_to_date st pid p h k)"
    and upsert_works: "works I (st_upsert_file st pid p h n)"
    and delete_chunks_work: "works I (st_delete_chunks st pid f)"
    and delete_id_works: "works I (st_delete_by_id st pid f)"
    and cache_cold: "I d \<Longrightarrow> \<exists>r d1. st_lookup st hs m k d = (r, d1) \<and> I d1 \<and> (case r of Inl e \<Rightarrow> True | Inr c \<Rightarrow> c = [])"
begin

lemma cache_misses:
  "I (rn_store s) \<Longrightarrow> \<exists>r s1. on_store (st_lookup st hs m k) s = (r, s1) \<and> I (rn_store s1) \<and>
     (case r of Inl e \<Rightarrow> [] | Inr c \<Rightarrow> c) = []"
  using cache_cold [of "rn_store s" hs m k] by (fastforce simp: on_store_def Let_def split: sum.splits)

end

definition deaf :: "embedder \<Rightarrow> bool" where
  "deaf em \<longleftrightarrow> (\<forall>cx m xs w. \<exists>e w1. em_embed em cx m xs w = (Inl e, w1))"

lemma deaf_attempts: "deaf em \<Longrightarrow> \<exists>e w1. embed_attempts en tk em cx m xs k n le w = (Inl e, w1)"
proof (induction n arbitrary: k le w)
  case (Suc n)
  obtain r w1 where 1: "(if k > 0 then sleep_backoff en tk cx k w else (None, w)) = (r, w1)" by fastforce
  obtain e w2 where 2: "em_embed em cx m xs w1 = (Inl e, w2)" using Suc.prems unfolding deaf_def by metis
  show ?case using 1 2 Suc by (auto split: option.splits)
qed simp

lemma resolve_all_missing:
  "br_idx (resolve_loop [] i inputs hs r) = br_idx r @ [i..<i + length hs]"
proof (induction hs arbitrary: i r)
  case (Cons h hs)
  have "[i..<i + length (h # hs)] = i # [Suc i..<Suc i + length hs]" by (subst upt_rec) simp
  with Cons show ?case by simp
qed simp

context cold_store begin

lemma deaf_batch_stores_nothing:
  assumes "deaf em" "sub \<noteq> []" "I (rn_store s)"
  shows "\<exists>s1. embed_batch en tk ix st em cx pid fid m syms sub s = Some ((0, 1), s1) \<and> I (rn_store s1)"
proof -
  let ?inputs = "build_chunk_inputs sub syms"
  let ?hashes = "compute_hashes tk ?inputs"
  obtain r s1 where 1: "on_store (st_lookup st ?hashes m (ix_dims ix)) s = (r, s1)" "I (rn_store s1)"
      "(case r of Inl e \<Rightarrow> [] | Inr c \<Rightarrow> c) = []"
    using cache_misses [OF assms(3)] by blast
  have "?hashes \<noteq> []" using assms(2) by (simp add: compute_hashes_def build_chunk_inputs_def)
  then have idx: "br_idx (resolve_batch_embeddings ?inputs ?hashes []) \<noteq> []"
    by (simp add: resolve_batch_embeddings_def resolve_all_missing)
  let ?res = "resolve_batch_embeddings ?inputs ?hashes []"
  obtain e w1 where "embed_with_retry en tk em cx m (br_inputs ?res) (rn_world s1) = (Inl e, w1)"
    using deaf_attempts [OF assms(1)] unfolding embed_with_retry_def by blast
  then have "embed_uncached_batch en tk ix st em cx m ?res s1 = Some ((1, None), s1\<lparr>rn_world := w1\<rparr>)"
    by (simp add: embed_uncached_batch_def on_world_def)
  with 1 idx show ?thesis by (simp add: embed_batch_def Let_def)
qed

lemma deaf_embedding_stores_nothing:
  assumes "deaf em" "0 < ix_batch ix" "I (rn_store s)"
  shows "\<exists>k s1. embed_and_insert en tk ix st em cx pid fid m syms cs s = Some ((0, k), s1) \<and> I (rn_store s1)"
  using assms(3)
proof (induction "length cs" arbitrary: cs s rule: less_induct)
  case less
  show ?case
  proof (cases "cs = []")
    case True
    with less.prems show ?thesis by (subst embed_and_insert.simps) simp
  next
    case False
    then have "take (ix_batch ix) cs \<noteq> []" using assms(2) by simp
    from deaf_batch_stores_nothing [OF assms(1) this less.prems] obtain s1 where
      1: "embed_batch en tk ix st em cx pid fid m syms (take (ix_batch ix) cs) s = Some ((0, 1), s1)" "I (rn_store s1)"
      by blast
    have "length (drop (ix_batch ix) cs) < length cs" using False assms(2) by auto
    from less.hyps [OF this 1(2)] obtain k s2 where
      "embed_and_insert en tk ix st em cx pid fid m syms (drop (ix_batch ix) cs) s1 = Some ((0, k), s2)" "I (rn_store s2)"
      by blast
    with 1 False assms(2) show ?thesis by (subst embed_and_insert.simps) simp
  qed
qed

lemma deaf_store_chunks:
  assumes "deaf em" "0 < ix_batch ix" "I (rn_store s)" "\<not> ix_keyword_only ix" "ix_privacy ix \<noteq> Edge"
    "\<not> is_sensitive (en_lower en) (up_rel p)" "\<not> (up_secrets p \<and> ix_secret_block ix)" "up_project p = pid"
  shows "\<exists>n k s1. store_chunks en tk ix st em cx p s = (Some ((0, n, k), None), s1) \<and> I (rn_store s1)"
proof -
  obtain got left where tb: "take_chunk_budget (int (length (up_chunks p))) (rn_left s) = (got, left)" by fastforce
  let ?s = "s\<lparr>rn_left := left\<rparr>"
  let ?cs = "classify_chunks (up_syms p) (take (nat got) (up_chunks p))"
  have "I (rn_store ?s)" using assms(3) by simp
  from deaf_embedding_stores_nothing [OF assms(1,2) this] obtain k s1 where
    emb: "embed_and_insert en tk ix st em cx pid (up_file p) (up_model p) (up_syms p) ?cs ?s = Some ((0, k), s1)"
      "I (rn_store s1)" by blast
  show ?thesis
  proof (cases "got = 0")
    case True
    with tb \<open>I (rn_store ?s)\<close> show ?thesis by (simp add: store_chunks_def)
  next
    case False
    have "store_chunks en tk ix st em cx p s =
        (Some ((0, length (take (nat got) (up_chunks p)), k), None), s1)"
      using False tb emb(1) assms(4-8)
      by (auto simp: store_chunks_def Let_def split: option.splits sum.splits prod.splits if_splits)
    with emb(2) show ?thesis by blast
  qed
qed

lemma deaf_rollback: "I (rn_store s) \<Longrightarrow> I (rn_store (rollback_incomplete_unit st pid fid s))"
  using works_store [OF delete_chunks_work] works_store [OF delete_id_works]
  unfolding rollback_incomplete_unit_def by (metis snd_conv)

lemma deaf_unit:
  assumes "deaf em" "0 < ix_batch ix" "I (rn_store s)" "\<not> ix_keyword_only ix" "ix_privacy ix \<noteq> Edge"
    "\<not> is_sensitive (en_lower en) rel" "\<not> ix_secret_scan ix"
    "chunk_file (en_lower en) (tl_symbols tk) rel content (ix_max_chars ix) \<noteq> None"
    "distinct (tl_deps tk rel content)"
  shows "\<exists>u s1. index_unit en tk ix st em cx pid rel m content s = (Some (u, None), s1) \<and>
    uo_created u = 0 \<and> I (rn_store s1)"
proof -
  let ?h = "tl_sha tk content"
  have noscan: "\<not> detect_secrets tk ix rel content" using assms(7) by (simp add: detect_secrets_def)
  have changed: "\<exists>u s2. index_changed_unit en tk ix st em cx pid rel m content ?h t = (Some (u, None), s2) \<and>
      uo_created u = 0 \<and> I (rn_store s2)" if t: "I (rn_store t)" for t
  proof -
    obtain fid t1 where 1: "on_store (st_upsert_file st pid rel ?h (length content)) t = (Inr fid, t1)" "I (rn_store t1)"
      using works_store [OF upsert_works t] by blast
    obtain cs where cs: "chunk_file (en_lower en) (tl_symbols tk) rel content (ix_max_chars ix) = Some cs"
      using assms(8) by auto
    obtain t2 where 2: "on_store (st_delete_chunks st pid fid) t1 = (Inr (), t2)" "I (rn_store t2)"
      using works_store [OF delete_chunks_work 1(2)] by auto
    let ?p = "\<lparr>up_project = pid, up_file = fid, up_rel = rel, up_model = m,
      up_chunks = take (ix_max_chunks_file ix) cs,
      up_syms = (if \<not> ix_no_symbols ix \<and> (\<not> ix_keyword_only ix \<or> ix_ast_only ix) then tl_symbols tk rel content else []),
      up_secrets = detect_secrets tk ix rel content\<rparr>"
    obtain n k t3 where 3: "store_chunks en tk ix st em cx ?p t2 = (Some ((0, n, k), None), t3)" "I (rn_store t3)"
      using deaf_store_chunks [OF assms(1,2) 2(2) assms(4,5), where en = en and p = ?p and tk = tk and cx = cx] assms(6)
        noscan by auto
    show ?thesis using 1 2 3 cs deaf_rollback [OF 3(2)]
      by (simp add: index_changed_unit_def Let_def skipped_def)
  qed
  obtain s1 where 1: "on_store (st_deps st pid rel (tl_deps tk rel content)) s = (Inr (), s1)" "I (rn_store s1)"
    using works_store [OF deps_work [OF assms(9)] assms(3)] by auto
  obtain b s2 where 2: "on_store (st_up_to_date st pid rel ?h (ix_dims ix)) s1 = (Inr b, s2)" "I (rn_store s2)"
    using works_store [OF up_to_date_works 1(2)] by blast
  show ?thesis using 1 2 changed [OF 1(2)] changed [OF 2(2)]
    by (auto simp: index_unit_def Let_def skipped_def)
qed

lemma deaf_batch_file:
  assumes "deaf em" "0 < ix_batch ix" "I (rn_store s)" "\<not> ix_keyword_only ix" "ix_privacy ix \<noteq> Edge"
    "\<not> ix_secret_scan ix" "pp_id pj = pid" "pu_index pu = st"
    and f: "bf_chunks f = []" "trim_space (bf_content f) \<noteq> []" "\<not> is_sensitive (en_lower en) (bf_path f)"
      "\<not> tl_supported tk (bf_path f)"
      "chunk_file (en_lower en) (tl_symbols tk) (bf_path f) (take (ix_max_file_size ix) (bf_content f)) (ix_max_chars ix) \<noteq> None"
      "distinct (tl_deps tk (bf_path f) (take (ix_max_file_size ix) (bf_content f)))"
  shows "\<exists>s1. index_batch_file en tk ix pu em cx pj dims f s = (Some (Inr 0), s1) \<and> I (rn_store s1)"
proof -
  have "bf_content f \<noteq> []" using f(2) by (auto simp: trim_space_def trim_right_space_def trim_left_space_def)
  moreover obtain u s1 where
    "index_unit en tk ix st em cx pid (bf_path f) (pp_model pj) (take (ix_max_file_size ix) (bf_content f)) s =
       (Some (u, None), s1)" "uo_created u = 0" "I (rn_store s1)"
    using deaf_unit [OF assms(1-5) f(3) assms(6) f(5,6)] by blast
  ultimately show ?thesis using assms(7,8) f
    by (simp add: index_batch_file_def index_content_def Let_def)
qed

end


text \<open>A raw upload the server would chunk and embed itself.\<close>

definition plain_upload :: "env \<Rightarrow> tools \<Rightarrow> indexer \<Rightarrow> batch_file \<Rightarrow> bool" where
  "plain_upload en tk ix f \<longleftrightarrow>
     bf_chunks f = [] \<and> trim_space (bf_content f) \<noteq> [] \<and> \<not> is_sensitive (en_lower en) (bf_path f) \<and>
     \<not> tl_supported tk (bf_path f) \<and>
     chunk_file (en_lower en) (tl_symbols tk) (bf_path f) (take (ix_max_file_size ix) (bf_content f)) (ix_max_chars ix) \<noteq> None \<and>
     distinct (tl_deps tk (bf_path f) (take (ix_max_file_size ix) (bf_content f)))"

context cold_store begin

lemma deaf_batch_files:
  assumes "deaf em" "0 < ix_batch ix" "\<not> ix_keyword_only ix" "ix_privacy ix \<noteq> Edge"
    "\<not> ix_secret_scan ix" "pp_id pj = pid" "pu_index pu = st"
  shows "I (rn_store s) \<Longrightarrow> list_all (plain_upload en tk ix) fs \<Longrightarrow>
    \<exists>s1. index_batch_files en tk ix pu em cx pj dims fs n s =
      (Some (n\<lparr>bc_indexed := bc_indexed n + length fs\<rparr>), s1) \<and> I (rn_store s1)"
proof (induction fs arbitrary: s n)
  case (Cons f fs)
  then have "plain_upload en tk ix f" by simp
  then obtain s1 where "index_batch_file en tk ix pu em cx pj dims f s = (Some (Inr 0), s1)" "I (rn_store s1)"
    using deaf_batch_file [OF assms(1,2) Cons.prems(1) assms(3-7)] unfolding plain_upload_def by blast
  with Cons.IH [of s1 "n\<lparr>bc_indexed := bc_indexed n + 1, bc_chunks := bc_chunks n + 0\<rparr>"] Cons.prems(2)
  show ?case by auto
qed simp

end

section \<open>On the SQLite store\<close>

definition sqlite_push :: "(string \<Rightarrow> string) \<Rightarrow> db push_store" where
  "sqlite_push sha =
     \<lparr>pu_index = sqlite_store sha,
      pu_paths = (\<lambda>i d. (Inr (map fr_path (filter (\<lambda>f. fr_project f = i) (db_files d))), d)),
      pu_prune_versions = (\<lambda>i p h d. (Inr (), prune_file_versions i p h d))\<rparr>"

text \<open>The project exists, nothing is cached, and the chunks are among \<open>C\<close>.\<close>

definition cold :: "nat \<Rightarrow> chunk_row set \<Rightarrow> db \<Rightarrow> bool" where
  "cold pid C d \<longleftrightarrow> has_project pid d \<and> db_cache d = [] \<and> set (db_chunks d) \<subseteq> C"

lemma cold_lookup:
  "db_cache d = [] \<Longrightarrow> (case lookup_embedding_cache hs m d of Inl e \<Rightarrow> True | Inr c \<Rightarrow> c = [])"
  by (simp add: lookup_embedding_cache_def)

lemma cold_upsert: "cold pid C d \<Longrightarrow> \<exists>r d1. upsert_file pid p h n d = (Inr r, d1) \<and> cold pid C d1"
  by (auto simp: cold_def upsert_file_def has_project_def split: option.splits)

interpretation sqlite_cold: cold_store "sqlite_store sha" pid "cold pid C" for sha pid C
proof (unfold_locales, goal_cases)
  case 1 then show ?case
    by (auto simp: works_def sqlite_store_def insert_file_dependencies_def cold_def has_project_def Let_def)
next
  case 3 then show ?case using cold_upsert by (auto simp: works_def sqlite_store_def)
qed (auto simp: works_def sqlite_store_def cold_def has_project_def delete_chunks_for_file_def
    delete_file_by_id_def delete_files_def cold_lookup)

lemma deaf_batch_counts:
  assumes "deaf em" "normalize_mode (en_lower en) (pp_privacy pj) = Inr m" "m \<noteq> Edge"
    and "bb_delete b = []" "has_project (pp_id pj) (rn_store s)" "db_cache (rn_store s) = []"
    and "filter (\<lambda>f. \<not> plain_upload en (tks paths) (new_indexer dims (limits\<lparr>op_privacy := Some m\<rparr>)) f) (bb_files b) = []"
    and "push_project_files (sqlite_push sha) (pp_id pj) b s = (Inr paths, s)"
  shows "\<exists>s1. process_batch_files en tks limits (sqlite_push sha) em cx pj b dims s =
      (Some \<lparr>bc_indexed = length (bb_files b), bc_chunks = 0, bc_deleted = 0, bc_errors = 0\<rparr>,
       s1\<lparr>rn_store := update_project_status (pp_id pj) ''ready'' (rn_store s1)\<rparr>) \<and>
    set (db_chunks (rn_store s1)) \<subseteq> set (db_chunks (rn_store s))"
proof -
  let ?opts = "limits\<lparr>op_privacy := Some m\<rparr>"
  let ?ix = "new_indexer dims ?opts"
  let ?s = "s\<lparr>rn_left := initial_budget ?opts\<rparr>"
  have ix: "0 < ix_batch ?ix" "\<not> ix_keyword_only ?ix" "ix_privacy ?ix \<noteq> Edge" "\<not> ix_secret_scan ?ix"
    using assms(3) by (simp_all add: new_indexer_def)
  have "cold (pp_id pj) (set (db_chunks (rn_store s))) (rn_store ?s)" using assms(5,6) by (simp add: cold_def)
  moreover have "list_all (plain_upload en (tks paths) ?ix) (bb_files b)"
    using assms(7) by (simp add: filter_empty_conv list_all_iff)
  moreover have "pu_index (sqlite_push sha) = sqlite_store sha" by (simp add: sqlite_push_def)
  ultimately obtain s1 where
    "index_batch_files en (tks paths) ?ix (sqlite_push sha) em cx pj dims (bb_files b) no_counts ?s =
       (Some (no_counts\<lparr>bc_indexed := bc_indexed no_counts + length (bb_files b)\<rparr>), s1)"
    "cold (pp_id pj) (set (db_chunks (rn_store s))) (rn_store s1)"
    using sqlite_cold.deaf_batch_files [OF assms(1) ix refl] by blast
  then show ?thesis using assms(2,4,8)
    by (auto simp: process_batch_files_def no_counts_def Let_def cold_def on_store_def sqlite_push_def sqlite_store_def)
qed


definition demo_upload :: batch_file where
  "demo_upload = \<lparr>bf_path = ''a.go'', bf_content = ''package b'', bf_chunks = [], bf_present = True\<rparr>"

definition demo_batch :: batch_body where
  "demo_batch = \<lparr>bb_files = [demo_upload], bb_delete = [], bb_inventory = []\<rparr>"


text \<open>A provider that knows its model and fails to embed.\<close>

definition mute_embedder :: embedder where
  "mute_embedder = deaf_embedder\<lparr>em_info := (\<lambda>cx m w. (Inr \<lparr>mi_name = m, mi_dims = 2\<rparr>, w))\<rparr>"



section \<open>What a batch keeps\<close>

text \<open>A push store whose operations all keep a condition; the indexer's part of it is
  \<open>kept_store\<close>.\<close>

locale kept_push = kept_store "pu_index pu" I for pu :: "'s push_store" and I :: "'s \<Rightarrow> bool" +
  assumes keeps_paths: "I d \<Longrightarrow> I (snd (pu_paths pu i d))"
    and keeps_prune_versions: "I d \<Longrightarrow> I (snd (pu_prune_versions pu i p h d))"
begin

lemmas push_keeps = store_keeps on_store_keeps [OF _ keeps_paths] on_store_keeps [OF _ keeps_prune_versions]

lemma prune_old_keeps:
  "prune_old_versions pu pj p h n s = (r, s1) \<Longrightarrow> I (rn_store s) \<longrightarrow> I (rn_store s1)"
  unfolding prune_old_versions_def by (auto split: if_splits sum.splits prod.splits dest!: push_keeps)

lemma pre_embedded_keeps:
  "index_pre_embedded en tk pu pj p c cs k s = (r, s1) \<Longrightarrow> I (rn_store s) \<longrightarrow> I (rn_store s1)"
  unfolding index_pre_embedded_def Let_def
  by (auto intro!: snd_keeps split: if_splits sum.splits prod.splits option.splits dest!: push_keeps prune_old_keeps)

lemma batch_file_keeps:
  assumes "index_batch_file en tk ix pu em cx pj k f s = (r, s1)"
  shows "I (rn_store s) \<longrightarrow> I (rn_store s1)"
proof -
  obtain a t where 1: "index_pre_embedded en tk pu pj (bf_path f) (bf_content f) (bf_chunks f) k s = (a, t)" by fastforce
  obtain b u where 2: "index_content en tk ix (pu_index pu) em cx (pp_id pj) (bf_path f) (pp_model pj) (bf_content f) s = (b, u)"
    by fastforce
  obtain c v where 3: "prune_old_versions pu pj (bf_path f) (tl_sha tk (bf_content f)) (fl_created (the b)) u = (c, v)"
    by fastforce
  show ?thesis
    using assms 1 2 3 pre_embedded_keeps [OF 1] index_content_keeps [OF 2] prune_old_keeps [OF 3]
    unfolding index_batch_file_def
    by (auto split: if_splits sum.splits prod.splits option.splits dest!: push_keeps)
qed

lemma batch_files_keep:
  "index_batch_files en tk ix pu em cx pj k fs n s = (r, s1) \<Longrightarrow> I (rn_store s) \<longrightarrow> I (rn_store s1)"
proof (induction fs arbitrary: n s)
  case (Cons f fs)
  then show ?case by (auto split: prod.splits option.splits sum.splits dest!: batch_file_keeps)
qed simp

lemma delete_batch_keeps:
  "delete_batch_paths pu i ps n s = (r, s1) \<Longrightarrow> I (rn_store s) \<longrightarrow> I (rn_store s1)"
proof (induction ps arbitrary: n s)
  case (Cons p ps)
  then show ?case by (auto split: prod.splits sum.splits dest!: push_keeps)
qed simp

lemma project_files_keep:
  "push_project_files pu i b s = (r, s1) \<Longrightarrow> I (rn_store s) \<longrightarrow> I (rn_store s1)"
  unfolding push_project_files_def by (auto split: prod.splits sum.splits dest!: push_keeps)

lemma process_batch_keeps:
  assumes "process_batch_files en tks limits pu em cx pj b k s = (r, s1)"
  shows "I (rn_store s) \<longrightarrow> I (rn_store s1)"
  using assms unfolding process_batch_files_def Let_def
  by (auto intro!: snd_on_store_keeps keeps_status split: prod.splits sum.splits option.splits
      dest!: delete_batch_keeps project_files_keep batch_files_keep)

end

section \<open>What is refused\<close>

text \<open>A sensitive file the client embedded on its own machine is refused, whatever it holds.\<close>

lemma sensitive_pre_embedded_refused:
  assumes "is_sensitive (en_lower en) (bf_path f)" "bf_chunks f \<noteq> []"
  shows "\<exists>e. index_batch_file en tk ix pu em cx pj dims f s = (Some (Inl e), s)"
  using assms by (simp add: index_batch_file_def index_pre_embedded_def validate_pre_embedded_def)

text \<open>An accepted list of paths has no path twice, none the other list had, and only valid ones.\<close>

lemma check_paths_ok:
  "check_paths kind seen ps = Inr seen2 \<Longrightarrow>
     distinct ps \<and> set ps \<inter> fst ` set seen = {} \<and> fst ` set seen2 = set ps \<union> fst ` set seen \<and>
     (\<forall>p\<in>set ps. validate_relative_path p = None)"
proof (induction kind seen ps arbitrary: seen2 rule: check_paths.induct)
  case (2 kind seen p ps)
  then show ?case
    by (auto split: option.splits simp: map_of_eq_None_iff)
qed auto

lemma accepted_batch:
  assumes "validate_batch_body b = None"
  shows "distinct (map bf_path (bb_files b) @ bb_delete b)"
    and "\<forall>p\<in>set (map bf_path (bb_files b) @ bb_delete b). validate_relative_path p = None"
proof -
  obtain seen seen2 where 1: "check_paths BatchFiles [] (map bf_path (bb_files b)) = Inr seen"
    "check_paths BatchDelete seen (bb_delete b) = Inr seen2"
    using assms by (auto simp: validate_batch_body_def split: sum.splits)
  from check_paths_ok [OF 1(1)] check_paths_ok [OF 1(2)]
  show "distinct (map bf_path (bb_files b) @ bb_delete b)"
    "\<forall>p\<in>set (map bf_path (bb_files b) @ bb_delete b). validate_relative_path p = None" by auto
qed

text \<open>A file survives its JSON encoding, except that an omitted content next to a non-empty one
  is not told apart.\<close>

lemma batch_file_round_trip:
  "bf_present f \<or> bf_content f = [] \<Longrightarrow> (case encode_batch_file f of (p, c, cs) \<Rightarrow> decode_batch_file p c cs) = f"
  by (cases f) (auto simp: encode_batch_file_def decode_batch_file_def)

end
