(* ===== verification/JobWorker.thy ===== *)
theory JobWorker
  imports PushFiles
begin

text \<open>
  What a worker does with a job it claimed, \<open>internal/server/jobs.go\<close>: from \<open>ClaimJob\<close>
  over the project lookup, the privacy policy, the model lookup and the run of the indexer
  (\<open>Indexing\<close>) or of a pushed batch (\<open>PushFiles\<close>) to \<open>CompleteJob\<close> or
  \<open>FailJob\<close>.  A statement on the database fails when the context it gets is over (the
  documented behaviour of a pool) or when the database has a fault (an argument).  The index tables
  of PostgreSQL are an arbitrary \<open>push_store\<close>; \<open>st_status\<close> of the run goes to the
  projects of \<open>JobQueue\<close>.  Git synchronisation, the walk of the tree, the resolution of
  dependencies, JSON and the progress counters are arguments or left out; \<open>None\<close> is a panic,
  which ends the process.
\<close>

section \<open>The server's store\<close>

record 'x pg_state =
  pg_jobs :: jobs_db
  pg_rest :: 'x

definition lift_rest :: "('x \<Rightarrow> 'a result \<times> 'x) \<Rightarrow> 'x pg_state \<Rightarrow> 'a result \<times> 'x pg_state" where
  "lift_rest f d = (let (r, x) = f (pg_rest d) in (r, d\<lparr>pg_rest := x\<rparr>))"

definition pg_index_store :: "tenant_ctx option \<Rightarrow> 'x index_store \<Rightarrow> 'x pg_state index_store" where
  "pg_index_store tc st =
     \<lparr> st_deps = (\<lambda>i p ts. lift_rest (st_deps st i p ts)),
       st_up_to_date = (\<lambda>i p h k. lift_rest (st_up_to_date st i p h k)),
       st_upsert_file = (\<lambda>i p h n. lift_rest (st_upsert_file st i p h n)),
       st_delete_chunks = (\<lambda>i f. lift_rest (st_delete_chunks st i f)),
       st_delete_by_id = (\<lambda>i f. lift_rest (st_delete_by_id st i f)),
       st_delete_by_path = (\<lambda>i p. lift_rest (st_delete_by_path st i p)),
       st_insert_chunks = (\<lambda>i f cs es k. lift_rest (st_insert_chunks st i f cs es k)),
       st_insert_text = (\<lambda>i f cs k. lift_rest (st_insert_text st i f cs k)),
       st_lookup = (\<lambda>hs m k. lift_rest (st_lookup st hs m k)),
       st_insert_cache = (\<lambda>hs m es k. lift_rest (st_insert_cache st hs m es k)),
       st_set_worktree = (\<lambda>i w fs. lift_rest (st_set_worktree st i w fs)),
       st_remove_worktree = (\<lambda>i w p. lift_rest (st_remove_worktree st i w p)),
       st_prune = (\<lambda>i. lift_rest (st_prune st i)),
       st_commit = (\<lambda>i c. lift_rest (st_commit st i c)),
       st_status = (\<lambda>i x d. (Inr (), d\<lparr>pg_jobs := pg_update_project_status tc i x (pg_jobs d)\<rparr>)) \<rparr>"

definition pg_push_store :: "tenant_ctx option \<Rightarrow> 'x push_store \<Rightarrow> 'x pg_state push_store" where
  "pg_push_store tc pu =
     \<lparr> pu_index = pg_index_store tc (pu_index pu),
       pu_paths = (\<lambda>i. lift_rest (pu_paths pu i)),
       pu_prune_versions = (\<lambda>i p h. lift_rest (pu_prune_versions pu i p h)) \<rparr>"

record 'x server =
  sv_env :: env
  sv_emb :: embedder
  sv_tools :: "string list \<Rightarrow> tools"
  sv_git :: git_host
  sv_limits :: indexer_opts
  sv_base :: "'x push_store"
  sv_ensure :: "int \<Rightarrow> 'x \<Rightarrow> unit result \<times> 'x"
  sv_sync :: "pg_project \<Rightarrow> string result"
  sv_inventory :: "string \<Rightarrow> string list"
  sv_scan :: "string \<Rightarrow> int \<Rightarrow> string list result"
  sv_changed :: "string \<Rightarrow> 'x \<Rightarrow> string list result"
  sv_read :: "string \<Rightarrow> string \<Rightarrow> input_file"
  sv_force :: "string \<Rightarrow> bool"
  sv_decode :: "string \<Rightarrow> batch_body result"
  sv_resolve :: "string \<Rightarrow> unit result"
  sv_replace_deps :: "nat \<Rightarrow> string \<Rightarrow> 'x \<Rightarrow> unit result \<times> 'x"
  sv_fault :: "string \<Rightarrow> 'x pg_state \<Rightarrow> go_err option"

section \<open>Statements under a context\<close>

definition on_pg ::
  "'x server \<Rightarrow> string \<Rightarrow> ctx \<Rightarrow> ('x pg_state \<Rightarrow> 'a result \<times> 'x pg_state) \<Rightarrow> 'x pg_state run
     \<Rightarrow> 'a result \<times> 'x pg_state run" where
  "on_pg sv stmt cx f s =
     (case ctx_err cx (rn_world s) of
        Some e \<Rightarrow> (Inl e, s)
      | None \<Rightarrow>
          (case sv_fault sv stmt (rn_store s) of
             Some e \<Rightarrow> (Inl e, s)
           | None \<Rightarrow> on_store f s))"

definition on_jobs :: "(jobs_db \<Rightarrow> 'a result \<times> jobs_db) \<Rightarrow> 'x pg_state \<Rightarrow> 'a result \<times> 'x pg_state" where
  "on_jobs f d = (let (r, j) = f (pg_jobs d) in (r, d\<lparr>pg_jobs := j\<rparr>))"

text \<open>A statement that changes the tables and has no result.\<close>

definition exec_jobs ::
  "'x server \<Rightarrow> string \<Rightarrow> ctx \<Rightarrow> (jobs_db \<Rightarrow> jobs_db) \<Rightarrow> 'x pg_state run \<Rightarrow> unit result \<times> 'x pg_state run" where
  "exec_jobs sv stmt cx f = on_pg sv stmt cx (on_jobs (\<lambda>d. (Inr (), f d)))"

section \<open>The end of a job\<close>

definition job_failure ::
  "'x server \<Rightarrow> ctx \<Rightarrow> tenant_ctx option \<Rightarrow> job \<Rightarrow> string \<Rightarrow> 'x pg_state run \<Rightarrow> 'x pg_state run" where
  "job_failure sv cx tc j msg s =
     (let s1 = snd (exec_jobs sv ''FailJob'' cx (fail_job (w_now (rn_world s)) (jb_id j) msg) s)
      in snd (exec_jobs sv ''UpdateProjectStatus'' cx
                (pg_update_project_status tc (jb_project j) ''error'') s1))"

text \<open>\<open>CompleteJob\<close>, and the failure if even that cannot be recorded.\<close>

definition job_completion ::
  "'x server \<Rightarrow> ctx \<Rightarrow> tenant_ctx option \<Rightarrow> job \<Rightarrow> string \<Rightarrow> int \<Rightarrow> int \<Rightarrow> int \<Rightarrow> int
     \<Rightarrow> 'x pg_state run \<Rightarrow> 'x pg_state run" where
  "job_completion sv cx tc j what files chunks deleted errs s =
     (case exec_jobs sv ''CompleteJob'' cx
             (complete_job (w_now (rn_world s)) (jb_id j) files chunks deleted errs) s of
        (Inl e, s1) \<Rightarrow> job_failure sv cx tc j (what @ err_msg (en_quote (sv_env sv)) e) s1
      | (Inr _, s1) \<Rightarrow> s1)"

section \<open>Jobs\<close>

definition resolve_job_index_path :: "'x server \<Rightarrow> pg_project \<Rightarrow> string result" where
  "resolve_job_index_path sv pj =
     (if pp_source pj \<noteq> ''git'' then Inr (pp_path pj) else sv_sync sv pj)"

text \<open>The project's policy and the model, or the message of the failure.\<close>

definition prepare_job_embedder ::
  "'x server \<Rightarrow> ctx \<Rightarrow> pg_project \<Rightarrow> 'x pg_state run \<Rightarrow> (string + mode \<times> model_info) \<times> 'x pg_state run" where
  "prepare_job_embedder sv cx pj s =
     (let msg = err_msg (en_quote (sv_env sv))
      in case normalize_mode (en_lower (sv_env sv)) (pp_privacy pj) of
           Inl e \<Rightarrow> (Inl ''invalid project privacy policy'', s)
         | Inr m \<Rightarrow>
             (let mcx = (if m = Edge then with_force_local cx True else cx)
              in case on_world (em_info (sv_emb sv) mcx (pp_model pj)) s of
                   (Inl e, s1) \<Rightarrow> (Inl (''model info: '' @ msg e), s1)
                 | (Inr info, s1) \<Rightarrow>
                     (case on_pg sv ''EnsureChunksTable'' cx (lift_rest (sv_ensure sv (mi_dims info))) s1 of
                        (Inl e, s2) \<Rightarrow> (Inl (''ensure chunks table: '' @ msg e), s2)
                      | (Inr _, s2) \<Rightarrow> (Inr (m, info), s2))))"

definition indexer_opts_for_job :: "indexer_opts \<Rightarrow> string \<Rightarrow> indexer_opts" where
  "indexer_opts_for_job limits ty =
     limits\<lparr>op_git_mode := (ty = ''git_history''), op_git_since := ''30.days''\<rparr>"

definition apply_index_job_flags :: "'x server \<Rightarrow> job \<Rightarrow> pg_project \<Rightarrow> string \<Rightarrow> indexer \<Rightarrow> indexer" where
  "apply_index_job_flags sv j pj path ix0 =
     (let ix = (if jb_payload j \<noteq> [] \<and> sv_force sv (jb_payload j) then ix0\<lparr>ix_force := True\<rparr> else ix0)
      in if pp_source pj = ''git'' \<and> jb_type j \<noteq> ''git_history'' then ix\<lparr>ix_worktree := path\<rparr> else ix)"

definition persist_resolved_git_path ::
  "'x server \<Rightarrow> ctx \<Rightarrow> tenant_ctx option \<Rightarrow> job \<Rightarrow> pg_project \<Rightarrow> string \<Rightarrow> 'x pg_state run \<Rightarrow> 'x pg_state run" where
  "persist_resolved_git_path sv cx tc j pj path s =
     (if pp_source pj \<noteq> ''git'' \<or> path = pp_path pj then s
      else snd (exec_jobs sv ''UpdateProjectPath'' cx (pg_update_project_path tc (jb_project j) path) s))"

text \<open>\<open>IndexProject\<close> with the selection of the files.\<close>

definition run_indexer ::
  "'x server \<Rightarrow> ctx \<Rightarrow> tenant_ctx option \<Rightarrow> indexer \<Rightarrow> nat \<Rightarrow> string \<Rightarrow> string \<Rightarrow> 'x pg_state run
     \<Rightarrow> (index_stats \<times> go_err option) option \<times> 'x pg_state run" where
  "run_indexer sv cx tc ix pid path model s =
     (case resolve_index_files (sv_scan sv path) (sv_changed sv path (pg_rest (rn_store s)))
             (\<lambda>p. path_clean (path @ CHR ''/'' # p)) ix (op_max_files (sv_limits sv)) of
        Inl e \<Rightarrow> (Some (start_stats 0, Some e), s)
      | Inr files \<Rightarrow>
          index_project (sv_env sv) (sv_tools sv (sv_inventory sv path)) (sv_git sv) ix
            (pg_index_store tc (pu_index (sv_base sv))) (sv_emb sv) cx pid path model
            (map (sv_read sv path) files) s)"

definition run_index_job ::
  "'x server \<Rightarrow> ctx \<Rightarrow> tenant_ctx option \<Rightarrow> job \<Rightarrow> pg_project \<Rightarrow> 'x pg_state run \<Rightarrow> unit option \<times> 'x pg_state run" where
  "run_index_job sv cx tc j pj s =
     (let fail = job_failure sv cx tc j; msg = err_msg (en_quote (sv_env sv))
      in case resolve_job_index_path sv pj of
           Inl e \<Rightarrow> (Some (), fail (msg e) s)
         | Inr path \<Rightarrow>
             if path = [] then (Some (), fail ''project has no indexable source path (push projects upload via files/batch)'' s)
             else (case prepare_job_embedder sv cx pj (persist_resolved_git_path sv cx tc j pj path s) of
                     (Inl m, s1) \<Rightarrow> (Some (), fail m s1)
                   | (Inr (mode, info), s1) \<Rightarrow>
                       (let opts = (indexer_opts_for_job (sv_limits sv) (jb_type j))\<lparr>op_privacy := Some mode\<rparr>;
                            ix = apply_index_job_flags sv j pj path (new_indexer (mi_dims info) opts)
                        in case run_indexer sv cx tc ix (jb_project j) path (pp_model pj)
                                  (s1\<lparr>rn_left := initial_budget opts\<rparr>) of
                             (None, s2) \<Rightarrow> (None, s2)
                           | (Some (stats, Some e), s2) \<Rightarrow> (Some (), fail (''index: '' @ msg e) s2)
                           | (Some (stats, None), s2) \<Rightarrow>
                               (Some (), job_completion sv cx tc j ''complete index job: ''
                                  (int (is_indexed stats)) (int (is_chunks stats)) 0 (int (is_errors stats)) s2))))"

definition run_dependency_job ::
  "'x server \<Rightarrow> ctx \<Rightarrow> tenant_ctx option \<Rightarrow> job \<Rightarrow> pg_project \<Rightarrow> 'x pg_state run \<Rightarrow> 'x pg_state run" where
  "run_dependency_job sv cx tc j pj s =
     (let fail = job_failure sv cx tc j; msg = err_msg (en_quote (sv_env sv))
      in case resolve_job_index_path sv pj of
           Inl e \<Rightarrow> fail (msg e) s
         | Inr path \<Rightarrow>
             if path = [] then fail ''project has no local source path; use a customer agent'' s
             else (case sv_resolve sv path of
                     Inl e \<Rightarrow> fail (msg e) s
                   | Inr _ \<Rightarrow>
                       (case on_pg sv ''ReplaceProjectDependencies'' cx
                               (lift_rest (sv_replace_deps sv (pp_id pj) path)) s of
                          (Inl e, s1) \<Rightarrow> fail (''store dependencies: '' @ msg e) s1
                        | (Inr _, s1) \<Rightarrow> job_completion sv cx tc j ''complete dependency job: '' 0 0 0 0 s1)))"

definition run_batch_job ::
  "'x server \<Rightarrow> ctx \<Rightarrow> tenant_ctx option \<Rightarrow> job \<Rightarrow> pg_project \<Rightarrow> 'x pg_state run \<Rightarrow> unit option \<times> 'x pg_state run" where
  "run_batch_job sv cx tc j pj s =
     (let fail = job_failure sv cx tc j; msg = err_msg (en_quote (sv_env sv))
      in case sv_decode sv (jb_payload j) of
           Inl e \<Rightarrow> (Some (), fail (''invalid batch payload: '' @ msg e) s)
         | Inr b \<Rightarrow>
             (case prepare_job_embedder sv cx pj s of
                (Inl m, s1) \<Rightarrow> (Some (), fail m s1)
              | (Inr (mode, info), s1) \<Rightarrow>
                  (case process_batch_files (sv_env sv) (sv_tools sv) (sv_limits sv)
                          (pg_push_store tc (sv_base sv)) (sv_emb sv) cx pj b (mi_dims info) s1 of
                     (None, s2) \<Rightarrow> (None, s2)
                   | (Some n, s2) \<Rightarrow>
                       (Some (), job_completion sv cx tc j ''complete batch job: ''
                          (int (bc_indexed n)) (int (bc_chunks n)) (int (bc_deleted n)) (int (bc_errors n)) s2))))"

definition run_job ::
  "'x server \<Rightarrow> ctx \<Rightarrow> tenant_ctx option \<Rightarrow> job \<Rightarrow> 'x pg_state run \<Rightarrow> unit option \<times> 'x pg_state run" where
  "run_job sv cx tc j s =
     (case on_pg sv ''GetProjectByID'' cx (on_jobs (\<lambda>d. (get_project_by_id tc (jb_project j) d, d))) s of
        (Inl e, s1) \<Rightarrow>
          (Some (), job_failure sv cx tc j (''project not found: '' @ err_msg (en_quote (sv_env sv)) e) s1)
      | (Inr pj, s1) \<Rightarrow>
          if jb_type j = ''batch'' then run_batch_job sv cx tc j pj s1
          else if jb_type j = ''resolve_dependencies'' then (Some (), run_dependency_job sv cx tc j pj s1)
          else run_index_job sv cx tc j pj s1)"

text \<open>Whether a job was claimed; \<open>None\<close> if the run panicked.\<close>

definition claim_and_run ::
  "'x server \<Rightarrow> ctx \<Rightarrow> 'x pg_state run \<Rightarrow> bool option \<times> 'x pg_state run" where
  "claim_and_run sv cx s =
     (case on_pg sv ''ClaimJob'' cx (on_jobs (claim_job (w_now (rn_world s)))) s of
        (Inl e, s1) \<Rightarrow> (Some False, s1)
      | (Inr None, s1) \<Rightarrow> (Some False, s1)
      | (Inr (Some j), s1) \<Rightarrow>
          (let t = (if jb_tenant j \<le> 0 then default_tenant else jb_tenant j)
           in case tenant_with (bare_tenant t) of
                Inl e \<Rightarrow>
                  (Some True, snd (exec_jobs sv ''FailJob'' cx
                     (fail_job (w_now (rn_world s1)) (jb_id j) (err_msg (en_quote (sv_env sv)) e)) s1))
              | Inr tc \<Rightarrow> (case run_job sv cx tc j s1 of
                             (None, s2) \<Rightarrow> (None, s2) | (Some _, s2) \<Rightarrow> (Some True, s2))))"


section \<open>Only the last statement touches the job\<close>

definition job_rows :: "'x pg_state run \<Rightarrow> job_row list" where
  "job_rows s = jd_jobs (pg_jobs (rn_store s))"

lemma lift_rest_jobs [simp]: "pg_jobs (snd (lift_rest f d)) = pg_jobs d"
  by (simp add: lift_rest_def split_beta Let_def)

lemma project_update_jobs [simp]: "jd_jobs (pg_update_project tc i f d) = jd_jobs d"
  "jd_jobs (pg_update_project_status tc i x d) = jd_jobs d" "jd_jobs (pg_update_project_path tc i x d) = jd_jobs d"
  by (simp_all add: pg_update_project_def pg_update_project_status_def pg_update_project_path_def)

text \<open>The index operations of the server's store leave the job table alone.\<close>

interpretation pg_rows: kept_push "pg_push_store tc pu" "\<lambda>d. jd_jobs (pg_jobs d) = js" for tc pu js
  by unfold_locales (simp_all add: pg_push_store_def pg_index_store_def)

interpretation pg_index_rows: kept_store "pg_index_store tc st" "\<lambda>d. jd_jobs (pg_jobs d) = js" for tc st js
  by unfold_locales (simp_all add: pg_index_store_def)

lemma on_pg_rows:
  "on_pg sv stmt cx f s = (r, s1) \<Longrightarrow> (\<And>d. jd_jobs (pg_jobs (snd (f d))) = jd_jobs (pg_jobs d)) \<Longrightarrow>
     job_rows s1 = job_rows s"
  by (auto simp: on_pg_def on_store_def job_rows_def Let_def split_beta split: option.splits)

lemma on_world_rows: "on_world f s = (r, s1) \<Longrightarrow> job_rows s1 = job_rows s"
  by (auto simp: on_world_def job_rows_def Let_def split_beta)

lemma exec_project_rows:
  "(\<And>d. jd_jobs (f d) = jd_jobs d) \<Longrightarrow> job_rows (snd (exec_jobs sv stmt cx f s)) = job_rows s"
  unfolding exec_jobs_def by (rule on_pg_rows [OF surjective_pairing]) (simp add: on_jobs_def)

lemma exec_world [simp]: "rn_world (snd (exec_jobs sv stmt cx f s)) = rn_world s"
  by (auto simp: exec_jobs_def on_pg_def on_store_def Let_def split_beta split: option.splits)

lemma prepare_rows: "prepare_job_embedder sv cx pj s = (r, s1) \<Longrightarrow> job_rows s1 = job_rows s"
  unfolding prepare_job_embedder_def Let_def
  by (auto split: sum.splits prod.splits dest!: on_world_rows on_pg_rows [where f = "lift_rest g" for g])

lemma persist_rows [simp]: "job_rows (persist_resolved_git_path sv cx tc j pj path s) = job_rows s"
  by (simp add: persist_resolved_git_path_def exec_project_rows)

lemma index_rows:
  "index_project en tk gh ix (pg_index_store tc st) em cx i path m fs s = (r, s1) \<Longrightarrow> job_rows s1 = job_rows s"
  unfolding job_rows_def by (drule pg_index_rows.index_project_keeps [where js = "jd_jobs (pg_jobs (rn_store s))"]) simp

lemma run_indexer_rows: "run_indexer sv cx tc ix i path m s = (r, s1) \<Longrightarrow> job_rows s1 = job_rows s"
  unfolding run_indexer_def by (auto split: sum.splits dest!: index_rows)

lemma set_left_rows [simp]: "job_rows (s\<lparr>rn_left := n\<rparr>) = job_rows s"
  by (simp add: job_rows_def)

lemma process_rows:
  assumes "process_batch_files en tks limits (pg_push_store tc pu) em cx pj b k s = (r, s1)"
  shows "job_rows s1 = job_rows s"
  using pg_rows.process_batch_keeps [OF assms] by (auto simp: job_rows_def)

text \<open>How the job table looks when the worker of job \<open>i\<close> is done: the job has ended and all
  other rows are as before; or the context is over, or the statement that records the failure failed
  itself, and no row has changed.\<close>

definition over :: "ctx \<Rightarrow> 'x pg_state run \<Rightarrow> bool" where
  "over cx s \<longleftrightarrow> ctx_err cx (rn_world s) \<noteq> None"

definition fail_fault :: "'x server \<Rightarrow> job_row list \<Rightarrow> bool" where
  "fail_fault sv rs \<longleftrightarrow> (\<exists>d. jd_jobs (pg_jobs d) = rs \<and> sv_fault sv ''FailJob'' d \<noteq> None)"

definition row_ended :: "nat \<Rightarrow> job_row list \<Rightarrow> job_row list \<Rightarrow> bool" where
  "row_ended i =
     list_all2 (\<lambda>r q. if jr_id r = i then jr_id q = i \<and> (jr_status q = Succeeded \<or> jr_status q = Failed) else q = r)"

definition ended :: "'x server \<Rightarrow> ctx \<Rightarrow> nat \<Rightarrow> job_row list \<Rightarrow> 'x pg_state run \<Rightarrow> bool" where
  "ended sv cx i rs s1 \<longleftrightarrow>
     job_rows s1 = rs \<and> (over cx s1 \<or> fail_fault sv rs) \<or> \<not> over cx s1 \<and> row_ended i rs (job_rows s1)"

lemma exec_jobs_eq:
  "exec_jobs sv stmt cx f s =
    (if over cx s then (Inl (the (ctx_err cx (rn_world s))), s)
     else case sv_fault sv stmt (rn_store s) of
       Some e \<Rightarrow> (Inl e, s)
     | None \<Rightarrow> (Inr (), s\<lparr>rn_store := (rn_store s)\<lparr>pg_jobs := f (pg_jobs (rn_store s))\<rparr>\<rparr>))"
  by (auto simp: exec_jobs_def on_pg_def on_store_def on_jobs_def over_def Let_def split: option.splits)

lemma exec_over [simp]: "over cx (snd (exec_jobs sv stmt cx' f s)) = over cx s"
  by (simp add: over_def)

lemma fail_job_ended: "row_ended i rs (jd_jobs (fail_job now i msg d))" if "jd_jobs d = rs"
  using that by (simp add: fail_job_def update_job_def row_ended_def list_all2_conv_all_nth)

lemma complete_job_ended: "row_ended i rs (jd_jobs (complete_job now i a b c e d))" if "jd_jobs d = rs"
  using that by (simp add: complete_job_def update_job_def row_ended_def list_all2_conv_all_nth)

lemma failure_from:
  assumes "job_rows s = rs" shows "ended sv cx (jb_id j) rs (job_failure sv cx tc j msg s)"
proof -
  let ?s1 = "snd (exec_jobs sv ''FailJob'' cx (fail_job (w_now (rn_world s)) (jb_id j) msg) s)"
  have rows: "job_rows (job_failure sv cx tc j msg s) = job_rows ?s1"
    by (simp add: job_failure_def Let_def exec_project_rows)
  have ov: "over cx (job_failure sv cx tc j msg s) = over cx s" by (simp add: job_failure_def Let_def)
  show ?thesis
  proof (cases "over cx s \<or> sv_fault sv ''FailJob'' (rn_store s) \<noteq> None")
    case True
    then have "job_rows ?s1 = rs" by (auto simp: exec_jobs_eq assms)
    moreover have "over cx s \<or> fail_fault sv rs" using True assms by (auto simp: fail_fault_def job_rows_def)
    ultimately show ?thesis by (simp add: ended_def rows ov)
  next
    case False
    then have "job_rows ?s1 = jd_jobs (fail_job (w_now (rn_world s)) (jb_id j) msg (pg_jobs (rn_store s)))"
      by (simp add: exec_jobs_eq job_rows_def)
    moreover have "jd_jobs (pg_jobs (rn_store s)) = rs" using assms by (simp add: job_rows_def)
    ultimately show ?thesis using False by (simp add: ended_def rows ov fail_job_ended)
  qed
qed

lemma completion_from:
  assumes "job_rows s = rs" shows "ended sv cx (jb_id j) rs (job_completion sv cx tc j what a b c d s)"
proof (cases "exec_jobs sv ''CompleteJob'' cx (complete_job (w_now (rn_world s)) (jb_id j) a b c d) s")
  case (Pair q s1)
  show ?thesis
  proof (cases q)
    case (Inl e)
    with Pair have "s1 = s" by (auto simp: exec_jobs_eq split: if_splits option.splits)
    with Pair Inl show ?thesis
      using failure_from [OF assms, of sv cx j tc "what @ err_msg (en_quote (sv_env sv)) e"]
      by (simp add: job_completion_def del: err_msg.simps)
  next
    case (Inr u)
    with Pair have no: "\<not> over cx s" and s1: "s1 = s\<lparr>rn_store := (rn_store s)\<lparr>pg_jobs :=
        complete_job (w_now (rn_world s)) (jb_id j) a b c d (pg_jobs (rn_store s))\<rparr>\<rparr>"
      by (auto simp: exec_jobs_eq split: if_splits option.splits)
    have "over cx s1 = over cx s" "job_rows s1 = jd_jobs (complete_job (w_now (rn_world s)) (jb_id j) a b c d (pg_jobs (rn_store s)))"
      by (simp_all add: s1 over_def job_rows_def)
    with no Pair Inr assms show ?thesis
      by (simp add: job_completion_def ended_def complete_job_ended job_rows_def)
  qed
qed

lemma index_job_ends:
  assumes "run_index_job sv cx tc j pj s = (Some u, s1)"
  shows "ended sv cx (jb_id j) (job_rows s) s1"
proof -
  note fe = failure_from completion_from
  show ?thesis
  proof (cases "resolve_job_index_path sv pj")
    case (Inl e)
    with assms show ?thesis by (auto simp: run_index_job_def intro!: fe)
  next
    case (Inr path)
    show ?thesis
    proof (cases "path = []")
      case True
      with Inr assms show ?thesis by (auto simp: run_index_job_def intro!: fe)
    next
      case False
      obtain p s2 where 1: "prepare_job_embedder sv cx pj (persist_resolved_git_path sv cx tc j pj path s) = (p, s2)"
        by fastforce
      from prepare_rows [OF 1] have rows: "job_rows s2 = job_rows s" by simp
      show ?thesis
      proof (cases p)
        case (Inl m)
        with \<open>resolve_job_index_path sv pj = Inr path\<close> False 1 assms rows show ?thesis by (auto simp: run_index_job_def intro!: fe)
      next
        case (Inr mi)
        let ?opts = "(indexer_opts_for_job (sv_limits sv) (jb_type j))\<lparr>op_privacy := Some (fst mi)\<rparr>"
        obtain q s3 where 2: "run_indexer sv cx tc (apply_index_job_flags sv j pj path (new_indexer (mi_dims (snd mi)) ?opts))
            (jb_project j) path (pp_model pj) (s2\<lparr>rn_left := initial_budget ?opts\<rparr>) = (q, s3)" by fastforce
        from run_indexer_rows [OF 2] rows have "job_rows s3 = job_rows s" by simp
        with 1 2 Inr \<open>resolve_job_index_path sv pj = Inr path\<close> False assms show ?thesis
          by (auto simp: run_index_job_def Let_def split_beta intro!: fe split: option.splits prod.splits)
      qed
    qed
  qed
qed

lemma batch_job_ends:
  assumes "run_batch_job sv cx tc j pj s = (Some u, s1)"
  shows "ended sv cx (jb_id j) (job_rows s) s1"
proof -
  note fe = failure_from completion_from
  obtain p s2 where 1: "prepare_job_embedder sv cx pj s = (p, s2)" by fastforce
  note rows = prepare_rows [OF 1]
  obtain q s3 where 2: "process_batch_files (sv_env sv) (sv_tools sv) (sv_limits sv) (pg_push_store tc (sv_base sv))
      (sv_emb sv) cx pj (projr (sv_decode sv (jb_payload j))) (mi_dims (snd (projr p))) s2 = (q, s3)" by fastforce
  from process_rows [OF this] rows have "job_rows s3 = job_rows s" by simp
  with 1 2 rows assms show ?thesis
    by (auto simp: run_batch_job_def Let_def intro!: fe split: sum.splits option.splits prod.splits)
qed

lemma dependency_job_ends:
  "ended sv cx (jb_id j) (job_rows s) (run_dependency_job sv cx tc j pj s)"
proof -
  note fe = failure_from completion_from
  obtain q s2 where 1: "on_pg sv ''ReplaceProjectDependencies'' cx
      (lift_rest (sv_replace_deps sv (pp_id pj) (projr (resolve_job_index_path sv pj)))) s = (q, s2)" by fastforce
  from on_pg_rows [OF this] have "job_rows s2 = job_rows s" by simp
  with 1 show ?thesis
    by (auto simp: run_dependency_job_def Let_def intro!: fe split: sum.splits)
qed

lemma job_ends:
  assumes "run_job sv cx tc j s = (Some u, s1)"
  shows "ended sv cx (jb_id j) (job_rows s) s1"
proof -
  obtain q s2 where 1: "on_pg sv ''GetProjectByID'' cx (on_jobs (\<lambda>d. (get_project_by_id tc (jb_project j) d, d))) s = (q, s2)"
    by fastforce
  from on_pg_rows [OF this] have "job_rows s2 = job_rows s" by (simp add: on_jobs_def)
  with 1 assms dependency_job_ends [of sv cx j s2 tc "projr q"]
    batch_job_ends [of sv cx tc j "projr q" s2 u s1] index_job_ends [of sv cx tc j "projr q" s2 u s1]
  show ?thesis by (auto simp: run_job_def intro!: failure_from split: sum.splits if_splits)
qed


section \<open>What becomes of a claimed job\<close>

lemma claim_keeps_world:
  "on_pg sv stmt cx f s = (r, s1) \<Longrightarrow> rn_world s1 = rn_world s"
  by (auto simp: on_pg_def on_store_def Let_def split_beta split: option.splits)

lemma claim_step:
  assumes "on_pg sv ''ClaimJob'' cx (on_jobs (claim_job now)) s = (Inr (Some j), s1)"
  obtains r where "r \<in> set (job_rows s)" "jr_status r = Queued" "jb_id j = jr_id r"
    "job_rows s1 = map (\<lambda>q. if jr_id q = jr_id r then q\<lparr>jr_status := Running, jr_started := Some now\<rparr> else q) (job_rows s)"
proof -
  define d where "d = snd (claim_job now (pg_jobs (rn_store s)))"
  have d: "claim_job now (pg_jobs (rn_store s)) = (Inr (Some j), d)" "job_rows s1 = jd_jobs d"
    using assms by (auto simp: on_pg_def on_store_def on_jobs_def job_rows_def Let_def split_beta d_def prod_eq_iff
        split: option.splits)
  from claim_job_cases [OF d(1)] obtain r where
    r: "find (\<lambda>r. jr_status r = Queued) (jd_jobs (pg_jobs (rn_store s))) = Some r" "jb_id j = jr_id r"
      "d = update_job (\<lambda>q. jr_id q = jr_id r) (\<lambda>q. q\<lparr>jr_status := Running, jr_started := Some now\<rparr>) (pg_jobs (rn_store s))"
    by metis
  from find_SomeD [OF r(1)] r(2,3) d(2) show ?thesis by (intro that) (auto simp: job_rows_def)
qed

lemma claim_and_run_ends:
  assumes "claim_and_run sv cx s = (Some True, s1)"
  obtains j s2 where
    "on_pg sv ''ClaimJob'' cx (on_jobs (claim_job (w_now (rn_world s)))) s = (Inr (Some j), s2)"
    "ended sv cx (jb_id j) (job_rows s2) s1"
proof -
  obtain q s2 where 1: "on_pg sv ''ClaimJob'' cx (on_jobs (claim_job (w_now (rn_world s)))) s = (q, s2)" by fastforce
  then obtain j where q: "q = Inr (Some j)"
    using assms by (auto simp: claim_and_run_def split: sum.splits option.splits)
  let ?t = "bare_tenant (if jb_tenant j \<le> 0 then default_tenant else jb_tenant j)"
  have "tenant_with ?t = Inr (Some ?t)" by (simp add: tenant_with_def default_tenant_def)
  with 1 q assms obtain u where "run_job sv cx (Some ?t) j s2 = (Some u, s1)"
    by (auto simp: claim_and_run_def Let_def split: option.splits prod.splits)
  from job_ends [OF this] 1 q show ?thesis by (intro that) auto
qed

lemma ended_others:
  assumes "row_ended i rs rs1"
  shows "filter (\<lambda>p. jr_id p \<noteq> i) rs1 = filter (\<lambda>p. jr_id p \<noteq> i) rs"
  using assms unfolding row_ended_def by (induction rule: list_all2_induct) (auto split: if_splits)

lemma ended_this:
  assumes "row_ended i rs rs1" "r \<in> set rs" "jr_id r = i"
  obtains q where "q \<in> set rs1" "jr_id q = i" "jr_status q = Succeeded \<or> jr_status q = Failed"
proof -
  obtain n where n: "n < length rs" "rs ! n = r" using assms(2) by (auto simp: in_set_conv_nth)
  with assms(1,3) have "n < length rs1" "jr_id (rs1 ! n) = i" "jr_status (rs1 ! n) = Succeeded \<or> jr_status (rs1 ! n) = Failed"
    by (auto simp: row_ended_def list_all2_conv_all_nth)
  then show ?thesis by (intro that [of "rs1 ! n"]) auto
qed

lemma filter_map_other:
  "(\<And>x. P x \<Longrightarrow> f x = x) \<Longrightarrow> (\<And>x. \<not> P x \<Longrightarrow> \<not> P (f x)) \<Longrightarrow> filter P (map f xs) = filter P xs"
  by (induction xs) auto



section \<open>A shutdown during a job\<close>

text \<open>A server that gets its stop signal while the worker asks for the model.\<close>

definition stopping_embedder :: embedder where
  "stopping_embedder = deaf_embedder
     \<lparr>em_info := (\<lambda>cx m w. (Inl Canceled, w\<lparr>w_canceled := Some Canceled\<rparr>))\<rparr>"

definition stopping_server :: "db server" where
  "stopping_server =
     \<lparr>sv_env = fixed_env ok_reply, sv_emb = stopping_embedder, sv_tools = (\<lambda>ps. demo_tools), sv_git = demo_host,
      sv_limits = demo_opts, sv_base = sqlite_push id, sv_ensure = (\<lambda>k x. (Inr (), x)), sv_sync = (\<lambda>p. Inr []),
      sv_inventory = (\<lambda>p. []), sv_scan = (\<lambda>p n. Inr []), sv_changed = (\<lambda>p x. Inr []),
      sv_read = (\<lambda>p f. (f, Inr [])), sv_force = (\<lambda>p. False), sv_decode = (\<lambda>p. Inl (Plain [])),
      sv_resolve = (\<lambda>p. Inr ()), sv_replace_deps = (\<lambda>i p x. (Inr (), x)), sv_fault = (\<lambda>stmt d. None)\<rparr>"

definition queued_row :: job_row where
  "queued_row = (demo_row Queued 0)\<lparr>jr_started := None\<rparr>"

definition waiting_run :: "db pg_state run" where
  "waiting_run =
     \<lparr>rn_store = \<lparr>pg_jobs = \<lparr>jd_projects = [demo_project], jd_jobs = [queued_row], jd_next = 2\<rparr>, pg_rest = demo_db\<rparr>,
      rn_world = start_world (new_circuit_breaker 0 0), rn_left = 0\<rparr>"

definition stopped_run :: "db pg_state run" where
  "stopped_run =
     waiting_run\<lparr>rn_store := \<lparr>pg_jobs = \<lparr>jd_projects = [demo_project], jd_jobs = [demo_row Running 0], jd_next = 2\<rparr>,
         pg_rest = demo_db\<rparr>,
       rn_world := (rn_world waiting_run)\<lparr>w_canceled := Some Canceled\<rparr>\<rparr>"

lemma stopping_claim: "claim_and_run stopping_server plain_ctx waiting_run = (Some True, stopped_run)"
proof -
  have m: "normalize_mode (en_lower (fixed_env ok_reply)) ''hybrid'' = Inr Hybrid" by code_simp
  show ?thesis
    by (simp add: claim_and_run_def on_pg_def ctx_err_def plain_ctx_def waiting_run_def stopped_run_def start_world_def
        stopping_server_def on_store_def on_jobs_def queued_row_def demo_defs tenant_with_def run_job_def
        get_project_by_id_def scoped_def active_workspace_id_def run_index_job_def resolve_job_index_path_def
        persist_resolved_git_path_def prepare_job_embedder_def m stopping_embedder_def on_world_def
        job_failure_def exec_jobs_def)
qed


end
