(* ===== verification/SearchBase.thy ===== *)
theory SearchBase
  imports GoPrelude Complex_Main
begin

text \<open>
  What the search code shares: the hits (\<open>store.SearchResult\<close>), Go's sorting functions as an
  interface, the classification of queries (\<open>internal/search/routing.go\<close>, \<open>limits.go\<close>) and the
  words of a keyword query (\<open>internal/keyword/words.go\<close>).  A \<open>float64\<close> score is an exact
  rational: the rounding of IEEE arithmetic is not modelled.
\<close>

section \<open>Hits\<close>

record search_result =
  sr_path :: string
  sr_content :: string
  sr_score :: rat
  sr_start :: int
  sr_end :: int
  sr_confidence :: string
  sr_symbol :: string
  sr_stale :: bool
  sr_indexed_at :: int
  sr_source :: string
  sr_depth :: int

definition demo_hit :: "string \<Rightarrow> int \<Rightarrow> search_result" where
  "demo_hit p n =
     \<lparr> sr_path = p, sr_content = [], sr_score = 0, sr_start = n, sr_end = n + 9, sr_confidence = [],
       sr_symbol = [], sr_stale = False, sr_indexed_at = 0, sr_source = [], sr_depth = 0 \<rparr>"

definition tag_result_source :: "string \<Rightarrow> search_result list \<Rightarrow> search_result list" where
  "tag_result_source source = map (\<lambda>r. if sr_source r = [] then r\<lparr>sr_source := source\<rparr> else r)"

section \<open>Sorting by a comparison\<close>

text \<open>
  \<open>slices.SortFunc\<close> promises a sorted permutation when the comparison is a strict weak order on
  the elements, and says nothing of the order of equal elements.  \<open>sort_func\<close> is this contract;
  \<open>insertion_sort\<close> is the algorithm the library runs on at most twelve elements.
\<close>

definition cmp_ok :: "('a \<Rightarrow> 'a \<Rightarrow> int) \<Rightarrow> 'a set \<Rightarrow> bool" where
  "cmp_ok cmp A \<longleftrightarrow>
     (\<forall>a\<in>A. \<forall>b\<in>A. cmp a b < 0 \<longleftrightarrow> 0 < cmp b a) \<and>
     (\<forall>a\<in>A. \<forall>b\<in>A. \<forall>c\<in>A. cmp a b \<le> 0 \<longrightarrow> cmp b c \<le> 0 \<longrightarrow> cmp a c \<le> 0)"

definition in_order :: "('a \<Rightarrow> 'a \<Rightarrow> int) \<Rightarrow> 'a list \<Rightarrow> bool" where
  "in_order cmp = sorted_wrt (\<lambda>a b. cmp a b \<le> 0)"

lemma cmp_ok_flip: "cmp_ok cmp A \<Longrightarrow> a \<in> A \<Longrightarrow> b \<in> A \<Longrightarrow> cmp a b < 0 \<longleftrightarrow> 0 < cmp b a"
  unfolding cmp_ok_def by blast

lemma cmp_ok_swap: "cmp_ok cmp A \<Longrightarrow> a \<in> A \<Longrightarrow> b \<in> A \<Longrightarrow> \<not> cmp a b < 0 \<Longrightarrow> cmp b a \<le> 0"
  using cmp_ok_flip [of cmp A a b] by simp

lemma cmp_ok_trans:
  "cmp_ok cmp A \<Longrightarrow> a \<in> A \<Longrightarrow> b \<in> A \<Longrightarrow> c \<in> A \<Longrightarrow> cmp a b \<le> 0 \<Longrightarrow> cmp b c \<le> 0 \<Longrightarrow> cmp a c \<le> 0"
  unfolding cmp_ok_def by blast

lemma cmp_ok_subset: "cmp_ok cmp B \<Longrightarrow> A \<subseteq> B \<Longrightarrow> cmp_ok cmp A"
  unfolding cmp_ok_def by blast

text \<open>A comparison through a key of a linear order is a strict weak order.\<close>

lemma cmp_ok_key:
  fixes key :: "'a \<Rightarrow> 'k::linorder"
  assumes "\<And>a b. a \<in> A \<Longrightarrow> b \<in> A \<Longrightarrow> cmp a b = (if key a < key b then - 1 else if key a > key b then 1 else 0)"
  shows "cmp_ok cmp A"
  unfolding cmp_ok_def
proof (intro conjI ballI impI)
  fix a b assume ab: "a \<in> A" "b \<in> A"
  show "cmp a b < 0 \<longleftrightarrow> 0 < cmp b a"
    unfolding assms [OF ab] assms [OF ab(2,1)] by auto
next
  fix a b c assume ab: "a \<in> A" "b \<in> A" and c: "c \<in> A" and le: "cmp a b \<le> 0" "cmp b c \<le> 0"
  from le show "cmp a c \<le> 0"
    unfolding assms [OF ab] assms [OF ab(2) c] assms [OF ab(1) c] by (auto split: if_splits)
qed

text \<open>Two sorted lists of the same elements agree when no two different elements are equal for
  the comparison.\<close>

lemma in_order_unique:
  assumes "cmp_ok cmp (set xs)" "\<And>a b. a \<in> set xs \<Longrightarrow> b \<in> set xs \<Longrightarrow> cmp a b = 0 \<Longrightarrow> a = b"
    "in_order cmp xs" "in_order cmp ys" "mset xs = mset ys"
  shows "xs = ys"
  using assms
proof (induction xs arbitrary: ys)
  case (Cons x xs)
  then obtain y ys' where ys: "ys = y # ys'" by (cases ys) auto
  have xy: "x \<in> set ys" "y \<in> set (x # xs)" "set ys = set (x # xs)"
    using Cons.prems(5) ys by (metis list.set_intros(1) mset_eq_setD)+
  have "cmp x y \<le> 0 \<or> x = y" using xy(2) Cons.prems(3) by (auto simp: in_order_def)
  moreover have "cmp y x \<le> 0 \<or> x = y" using xy(1) ys Cons.prems(4) by (auto simp: in_order_def)
  ultimately have "x = y"
    using Cons.prems(2) [of x y] cmp_ok_flip [OF Cons.prems(1), of x y] xy(2)
    by (metis list.set_intros(1) order.antisym not_less)
  moreover have "xs = ys'"
  proof (rule Cons.IH)
    show "cmp_ok cmp (set xs)" using Cons.prems(1) by (rule cmp_ok_subset) auto
  qed (use Cons.prems ys \<open>x = y\<close> in \<open>auto simp: in_order_def\<close>)
  ultimately show ?case using ys by simp
qed simp

locale sort_func =
  fixes sortf :: "('a \<Rightarrow> 'a \<Rightarrow> int) \<Rightarrow> 'a list \<Rightarrow> 'a list"
  assumes sort_mset: "mset (sortf cmp xs) = mset xs"
    and sort_order: "cmp_ok cmp (set xs) \<Longrightarrow> in_order cmp (sortf cmp xs)"
begin

lemma sort_set: "set (sortf cmp xs) = set xs"
  by (metis sort_mset mset_eq_setD)

lemma sort_length: "length (sortf cmp xs) = length xs"
  by (metis sort_mset size_mset)

lemma sort_prefix:
  assumes "out = map f (take n (sortf cmp xs))" "i < length out"
  shows "i < length xs \<and> out ! i = f (sortf cmp xs ! i) \<and> sortf cmp xs ! i \<in> set xs"
proof -
  have i: "i < length xs" "out ! i = f (sortf cmp xs ! i)" using assms by (auto simp: sort_length)
  then show ?thesis using sort_set sort_length by (metis nth_mem)
qed

lemma sort_below:
  assumes "cmp_ok cmp (set xs)" "i < length xs" "j < length xs"
    "cmp (sortf cmp xs ! i) (sortf cmp xs ! j) < 0"
  shows "i < j"
proof (rule ccontr)
  let ?s = "sortf cmp xs"
  assume "\<not> i < j"
  then consider "i = j" | "j < i" by linarith
  then show False
  proof cases
    case 1
    then have "?s ! i \<in> set xs" using assms(2) sort_set sort_length by (metis nth_mem)
    with cmp_ok_flip [OF assms(1) this this] 1 assms(4) show False by simp
  next
    case 2
    with sort_order [OF assms(1)] have "cmp (?s ! j) (?s ! i) \<le> 0"
      using assms(2) by (simp add: in_order_def sorted_wrt_iff_nth_less sort_length)
    moreover have "?s ! i \<in> set xs" "?s ! j \<in> set xs"
      using assms(2,3) sort_set sort_length by (metis nth_mem)+
    ultimately show False using cmp_ok_flip [OF assms(1)] assms(4) by (meson not_less)
  qed
qed

lemma sort_agree:
  assumes "cmp_ok cmp (set xs)" "\<And>a b. a \<in> set xs \<Longrightarrow> b \<in> set xs \<Longrightarrow> cmp a b = 0 \<Longrightarrow> a = b"
    "mset xs = mset ys"
  shows "sortf cmp xs = sortf cmp ys"
proof (rule in_order_unique)
  have "set ys = set xs" using assms(3) by (metis mset_eq_setD)
  then show "in_order cmp (sortf cmp ys)" using assms(1) by (simp add: sort_order)
qed (use assms in \<open>auto simp: sort_set sort_order sort_mset\<close>)

end

fun insert_back :: "('a \<Rightarrow> 'a \<Rightarrow> int) \<Rightarrow> 'a \<Rightarrow> 'a list \<Rightarrow> 'a list" where
  "insert_back cmp x [] = [x]"
| "insert_back cmp x (y # ys) = (if cmp x y < 0 then y # insert_back cmp x ys else x # y # ys)"

definition insertion_sort :: "('a \<Rightarrow> 'a \<Rightarrow> int) \<Rightarrow> 'a list \<Rightarrow> 'a list" where
  "insertion_sort cmp xs = rev (fold (insert_back cmp) xs [])"

lemma insert_back_mset: "mset (insert_back cmp x ys) = add_mset x (mset ys)"
  by (induction ys) auto

lemma insert_back_order:
  "cmp_ok cmp (insert x (set ys)) \<Longrightarrow> sorted_wrt (\<lambda>a b. cmp b a \<le> 0) ys \<Longrightarrow>
     sorted_wrt (\<lambda>a b. cmp b a \<le> 0) (insert_back cmp x ys)"
proof (induction ys)
  case (Cons y ys)
  have ok: "cmp_ok cmp (insert x (set ys))" using Cons.prems(1) by (rule cmp_ok_subset) auto
  have set: "set (insert_back cmp x ys) = insert x (set ys)"
    by (metis insert_back_mset set_mset_add_mset_insert set_mset_mset)
  show ?case
  proof (cases "cmp x y < 0")
    case True
    with Cons.IH [OF ok] Cons.prems(2) set show ?thesis by auto
  next
    case False
    have yx: "cmp y x \<le> 0" using cmp_ok_swap [OF Cons.prems(1) _ _ False] by simp
    have "cmp z x \<le> 0" if "z \<in> set ys" for z
      using cmp_ok_trans [OF Cons.prems(1), of z y x] Cons.prems(2) that yx by simp
    with yx False Cons.prems(2) show ?thesis by simp
  qed
qed simp

lemma insertion_fold_mset: "mset (fold (insert_back cmp) xs ys) = mset xs + mset ys"
  by (induction xs arbitrary: ys) (auto simp: insert_back_mset)

lemma insertion_fold_order:
  "cmp_ok cmp (set xs \<union> set ys) \<Longrightarrow> sorted_wrt (\<lambda>a b. cmp b a \<le> 0) ys \<Longrightarrow>
     sorted_wrt (\<lambda>a b. cmp b a \<le> 0) (fold (insert_back cmp) xs ys)"
proof (induction xs arbitrary: ys)
  case (Cons x xs)
  have set: "set (insert_back cmp x ys) = insert x (set ys)"
    by (metis insert_back_mset set_mset_add_mset_insert set_mset_mset)
  have "sorted_wrt (\<lambda>a b. cmp b a \<le> 0) (insert_back cmp x ys)"
    by (rule insert_back_order [OF cmp_ok_subset [OF Cons.prems(1)]]) (use Cons.prems(2) in auto)
  then show ?case using Cons.IH [of "insert_back cmp x ys"] Cons.prems(1) set by simp
qed simp

interpretation go_sort: sort_func insertion_sort
proof
  fix cmp :: "'a \<Rightarrow> 'a \<Rightarrow> int" and xs :: "'a list"
  show "mset (insertion_sort cmp xs) = mset xs"
    by (simp add: insertion_sort_def insertion_fold_mset)
  assume "cmp_ok cmp (set xs)"
  then show "in_order cmp (insertion_sort cmp xs)"
    using insertion_fold_order [of cmp xs "[]"]
    by (simp add: insertion_sort_def in_order_def sorted_wrt_rev)
qed

section \<open>Limits and query routing\<close>

definition max_top_k :: nat where
  "max_top_k = 1000"

definition clamp_graph_depth :: "int \<Rightarrow> nat" where
  "clamp_graph_depth depth = nat (if depth \<le> 0 then 2 else if depth > 5 then 5 else depth)"

datatype query_type =
  QueryUnknown | QueryIdentifier | QueryPath | QueryExact | QueryNaturalLanguage

definition is_letter :: "char \<Rightarrow> bool" where
  "is_letter c \<longleftrightarrow>
     (CHR ''a'' \<le> c \<and> c \<le> CHR ''z'') \<or> (CHR ''A'' \<le> c \<and> c \<le> CHR ''Z'') \<or> c = CHR ''_''"

definition is_identifier :: "string \<Rightarrow> bool" where
  "is_identifier s \<longleftrightarrow>
     (case s of [] \<Rightarrow> False
      | c # cs \<Rightarrow> is_letter c \<and>
          list_all (\<lambda>d. is_letter d \<or> (CHR ''0'' \<le> d \<and> d \<le> CHR ''9'') \<or> d = CHR ''.'') cs)"

definition classify_query :: "string \<Rightarrow> query_type" where
  "classify_query query =
     (if query = [] then QueryUnknown
      else if has_prefix query [CHR 0x22] \<and> has_suffix query [CHR 0x22] \<and> length query \<ge> 2 then QueryExact
      else if str_contains query ''/'' then QueryPath
      else if list_ex (\<lambda>c. c \<in> {CHR '' '', CHR 0x09, CHR 0x0A}) query then QueryNaturalLanguage
      else if is_identifier query then QueryIdentifier
      else QueryNaturalLanguage)"

definition routes_to_keyword :: "query_type \<Rightarrow> bool" where
  "routes_to_keyword qt \<longleftrightarrow>
     (case qt of QueryIdentifier \<Rightarrow> True | QueryPath \<Rightarrow> True | QueryExact \<Rightarrow> True | _ \<Rightarrow> False)"

definition keyword_query_for_routing :: "string \<Rightarrow> query_type \<Rightarrow> string" where
  "keyword_query_for_routing query qt =
     (if qt = QueryExact \<and> length query \<ge> 2 then slice query 1 (length query - 1) else query)"

lemma exact_query_unquoted:
  "classify_query (CHR 0x22 # q @ [CHR 0x22]) = QueryExact \<and>
   keyword_query_for_routing (CHR 0x22 # q @ [CHR 0x22]) QueryExact = q"
  by (simp add: classify_query_def has_prefix_def has_suffix_def keyword_query_for_routing_def slice_def)

section \<open>The words of a keyword query\<close>

text \<open>\<open>strings.Fields\<close>: the pieces between runs of white space.\<close>

fun span_word :: "string \<Rightarrow> string \<times> string" where
  "span_word [] = ([], [])"
| "span_word (c # s) =
     (if list_ex (has_prefix (c # s)) space_seqs then ([], c # s)
      else (let (w, r) = span_word s in (c # w, r)))"

lemma span_word_split: "fst (span_word s) @ snd (span_word s) = s"
  by (induction s) (auto simp: case_prod_beta)

function fields :: "string \<Rightarrow> string list" where
  "fields s =
     (case trim_left_space s of [] \<Rightarrow> []
      | c # t \<Rightarrow> (c # fst (span_word t)) # fields (snd (span_word t)))"
  by auto

termination
proof (relation "measure length", goal_cases)
  case (2 s c t)
  have "length (snd (span_word t)) \<le> length t"
    by (metis span_word_split le_add2 length_append)
  moreover have "length (c # t) \<le> length s"
    using trim_seqs_length [of space_seqs s] 2 by (simp add: trim_left_space_def)
  ultimately show ?case by simp
qed simp

declare fields.simps [simp del]

fun filter_words :: "(string \<Rightarrow> string) \<Rightarrow> string list \<Rightarrow> string list \<Rightarrow> nat \<Rightarrow> string list" where
  "filter_words ul seen [] n = []"
| "filter_words ul seen (w # ws) n =
     (if length w < 3 \<or> length w > 256 then filter_words ul seen ws n
      else if to_lower ul w \<in> set seen then filter_words ul seen ws n
      else if Suc n = 20 then [w]
      else w # filter_words ul (to_lower ul w # seen) ws (Suc n))"

definition filter_search_words :: "(string \<Rightarrow> string) \<Rightarrow> string \<Rightarrow> string list" where
  "filter_search_words ul query = filter_words ul [] (fields query) 0"

lemma filter_words_ok:
  "n < 20 \<Longrightarrow> length (filter_words ul seen ws n) + n \<le> 20 \<and>
     distinct (map (to_lower ul) (filter_words ul seen ws n)) \<and>
     set (map (to_lower ul) (filter_words ul seen ws n)) \<inter> set seen = {} \<and>
     list_all (\<lambda>w. 3 \<le> length w \<and> length w \<le> 256) (filter_words ul seen ws n)"
  by (induction ul seen ws n rule: filter_words.induct) auto

lemma filter_search_words_ok:
  "length (filter_search_words ul q) \<le> 20 \<and>
   distinct (map (to_lower ul) (filter_search_words ul q)) \<and>
   list_all (\<lambda>w. 3 \<le> length w \<and> length w \<le> 256) (filter_search_words ul q)"
  using filter_words_ok [of 0 ul "[]" "fields q"] by (simp add: filter_search_words_def)

end
