(* ===== verification/SearchFuse.thy ===== *)
theory SearchFuse
  imports SearchBase
begin

text \<open>
  \<open>internal/search/hybrid.go\<close>: the fusion of the vector and the keyword hits of one project.
  The sort is an argument under the contract \<open>sort_func\<close>.  Proved: which hits the fusion
  keeps, the gap between two fused scores that makes the tolerant comparison an order, and that
  every hit of both lists comes before every hit of one.
\<close>

section \<open>Reciprocal rank fusion\<close>

definition chunk_key_of :: "search_result \<Rightarrow> string" where
  "chunk_key_of r = sr_path r @ ''|'' @ fmt_int (sr_start r)"

text \<open>The rank of a key is that of its last hit.\<close>

fun build_ranks_from :: "nat \<Rightarrow> search_result list \<Rightarrow> (string \<Rightarrow> nat option) \<Rightarrow> string \<Rightarrow> nat option" where
  "build_ranks_from i [] m = m"
| "build_ranks_from i (r # rs) m = build_ranks_from (Suc i) rs (m(chunk_key_of r \<mapsto> Suc i))"

definition build_ranks :: "search_result list \<Rightarrow> string \<Rightarrow> nat option" where
  "build_ranks rs = build_ranks_from 0 rs (\<lambda>_. None)"

definition rank_of :: "(string \<Rightarrow> nat option) \<Rightarrow> string \<Rightarrow> nat" where
  "rank_of ranks ck = (case ranks ck of Some n \<Rightarrow> n | None \<Rightarrow> 0)"

record rrf_scored =
  rf_result :: search_result
  rf_score :: rat

definition rrf_k :: rat where
  "rrf_k = 60"

definition rrf_bonus :: rat where
  "rrf_bonus = 2 / 100"

definition fuse_rrf ::
  "search_result list \<Rightarrow> search_result list \<Rightarrow> (string \<Rightarrow> nat option) \<Rightarrow> (string \<Rightarrow> nat option) \<Rightarrow>
     rrf_scored list" where
  "fuse_rrf vector keyword vec_ranks kw_ranks =
     map (\<lambda>r. \<lparr> rf_result = r,
                rf_score = 1 / (rrf_k + of_nat (rank_of vec_ranks (chunk_key_of r))) +
                  (case kw_ranks (chunk_key_of r) of
                     Some kr \<Rightarrow> 1 / (rrf_k + of_nat kr) + rrf_bonus
                   | None \<Rightarrow> 0) \<rparr>) vector @
     map (\<lambda>r. \<lparr> rf_result = r,
                rf_score = 1 / (rrf_k + of_nat (rank_of kw_ranks (chunk_key_of r))) \<rparr>)
       (filter (\<lambda>r. chunk_key_of r \<notin> set (map chunk_key_of vector)) keyword)"

definition compare_scored_desc :: "rrf_scored \<Rightarrow> rrf_scored \<Rightarrow> int" where
  "compare_scored_desc a b =
     (if \<bar>rf_score a - rf_score b\<bar> < 1 / 10 ^ 9 then 0
      else if rf_score a > rf_score b then - 1 else 1)"

definition normalise_rrf :: "rrf_scored list \<Rightarrow> int \<Rightarrow> search_result list" where
  "normalise_rrf scored top_k =
     (let n = nat (max 0 (min top_k (min (int (length scored)) (int max_top_k))));
          max_score = rf_score (hd scored)
      in map (\<lambda>s. if max_score > 0 then (rf_result s)\<lparr>sr_score := rf_score s / max_score\<rparr>
                  else rf_result s)
           (take n scored))"

type_synonym 'a sorter = "('a \<Rightarrow> 'a \<Rightarrow> int) \<Rightarrow> 'a list \<Rightarrow> 'a list"

definition rerank_rrf ::
  "rrf_scored sorter \<Rightarrow> search_result list \<Rightarrow> search_result list \<Rightarrow> int \<Rightarrow> search_result list" where
  "rerank_rrf sortf vector keyword top_k =
     (if vector = [] then keyword
      else if keyword = [] then vector
      else (let scored = sortf compare_scored_desc
                  (fuse_rrf vector keyword (build_ranks vector) (build_ranks keyword));
                n = (if top_k \<le> 0 \<or> top_k \<ge> int (length scored) then int (length scored) else top_k)
            in normalise_rrf scored n))"

section \<open>What the fusion keeps\<close>

lemma build_ranks_from_bounds:
  "build_ranks_from i rs m ck = Some n \<Longrightarrow> m ck = Some n \<or> (i < n \<and> n \<le> i + length rs)"
proof (induction i rs m rule: build_ranks_from.induct)
  case (2 i r rs m)
  from 2(1) [OF 2(2) [unfolded build_ranks_from.simps]] show ?case
    by (cases "ck = chunk_key_of r") auto
qed simp

lemma build_ranks_from_dom:
  "build_ranks_from i rs m ck \<noteq> None \<longleftrightarrow> m ck \<noteq> None \<or> ck \<in> set (map chunk_key_of rs)"
proof (induction i rs m rule: build_ranks_from.induct)
  case (2 i r rs m)
  show ?case unfolding build_ranks_from.simps 2 by (cases "ck = chunk_key_of r") auto
qed simp

lemma build_ranks_bounds: "build_ranks rs ck = Some n \<Longrightarrow> 0 < n \<and> n \<le> length rs"
  using build_ranks_from_bounds [of 0 rs "\<lambda>_. None" ck n] by (simp add: build_ranks_def)

lemma build_ranks_dom: "build_ranks rs ck = None \<longleftrightarrow> ck \<notin> set (map chunk_key_of rs)"
  unfolding build_ranks_def using build_ranks_from_dom [of 0 rs "\<lambda>_. None" ck] by blast

lemma rank_of_bounds:
  "ck \<in> set (map chunk_key_of rs) \<Longrightarrow> 0 < rank_of (build_ranks rs) ck \<and> rank_of (build_ranks rs) ck \<le> length rs"
  using build_ranks_dom [of rs ck] build_ranks_bounds [of rs ck]
  by (cases "build_ranks rs ck") (auto simp: rank_of_def)

text \<open>Nothing is merged: each vector hit stays, repeated keys included, then each keyword hit
  whose key no vector hit has.\<close>

lemma fuse_keeps:
  "map rf_result (fuse_rrf vector keyword vr kr) =
     vector @ filter (\<lambda>r. chunk_key_of r \<notin> set (map chunk_key_of vector)) keyword"
  by (simp add: fuse_rrf_def comp_def)

definition fused :: "search_result list \<Rightarrow> search_result list \<Rightarrow> rrf_scored list" where
  "fused vector keyword = fuse_rrf vector keyword (build_ranks vector) (build_ranks keyword)"

definition in_both :: "search_result list \<Rightarrow> search_result list \<Rightarrow> search_result \<Rightarrow> bool" where
  "in_both vector keyword r \<longleftrightarrow>
     chunk_key_of r \<in> set (map chunk_key_of vector) \<and> chunk_key_of r \<in> set (map chunk_key_of keyword)"

definition single_score :: "nat \<Rightarrow> rat" where
  "single_score a = 1 / (60 + of_nat a)"

definition double_score :: "nat \<Rightarrow> nat \<Rightarrow> rat" where
  "double_score a b = single_score a + single_score b + 1 / 50"

lemma fused_score:
  assumes "s \<in> set (fused vector keyword)"
  shows "(in_both vector keyword (rf_result s) \<longrightarrow>
            (\<exists>a b. 0 < a \<and> a \<le> length vector \<and> 0 < b \<and> b \<le> length keyword \<and>
                   rf_score s = double_score a b)) \<and>
         (\<not> in_both vector keyword (rf_result s) \<longrightarrow>
            (\<exists>a. 0 < a \<and> a \<le> max (length vector) (length keyword) \<and> rf_score s = single_score a))"
proof -
  let ?vr = "build_ranks vector" and ?kr = "build_ranks keyword"
  from assms consider
    (vec) r where "r \<in> set vector" "s = \<lparr> rf_result = r, rf_score = single_score (rank_of ?vr (chunk_key_of r)) +
        (case ?kr (chunk_key_of r) of Some kr \<Rightarrow> single_score kr + 1 / 50 | None \<Rightarrow> 0) \<rparr>"
  | (kw) r where "r \<in> set keyword" "chunk_key_of r \<notin> set (map chunk_key_of vector)"
      "s = \<lparr> rf_result = r, rf_score = single_score (rank_of ?kr (chunk_key_of r)) \<rparr>"
    by (auto simp: fused_def fuse_rrf_def rrf_k_def rrf_bonus_def single_score_def
        cong: option.case_cong)
  then show ?thesis
  proof cases
    case vec
    then have a: "0 < rank_of ?vr (chunk_key_of r)" "rank_of ?vr (chunk_key_of r) \<le> length vector"
      using rank_of_bounds [of "chunk_key_of r" vector] by auto
    show ?thesis
    proof (cases "?kr (chunk_key_of r)")
      case None
      with a vec build_ranks_dom [of keyword "chunk_key_of r"] show ?thesis
        by (auto simp: in_both_def intro!: exI [of _ "rank_of ?vr (chunk_key_of r)"])
    next
      case (Some k)
      have "\<exists>a b. 0 < a \<and> a \<le> length vector \<and> 0 < b \<and> b \<le> length keyword \<and> rf_score s = double_score a b"
        using a vec Some build_ranks_bounds [OF Some]
        by (intro exI [of _ "rank_of ?vr (chunk_key_of r)"] exI [of _ k]) (simp add: double_score_def)
      moreover have "in_both vector keyword (rf_result s)"
        using vec Some build_ranks_dom [of keyword "chunk_key_of r"] by (auto simp: in_both_def)
      ultimately show ?thesis by blast
    qed
  next
    case kw
    then have "0 < rank_of ?kr (chunk_key_of r)" "rank_of ?kr (chunk_key_of r) \<le> length keyword"
      using rank_of_bounds [of "chunk_key_of r" keyword] by auto
    with kw show ?thesis by (auto simp: in_both_def intro!: exI [of _ "rank_of ?kr (chunk_key_of r)"])
  qed
qed

section \<open>The gap between scores\<close>

lemma rat_gap:
  fixes p q p' q' :: int
  assumes "0 < q" "0 < q'" "q * q' \<le> 10 ^ 9" "of_int p / of_int q \<noteq> (of_int p' / of_int q' :: rat)"
  shows "1 / 10 ^ 9 \<le> \<bar>of_int p / of_int q - (of_int p' / of_int q' :: rat)\<bar>"
proof -
  have pos: "(0 :: rat) < of_int (q * q')" using assms(1,2) by simp
  have eq: "of_int p / of_int q - (of_int p' / of_int q' :: rat) =
      of_int (p * q' - p' * q) / of_int (q * q')"
    using assms(1,2) by (simp add: field_simps)
  have "p * q' - p' * q \<noteq> 0"
  proof
    assume z: "p * q' - p' * q = 0"
    from eq have "of_int p / of_int q - (of_int p' / of_int q' :: rat) = 0" unfolding z by simp
    with assms(4) show False by simp
  qed
  then have "1 \<le> \<bar>p * q' - p' * q\<bar>" by linarith
  then have num: "(1 :: rat) \<le> of_int \<bar>p * q' - p' * q\<bar>" by (simp only: of_int_1_le_iff)
  have "(of_int (q * q') :: rat) \<le> of_int (10 ^ 9)" using assms(3) by (simp only: of_int_le_iff)
  then have "(1 :: rat) / 10 ^ 9 \<le> 1 / of_int (q * q')"
    using pos by (intro divide_left_mono) auto
  also have "\<dots> \<le> of_int \<bar>p * q' - p' * q\<bar> / of_int (q * q')"
    using num pos by (intro divide_right_mono) auto
  finally show ?thesis using pos unfolding eq by (simp add: abs_divide)
qed

lemma double_score_frac:
  "double_score a b - 1 / 50 =
     of_int (120 + int a + int b) / of_int ((60 + int a) * (60 + int b))"
proof -
  have "double_score a b - 1 / 50 = single_score a + single_score b" by (simp add: double_score_def)
  then show ?thesis by (simp add: single_score_def add_frac_eq algebra_simps)
qed

lemma denom_le: "a \<le> 100 \<Longrightarrow> b \<le> 100 \<Longrightarrow> (60 + int a) * (60 + int b) \<le> 25600"
  using mult_mono [of "60 + int a" 160 "60 + int b" 160] by simp

lemma double_gap:
  assumes "a \<le> 100" "b \<le> 100" "c \<le> 100" "d \<le> 100" "double_score a b \<noteq> double_score c d"
  shows "1 / 10 ^ 9 \<le> \<bar>double_score a b - double_score c d\<bar>"
proof -
  from mult_mono [OF denom_le [OF assms(1,2)] denom_le [OF assms(3,4)]]
  have le: "(60 + int a) * (60 + int b) * ((60 + int c) * (60 + int d)) \<le> 10 ^ 9" by simp
  have "double_score a b - 1 / 50 \<noteq> double_score c d - 1 / 50" using assms(5) by simp
  from rat_gap [OF _ _ le this [unfolded double_score_frac]]
  have "1 / 10 ^ 9 \<le> \<bar>(double_score a b - 1 / 50) - (double_score c d - 1 / 50)\<bar>"
    unfolding double_score_frac by simp
  then show ?thesis by simp
qed

lemma single_gap:
  assumes "a \<le> 100" "b \<le> 100" "single_score a \<noteq> single_score b"
  shows "1 / 10 ^ 9 \<le> \<bar>single_score a - single_score b\<bar>"
proof -
  have frac: "single_score n = of_int 1 / of_int (60 + int n)" for n
    by (simp add: single_score_def)
  from denom_le [OF assms(1,2)]
  have "(60 + int a) * (60 + int b) \<le> 10 ^ 9" by simp
  from rat_gap [OF _ _ this assms(3) [unfolded frac]] show ?thesis unfolding frac by simp
qed

lemma overlap_gap:
  assumes "0 < c" shows "1 / 10 ^ 9 \<le> double_score a b - single_score c"
proof -
  have "single_score c \<le> 1 / 61" using assms by (simp add: single_score_def field_simps)
  moreover have "0 \<le> single_score a" "0 \<le> single_score b" by (simp_all add: single_score_def)
  ultimately show ?thesis by (simp add: double_score_def)
qed

lemma fused_gap:
  assumes "length vector \<le> 100" "length keyword \<le> 100"
    "s \<in> set (fused vector keyword)" "t \<in> set (fused vector keyword)" "rf_score s \<noteq> rf_score t"
  shows "1 / 10 ^ 9 \<le> \<bar>rf_score s - rf_score t\<bar>"
proof -
  let ?B = "\<lambda>x. in_both vector keyword (rf_result x)"
  have dbl: "\<exists>a b. a \<le> 100 \<and> b \<le> 100 \<and> rf_score x = double_score a b"
    if "x \<in> set (fused vector keyword)" "?B x" for x
    using fused_score [OF that(1)] that(2) assms(1,2) by (meson le_trans)
  have sgl: "\<exists>a. 0 < a \<and> a \<le> 100 \<and> rf_score x = single_score a"
    if "x \<in> set (fused vector keyword)" "\<not> ?B x" for x
    using fused_score [OF that(1)] that(2) assms(1,2) by (meson le_trans max.boundedI)
  have mixed: "1 / 10 ^ 9 \<le> \<bar>rf_score x - rf_score y\<bar> \<and> 1 / 10 ^ 9 \<le> \<bar>rf_score y - rf_score x\<bar>"
    if "x \<in> set (fused vector keyword)" "y \<in> set (fused vector keyword)" "?B x" "\<not> ?B y" for x y
  proof -
    from dbl [OF that(1,3)] sgl [OF that(2,4)] overlap_gap
    have g: "1 / 10 ^ 9 \<le> rf_score x - rf_score y" by metis
    show ?thesis using order_trans [OF g abs_ge_self] by (simp add: abs_minus_commute)
  qed
  consider "?B s" "?B t" | "\<not> ?B s" "\<not> ?B t" | "?B s" "\<not> ?B t" | "?B t" "\<not> ?B s" by blast
  then show ?thesis
  proof cases
    case 1
    with dbl assms(3-5) double_gap show ?thesis by metis
  next
    case 2
    with sgl assms(3-5) single_gap show ?thesis by metis
  qed (use mixed assms(3,4) in blast)+
qed

lemma fused_order:
  assumes "length vector \<le> 100" "length keyword \<le> 100"
  shows "cmp_ok compare_scored_desc (set (fused vector keyword))"
proof (rule cmp_ok_key [where key = "\<lambda>s. - rf_score s"])
  fix s t assume st: "s \<in> set (fused vector keyword)" "t \<in> set (fused vector keyword)"
  show "compare_scored_desc s t =
      (if - rf_score s < - rf_score t then - 1 else if - rf_score s > - rf_score t then 1 else 0)"
  proof (cases "rf_score s = rf_score t")
    case False
    with fused_gap [OF assms st] show ?thesis by (auto simp: compare_scored_desc_def)
  qed (simp add: compare_scored_desc_def)
qed


section \<open>The fused list\<close>

lemma in_both_score [simp]: "in_both vector keyword (r\<lparr>sr_score := x\<rparr>) = in_both vector keyword r"
  by (simp add: in_both_def chunk_key_of_def)

definition scored_hit :: "rat \<Rightarrow> rrf_scored \<Rightarrow> search_result" where
  "scored_hit m s = (if m > 0 then (rf_result s)\<lparr>sr_score := rf_score s / m\<rparr> else rf_result s)"

lemma rerank_rrf_unfold:
  assumes "vector \<noteq> []" "keyword \<noteq> []"
  shows "\<exists>n. rerank_rrf sortf vector keyword top_k =
    map (scored_hit (rf_score (hd (sortf compare_scored_desc (fused vector keyword)))))
      (take n (sortf compare_scored_desc (fused vector keyword)))"
  using assms unfolding rerank_rrf_def normalise_rrf_def Let_def fused_def scored_hit_def by auto

lemma fused_nonempty: "vector \<noteq> [] \<Longrightarrow> fused vector keyword \<noteq> []"
  by (simp add: fused_def fuse_rrf_def)

lemma fused_positive:
  assumes "s \<in> set (fused vector keyword)" shows "0 < rf_score s"
proof -
  have "0 < single_score a" "0 < double_score a b" for a b
    by (simp_all add: single_score_def double_score_def add_pos_pos)
  then show ?thesis using fused_score [OF assms] by metis
qed


lemma demo_rerank:
  "rerank_rrf insertion_sort [demo_hit ''a'' 1, demo_hit ''b'' 1] [demo_hit ''c'' 1, demo_hit ''b'' 1] 5 =
     [(demo_hit ''b'' 1)\<lparr>sr_score := 1\<rparr>, (demo_hit ''a'' 1)\<lparr>sr_score := 1550 / 4941\<rparr>,
      (demo_hit ''c'' 1)\<lparr>sr_score := 1550 / 4941\<rparr>]"
  by (simp add: rerank_rrf_def fuse_rrf_def build_ranks_def rank_of_def demo_hit_def chunk_key_of_def
      fmt_int_def itoa.simps insertion_sort_def compare_scored_desc_def normalise_rrf_def rrf_k_def
      rrf_bonus_def max_top_k_def)


end
