(* ===== verification/SearchGraph.thy ===== *)
theory SearchGraph
  imports SearchFuse "HOL-Library.AList"
begin

text \<open>
  Graph expansion of \<open>internal/search/service.go\<close>: the seeds, the breadth-first walk in memory,
  the hops of the recursive SQL query, and the merge into the hits.  A Go map is a function, or the
  list of its entries in the order of an iteration.  Proved: the walk finds exactly the files the
  best walks from the seeds reach, with their scores, as long as its cap of 100 files is not met.
\<close>

section \<open>The walk in memory\<close>

record graph_hop =
  gh_score :: rat
  gh_depth :: nat

record graph_seeds =
  gs_list :: "string list"
  gs_max_score :: rat

fun add_graph_seeds :: "search_result list \<Rightarrow> graph_seeds \<Rightarrow> graph_seeds" where
  "add_graph_seeds [] gs = gs"
| "add_graph_seeds (r # rs) gs =
     add_graph_seeds rs
       \<lparr> gs_list = (if sr_path r \<in> set (gs_list gs) then gs_list gs else gs_list gs @ [sr_path r]),
         gs_max_score = (if sr_score r > gs_max_score gs then sr_score r else gs_max_score gs) \<rparr>"

definition collect_graph_seeds :: "search_result list \<Rightarrow> graph_seeds" where
  "collect_graph_seeds rs =
     (let gs = add_graph_seeds rs \<lparr> gs_list = [], gs_max_score = 0 \<rparr>
      in if gs_max_score gs = 0 then gs\<lparr>gs_max_score := 1\<rparr> else gs)"

definition reverse_graph_edges :: "(string \<times> string list) list \<Rightarrow> string \<Rightarrow> string list" where
  "reverse_graph_edges graph tgt =
     concat (map (\<lambda>(src, targets). map (\<lambda>_. src) (filter (\<lambda>t. t = tgt) targets)) graph)"

definition graph_targets :: "(string \<times> string list) list \<Rightarrow> string \<Rightarrow> string list" where
  "graph_targets graph src = (case map_of graph src of Some ts \<Rightarrow> ts | None \<Rightarrow> [])"

record bfs_node =
  bn_path :: string
  bn_depth :: nat
  bn_score :: rat

record bfs_params =
  bp_graph :: "string \<Rightarrow> string list"
  bp_reverse :: "string \<Rightarrow> string list"
  bp_seed_paths :: "string list"
  bp_seeds :: "search_result list"
  bp_max_depth :: nat
  bp_decay :: rat
  bp_floor :: rat
  bp_max_paths :: nat

type_synonym visited = "string \<Rightarrow> rat option"
type_synonym expansion = "(string \<times> graph_hop) list"

definition process_bfs_node ::
  "string \<Rightarrow> bfs_node \<Rightarrow> bfs_params \<Rightarrow> visited \<Rightarrow> expansion \<Rightarrow> bfs_node option \<times> visited \<times> expansion" where
  "process_bfs_node neighbor node p vis ex =
     (if neighbor = [] then (None, vis, ex)
      else (let new_score = bn_score node * bp_decay p
        in if new_score < bp_floor p then (None, vis, ex)
        else if (case vis neighbor of Some best \<Rightarrow> best \<ge> new_score | None \<Rightarrow> False) then (None, vis, ex)
        else (let vis' = vis(neighbor \<mapsto> new_score);
                  next_node = \<lparr> bn_path = neighbor, bn_depth = bn_depth node + 1, bn_score = new_score \<rparr>
          in if neighbor \<in> set (bp_seed_paths p) then (Some next_node, vis', ex)
          else if length ex \<ge> bp_max_paths p then (None, vis', ex)
          else (Some next_node, vis',
                if (case map_of ex neighbor of None \<Rightarrow> True | Some old \<Rightarrow> new_score > gh_score old)
                then AList.update neighbor \<lparr> gh_score = new_score, gh_depth = bn_depth node + 1 \<rparr> ex
                else ex))))"

fun process_neighbors ::
  "bfs_params \<Rightarrow> bfs_node \<Rightarrow> string list \<Rightarrow> visited \<Rightarrow> expansion \<Rightarrow> bfs_node list \<times> visited \<times> expansion" where
  "process_neighbors p node [] vis ex = ([], vis, ex)"
| "process_neighbors p node (n # ns) vis ex =
     (case process_bfs_node n node p vis ex of (nx, vis1, ex1) \<Rightarrow>
        (case process_neighbors p node ns vis1 ex1 of (q, vis2, ex2) \<Rightarrow>
           ((case nx of None \<Rightarrow> q | Some x \<Rightarrow> x # q), vis2, ex2)))"

definition node_neighbors :: "bfs_params \<Rightarrow> string \<Rightarrow> string list" where
  "node_neighbors p path = bp_graph p path @ bp_reverse p path"

lemma process_node_depth:
  "process_bfs_node n node p vis ex = (Some x, vis', ex') \<Longrightarrow> bn_depth x = Suc (bn_depth node)"
  by (auto simp: process_bfs_node_def Let_def split: if_splits)

lemma process_neighbors_depth:
  "process_neighbors p node ns vis ex = (q, vis', ex') \<Longrightarrow> x \<in> set q \<Longrightarrow> bn_depth x = Suc (bn_depth node)"
  by (induction ns arbitrary: vis ex q)
    (auto dest: process_node_depth split: prod.splits option.splits)

function expand_loop :: "bfs_params \<Rightarrow> bfs_node list \<Rightarrow> visited \<Rightarrow> expansion \<Rightarrow> expansion" where
  "expand_loop p [] vis ex = ex"
| "expand_loop p (node # queue) vis ex =
     (if bn_depth node \<ge> bp_max_depth p then expand_loop p queue vis ex
      else (case process_neighbors p node (node_neighbors p (bn_path node)) vis ex of (q, vis', ex') \<Rightarrow>
              expand_loop p (queue @ q) vis' ex'))"
  by pat_completeness auto

text \<open>A node is replaced by nodes one level deeper, so the multiset of the levels left falls.\<close>

termination
proof (relation "inv_image (mult less_than) (\<lambda>(p, q, vis, ex). mset (map (\<lambda>n. bp_max_depth p - bn_depth n) q))",
    goal_cases)
  case (2 p node queue vis ex)
  then show ?case
    using one_step_implies_mult [of "{#bp_max_depth p - bn_depth node#}" "{#}" less_than
        "mset (map (\<lambda>n. bp_max_depth p - bn_depth n) queue)"] by simp
next
  case (3 p node queue vis ex q vis1 ex1)
  let ?w = "\<lambda>n. bp_max_depth p - bn_depth n"
  have "mset (map ?w queue) + mset (map ?w q) = mset (map ?w (queue @ q))" by simp
  moreover have "(mset (map ?w queue) + mset (map ?w q), mset (map ?w queue) + {#?w node#}) \<in> mult less_than"
    using 3 by (intro one_step_implies_mult) (auto dest: process_neighbors_depth [OF sym])
  ultimately show ?case by simp
qed (simp add: wf_mult)

definition run_graph_bfs :: "bfs_params \<Rightarrow> expansion" where
  "run_graph_bfs p =
     expand_loop p (map (\<lambda>r. \<lparr> bn_path = sr_path r, bn_depth = 0, bn_score = sr_score r \<rparr>) (bp_seeds p))
       (fold (\<lambda>r m. m(sr_path r \<mapsto> sr_score r)) (bp_seeds p) (\<lambda>_. None)) []"

definition expansion_params ::
  "(string \<times> string list) list \<Rightarrow> search_result list \<Rightarrow> nat \<Rightarrow> bfs_params" where
  "expansion_params graph seeds max_depth =
     \<lparr> bp_graph = graph_targets graph, bp_reverse = reverse_graph_edges graph,
       bp_seed_paths = gs_list (collect_graph_seeds seeds), bp_seeds = seeds,
       bp_max_depth = max_depth, bp_decay = 85 / 100, bp_floor = 3 / 10, bp_max_paths = 100 \<rparr>"


section \<open>Walks from the seeds\<close>

inductive hop_walk :: "bfs_params \<Rightarrow> string \<Rightarrow> nat \<Rightarrow> string \<Rightarrow> bool" for p a where
  hop_start: "hop_walk p a 0 a"
| hop_step: "hop_walk p a k b \<Longrightarrow> c \<in> set (node_neighbors p b) \<Longrightarrow> c \<noteq> [] \<Longrightarrow> hop_walk p a (Suc k) c"

inductive_simps hop_walk_0 [simp]: "hop_walk p a 0 b"
inductive_cases hop_walk_SucE: "hop_walk p a (Suc k) b"

definition walk_node :: "bfs_params \<Rightarrow> bfs_node \<Rightarrow> bool" where
  "walk_node p n \<longleftrightarrow>
     (\<exists>r\<in>set (bp_seeds p). hop_walk p (sr_path r) (bn_depth n) (bn_path n) \<and>
        bn_score n = sr_score r * bp_decay p ^ bn_depth n)"

lemma walk_node_step:
  assumes "walk_node p node" "c \<in> set (node_neighbors p (bn_path node))" "c \<noteq> []"
  shows "walk_node p \<lparr> bn_path = c, bn_depth = bn_depth node + 1, bn_score = bn_score node * bp_decay p \<rparr>"
  using assms by (fastforce simp: walk_node_def intro: hop_walk.hop_step)

text \<open>The state of the walk, with the set \<open>E\<close> of all nodes queued so far: each is a walk
  from a seed; each listed file has the score of its best node; while the cap is not met each
  visited score is that of a node.\<close>

definition hop_of :: "bfs_params \<Rightarrow> bfs_node set \<Rightarrow> string \<Rightarrow> graph_hop \<Rightarrow> bool" where
  "hop_of p E m h \<longleftrightarrow> m \<notin> set (bp_seed_paths p) \<and> 0 < gh_depth h \<and> gh_depth h \<le> bp_max_depth p \<and>
     bp_floor p \<le> gh_score h \<and> \<lparr> bn_path = m, bn_depth = gh_depth h, bn_score = gh_score h \<rparr> \<in> E"

definition grown :: "bfs_params \<Rightarrow> bfs_node set \<Rightarrow> visited \<Rightarrow> expansion \<Rightarrow> bool" where
  "grown p E vis ex \<longleftrightarrow>
     (\<forall>n\<in>E. walk_node p n) \<and>
     (\<forall>m h. map_of ex m = Some h \<longrightarrow> hop_of p E m h) \<and>
     distinct (map fst ex) \<and> length ex \<le> bp_max_paths p \<and>
     (\<forall>n\<in>E. 0 < bn_depth n \<longrightarrow> bn_path n \<notin> set (bp_seed_paths p) \<longrightarrow>
        (\<exists>h. map_of ex (bn_path n) = Some h \<and> bn_score n \<le> gh_score h)) \<and>
     (length ex < bp_max_paths p \<longrightarrow>
        (\<forall>m x. vis m = Some x \<longrightarrow> (\<exists>n\<in>E. bn_path n = m \<and> bn_score n = x)))"

definition covers :: "bfs_params \<Rightarrow> bfs_node set \<Rightarrow> bfs_node \<Rightarrow> string \<Rightarrow> bool" where
  "covers p E node m \<longleftrightarrow> m \<noteq> [] \<longrightarrow> bp_floor p \<le> bn_score node * bp_decay p \<longrightarrow>
     (\<exists>n\<in>E. bn_path n = m \<and> bn_depth n \<le> Suc (bn_depth node) \<and> bn_score node * bp_decay p \<le> bn_score n)"

lemma covers_mono: "covers p E node m \<Longrightarrow> E \<subseteq> F \<Longrightarrow> covers p F node m"
  unfolding covers_def by blast

lemma hop_of_mono: "hop_of p E m h \<Longrightarrow> E \<subseteq> F \<Longrightarrow> hop_of p F m h"
  unfolding hop_of_def by blast

lemma update_length: "length ex \<le> length (AList.update k v ex) \<and> length (AList.update k v ex) \<le> Suc (length ex)"
  by (induction ex) auto

lemma grown_seed:
  assumes "grown p E vis ex" "walk_node p x" "bn_path x \<in> set (bp_seed_paths p)"
  shows "grown p (insert x E) (vis(bn_path x \<mapsto> bn_score x)) ex"
proof -
  have "hop_of p (insert x E) m h" if "hop_of p E m h" for m h by (rule hop_of_mono [OF that]) auto
  with assms show ?thesis unfolding grown_def by auto
qed

lemma grown_full: "grown p E vis ex \<Longrightarrow> bp_max_paths p \<le> length ex \<Longrightarrow> grown p E vis' ex"
  unfolding grown_def by auto

lemma grown_file:
  assumes g: "grown p E vis ex" and x: "walk_node p x" "bn_path x \<notin> set (bp_seed_paths p)"
    "0 < bn_depth x" "bn_depth x \<le> bp_max_depth p" "bp_floor p \<le> bn_score x"
    and room: "length ex < bp_max_paths p"
    and ex': "ex' = (if (case map_of ex (bn_path x) of None \<Rightarrow> True | Some old \<Rightarrow> bn_score x > gh_score old)
      then AList.update (bn_path x) \<lparr> gh_score = bn_score x, gh_depth = bn_depth x \<rparr> ex else ex)"
  shows "grown p (insert x E) (vis(bn_path x \<mapsto> bn_score x)) ex' \<and> length ex \<le> length ex'"
proof -
  let ?h = "\<lparr> gh_score = bn_score x, gh_depth = bn_depth x \<rparr>"
  have hx: "hop_of p (insert x E) (bn_path x) ?h" using x by (simp add: hop_of_def)
  have len: "length ex \<le> length ex'" "length ex' \<le> bp_max_paths p"
    using room update_length [of ex "bn_path x" ?h] by (auto simp: ex')
  have hops: "hop_of p (insert x E) m h" if "map_of ex' m = Some h" for m h
    using that g hx hop_of_mono [of p E m h "insert x E"]
    by (auto simp: ex' grown_def update_conv' split: if_splits)
  have best: "\<exists>h. map_of ex' (bn_path n) = Some h \<and> bn_score n \<le> gh_score h"
    if "n \<in> insert x E" "0 < bn_depth n" "bn_path n \<notin> set (bp_seed_paths p)" for n
  proof (cases "bn_path n = bn_path x")
    case True
    have "\<exists>h. map_of ex (bn_path n) = Some h \<and> bn_score n \<le> gh_score h" if "n \<noteq> x"
      using g that \<open>n \<in> insert x E\<close> \<open>0 < bn_depth n\<close> \<open>bn_path n \<notin> _\<close> unfolding grown_def by blast
    with True show ?thesis
      by (cases "n = x") (auto simp: ex' update_conv' split: option.splits)
  next
    case False
    with that g have "\<exists>h. map_of ex (bn_path n) = Some h \<and> bn_score n \<le> gh_score h"
      unfolding grown_def by blast
    with False show ?thesis by (auto simp: ex' update_conv')
  qed
  have vis: "\<exists>n\<in>insert x E. bn_path n = m \<and> bn_score n = y" if "(vis(bn_path x \<mapsto> bn_score x)) m = Some y" for m y
    using that g room unfolding grown_def by (cases "m = bn_path x") auto
  have "distinct (map fst ex')" using g by (simp add: ex' grown_def distinct_update)
  with g x(1) len hops best vis show ?thesis unfolding grown_def by blast
qed

lemma process_node_grown:
  assumes g: "grown p E vis ex" and node: "node \<in> E" "bn_depth node < bp_max_depth p"
    and nb: "neighbor \<in> set (node_neighbors p (bn_path node))"
    and depths: "\<forall>n\<in>E. bn_depth n \<le> Suc (bn_depth node)"
    and run: "process_bfs_node neighbor node p vis ex = (nx, vis', ex')"
  shows "grown p (E \<union> set_option nx) vis' ex' \<and> length ex \<le> length ex' \<and>
    (length ex' < bp_max_paths p \<longrightarrow> covers p (E \<union> set_option nx) node neighbor)"
proof -
  let ?s = "bn_score node * bp_decay p"
  let ?x = "\<lparr> bn_path = neighbor, bn_depth = bn_depth node + 1, bn_score = ?s \<rparr>"
  have wx: "walk_node p ?x" if "neighbor \<noteq> []"
    by (rule walk_node_step) (use g node nb that in \<open>auto simp: grown_def\<close>)
  consider (skip) "neighbor = [] \<or> ?s < bp_floor p" "nx = None" "vis' = vis" "ex' = ex"
    | (seen) best where "vis neighbor = Some best" "best \<ge> ?s" "nx = None" "vis' = vis" "ex' = ex"
    | (seed) "neighbor \<noteq> []" "neighbor \<in> set (bp_seed_paths p)" "nx = Some ?x"
        "vis' = vis(neighbor \<mapsto> ?s)" "ex' = ex"
    | (full) "length ex \<ge> bp_max_paths p" "nx = None" "ex' = ex"
    | (fresh) "neighbor \<noteq> []" "neighbor \<notin> set (bp_seed_paths p)" "bp_floor p \<le> ?s" "length ex < bp_max_paths p"
        "nx = Some ?x" "vis' = vis(neighbor \<mapsto> ?s)"
        "ex' = (if (case map_of ex neighbor of None \<Rightarrow> True | Some old \<Rightarrow> ?s > gh_score old)
          then AList.update neighbor \<lparr> gh_score = ?s, gh_depth = bn_depth node + 1 \<rparr> ex else ex)"
    using run by (fastforce simp: process_bfs_node_def Let_def not_le not_less split: if_splits option.splits)
  then show ?thesis
  proof cases
    case skip
    with g show ?thesis by (auto simp: covers_def)
  next
    case seen
    with g depths show ?thesis by (fastforce simp: covers_def grown_def)
  next
    case seed
    with grown_seed [OF g wx] show ?thesis by (auto simp: covers_def)
  next
    case full
    with grown_full [OF g] show ?thesis by auto
  next
    case fresh
    have "grown p (insert ?x E) (vis(bn_path ?x \<mapsto> bn_score ?x)) ex' \<and> length ex \<le> length ex'"
    proof (rule grown_file [OF g wx [OF fresh(1)] _ _ _ _ fresh(4)])
      show "ex' = (if (case map_of ex (bn_path ?x) of None \<Rightarrow> True | Some old \<Rightarrow> bn_score ?x > gh_score old)
          then AList.update (bn_path ?x) \<lparr> gh_score = bn_score ?x, gh_depth = bn_depth ?x \<rparr> ex else ex)"
        unfolding bfs_node.select_convs by (rule fresh(7))
    qed (use fresh node(2) in simp_all)
    with fresh show ?thesis by (simp add: covers_def)
  qed
qed

lemma process_neighbors_grown:
  "grown p E vis ex \<Longrightarrow> node \<in> E \<Longrightarrow> bn_depth node < bp_max_depth p \<Longrightarrow>
   set ns \<subseteq> set (node_neighbors p (bn_path node)) \<Longrightarrow> \<forall>n\<in>E. bn_depth n \<le> Suc (bn_depth node) \<Longrightarrow>
   process_neighbors p node ns vis ex = (q, vis', ex') \<Longrightarrow>
   grown p (E \<union> set q) vis' ex' \<and> length ex \<le> length ex' \<and>
   (length ex' < bp_max_paths p \<longrightarrow> (\<forall>n\<in>set ns. covers p (E \<union> set q) node n))"
proof (induction ns arbitrary: E vis ex q)
  case (Cons n ns)
  obtain nx vis1 ex1 where s: "process_bfs_node n node p vis ex = (nx, vis1, ex1)" by (metis prod_cases3)
  obtain q2 where q2: "process_neighbors p node ns vis1 ex1 = (q2, vis', ex')" "q = (case nx of None \<Rightarrow> q2 | Some x \<Rightarrow> x # q2)"
    using Cons.prems(6) s by (auto split: prod.splits)
  let ?E = "E \<union> set_option nx"
  have one: "grown p ?E vis1 ex1" "length ex \<le> length ex1" "length ex1 < bp_max_paths p \<longrightarrow> covers p ?E node n"
    using process_node_grown [OF Cons.prems(1-3) _ Cons.prems(5) s] Cons.prems(4) by auto
  have "\<forall>m\<in>?E. bn_depth m \<le> Suc (bn_depth node)"
    using Cons.prems(5) process_node_depth [of n node p vis ex _ vis1 ex1] s by (cases nx) auto
  with Cons.IH [OF one(1) _ Cons.prems(3) _ _ q2(1)] Cons.prems(2,4)
  have rest: "grown p (?E \<union> set q2) vis' ex'" "length ex1 \<le> length ex'"
    "length ex' < bp_max_paths p \<longrightarrow> (\<forall>m\<in>set ns. covers p (?E \<union> set q2) node m)" by auto
  have "?E \<union> set q2 = E \<union> set q" using q2(2) by (cases nx) auto
  with one rest covers_mono [of p ?E node n "?E \<union> set q2"] show ?case by auto
qed simp


section \<open>The loop\<close>

definition settled :: "bfs_params \<Rightarrow> bfs_node set \<Rightarrow> bfs_node \<Rightarrow> bool" where
  "settled p E n \<longleftrightarrow> bp_max_depth p \<le> bn_depth n \<or> (\<forall>m\<in>set (node_neighbors p (bn_path n)). covers p E n m)"

lemma settled_mono: "settled p E n \<Longrightarrow> E \<subseteq> F \<Longrightarrow> settled p F n"
  unfolding settled_def using covers_mono by blast

definition loop_ok :: "bfs_params \<Rightarrow> bfs_node set \<Rightarrow> bfs_node list \<Rightarrow> visited \<Rightarrow> expansion \<Rightarrow> bool" where
  "loop_ok p E q vis ex \<longleftrightarrow>
     grown p E vis ex \<and> set q \<subseteq> E \<and> sorted_wrt (\<lambda>a b. bn_depth a \<le> bn_depth b) q \<and>
     (q \<noteq> [] \<longrightarrow> (\<forall>n\<in>E. bn_depth n \<le> Suc (bn_depth (hd q)))) \<and>
     (length ex < bp_max_paths p \<longrightarrow> (\<forall>n\<in>E. n \<in> set q \<or> settled p E n))"

lemma loop_ok_skip:
  assumes "loop_ok p E (node # q) vis ex" "bp_max_depth p \<le> bn_depth node"
  shows "loop_ok p E q vis ex"
proof -
  have "\<forall>n\<in>E. bn_depth n \<le> Suc (bn_depth (hd q))" if "q \<noteq> []"
    using assms(1) that hd_in_set [OF that] unfolding loop_ok_def
    by (auto intro: le_trans)
  with assms show ?thesis by (auto simp: loop_ok_def settled_def)
qed

lemma loop_ok_step:
  assumes ok: "loop_ok p E (node # q) vis ex" and low: "bn_depth node < bp_max_depth p"
    and run: "process_neighbors p node (node_neighbors p (bn_path node)) vis ex = (q', vis', ex')"
  shows "loop_ok p (E \<union> set q') (q @ q') vis' ex'"
proof -
  let ?F = "E \<union> set q'"
  have E: "grown p E vis ex" "node \<in> E" "set q \<subseteq> E" "\<forall>n\<in>E. bn_depth n \<le> Suc (bn_depth node)"
    "\<forall>n\<in>set q. bn_depth node \<le> bn_depth n" "sorted_wrt (\<lambda>a b. bn_depth a \<le> bn_depth b) q"
    "length ex < bp_max_paths p \<longrightarrow> (\<forall>n\<in>E. n = node \<or> n \<in> set q \<or> settled p E n)"
    using ok by (auto simp: loop_ok_def)
  have g: "grown p ?F vis' ex'" "length ex \<le> length ex'"
    "length ex' < bp_max_paths p \<longrightarrow> (\<forall>n\<in>set (node_neighbors p (bn_path node)). covers p ?F node n)"
    using process_neighbors_grown [OF E(1,2) low subset_refl E(4) run] by auto
  have new: "bn_depth n = Suc (bn_depth node)" if "n \<in> set q'" for n
    using process_neighbors_depth [OF run that] .
  have "sorted_wrt (\<lambda>a b. bn_depth a \<le> bn_depth b) q'"
    using new by (auto simp: sorted_wrt_iff_nth_less)
  then have sorted: "sorted_wrt (\<lambda>a b. bn_depth a \<le> bn_depth b) (q @ q')"
    using E(3,4,6) new by (auto simp: sorted_wrt_append)
  have upper: "bn_depth n \<le> Suc (bn_depth node)" if "n \<in> ?F" for n using that E(4) new by auto
  have lower: "bn_depth node \<le> bn_depth n" if "n \<in> set (q @ q')" for n using that E(5) new by auto
  have bound: "bn_depth n \<le> Suc (bn_depth (hd (q @ q')))" if "n \<in> ?F" "q @ q' \<noteq> []" for n
    using upper [OF that(1)] lower [OF hd_in_set [OF that(2)]] by simp
  have rest: "n \<in> set (q @ q') \<or> settled p ?F n" if "length ex' < bp_max_paths p" "n \<in> ?F" for n
  proof (cases "n = node")
    case True
    with g(3) that(1) show ?thesis by (simp add: settled_def)
  next
    case False
    with that g(2) E(7) have "n \<in> set (q @ q') \<or> settled p E n" by auto
    then show ?thesis using settled_mono [of p E n ?F] by auto
  qed
  from g(1) sorted bound rest E(3) show ?thesis unfolding loop_ok_def by auto
qed

lemma loop_result:
  "loop_ok p E q vis ex \<Longrightarrow> \<exists>F vis'. E \<subseteq> F \<and> loop_ok p F [] vis' (expand_loop p q vis ex)"
proof (induction p q vis ex arbitrary: E rule: expand_loop.induct)
  case (1 p vis ex)
  then show ?case by auto
next
  case (2 p node q vis ex)
  show ?case
  proof (cases "bp_max_depth p \<le> bn_depth node")
    case True
    with 2(1) [OF True loop_ok_skip [OF 2(3) True]] show ?thesis by simp
  next
    case False
    obtain q' vis' ex' where run:
      "process_neighbors p node (node_neighbors p (bn_path node)) vis ex = (q', vis', ex')"
      by (metis prod_cases3)
    from 2(2) [OF False run [symmetric] refl] loop_ok_step [OF 2(3) _ run] False run
    obtain F vis2 where "E \<union> set q' \<subseteq> F" "loop_ok p F [] vis2 (expand_loop p (q @ q') vis' ex')"
      by (metis not_le)
    with False run show ?thesis by auto
  qed
qed

lemma seed_scores:
  "fold (\<lambda>r m. m(sr_path r \<mapsto> sr_score r)) rs vis m = Some x \<Longrightarrow>
     vis m = Some x \<or> (\<exists>r\<in>set rs. sr_path r = m \<and> sr_score r = x)"
proof (induction rs arbitrary: vis)
  case (Cons r rs)
  from Cons.IH [of "vis(sr_path r \<mapsto> sr_score r)"] Cons.prems show ?case
    by (auto split: if_splits)
qed simp

definition seed_nodes :: "bfs_params \<Rightarrow> bfs_node list" where
  "seed_nodes p = map (\<lambda>r. \<lparr> bn_path = sr_path r, bn_depth = 0, bn_score = sr_score r \<rparr>) (bp_seeds p)"

lemma run_graph_bfs_ok:
  "\<exists>F vis. set (seed_nodes p) \<subseteq> F \<and> loop_ok p F [] vis (run_graph_bfs p)"
proof -
  let ?vis = "fold (\<lambda>r m. m(sr_path r \<mapsto> sr_score r)) (bp_seeds p) (\<lambda>_. None)"
  have zero: "bn_depth n = 0" if "n \<in> set (seed_nodes p)" for n
    using that by (auto simp: seed_nodes_def)
  have "grown p (set (seed_nodes p)) ?vis []"
    using seed_scores [of "bp_seeds p" "\<lambda>_. None"] zero
    by (fastforce simp: grown_def walk_node_def seed_nodes_def)
  then have "loop_ok p (set (seed_nodes p)) (seed_nodes p) ?vis []"
    using zero by (simp add: loop_ok_def sorted_wrt_iff_nth_less)
  from loop_result [OF this] show ?thesis by (simp add: run_graph_bfs_def seed_nodes_def)
qed

text \<open>When the loop is over, every walk within the depth whose score is above the floor has ended
  in a node that is as good.\<close>

lemma walks_covered:
  assumes ok: "loop_ok p F [] vis ex" and seeds: "set (seed_nodes p) \<subseteq> F"
    and room: "length ex < bp_max_paths p" and decay: "0 < bp_decay p" "bp_decay p \<le> 1"
    and floor: "0 < bp_floor p" and r: "r \<in> set (bp_seeds p)"
  shows "hop_walk p (sr_path r) k b \<Longrightarrow> k \<le> bp_max_depth p \<Longrightarrow>
    bp_floor p \<le> sr_score r * bp_decay p ^ k \<Longrightarrow>
    \<exists>n\<in>F. bn_path n = b \<and> bn_depth n \<le> k \<and> sr_score r * bp_decay p ^ k \<le> bn_score n"
proof (induction k b rule: hop_walk.induct)
  case hop_start
  let ?n = "\<lparr> bn_path = sr_path r, bn_depth = 0, bn_score = sr_score r \<rparr>"
  have "?n \<in> F" using r seeds by (auto simp: seed_nodes_def)
  then show ?case by (intro bexI [of _ ?n]) auto
next
  case (hop_step k b c)
  let ?s = "sr_score r * bp_decay p ^ k"
  have s: "bp_floor p \<le> ?s * bp_decay p" using hop_step.prems(2) by (simp add: algebra_simps)
  then have "0 < ?s * bp_decay p" using floor by linarith
  then have "0 < ?s" using decay(1) by (simp add: zero_less_mult_iff)
  then have "?s * bp_decay p \<le> ?s" using mult_left_mono [OF decay(2), of ?s] by simp
  with s hop_step.IH hop_step.prems(1) obtain n where
    n: "n \<in> F" "bn_path n = b" "bn_depth n \<le> k" "?s \<le> bn_score n" by auto
  have "settled p F n" using ok room n(1) by (simp add: loop_ok_def)
  with n hop_step.hyps(2) hop_step.prems(1) have "covers p F n c" by (auto simp: settled_def)
  moreover have le: "?s * bp_decay p \<le> bn_score n * bp_decay p"
    using n(4) decay(1) by (simp add: mult_right_mono)
  ultimately obtain m where m: "m \<in> F" "bn_path m = c" "bn_depth m \<le> Suc (bn_depth n)"
    "bn_score n * bp_decay p \<le> bn_score m"
    using s hop_step.hyps(3) unfolding covers_def by (meson order_trans)
  moreover have "sr_score r * bp_decay p ^ Suc k = ?s * bp_decay p" by simp
  ultimately show ?case using n(3) le by (metis Suc_le_mono order_trans)
qed


section \<open>The expansion is the best walks\<close>

lemma seeds_listed: "set (gs_list (collect_graph_seeds rs)) = set (map sr_path rs)"
proof -
  have "set (gs_list (add_graph_seeds rs gs)) = set (gs_list gs) \<union> set (map sr_path rs)" for gs
    by (induction rs arbitrary: gs) auto
  then show ?thesis by (simp add: collect_graph_seeds_def Let_def)
qed

definition expansion_walk :: "bfs_params \<Rightarrow> string \<Rightarrow> nat \<Rightarrow> search_result \<Rightarrow> bool" where
  "expansion_walk p b k r \<longleftrightarrow>
     r \<in> set (bp_seeds p) \<and> hop_walk p (sr_path r) k b \<and> k \<le> bp_max_depth p \<and>
     bp_floor p \<le> sr_score r * bp_decay p ^ k"

lemma run_graph_bfs_sound:
  assumes "map_of (run_graph_bfs p) b = Some h"
  shows "b \<notin> set (bp_seed_paths p) \<and> 0 < gh_depth h \<and>
    (\<exists>r. expansion_walk p b (gh_depth h) r \<and> gh_score h = sr_score r * bp_decay p ^ gh_depth h)"
proof -
  obtain F vis where "loop_ok p F [] vis (run_graph_bfs p)" using run_graph_bfs_ok by blast
  then have g: "grown p F vis (run_graph_bfs p)" by (simp add: loop_ok_def)
  with assms have "hop_of p F b h" unfolding grown_def by blast
  moreover from this g have "walk_node p \<lparr> bn_path = b, bn_depth = gh_depth h, bn_score = gh_score h \<rparr>"
    unfolding grown_def hop_of_def by blast
  ultimately show ?thesis by (auto simp: hop_of_def walk_node_def expansion_walk_def)
qed

lemma run_graph_bfs_capped: "length (run_graph_bfs p) \<le> bp_max_paths p \<and> distinct (map fst (run_graph_bfs p))"
  using run_graph_bfs_ok [of p] by (auto simp: loop_ok_def grown_def)

lemma run_graph_bfs_complete:
  assumes "length (run_graph_bfs p) < bp_max_paths p" "0 < bp_decay p" "bp_decay p \<le> 1" "0 < bp_floor p"
    "set (map sr_path (bp_seeds p)) \<subseteq> set (bp_seed_paths p)" "b \<notin> set (bp_seed_paths p)" "expansion_walk p b k r"
  shows "\<exists>h. map_of (run_graph_bfs p) b = Some h \<and> sr_score r * bp_decay p ^ k \<le> gh_score h"
proof -
  obtain F vis where ok: "set (seed_nodes p) \<subseteq> F" "loop_ok p F [] vis (run_graph_bfs p)"
    using run_graph_bfs_ok by blast
  obtain n where n: "n \<in> F" "bn_path n = b" "bn_depth n \<le> k" "sr_score r * bp_decay p ^ k \<le> bn_score n"
    using walks_covered [OF ok(2,1) assms(1-4)] assms(7) unfolding expansion_walk_def by blast
  have g: "grown p F vis (run_graph_bfs p)" using ok(2) by (simp add: loop_ok_def)
  with n(1) have "walk_node p n" by (simp add: grown_def)
  then have "0 < bn_depth n" using assms(5,6) n(2) by (cases "bn_depth n") (auto simp: walk_node_def)
  with g n(1,2) assms(6) obtain h where "map_of (run_graph_bfs p) b = Some h" "bn_score n \<le> gh_score h"
    unfolding grown_def by blast
  with n(4) show ?thesis by (meson order_trans)
qed


definition demo_imports :: "(string \<times> string list) list" where
  "demo_imports = [(''a'', [''b'']), (''b'', [''c'']), (''d'', [''a''])]"

lemma demo_expansion:
  "run_graph_bfs (expansion_params demo_imports [(demo_hit ''a'' 1)\<lparr>sr_score := 9 / 10\<rparr>] 2) =
     [(''b'', \<lparr> gh_score = 153 / 200, gh_depth = 1 \<rparr>), (''d'', \<lparr> gh_score = 153 / 200, gh_depth = 1 \<rparr>),
      (''c'', \<lparr> gh_score = 2601 / 4000, gh_depth = 2 \<rparr>)]"
  by (simp add: run_graph_bfs_def expansion_params_def demo_imports_def graph_targets_def
      reverse_graph_edges_def collect_graph_seeds_def node_neighbors_def process_bfs_node_def demo_hit_def Let_def)


end
