(* ===== verification/SearchExpand.thy ===== *)
theory SearchExpand
  imports SearchGraph LocalStore
begin

text \<open>
  The recursive SQL query of \<open>localstore.FetchGraphPathsBFS\<close>, its hops, and the chunks of the
  files the expansion found (\<open>internal/search/service.go\<close>).  Proved: when all hits have the same
  score the query gives the same hops as the walk in memory.
\<close>

section \<open>The recursive query\<close>

definition project_edges :: "nat \<Rightarrow> db \<Rightarrow> (string \<times> string) list" where
  "project_edges pid d = map snd (filter (\<lambda>(p, e). p = pid) (db_deps d))"

definition fetch_graph_neighbors_map :: "nat \<Rightarrow> db \<Rightarrow> (string \<times> string list) list" where
  "fetch_graph_neighbors_map pid d =
     (let es = project_edges pid d
      in map (\<lambda>s. (s, map snd (filter (\<lambda>e. fst e = s) es))) (remdups (map fst es)))"

definition edge_links :: "(string \<times> string) list \<Rightarrow> string \<Rightarrow> string list" where
  "edge_links es f = map snd (filter (\<lambda>e. fst e = f) es) @ map fst (filter (\<lambda>e. snd e = f) es)"

text \<open>The rows \<open>graph_bfs(file_path, depth)\<close>, level by level; \<open>UNION\<close> drops repeated rows.\<close>

fun graph_bfs_rows :: "(string \<times> string) list \<Rightarrow> string list \<Rightarrow> nat \<Rightarrow> nat \<Rightarrow> (string \<times> nat) list" where
  "graph_bfs_rows es fs depth 0 = []"
| "graph_bfs_rows es fs depth (Suc n) =
     (let level = remdups (concat (map (edge_links es) fs))
      in map (\<lambda>f. (f, depth)) level @ graph_bfs_rows es level (Suc depth) n)"

definition fetch_graph_paths_bfs :: "nat \<Rightarrow> string list \<Rightarrow> nat \<Rightarrow> db \<Rightarrow> (string \<times> nat) list" where
  "fetch_graph_paths_bfs pid seeds max_depth d =
     filter (\<lambda>(f, depth). f \<notin> set seeds)
       (AList.clearjunk (graph_bfs_rows (project_edges pid d) seeds 1 max_depth))"

fun hops_from_cte_paths :: "rat \<Rightarrow> (string \<times> nat) list \<Rightarrow> expansion \<Rightarrow> expansion" where
  "hops_from_cte_paths max_score [] ex = ex"
| "hops_from_cte_paths max_score ((path, depth) # ps) ex =
     (if length ex \<ge> 100 then ex
      else (let score = max_score * (85 / 100) ^ depth
        in if score < 3 / 10 then hops_from_cte_paths max_score ps ex
           else hops_from_cte_paths max_score ps
             (AList.update path \<lparr> gh_score = score, gh_depth = depth \<rparr> ex)))"

section \<open>What the query finds\<close>

inductive edge_walk :: "(string \<times> string) list \<Rightarrow> string \<Rightarrow> nat \<Rightarrow> string \<Rightarrow> bool" for es a where
  edge_start: "edge_walk es a 0 a"
| edge_step: "edge_walk es a k b \<Longrightarrow> c \<in> set (edge_links es b) \<Longrightarrow> edge_walk es a (Suc k) c"

inductive_simps edge_walk_0 [simp]: "edge_walk es a 0 b"
inductive_cases edge_walk_SucE: "edge_walk es a (Suc k) b"

lemma edge_walk_head: "b \<in> set (edge_links es a) \<Longrightarrow> edge_walk es b k c \<Longrightarrow> edge_walk es a (Suc k) c"
  by (rotate_tac, induction k c rule: edge_walk.induct) (auto intro: edge_walk.intros)

lemma edge_walk_first:
  "edge_walk es a (Suc k) c \<Longrightarrow> \<exists>b. b \<in> set (edge_links es a) \<and> edge_walk es b k c"
proof (induction k arbitrary: c)
  case 0
  then show ?case by (auto elim!: edge_walk_SucE)
next
  case (Suc k)
  from Suc.prems obtain b where b: "edge_walk es a (Suc k) b" "c \<in> set (edge_links es b)"
    by (rule edge_walk_SucE)
  with Suc.IH [OF b(1)] show ?case by (auto intro: edge_walk.edge_step)
qed

lemma graph_bfs_rows_iff:
  "(f, e) \<in> set (graph_bfs_rows es fs depth n) \<longleftrightarrow>
     (\<exists>k a. k < n \<and> e = depth + k \<and> a \<in> set fs \<and> edge_walk es a (Suc k) f)"
proof (induction n arbitrary: fs depth)
  case (Suc n)
  let ?level = "remdups (concat (map (edge_links es) fs))"
  have one: "edge_walk es a (Suc 0) f \<longleftrightarrow> f \<in> set (edge_links es a)" for a
    by (auto elim: edge_walk_SucE intro: edge_walk.intros)
  have "(f, e) \<in> set (graph_bfs_rows es fs depth (Suc n)) \<longleftrightarrow>
      (e = depth \<and> (\<exists>a\<in>set fs. edge_walk es a (Suc 0) f)) \<or>
      (\<exists>k a. k < n \<and> e = Suc depth + k \<and> a \<in> set ?level \<and> edge_walk es a (Suc k) f)"
    by (auto simp: Let_def Suc.IH one)
  also have "(\<exists>k a. k < n \<and> e = Suc depth + k \<and> a \<in> set ?level \<and> edge_walk es a (Suc k) f) \<longleftrightarrow>
      (\<exists>k a. k < n \<and> e = Suc depth + k \<and> a \<in> set fs \<and> edge_walk es a (Suc (Suc k)) f)"
    using edge_walk_head [of _ es] edge_walk_first [of es] by fastforce
  also have "(e = depth \<and> (\<exists>a\<in>set fs. edge_walk es a (Suc 0) f)) \<or> \<dots> \<longleftrightarrow>
      (\<exists>k a. k < Suc n \<and> e = depth + k \<and> a \<in> set fs \<and> edge_walk es a (Suc k) f)"
    by (auto simp: less_Suc_eq_0_disj)
  finally show ?case .
qed simp

text \<open>Rows are ordered by depth, so the first row of a file has its least depth.\<close>

lemma graph_bfs_rows_sorted:
  "sorted_wrt (\<le>) (map snd (graph_bfs_rows es fs depth n)) \<and>
   (\<forall>x\<in>set (graph_bfs_rows es fs depth n). depth \<le> snd x)"
proof (induction n arbitrary: fs depth)
  case (Suc n)
  have "sorted_wrt (\<le>) (map snd (map (\<lambda>f. (f, depth)) l))" for l :: "string list"
    by (induction l) auto
  with Suc.IH [where depth = "Suc depth"] show ?case
    by (fastforce simp: Let_def sorted_wrt_append)
qed simp

lemma map_of_least:
  "sorted_wrt (\<le>) (map snd rows) \<Longrightarrow> map_of rows f = Some e \<Longrightarrow> (f, e') \<in> set rows \<Longrightarrow> (e :: nat) \<le> e'"
  by (induction rows) (auto split: if_splits)

lemma map_of_filter_key: "map_of (filter (\<lambda>(k, v). P k) xs) k = (if P k then map_of xs k else None)"
  by (induction xs) auto

lemma fetch_graph_paths_distinct: "distinct (map fst (fetch_graph_paths_bfs pid seeds n d))"
  unfolding fetch_graph_paths_bfs_def by (rule distinct_map_filter) (simp add: distinct_clearjunk)

lemma fetch_graph_paths_least:
  assumes "map_of (fetch_graph_paths_bfs pid seeds n d) f = Some e"
  shows "f \<notin> set seeds \<and> 0 < e \<and> e \<le> n \<and> (\<exists>a\<in>set seeds. edge_walk (project_edges pid d) a e f) \<and>
    (\<forall>k a. a \<in> set seeds \<longrightarrow> 0 < k \<longrightarrow> k \<le> n \<longrightarrow> edge_walk (project_edges pid d) a k f \<longrightarrow> e \<le> k)"
proof -
  let ?rows = "graph_bfs_rows (project_edges pid d) seeds 1 n"
  from assms have f: "f \<notin> set seeds" "map_of ?rows f = Some e"
    by (auto simp: fetch_graph_paths_bfs_def map_of_filter_key map_of_clearjunk split: if_splits)
  from map_of_SomeD [OF f(2)] obtain k a where k: "k < n" "e = 1 + k" "a \<in> set seeds"
    "edge_walk (project_edges pid d) a (Suc k) f" unfolding graph_bfs_rows_iff by blast
  have "e \<le> j" if "a \<in> set seeds" "0 < j" "j \<le> n" "edge_walk (project_edges pid d) a j f" for j a
  proof -
    have "(f, j) \<in> set ?rows" unfolding graph_bfs_rows_iff
      using that by (intro exI [of _ "j - 1"] exI [of _ a]) auto
    with map_of_least [OF _ f(2)] graph_bfs_rows_sorted show ?thesis by blast
  qed
  with f k show ?thesis by auto
qed

lemma fetch_graph_paths_found:
  assumes "f \<notin> set seeds" "a \<in> set seeds" "0 < k" "k \<le> n" "edge_walk (project_edges pid d) a k f"
  shows "\<exists>e. map_of (fetch_graph_paths_bfs pid seeds n d) f = Some e"
proof -
  have "(f, k) \<in> set (graph_bfs_rows (project_edges pid d) seeds 1 n)"
    unfolding graph_bfs_rows_iff using assms by (intro exI [of _ "k - 1"] exI [of _ a]) auto
  then have "map_of (graph_bfs_rows (project_edges pid d) seeds 1 n) f \<noteq> None"
    by (metis weak_map_of_SomeI option.distinct(1))
  with assms(1) show ?thesis
    by (auto simp: fetch_graph_paths_bfs_def map_of_filter_key map_of_clearjunk)
qed


section \<open>The query and the walk in memory agree\<close>

lemma hops_from_cte_map:
  "distinct (map fst ps) \<Longrightarrow> fst ` set ps \<inter> fst ` set ex = {} \<Longrightarrow> length ex + length ps \<le> 100 \<Longrightarrow>
   map_of (hops_from_cte_paths m ps ex) f =
     (case map_of ps f of
        Some e \<Rightarrow> (if m * (85 / 100) ^ e < 3 / 10 then None
                   else Some \<lparr> gh_score = m * (85 / 100) ^ e, gh_depth = e \<rparr>)
      | None \<Rightarrow> map_of ex f)"
proof (induction m ps ex rule: hops_from_cte_paths.induct)
  case (2 m path e ps ex)
  let ?s = "m * (85 / 100) ^ e" and ?h = "\<lparr> gh_score = m * (85 / 100) ^ e, gh_depth = e \<rparr>"
  have fresh: "path \<notin> fst ` set ps" "map_of ex path = None" "map_of ps path = None"
    using 2(3,4) by (auto simp: map_of_eq_None_iff)
  have room: "\<not> length ex \<ge> 100" using 2(5) by simp
  show ?case
  proof (cases "?s < 3 / 10")
    case True
    with 2(1) [OF room refl True] 2(3-5) fresh room show ?thesis by (auto split: option.splits)
  next
    case False
    have "length (AList.update path ?h ex) \<le> Suc (length ex)"
      by (rule conjunct2 [OF update_length])
    moreover have "fst ` set ps \<inter> fst ` set (AList.update path ?h ex) = {}"
      using 2(4) fresh(1) unfolding dom_update by auto
    ultimately show ?thesis
      using 2(2) [OF room refl False] 2(3,5) fresh room False
      by (auto simp: update_conv' split: option.splits)
  qed
qed simp

lemma mset_map_of: "mset xs = mset ys \<Longrightarrow> distinct (map fst ys) \<Longrightarrow> map_of xs = map_of ys"
  by (metis map_of_inject_set mset_eq_setD mset_eq_imp_distinct_iff mset_map)

lemma neighbors_of_entries:
  assumes "mset graph = mset (fetch_graph_neighbors_map pid d)"
  shows "set (node_neighbors (expansion_params graph seeds n) f) = set (edge_links (project_edges pid d) f)"
proof -
  let ?es = "project_edges pid d" and ?entry = "\<lambda>s. map snd (filter (\<lambda>e. fst e = s) (project_edges pid d))"
  have entries: "fetch_graph_neighbors_map pid d = map (\<lambda>s. (s, ?entry s)) (remdups (map fst ?es))"
    by (simp add: fetch_graph_neighbors_map_def Let_def)
  have "distinct (map fst (fetch_graph_neighbors_map pid d))" by (simp add: entries comp_def)
  from mset_map_of [OF assms this]
  have "graph_targets graph f = graph_targets (fetch_graph_neighbors_map pid d) f"
    by (simp add: graph_targets_def)
  also have "\<dots> = (if f \<in> fst ` set ?es then ?entry f else [])"
    by (simp add: graph_targets_def entries map_of_map_restrict restrict_map_def)
  also have "set \<dots> = {t. (f, t) \<in> set ?es}" by force
  finally have out: "set (graph_targets graph f) = {t. (f, t) \<in> set ?es}" .
  have "set graph = set (fetch_graph_neighbors_map pid d)" using assms by (metis mset_eq_setD)
  then have g: "set graph = (\<lambda>s. (s, ?entry s)) ` fst ` set ?es" by (simp add: entries)
  have "set (reverse_graph_edges graph f) = {s. \<exists>ts. (s, ts) \<in> set graph \<and> f \<in> set ts}"
    by (auto simp: reverse_graph_edges_def)
  also have "\<dots> = {s. s \<in> fst ` set ?es \<and> f \<in> set (?entry s)}"
  proof -
    have mem: "(s, ts) \<in> set graph \<longleftrightarrow> s \<in> fst ` set ?es \<and> ts = ?entry s" for s ts unfolding g by blast
    show ?thesis by (intro Collect_cong) (auto simp only: mem)
  qed
  also have "\<dots> = {s. (s, f) \<in> set ?es}" by force
  finally have "set (reverse_graph_edges graph f) = {s. (s, f) \<in> set ?es}" .
  with out show ?thesis
    by (auto simp: node_neighbors_def expansion_params_def edge_links_def) force+
qed

lemma hop_walk_edges:
  assumes "mset graph = mset (fetch_graph_neighbors_map pid d)" "[] \<notin> set (map fst (project_edges pid d))"
    "[] \<notin> set (map snd (project_edges pid d))"
  shows "hop_walk (expansion_params graph seeds n) a k b \<longleftrightarrow> edge_walk (project_edges pid d) a k b"
proof
  assume "hop_walk (expansion_params graph seeds n) a k b"
  then show "edge_walk (project_edges pid d) a k b"
    by (induction k b rule: hop_walk.induct)
      (auto intro: edge_walk.intros simp: neighbors_of_entries [OF assms(1)])
next
  have ne: "c \<noteq> []" if "c \<in> set (edge_links (project_edges pid d) b)" for b c
    using that assms(2,3) by (auto simp: edge_links_def)
  assume "edge_walk (project_edges pid d) a k b"
  then show "hop_walk (expansion_params graph seeds n) a k b"
    by (induction k b rule: edge_walk.induct)
      (auto intro!: hop_walk.intros simp: neighbors_of_entries [OF assms(1)] dest: ne)
qed

lemma same_scores_max:
  assumes "list_all (\<lambda>r. sr_score r = s) seeds" "seeds \<noteq> []" "0 < s"
  shows "gs_max_score (collect_graph_seeds seeds) = s"
proof -
  have "gs_max_score (add_graph_seeds rs gs) = s"
    if "list_all (\<lambda>r. sr_score r = s) rs" "gs_max_score gs = s \<or> rs \<noteq> [] \<and> gs_max_score gs = 0" for rs gs
    using that assms(3) by (induction rs arbitrary: gs) auto
  with assms show ?thesis by (simp add: collect_graph_seeds_def Let_def)
qed

lemma decay_power_le: "(85 / 100 :: rat) ^ k \<le> (85 / 100) ^ e \<longleftrightarrow> e \<le> k"
  by (rule power_decreasing_iff) auto


text \<open>What the comparison assumes: hits of one score, edges between named files, a graph that is
  the stored one in any order.\<close>

definition query_setup :: "rat \<Rightarrow> search_result list \<Rightarrow> nat \<Rightarrow> db \<Rightarrow> (string \<times> string list) list \<Rightarrow> bool" where
  "query_setup s seeds pid d graph \<longleftrightarrow>
     seeds \<noteq> [] \<and> list_all (\<lambda>r. sr_score r = s) seeds \<and> 0 < s \<and>
     [] \<notin> set (map fst (project_edges pid d)) \<and> [] \<notin> set (map snd (project_edges pid d)) \<and>
     mset graph = mset (fetch_graph_neighbors_map pid d)"

lemma expansion_walk_edges:
  assumes "query_setup s seeds pid d graph"
  shows "expansion_walk (expansion_params graph seeds n) b k r \<longleftrightarrow>
    r \<in> set seeds \<and> edge_walk (project_edges pid d) (sr_path r) k b \<and> k \<le> n \<and> 3 / 10 \<le> s * (85 / 100) ^ k"
proof -
  have "r \<in> set seeds \<Longrightarrow> sr_score r = s" using assms by (auto simp: query_setup_def list_all_iff)
  moreover have "hop_walk (expansion_params graph seeds n) a k b = edge_walk (project_edges pid d) a k b" for a
    using assms by (intro hop_walk_edges) (auto simp: query_setup_def)
  ultimately show ?thesis by (auto simp: expansion_walk_def expansion_params_def)
qed

lemma walk_in_query:
  assumes "query_setup s seeds pid d graph" "expansion_walk (expansion_params graph seeds n) b k r"
    "b \<notin> set (map sr_path seeds)"
  shows "\<exists>e. map_of (fetch_graph_paths_bfs pid (map sr_path seeds) n d) b = Some e"
proof (rule fetch_graph_paths_found [of b "map sr_path seeds" "sr_path r" k])
  show "0 < k" using assms(2,3) by (cases k) (auto simp: expansion_walk_edges [OF assms(1)])
qed (use assms in \<open>auto simp: expansion_walk_edges [OF assms(1)]\<close>)

lemma query_hop_walks:
  assumes "query_setup s seeds pid d graph"
    "map_of (fetch_graph_paths_bfs pid (map sr_path seeds) n d) b = Some e" "3 / 10 \<le> s * (85 / 100) ^ e"
  shows "b \<notin> set (map sr_path seeds) \<and> (\<exists>r. expansion_walk (expansion_params graph seeds n) b e r)"
  using fetch_graph_paths_least [OF assms(2)] assms(3) by (auto simp: expansion_walk_edges [OF assms(1)])

lemma bfs_hop_walks:
  assumes "query_setup s seeds pid d graph" "map_of (run_graph_bfs (expansion_params graph seeds n)) b = Some h"
  shows "b \<notin> set (map sr_path seeds) \<and> 0 < gh_depth h \<and> gh_score h = s * (85 / 100) ^ gh_depth h \<and>
    (\<exists>r. expansion_walk (expansion_params graph seeds n) b (gh_depth h) r)"
proof -
  obtain r where r: "b \<notin> set (map sr_path seeds)" "0 < gh_depth h"
    "expansion_walk (expansion_params graph seeds n) b (gh_depth h) r"
    "gh_score h = sr_score r * (85 / 100) ^ gh_depth h"
    using run_graph_bfs_sound [OF assms(2)] by (auto simp: expansion_params_def seeds_listed)
  moreover from r(3) have "sr_score r = s"
    using assms(1) by (auto simp: expansion_walk_edges [OF assms(1)] query_setup_def list_all_iff)
  ultimately show ?thesis by auto
qed

lemma bfs_fewer_files:
  assumes "query_setup s seeds pid d graph"
  shows "length (run_graph_bfs (expansion_params graph seeds n)) \<le>
    length (fetch_graph_paths_bfs pid (map sr_path seeds) n d)"
proof -
  let ?ex = "run_graph_bfs (expansion_params graph seeds n)"
    and ?fetch = "fetch_graph_paths_bfs pid (map sr_path seeds) n d"
  have "set (map fst ?ex) \<subseteq> set (map fst ?fetch)"
  proof
    fix b assume "b \<in> set (map fst ?ex)"
    then have "map_of ?ex b \<noteq> None" by (simp add: map_of_eq_None_iff)
    then obtain h where "map_of ?ex b = Some h" by blast
    with bfs_hop_walks [OF assms this] walk_in_query [OF assms] have "map_of ?fetch b \<noteq> None" by blast
    then show "b \<in> set (map fst ?fetch)" by (simp add: map_of_eq_None_iff)
  qed
  then have "card (set (map fst ?ex)) \<le> card (set (map fst ?fetch))" by (intro card_mono) auto
  then show ?thesis
    using run_graph_bfs_capped [of "expansion_params graph seeds n"] fetch_graph_paths_distinct
    by (simp only: distinct_card length_map)
qed

lemma bfs_best_walk:
  assumes "query_setup s seeds pid d graph" "b \<notin> set (map sr_path seeds)"
    "length (fetch_graph_paths_bfs pid (map sr_path seeds) n d) < 100"
    "expansion_walk (expansion_params graph seeds n) b k r"
  shows "\<exists>h. map_of (run_graph_bfs (expansion_params graph seeds n)) b = Some h \<and> s * (85 / 100) ^ k \<le> gh_score h"
proof -
  have "sr_score r = s"
    using assms(1,4) by (auto simp: expansion_walk_edges [OF assms(1)] query_setup_def list_all_iff)
  with run_graph_bfs_complete [of "expansion_params graph seeds n" b k r] bfs_fewer_files [OF assms(1), of n] assms(2-4)
  show ?thesis by (simp add: expansion_params_def seeds_listed)
qed



definition demo_deps_db :: db where
  "demo_deps_db = empty_db\<lparr>db_deps := [(7, ''a'', ''b''), (7, ''b'', ''c''), (8, ''a'', ''z''), (7, ''d'', ''a'')]\<rparr>"

lemma demo_edges: "project_edges 7 demo_deps_db = [(''a'', ''b''), (''b'', ''c''), (''d'', ''a'')]"
  by (simp add: project_edges_def demo_deps_db_def empty_db_def)

lemma demo_graph: "fetch_graph_neighbors_map 7 demo_deps_db = demo_imports"
  by (simp add: fetch_graph_neighbors_map_def demo_edges demo_imports_def)

lemma demo_paths: "fetch_graph_paths_bfs 7 [''a''] 2 demo_deps_db = [(''b'', 1), (''d'', 1), (''c'', 2)]"
  by (simp add: fetch_graph_paths_bfs_def demo_edges edge_links_def numeral_2_eq_2)


end
