(* ===== verification/SearchLocal.thy ===== *)
theory SearchLocal
  imports SearchExpand TopK
begin

text \<open>
  The read side of the SQLite store (\<open>internal/localstore/localstore.go\<close>): hits of the similarity
  scan and of the keyword search, the chunks of expanded files, hashes and projects.  The FTS5
  engine is the argument \<open>bm25\<close> (the rank of a chunk for a MATCH expression, \<open>None\<close> when it does
  not match).  Proved: the keyword search returns every chunk that contains a query word.
\<close>

section \<open>Hits\<close>

definition file_path_of :: "db \<Rightarrow> nat \<Rightarrow> string" where
  "file_path_of d fid = (case find (\<lambda>f. fr_id f = fid) (db_files d) of Some f \<Rightarrow> fr_path f | None \<Rightarrow> [])"

definition chunk_hit :: "db \<Rightarrow> rat \<Rightarrow> chunk_row \<Rightarrow> search_result" where
  "chunk_hit d score c =
     \<lparr> sr_path = file_path_of d (cr_file c), sr_content = cr_content c, sr_score = score,
       sr_start = cr_start c, sr_end = cr_end c,
       sr_confidence = (if cr_confidence c = [] then ''AMBIGUOUS'' else cr_confidence c),
       sr_symbol = (case cr_symbol c of Some s \<Rightarrow> s | None \<Rightarrow> []),
       sr_stale = False, sr_indexed_at = 0, sr_source = [], sr_depth = 0 \<rparr>"

definition similar_hits ::
  "(vec \<Rightarrow> string \<Rightarrow> rat) \<Rightarrow> nat \<Rightarrow> vec \<Rightarrow> int \<Rightarrow> string \<Rightarrow> db \<Rightarrow> search_result list" where
  "similar_hits cosine pid q k wt d = map (\<lambda>(s, c). chunk_hit d s c) (search_similar_db cosine pid q k wt d)"

section \<open>LIKE\<close>

text \<open>SQLite's LIKE: \<open>%\<close> any bytes, \<open>_\<close> any one, ASCII letters without regard to case.  A multi-byte
  character counts as its bytes here.\<close>

fun like :: "string \<Rightarrow> string \<Rightarrow> bool" where
  "like [] s \<longleftrightarrow> s = []"
| "like (p # ps) [] \<longleftrightarrow> p = CHR ''%'' \<and> like ps []"
| "like (p # ps) (c # s) \<longleftrightarrow>
     (if p = CHR ''%'' then like ps (c # s) \<or> like (p # ps) s
      else (p = CHR ''_'' \<or> ascii_lower p = ascii_lower c) \<and> like ps s)"

lemma like_percent: "like ps s \<Longrightarrow> like (CHR ''%'' # ps) s"
  by (cases s) auto

lemma like_skip: "like (CHR ''%'' # ps) s \<Longrightarrow> like (CHR ''%'' # ps) (u @ s)"
  by (induction u) auto

lemma like_all: "like [CHR ''%''] s"
  by (induction s) auto

lemma like_literal: "like (w @ [CHR ''%'']) (w @ s)"
proof (induction w)
  case (Cons c w)
  show ?case
  proof (cases "c = CHR ''%''")
    case True
    have "like (CHR ''%'' # w @ [CHR ''%'']) ([CHR ''%''] @ w @ s)"
      by (rule like_skip) (rule like_percent [OF Cons.IH])
    with True show ?thesis by simp
  qed (simp add: Cons.IH)
qed (simp add: like_all)

lemma str_index_split: "str_index s w = Some i \<Longrightarrow> \<exists>u v. s = u @ w @ v"
proof (induction s arbitrary: i)
  case (Cons c s)
  show ?case
  proof (cases "has_prefix (c # s) w")
    case True
    then show ?thesis by (auto simp: has_prefix_iff intro: exI [of _ "[]"])
  next
    case False
    with Cons.prems obtain j where "str_index s w = Some j" by auto
    from Cons.IH [OF this] obtain u v where "c # s = (c # u) @ w @ v" by auto
    then show ?thesis by blast
  qed
qed (auto split: if_splits)

lemma like_contains: "str_contains s w \<Longrightarrow> like (CHR ''%'' # w @ [CHR ''%'']) s"
  unfolding str_contains_def
  using str_index_split [of s w] like_skip [OF like_percent [OF like_literal]] by fastforce

section \<open>Keyword search\<close>

definition replace_quotes :: "string \<Rightarrow> string" where
  "replace_quotes w = concat (map (\<lambda>c. if c = CHR 0x22 then [CHR 0x22, CHR 0x22] else [c]) w)"

definition fts_query :: "string list \<Rightarrow> string" where
  "fts_query ws = concat (case map (\<lambda>w. [CHR 0x22] @ replace_quotes w @ [CHR 0x22]) ws of
       [] \<Rightarrow> [] | q # qs \<Rightarrow> q # map (\<lambda>q. '' OR '' @ q) qs)"

definition fts_rows ::
  "(string \<Rightarrow> chunk_row \<Rightarrow> rat option) \<Rightarrow> nat \<Rightarrow> string list \<Rightarrow> int \<Rightarrow> string \<Rightarrow> db \<Rightarrow> search_result list" where
  "fts_rows bm25 pid ws k wt d =
     (let q = fts_query ws
      in map (\<lambda>c. chunk_hit d (- the (bm25 q c)) c)
           (sql_limit k (sort_key (\<lambda>c. the (bm25 q c))
             (filter (\<lambda>c. cr_project c = pid \<and> in_worktree wt d c \<and> bm25 q c \<noteq> None) (db_chunks d)))))"

definition like_rows :: "nat \<Rightarrow> string list \<Rightarrow> int \<Rightarrow> string \<Rightarrow> db \<Rightarrow> search_result list" where
  "like_rows pid ws k wt d =
     map (chunk_hit d 0)
       (sql_limit k (filter (\<lambda>c. cr_project c = pid \<and> in_worktree wt d c \<and>
            list_ex (\<lambda>w. like (CHR ''%'' # w @ [CHR ''%'']) (cr_content c)) (take 20 ws)) (db_chunks d)))"

definition keyword_result_key :: "search_result \<Rightarrow> string" where
  "keyword_result_key r =
     sr_path r @ [CHR 0x00] @ fmt_int (sr_start r) @ [CHR 0x00] @ fmt_int (sr_end r) @ [CHR 0x00] @ sr_content r"

fun merge_like :: "string set \<Rightarrow> search_result list \<Rightarrow> search_result list" where
  "merge_like seen [] = []"
| "merge_like seen (r # rs) =
     (if keyword_result_key r \<in> seen then merge_like seen rs
      else r # merge_like (insert (keyword_result_key r) seen) rs)"

definition search_keywords ::
  "(string \<Rightarrow> string) \<Rightarrow> (string \<Rightarrow> chunk_row \<Rightarrow> rat option) \<Rightarrow> nat \<Rightarrow> string \<Rightarrow> int \<Rightarrow> string \<Rightarrow> db \<Rightarrow>
     search_result list" where
  "search_keywords ul bm25 pid query top_k wt d =
     (let ws = filter_search_words ul query;
          k = (if top_k \<le> 0 then - 1 else top_k)
      in if ws = [] then []
         else (let fts = fts_rows bm25 pid ws k wt d
           in if k > 0 \<and> int (length fts) \<ge> k then fts
              else (let merged = fts @ merge_like (set (map keyword_result_key fts)) (like_rows pid ws k wt d)
                in if k > 0 \<and> int (length merged) > k then take (nat k) merged else merged)))"

section \<open>Chunks of expanded files, hashes, projects\<close>

definition chunks_of_path :: "nat \<Rightarrow> string \<Rightarrow> db \<Rightarrow> chunk_row list" where
  "chunks_of_path pid path d =
     filter (\<lambda>c. cr_project c = pid \<and> list_ex (\<lambda>f. fr_id f = cr_file c \<and> fr_path f = path) (db_files d)) (db_chunks d)"

definition fetch_chunks_by_paths :: "nat \<Rightarrow> string list \<Rightarrow> int \<Rightarrow> db \<Rightarrow> (string \<times> search_result list) list" where
  "fetch_chunks_by_paths pid paths limit d =
     (if paths = [] \<or> limit \<le> 0 then []
      else filter (\<lambda>(p, rs). rs \<noteq> [])
        (map (\<lambda>p. (p, map (chunk_hit d (1 / 2))
               (sort_key cr_start (take (nat limit) (sort_key cr_index (chunks_of_path pid p d))))))
          (remdups paths)))"

definition fetch_chunks_by_dir_prefix :: "nat \<Rightarrow> string \<Rightarrow> int \<Rightarrow> db \<Rightarrow> search_result list" where
  "fetch_chunks_by_dir_prefix pid dir limit d =
     map (chunk_hit d (1 / 2)) (sql_limit limit (sort_key cr_index
       (filter (\<lambda>c. cr_project c = pid \<and>
            list_ex (\<lambda>f. fr_id f = cr_file c \<and> like (dir @ [CHR ''%'']) (fr_path f)) (db_files d)) (db_chunks d))))"

text \<open>The newest version of each path; \<open>indexed_at\<close> gives the time of a row.\<close>

definition list_file_hashes_with_time ::
  "(file_row \<Rightarrow> int) \<Rightarrow> nat \<Rightarrow> db \<Rightarrow> (string \<times> string \<times> int) list" where
  "list_file_hashes_with_time indexed_at pid d =
     AList.clearjunk (map (\<lambda>f. (fr_path f, fr_hash f, indexed_at f))
       (sort_key fr_path (rev (sort_key indexed_at (sort_key fr_id
          (filter (\<lambda>f. fr_project f = pid) (db_files d)))))))"

definition get_project_by_identity :: "string \<Rightarrow> db \<Rightarrow> project_row result" where
  "get_project_by_identity ident d =
     (case find (\<lambda>p. pj_identity p = ident) (db_projects d) of
        Some p \<Rightarrow> Inr p | None \<Rightarrow> Inl (Plain ''not found''))"

definition get_project :: "string \<Rightarrow> db \<Rightarrow> project_row result" where
  "get_project name d =
     (case find (\<lambda>p. pj_name p = name) (db_projects d) of
        Some p \<Rightarrow> Inr p | None \<Rightarrow> Inl (Plain ''not found''))"

definition list_projects :: "int \<Rightarrow> nat \<Rightarrow> db \<Rightarrow> project_row list" where
  "list_projects limit offset d =
     sql_limit (if limit \<le> 0 then - 1 else limit) (drop offset (sort_key pj_name (db_projects d)))"

section \<open>Keyword search finds every chunk with a query word\<close>

lemma merge_like_keys:
  "keyword_result_key ` set (merge_like seen rs) \<union> seen = keyword_result_key ` set rs \<union> seen"
  by (induction seen rs rule: merge_like.induct) auto

lemma merge_like_subset: "set (merge_like seen rs) \<subseteq> set rs"
  by (induction seen rs rule: merge_like.induct) auto

lemma sql_limit_full:
  "x \<in> set xs \<Longrightarrow> x \<in> set (sql_limit k xs) \<or> (0 \<le> k \<and> length (sql_limit k xs) = nat k)"
  by (cases "nat k < length xs") (auto simp: sql_limit_def)

lemma merged_length:
  assumes "distinct (map keyword_result_key rs)"
  shows "length rs \<le> length (fts @ merge_like (set (map keyword_result_key fts)) rs)"
proof -
  let ?m = "fts @ merge_like (set (map keyword_result_key fts)) rs"
  have "set (map keyword_result_key rs) \<subseteq> set (map keyword_result_key ?m)"
    using merge_like_keys [of "set (map keyword_result_key fts)" rs] by auto
  then have "card (set (map keyword_result_key rs)) \<le> card (set (map keyword_result_key ?m))"
    by (intro card_mono) auto
  also have "\<dots> \<le> length ?m" using card_length [of "map keyword_result_key ?m"] by simp
  finally show ?thesis using distinct_card [OF assms] by simp
qed

lemma like_rows_distinct:
  assumes "distinct (map (keyword_result_key \<circ> chunk_hit d 0) (db_chunks d))"
  shows "distinct (map keyword_result_key (like_rows pid ws k wt d))"
proof -
  let ?P = "\<lambda>c. cr_project c = pid \<and> in_worktree wt d c \<and>
     list_ex (\<lambda>w. like (CHR ''%'' # w @ [CHR ''%'']) (cr_content c)) (take 20 ws)"
  have "distinct (map (keyword_result_key \<circ> chunk_hit d 0) (filter ?P (db_chunks d)))"
    by (rule distinct_map_filter [OF assms])
  then have "distinct (take n (map (keyword_result_key \<circ> chunk_hit d 0) (filter ?P (db_chunks d))))" for n
    by (rule distinct_take)
  then show ?thesis using assms distinct_map_filter by (auto simp: like_rows_def sql_limit_def take_map comp_def)
qed


definition demo_chunk :: "string \<Rightarrow> chunk_row" where
  "demo_chunk s = \<lparr> cr_project = 1, cr_file = 1, cr_index = 0, cr_content = s, cr_emb_hash = None, cr_dims = 0,
     cr_model = [], cr_start = 1, cr_end = 2, cr_confidence = [], cr_symbol = None \<rparr>"

definition demo_text_db :: db where
  "demo_text_db = empty_db\<lparr>db_files := [\<lparr> fr_id = 1, fr_project = 1, fr_path = ''a.go'', fr_hash = ''h'', fr_size = 9 \<rparr>],
     db_chunks := [demo_chunk ''func readAll'', demo_chunk ''other'']\<rparr>"


text \<open>Rows that repeat a path, lines and content (two versions of a file) use up the limit of the
  substring query: with \<open>top_k = 2\<close> one hit is returned and a second match is left out.\<close>

lemma repeated_rows_hide_a_match:
  "map sr_content (search_keywords id (\<lambda>q c. None) 1 ''read'' 2 []
     (demo_text_db\<lparr>db_chunks := [demo_chunk ''readAll'', (demo_chunk ''readAll'')\<lparr>cr_index := 1\<rparr>,
        (demo_chunk ''readOne'')\<lparr>cr_start := 5\<rparr>]\<rparr>)) = [''readAll'']"
  by code_simp

end
