(* ===== verification/ProjectRef.thy ===== *)
theory ProjectRef
  imports LocalStore
begin

text \<open>
  \<open>internal/projectref/resolve.go\<close>: from what a user typed to a project.  Arguments (a record):
  git's identity of a directory (\<open>gitmeta.Resolve\<close>), \<open>filepath.Abs\<close> and \<open>EvalSymlinks\<close>,
  \<open>strconv.Quote\<close> and the non-ASCII part of \<open>strings.EqualFold\<close>.  Proved: an ambiguous name
  is refused unless the reference is also a path, and the enclosing project is the longest.
\<close>

record path_env =
  pe_git :: "string \<Rightarrow> string option"
  pe_abs :: "string \<Rightarrow> string option"
  pe_real :: "string \<Rightarrow> string option"
  pe_quote :: "string \<Rightarrow> string"
  pe_fold :: "string \<Rightarrow> string \<Rightarrow> bool"

definition not_found :: go_err where
  "not_found = Plain ''not found''"

definition equal_fold :: "path_env \<Rightarrow> string \<Rightarrow> string \<Rightarrow> bool" where
  "equal_fold pe a b \<longleftrightarrow>
     (if is_ascii a \<and> is_ascii b then map ascii_lower a = map ascii_lower b else pe_fold pe a b)"

definition equivalent_path_forms :: "path_env \<Rightarrow> string \<Rightarrow> string list" where
  "equivalent_path_forms pe path =
     (if trim_space path = [] then []
      else (case pe_abs pe path of
              None \<Rightarrow> []
            | Some a \<Rightarrow>
                (let abs_path = path_clean a
                 in case pe_real pe abs_path of
                      None \<Rightarrow> [abs_path]
                    | Some r \<Rightarrow>
                        (let resolved = path_clean r
                         in if resolved \<noteq> abs_path then [abs_path, resolved] else [abs_path]))))"

definition canonical_path :: "path_env \<Rightarrow> string \<Rightarrow> string option" where
  "canonical_path pe path =
     (case equivalent_path_forms pe path of [] \<Rightarrow> None | fs \<Rightarrow> Some (last fs))"

definition find_by_identity :: "project_row list \<Rightarrow> string \<Rightarrow> project_row option" where
  "find_by_identity ps ident = (if ident = [] then None else find (\<lambda>p. pj_identity p = ident) ps)"

text \<open>The first success of a lookup over candidates.\<close>

fun first_found :: "('a \<Rightarrow> 'b option) \<Rightarrow> 'a list \<Rightarrow> 'b option" where
  "first_found f [] = None"
| "first_found f (x # xs) = (case f x of Some y \<Rightarrow> Some y | None \<Rightarrow> first_found f xs)"

definition lookup_by_path_or_identity ::
  "path_env \<Rightarrow> (string \<Rightarrow> project_row option) \<Rightarrow> string \<Rightarrow> project_row option" where
  "lookup_by_path_or_identity pe by_identity arg =
     first_found by_identity
       ((case pe_git pe arg of Some ident \<Rightarrow> [ident] | None \<Rightarrow> []) @
        map (\<lambda>path. ''path:'' @ path) (equivalent_path_forms pe arg))"

definition same_name :: "path_env \<Rightarrow> string \<Rightarrow> project_row \<Rightarrow> bool" where
  "same_name pe ref p \<longleftrightarrow> pj_name p = ref \<or> equal_fold pe (pj_name p) ref"

definition find_by_name :: "path_env \<Rightarrow> string \<Rightarrow> project_row list \<Rightarrow> project_row option result" where
  "find_by_name pe ref ps =
     (case filter (same_name pe ref) ps of
        [] \<Rightarrow> Inr None
      | [p] \<Rightarrow> Inr (Some p)
      | ms \<Rightarrow> Inl (Plain (''ambiguous project name '' @ pe_quote pe ref @ ''; use a path or identity ('' @
                concat (case map (\<lambda>p. if pj_identity p = [] then pj_path p else pj_identity p) ms of
                          [] \<Rightarrow> [] | i # is \<Rightarrow> i # map (\<lambda>j. '', '' @ j) is) @ '')'')))"

definition find_by_indexed_path :: "path_env \<Rightarrow> string \<Rightarrow> project_row list \<Rightarrow> project_row option" where
  "find_by_indexed_path pe ref ps =
     (case canonical_path pe ref of
        None \<Rightarrow> None
      | Some rp \<Rightarrow> find (\<lambda>p. canonical_path pe (pj_path p) = Some rp) ps)"

definition encloses :: "string \<Rightarrow> string \<Rightarrow> bool" where
  "encloses dir path \<longleftrightarrow> path = dir \<or> has_prefix path (dir @ ''/'')"

fun enclosing_loop :: "path_env \<Rightarrow> string \<Rightarrow> (project_row \<times> nat) option \<Rightarrow> project_row list \<Rightarrow> project_row option" where
  "enclosing_loop pe cwd best [] = map_option fst best"
| "enclosing_loop pe cwd best (p # ps) =
     enclosing_loop pe cwd
       (case canonical_path pe (pj_path p) of
          None \<Rightarrow> best
        | Some pp \<Rightarrow>
            if encloses pp cwd \<and> (case best of None \<Rightarrow> True | Some (q, n) \<Rightarrow> length pp > n)
            then Some (p, length pp) else best) ps"

definition enclosing :: "path_env \<Rightarrow> string \<Rightarrow> project_row list \<Rightarrow> project_row option" where
  "enclosing pe cwd ps =
     (case canonical_path pe cwd of None \<Rightarrow> None | Some c \<Rightarrow> enclosing_loop pe c None ps)"

definition resolve_in_list_names ::
  "path_env \<Rightarrow> string \<Rightarrow> string \<Rightarrow> project_row list \<Rightarrow> project_row result" where
  "resolve_in_list_names pe ref cwd ps =
     (case find_by_name pe ref ps of
        Inl e \<Rightarrow> Inl e
      | Inr (Some p) \<Rightarrow> Inr p
      | Inr None \<Rightarrow>
          (case find_by_identity ps ref of Some p \<Rightarrow> Inr p
           | None \<Rightarrow>
             (case find_by_indexed_path pe ref ps of Some p \<Rightarrow> Inr p
              | None \<Rightarrow>
                (case (if cwd \<noteq> [] then enclosing pe cwd ps else None) of
                   Some p \<Rightarrow> Inr p | None \<Rightarrow> Inl not_found))))"

definition resolve_in_list ::
  "path_env \<Rightarrow> string \<Rightarrow> string \<Rightarrow> project_row list \<Rightarrow> project_row result" where
  "resolve_in_list pe ref0 cwd ps =
     (let ref = trim_space ref0
      in if ref = [] then Inl not_found
         else (case lookup_by_path_or_identity pe (find_by_identity ps) ref of
                 Some p \<Rightarrow> Inr p
               | None \<Rightarrow> resolve_in_list_names pe ref cwd ps))"

text \<open>The store's operations: by identity, by name, and the list.\<close>

definition resolve ::
  "path_env \<Rightarrow> (string \<Rightarrow> project_row result) \<Rightarrow> (string \<Rightarrow> project_row result) \<Rightarrow> project_row list result \<Rightarrow>
     string \<Rightarrow> project_row result" where
  "resolve pe by_identity by_name listed ref0 =
     (let ref = trim_space ref0
      in if ref = [] then Inl not_found
         else (case lookup_by_path_or_identity pe
                      (\<lambda>i. case by_identity i of Inr p \<Rightarrow> Some p | Inl e \<Rightarrow> None) ref of
                 Some p \<Rightarrow> Inr p
               | None \<Rightarrow>
                   (case listed of
                      Inr (p # ps) \<Rightarrow> resolve_in_list_names pe ref [] (p # ps)
                    | _ \<Rightarrow>
                      (case by_name ref of
                         Inr p \<Rightarrow> Inr p
                       | Inl e \<Rightarrow> (case listed of Inl e' \<Rightarrow> Inl e' | Inr ps \<Rightarrow> Inl not_found)))))"

fun unique_loop :: "string list \<Rightarrow> project_row list \<Rightarrow> project_row list" where
  "unique_loop seen [] = []"
| "unique_loop seen (p # ps) =
     (if pj_identity p = [] then p # unique_loop seen ps
      else if pj_identity p \<in> set seen then unique_loop seen ps
      else p # unique_loop (pj_identity p # seen) ps)"

definition unique_by_identity :: "project_row list \<Rightarrow> project_row list" where
  "unique_by_identity ps = unique_loop [] ps"

section \<open>Facts\<close>

lemma ambiguous_name_refused:
  assumes "2 \<le> length (filter (same_name pe ref) ps)"
  shows "\<exists>m. resolve_in_list_names pe ref cwd ps = Inl (Plain m)"
proof -
  obtain a b ms where "filter (same_name pe ref) ps = a # b # ms"
    using assms by (cases "filter (same_name pe ref) ps" rule: remdups_adj.cases) auto
  then show ?thesis by (simp add: resolve_in_list_names_def find_by_name_def)
qed

lemma unique_loop_fresh:
  "p \<in> set (unique_loop seen ps) \<Longrightarrow> pj_identity p \<noteq> [] \<Longrightarrow> pj_identity p \<notin> set seen"
  by (induction seen ps rule: unique_loop.induct) (auto split: if_splits)

lemma unique_loop_distinct: "distinct (filter (\<lambda>i. i \<noteq> []) (map pj_identity (unique_loop seen ps)))"
proof (induction seen ps rule: unique_loop.induct)
  case (2 seen p ps)
  have "pj_identity p \<notin> pj_identity ` set (unique_loop (pj_identity p # seen) ps)" if "pj_identity p \<noteq> []"
    using unique_loop_fresh [of _ "pj_identity p # seen" ps] that by force
  with 2 show ?case by auto
qed simp

lemma unique_loop_covers:
  "p \<in> set ps \<Longrightarrow> pj_identity p \<notin> set seen \<Longrightarrow> pj_identity p \<in> pj_identity ` set (unique_loop seen ps)"
proof (induction seen ps rule: unique_loop.induct)
  case (2 seen q ps)
  then show ?case by (cases "pj_identity p = pj_identity q") auto
qed simp

lemma unique_loop_subset: "set (unique_loop seen ps) \<subseteq> set ps"
  by (induction seen ps rule: unique_loop.induct) auto

lemma unique_by_identity_ok:
  "distinct (filter (\<lambda>i. i \<noteq> []) (map pj_identity (unique_by_identity ps))) \<and>
   pj_identity ` set (unique_by_identity ps) = pj_identity ` set ps"
  using unique_loop_distinct [of "[]" ps] unique_loop_covers [of _ ps "[]"] unique_loop_subset [of "[]" ps]
  unfolding unique_by_identity_def by (auto intro!: equalityI)

definition best_ok :: "path_env \<Rightarrow> string \<Rightarrow> (project_row \<times> nat) option \<Rightarrow> bool" where
  "best_ok pe cwd best \<longleftrightarrow>
     (case best of None \<Rightarrow> True
      | Some (b, n) \<Rightarrow> \<exists>bp. canonical_path pe (pj_path b) = Some bp \<and> n = length bp \<and> encloses bp cwd)"

lemma enclosing_loop_longest:
  "best_ok pe cwd best \<Longrightarrow> enclosing_loop pe cwd best ps = r \<Longrightarrow>
   (case r of
      None \<Rightarrow> best = None \<and> (\<forall>q\<in>set ps. \<forall>qp. canonical_path pe (pj_path q) = Some qp \<longrightarrow> \<not> encloses qp cwd)
    | Some p \<Rightarrow> \<exists>pp. canonical_path pe (pj_path p) = Some pp \<and> encloses pp cwd \<and>
        (\<forall>b n. best = Some (b, n) \<longrightarrow> n \<le> length pp) \<and>
        (\<forall>q\<in>set ps. \<forall>qp. canonical_path pe (pj_path q) = Some qp \<longrightarrow> encloses qp cwd \<longrightarrow> length qp \<le> length pp))"
proof (induction pe cwd best ps arbitrary: r rule: enclosing_loop.induct)
  case (1 pe cwd best)
  then show ?case by (auto simp: best_ok_def split: option.splits)
next
  case (2 pe cwd best p ps)
  let ?best = "case canonical_path pe (pj_path p) of None \<Rightarrow> best
      | Some pp \<Rightarrow> if encloses pp cwd \<and> (case best of None \<Rightarrow> True | Some (q, n) \<Rightarrow> length pp > n)
            then Some (p, length pp) else best"
  have ok: "best_ok pe cwd ?best" using 2(2) by (auto simp: best_ok_def split: option.splits)
  have "enclosing_loop pe cwd ?best ps = r" using 2(3) by simp
  from 2(1) [OF ok this] show ?case
    by (cases "canonical_path pe (pj_path p)"; cases best; cases r) (fastforce split: if_splits)+
qed

end
