(* ===== verification/SearchService.thy ===== *)
theory SearchService
  imports SearchMulti SearchLocal ProjectRef EmbedChain
begin

text \<open>
  \<open>search.Service\<close> (\<open>internal/search/service.go\<close>, \<open>hybrid.go\<close>, \<open>rerank.go\<close>, \<open>staleness.go\<close>,
  \<open>multiscope.go\<close>): one search, from the request to the annotated hits, and the search over several
  projects.  The store is a record of read operations, each of which may fail; the embedder acts on
  the world of \<open>EmbedBase\<close>.  Logging, tracing, timing and usage events are left out.
\<close>

section \<open>The service and its parts\<close>

record search_store =
  ss_by_identity :: "string \<Rightarrow> project_row result"
  ss_by_name :: "string \<Rightarrow> project_row result"
  ss_list :: "project_row list result"
  ss_similar :: "nat \<Rightarrow> vec \<Rightarrow> int \<Rightarrow> int \<Rightarrow> string \<Rightarrow> search_result list result"
  ss_keywords :: "nat \<Rightarrow> string \<Rightarrow> int \<Rightarrow> int \<Rightarrow> string \<Rightarrow> search_result list result"
  ss_paths_bfs :: "nat \<Rightarrow> string list \<Rightarrow> nat \<Rightarrow> (string \<times> nat) list result"
  ss_neighbors :: "nat \<Rightarrow> (string \<times> string list) list result"
  ss_chunks_paths :: "(nat \<Rightarrow> string list \<Rightarrow> int \<Rightarrow> (string \<times> search_result list) list result) option"
  ss_chunks_prefix :: "nat \<Rightarrow> string \<Rightarrow> int \<Rightarrow> search_result list result"
  ss_hashes :: "nat \<Rightarrow> (string \<times> string \<times> int) list result"

definition local_search_store ::
  "(string \<Rightarrow> string) \<Rightarrow> (vec \<Rightarrow> string \<Rightarrow> rat) \<Rightarrow> (string \<Rightarrow> chunk_row \<Rightarrow> rat option) \<Rightarrow> (file_row \<Rightarrow> int) \<Rightarrow>
     db \<Rightarrow> search_store" where
  "local_search_store ul cosine bm25 indexed_at d =
     \<lparr> ss_by_identity = (\<lambda>i. get_project_by_identity i d),
       ss_by_name = (\<lambda>n. get_project n d),
       ss_list = Inr (list_projects 0 0 d),
       ss_similar = (\<lambda>pid q dims k wt. Inr (similar_hits cosine pid q k wt d)),
       ss_keywords = (\<lambda>pid query dims k wt. Inr (search_keywords ul bm25 pid query k wt d)),
       ss_paths_bfs = (\<lambda>pid seeds n. Inr (if seeds = [] then [] else fetch_graph_paths_bfs pid seeds n d)),
       ss_neighbors = (\<lambda>pid. Inr (fetch_graph_neighbors_map pid d)),
       ss_chunks_paths = Some (\<lambda>pid paths limit. Inr (fetch_chunks_by_paths pid paths limit d)),
       ss_chunks_prefix = (\<lambda>pid dir limit. Inr (fetch_chunks_by_dir_prefix pid dir limit d)),
       ss_hashes = (\<lambda>pid. Inr (list_file_hashes_with_time indexed_at pid d)) \<rparr>"

record service =
  sv_store :: search_store
  sv_emb :: embedder
  sv_reranker :: "(string \<Rightarrow> search_result list \<Rightarrow> search_result list) option"
  sv_env :: env
  sv_paths :: path_env
  sv_sort_rrf :: "rrf_scored sorter"
  sv_sort_hits :: "search_result sorter"
  sv_sort_multi :: "ranked_result sorter"
  sv_iter :: "ranked_result list \<Rightarrow> ranked_result list"
  sv_read_file :: "string \<Rightarrow> string option"
  sv_sha :: "string \<Rightarrow> string"

record request =
  rq_project :: string
  rq_identity :: string
  rq_query :: string
  rq_model :: string
  rq_top_k :: int
  rq_keyword_only :: bool
  rq_vector_only :: bool
  rq_worktree :: string
  rq_graph :: bool
  rq_graph_depth :: int

record response =
  rp_project :: project_row
  rp_model :: string
  rp_results :: "search_result list"
  rp_route :: string
  rp_fallback :: bool
  rp_keyword :: bool
  rp_degraded :: bool
  rp_retry_after :: int
  rp_reason :: string

section \<open>The legs of a search\<close>

text \<open>The two legs run concurrently and do not affect each other; a failed keyword leg leaves the
  vector hits.\<close>

definition hybrid_fuse_route ::
  "service \<Rightarrow> nat \<Rightarrow> string \<Rightarrow> vec \<Rightarrow> int \<Rightarrow> int \<Rightarrow> string \<Rightarrow> (search_result list \<times> string) result" where
  "hybrid_fuse_route sv pid query vec dims top_k wt =
     (case ss_similar (sv_store sv) pid vec dims top_k wt of
        Inl e \<Rightarrow> Inl e
      | Inr vres0 \<Rightarrow>
          (let vres = tag_result_source ''vector'' vres0
           in case ss_keywords (sv_store sv) pid query dims top_k wt of
                Inl e \<Rightarrow> Inr (vres, ''vector'')
              | Inr kres \<Rightarrow>
                  Inr (rerank_rrf (sv_sort_rrf sv) vres (tag_result_source ''keyword'' kres) top_k, ''hybrid'')))"

primrec first_retry :: "go_err \<Rightarrow> int option" where
  "first_retry (Plain m) = None"
| "first_retry (Wrapped m e) = first_retry e"
| "first_retry Canceled = None"
| "first_retry DeadlineExceeded = None"
| "first_retry (UnknownModel p m r) = None"
| "first_retry (Retryable e d) = Some d"
| "first_retry (ChainFailed op fs n e) = first_retry e"

definition keyword_leg ::
  "service \<Rightarrow> nat \<Rightarrow> string \<Rightarrow> int \<Rightarrow> int \<Rightarrow> string \<Rightarrow> response \<Rightarrow> response result" where
  "keyword_leg sv pid query dims top_k wt rp =
     (case ss_keywords (sv_store sv) pid query dims top_k wt of
        Inl e \<Rightarrow> Inl e
      | Inr rs \<Rightarrow> Inr (rp\<lparr>rp_results := tag_result_source ''keyword'' rs, rp_keyword := True\<rparr>))"

definition search_vector_only ::
  "service \<Rightarrow> ctx \<Rightarrow> nat \<Rightarrow> request \<Rightarrow> string \<Rightarrow> int \<Rightarrow> string \<Rightarrow> response \<Rightarrow> world \<Rightarrow> response result \<times> world" where
  "search_vector_only sv cx pid req model dims wt rp w =
     (case em_single (sv_emb sv) cx model (rq_query req) w of
        (Inl e, w1) \<Rightarrow> (Inl (Wrapped ''vector-only embedding: '' e), w1)
      | (Inr vec, w1) \<Rightarrow>
          (case ss_similar (sv_store sv) pid vec dims (rq_top_k req) wt of
             Inl e \<Rightarrow> (Inl e, w1) | Inr rs \<Rightarrow> (Inr (rp\<lparr>rp_results := rs\<rparr>), w1)))"

definition search_semantic ::
  "service \<Rightarrow> ctx \<Rightarrow> nat \<Rightarrow> request \<Rightarrow> string \<Rightarrow> int \<Rightarrow> string \<Rightarrow> response \<Rightarrow> world \<Rightarrow> response result \<times> world" where
  "search_semantic sv cx pid req model dims wt rp w =
     (case em_single (sv_emb sv) cx model (rq_query req) w of
        (Inl e, w1) \<Rightarrow>
          (let rp1 = (case first_retry e of
                        Some d \<Rightarrow> rp\<lparr>rp_degraded := True, rp_retry_after := d\<rparr> | None \<Rightarrow> rp);
               rp2 = rp1\<lparr>rp_fallback := True, rp_keyword := True,
                         rp_reason := summarize_failure (sv_env sv) (Some e)\<rparr>
           in (keyword_leg sv pid (rq_query req) dims (rq_top_k req) wt rp2, w1))
      | (Inr vec, w1) \<Rightarrow>
          (case hybrid_fuse_route sv pid (rq_query req) vec dims (rq_top_k req) wt of
             Inl e \<Rightarrow> (Inl e, w1)
           | Inr (rs, route) \<Rightarrow> (Inr (rp\<lparr>rp_results := rs, rp_route := route\<rparr>), w1)))"

definition resolve_project :: "service \<Rightarrow> request \<Rightarrow> project_row result" where
  "resolve_project sv req =
     (if rq_identity req \<noteq> [] then ss_by_identity (sv_store sv) (rq_identity req)
      else if rq_project req \<noteq> []
      then resolve (sv_paths sv) (ss_by_identity (sv_store sv)) (ss_by_name (sv_store sv))
             (ss_list (sv_store sv)) (rq_project req)
      else Inl not_found)"

definition worktree_filter :: "project_row \<Rightarrow> string \<Rightarrow> string" where
  "worktree_filter p wt = (if pj_source p = ''git'' then wt else [])"

section \<open>Graph expansion\<close>

definition graph_hit :: "string \<Rightarrow> graph_hop \<Rightarrow> search_result" where
  "graph_hit path hop =
     \<lparr> sr_path = path, sr_content = [], sr_score = gh_score hop, sr_start = 0, sr_end = 0, sr_confidence = [],
       sr_symbol = [], sr_stale = False, sr_indexed_at = 0, sr_source = ''graph'', sr_depth = int (gh_depth hop) \<rparr>"

definition hop_chunks :: "string \<Rightarrow> graph_hop \<Rightarrow> search_result list \<Rightarrow> search_result list" where
  "hop_chunks path hop chunks =
     (if chunks = [] then [graph_hit path hop]
      else map (\<lambda>c. c\<lparr>sr_score := gh_score hop, sr_source := ''graph'', sr_depth := int (gh_depth hop)\<rparr>) chunks)"

definition fetch_graph_chunks :: "search_store \<Rightarrow> nat \<Rightarrow> expansion \<Rightarrow> search_result list" where
  "fetch_graph_chunks st pid ex =
     (let one_by_one = concat (map (\<lambda>(path, hop).
            hop_chunks path hop (case ss_chunks_prefix st pid path 3 of Inl e \<Rightarrow> [] | Inr cs \<Rightarrow> cs)) ex)
      in case ss_chunks_paths st of
           None \<Rightarrow> one_by_one
         | Some batch \<Rightarrow>
             (case batch pid (map fst ex) 3 of
                Inl e \<Rightarrow> one_by_one
              | Inr by_path \<Rightarrow>
                  concat (map (\<lambda>(path, hop).
                     hop_chunks path hop (case map_of by_path path of Some cs \<Rightarrow> cs | None \<Rightarrow> [])) ex)))"

definition try_expand_by_cte :: "search_store \<Rightarrow> nat \<Rightarrow> nat \<Rightarrow> graph_seeds \<Rightarrow> search_result list" where
  "try_expand_by_cte st pid max_depth seeds =
     (case ss_paths_bfs st pid (gs_list seeds) max_depth of
        Inl e \<Rightarrow> []
      | Inr paths \<Rightarrow>
          (let ex = hops_from_cte_paths (gs_max_score seeds) paths []
           in if ex = [] then [] else fetch_graph_chunks st pid ex))"

definition expand_by_graph_go :: "search_store \<Rightarrow> search_result list \<Rightarrow> nat \<Rightarrow> nat \<Rightarrow> search_result list result" where
  "expand_by_graph_go st seeds pid max_depth =
     (case ss_neighbors st pid of
        Inl e \<Rightarrow> Inl (Wrapped ''fetch graph neighbors: '' e)
      | Inr graph \<Rightarrow>
          (if graph = [] then Inr []
           else (let ex = run_graph_bfs (expansion_params graph seeds max_depth)
             in if ex = [] then Inr [] else Inr (fetch_graph_chunks st pid ex))))"

definition expand_by_graph :: "search_store \<Rightarrow> nat \<Rightarrow> search_result list \<Rightarrow> nat \<Rightarrow> search_result list result" where
  "expand_by_graph st max_depth seeds pid =
     (if seeds = [] then Inr []
      else (let rs = try_expand_by_cte st pid max_depth (collect_graph_seeds seeds)
        in if rs \<noteq> [] then Inr rs else expand_by_graph_go st seeds pid max_depth))"

fun append_new_files :: "string list \<Rightarrow> search_result list \<Rightarrow> search_result list" where
  "append_new_files seen [] = []"
| "append_new_files seen (r # rs) =
     (if sr_path r \<in> set seen then append_new_files seen rs
      else r # append_new_files (sr_path r # seen) rs)"

definition compare_hits :: "search_result \<Rightarrow> search_result \<Rightarrow> int" where
  "compare_hits a b = (if sr_score a > sr_score b then - 1 else if sr_score a < sr_score b then 1 else 0)"

definition merge_graph_results ::
  "search_result sorter \<Rightarrow> search_result list \<Rightarrow> search_result list \<Rightarrow> search_result list" where
  "merge_graph_results sortf original expanded =
     sortf compare_hits (original @ append_new_files (map sr_path original) expanded)"

definition apply_graph_expansion :: "service \<Rightarrow> request \<Rightarrow> nat \<Rightarrow> nat \<Rightarrow> response \<Rightarrow> response" where
  "apply_graph_expansion sv req max_depth pid rp =
     (if \<not> rq_graph req then rp
      else (case expand_by_graph (sv_store sv) max_depth (rp_results rp) pid of
              Inl e \<Rightarrow> rp
            | Inr ex \<Rightarrow>
                (if ex = [] then rp
                 else rp\<lparr>rp_results := merge_graph_results (sv_sort_hits sv) (rp_results rp) ex\<rparr>)))"

definition apply_rerank :: "service \<Rightarrow> string \<Rightarrow> response \<Rightarrow> response" where
  "apply_rerank sv query rp =
     (case sv_reranker sv of
        None \<Rightarrow> rp
      | Some f \<Rightarrow> (if length (rp_results rp) > 1 then rp\<lparr>rp_results := f query (rp_results rp)\<rparr> else rp))"


section \<open>Reranking\<close>

text \<open>The query's terms (\<open>tokenize\<close>) and lower case are arguments: they split on Unicode classes.\<close>

definition term_overlap :: "(string \<Rightarrow> string) \<Rightarrow> string \<Rightarrow> string list \<Rightarrow> rat" where
  "term_overlap ul content terms =
     of_nat (length (filter (\<lambda>t. str_contains (to_lower ul content) t) terms)) / of_nat (length terms)"

definition extracted_symbol_boost :: "(string \<Rightarrow> string) \<Rightarrow> search_result \<Rightarrow> string list \<Rightarrow> rat" where
  "extracted_symbol_boost ul r terms =
     (if sr_confidence r \<noteq> ''EXTRACTED'' \<or> sr_symbol r = [] then 0
      else (let sym = to_lower ul (sr_symbol r)
        in if list_ex (\<lambda>t. str_contains sym t \<or> str_contains t sym) terms then 2 / 10 else 0))"

definition blend :: "(string \<Rightarrow> string) \<Rightarrow> rat \<Rightarrow> search_result \<Rightarrow> string list \<Rightarrow> rat" where
  "blend ul weight r terms =
     (1 - weight) * sr_score r + weight * (term_overlap ul (sr_content r) terms + extracted_symbol_boost ul r terms)"

definition new_lexical_weight :: "rat \<Rightarrow> rat" where
  "new_lexical_weight weight = (if weight < 0 then 0 else if weight > 1 then 1 else weight)"

definition lexical_rerank ::
  "(string \<Rightarrow> string) \<Rightarrow> (string \<Rightarrow> string list) \<Rightarrow> rat \<Rightarrow> string \<Rightarrow> search_result list \<Rightarrow> search_result list" where
  "lexical_rerank ul tokens weight query rs =
     (let terms = tokens query
      in if terms = [] \<or> length rs < 2 then rs else sort_key (\<lambda>r. - blend ul weight r terms) rs)"

section \<open>Staleness\<close>

text \<open>The file is read only when its cleaned path lies below the root.\<close>

definition hash_project_file :: "service \<Rightarrow> string \<Rightarrow> string \<Rightarrow> string" where
  "hash_project_file sv dir rel =
     (if dir = [] \<or> rel = [] then []
      else (let clean_root = path_clean dir; full = path_clean (clean_root @ ''/'' @ rel)
        in if full \<noteq> clean_root \<and> \<not> has_prefix full (clean_root @ ''/'') then []
           else (case sv_read_file sv full of None \<Rightarrow> [] | Some content \<Rightarrow> sv_sha sv content)))"

definition annotate_hit :: "service \<Rightarrow> string \<Rightarrow> (string \<times> string \<times> int) list \<Rightarrow> search_result \<Rightarrow> search_result" where
  "annotate_hit sv dir infos r =
     (let cur = hash_project_file sv dir (sr_path r)
      in case map_of infos (sr_path r) of
           None \<Rightarrow> r
         | Some (h, t) \<Rightarrow>
             (let r1 = r\<lparr>sr_indexed_at := t\<rparr>
              in if cur = [] \<or> h = [] then r1 else r1\<lparr>sr_stale := (cur \<noteq> h)\<rparr>))"

definition annotate_staleness :: "service \<Rightarrow> project_row \<Rightarrow> string \<Rightarrow> search_result list \<Rightarrow> search_result list" where
  "annotate_staleness sv p dir0 rs =
     (let dir = (if dir0 = [] then pj_path p else dir0)
      in if rs = [] \<or> dir = [] then rs
         else (case ss_hashes (sv_store sv) (pj_id p) of
                 Inl e \<Rightarrow> rs | Inr infos \<Rightarrow> map (annotate_hit sv dir infos) rs))"

section \<open>One search\<close>

definition model_dims :: "service \<Rightarrow> ctx \<Rightarrow> string \<Rightarrow> world \<Rightarrow> int \<times> world" where
  "model_dims sv cx model w =
     (case em_info (sv_emb sv) cx model w of
        (Inr info, w1) \<Rightarrow> (mi_dims info, w1)
      | (Inl e, w1) \<Rightarrow> (infer_dims (en_lower (sv_env sv)) model, w1))"

definition with_defaults_req :: "request \<Rightarrow> request" where
  "with_defaults_req req = (if rq_top_k req \<le> 0 then req\<lparr>rq_top_k := 5\<rparr> else req)"

definition request_route :: "request \<Rightarrow> string" where
  "request_route req =
     (if rq_keyword_only req then ''keyword'' else if rq_vector_only req then ''vector''
      else if routes_to_keyword (classify_query (rq_query req)) then ''keyword'' else ''hybrid'')"

definition retrieve ::
  "service \<Rightarrow> ctx \<Rightarrow> project_row \<Rightarrow> request \<Rightarrow> string \<Rightarrow> int \<Rightarrow> response \<Rightarrow> world \<Rightarrow> response result \<times> world" where
  "retrieve sv cx p req model dims rp w =
     (let wt = worktree_filter p (rq_worktree req); qt = classify_query (rq_query req)
      in if rq_keyword_only req
         then (keyword_leg sv (pj_id p) (rq_query req) (pj_dims p) (rq_top_k req) wt rp, w)
         else if rq_vector_only req then search_vector_only sv cx (pj_id p) req model dims wt rp w
         else if routes_to_keyword qt
         then (keyword_leg sv (pj_id p) (keyword_query_for_routing (rq_query req) qt) dims (rq_top_k req) wt rp, w)
         else search_semantic sv cx (pj_id p) req model dims wt rp w)"

definition finish_search :: "service \<Rightarrow> project_row \<Rightarrow> request \<Rightarrow> response \<Rightarrow> response" where
  "finish_search sv p req rp =
     (let rp1 = apply_graph_expansion sv req (clamp_graph_depth (rq_graph_depth req)) (pj_id p)
                  (apply_rerank sv (rq_query req) rp);
          dir = (if rq_worktree req = [] then pj_path p else rq_worktree req)
      in rp1\<lparr>rp_results := annotate_staleness sv p dir (rp_results rp1),
             rp_route := (if rp_fallback rp1 then ''fallback''
                          else if rp_route rp1 \<noteq> [] then rp_route rp1 else request_route req)\<rparr>)"

definition start_response :: "project_row \<Rightarrow> string \<Rightarrow> response" where
  "start_response p model =
     \<lparr> rp_project = p, rp_model = model, rp_results = [], rp_route = [], rp_fallback = False,
       rp_keyword = False, rp_degraded = False, rp_retry_after = 0, rp_reason = [] \<rparr>"

definition search_one :: "service \<Rightarrow> ctx \<Rightarrow> request \<Rightarrow> world \<Rightarrow> response result \<times> world" where
  "search_one sv cx req0 w =
     (let req = with_defaults_req req0
      in case resolve_project sv req of
           Inl e \<Rightarrow>
             (if err_any (\<lambda>x. x = not_found) e then (Inl e, w)
              else (Inl (Wrapped (''project lookup failed for '' @
                           (if rq_identity req \<noteq> [] then rq_identity req else rq_project req) @ '': '') e), w))
         | Inr p \<Rightarrow>
             (let model = (if rq_model req \<noteq> [] then rq_model req else pj_model p)
              in case model_dims sv cx model w of
                   (dims, w1) \<Rightarrow>
                     (case retrieve sv cx p req model dims (start_response p model) w1 of
                        (Inl e, w2) \<Rightarrow> (Inl e, w2)
                      | (Inr rp1, w2) \<Rightarrow> (Inr (finish_search sv p req rp1), w2))))"

section \<open>Several projects\<close>

record multi_request =
  mq_identities :: "string list"
  mq_projects :: "string list"
  mq_all :: bool
  mq_query :: string
  mq_top_k :: int
  mq_graph :: bool
  mq_graph_depth :: int
  mq_keyword_only :: bool
  mq_per_file :: int
  mq_per_project :: int

definition count_route :: "string \<Rightarrow> (string \<times> nat) list \<Rightarrow> (string \<times> nat) list" where
  "count_route route m = AList.update route (Suc (case map_of m route of Some n \<Rightarrow> n | None \<Rightarrow> 0)) m"

definition absorb :: "response \<Rightarrow> agg_flags \<Rightarrow> agg_flags" where
  "absorb rp fl =
     (let route = (if rp_route rp \<noteq> [] then rp_route rp
                   else if rp_fallback rp then ''fallback'' else if rp_keyword rp then ''keyword'' else ''hybrid'')
      in \<lparr> fl_fallback = (fl_fallback fl \<or> rp_fallback rp), fl_keyword = (fl_keyword fl \<or> rp_keyword rp),
           fl_degraded = (fl_degraded fl \<or> rp_degraded rp),
           fl_retry_after = (if rp_degraded rp \<and> rp_retry_after rp > fl_retry_after fl
                             then rp_retry_after rp else fl_retry_after fl),
           fl_routes = count_route route (fl_routes fl) \<rparr>)"

fun tag_results :: "string \<Rightarrow> nat \<Rightarrow> search_result list \<Rightarrow> ranked_result list" where
  "tag_results label i [] = []"
| "tag_results label i (r # rs) =
     \<lparr> rk_result = r\<lparr>sr_path := label @ [CHR 0x00] @ sr_path r\<rparr>, rk_project = label, rk_rank = Suc i,
       rk_fusion = 1 / of_nat (60 + i + 1) \<rparr> # tag_results label (Suc i) rs"

fun search_scopes ::
  "service \<Rightarrow> ctx \<Rightarrow> (string \<times> request) list \<Rightarrow> ranked_result list \<times> agg_flags \<times> nat \<Rightarrow> world \<Rightarrow>
     (ranked_result list \<times> agg_flags \<times> nat) \<times> world" where
  "search_scopes sv cx [] acc w = (acc, w)"
| "search_scopes sv cx ((label, req) # scopes) (rs, fl, skipped) w =
     (case search_one sv cx req w of
        (Inl e, w1) \<Rightarrow> search_scopes sv cx scopes (rs, fl, Suc skipped) w1
      | (Inr rp, w1) \<Rightarrow> search_scopes sv cx scopes (rs @ tag_results label 0 (rp_results rp), absorb rp fl, skipped) w1)"

definition scope_request :: "multi_request \<Rightarrow> nat \<Rightarrow> string \<Rightarrow> string \<Rightarrow> request" where
  "scope_request mq k ident project =
     \<lparr> rq_project = project, rq_identity = ident, rq_query = mq_query mq, rq_model = [],
       rq_top_k = int (min (k * 2) max_top_k), rq_keyword_only = mq_keyword_only mq, rq_vector_only = False,
       rq_worktree = [], rq_graph = mq_graph mq, rq_graph_depth = mq_graph_depth mq \<rparr>"

definition search_over ::
  "service \<Rightarrow> ctx \<Rightarrow> multi_request \<Rightarrow> (string \<times> request) list \<Rightarrow> world \<Rightarrow> multi_response \<times> world" where
  "search_over sv cx mq scopes w =
     (case search_scopes sv cx scopes ([], no_flags, 0) w of
        ((rs, fl, skipped), w1) \<Rightarrow>
          ((fuse_ranked_results (sv_sort_multi sv) (sv_iter sv) rs (mq_per_file mq) (mq_per_project mq)
              (int (clamp_multi_top_k (mq_top_k mq))) fl)\<lparr>ms_projects := length scopes, ms_skipped := skipped\<rparr>, w1))"

definition project_scope :: "multi_request \<Rightarrow> nat \<Rightarrow> project_row \<Rightarrow> string \<times> request" where
  "project_scope mq k p =
     (if pj_identity p \<noteq> [] then (pj_identity p, scope_request mq k (pj_identity p) [])
      else (pj_name p, scope_request mq k [] (pj_name p)))"

definition empty_multi_response :: multi_response where
  "empty_multi_response =
     \<lparr> ms_results = [], ms_projects = 0, ms_skipped = 0, ms_route = [], ms_routes = [], ms_fallback = False,
       ms_keyword = False, ms_degraded = False, ms_retry_after = 0 \<rparr>"

definition search_all_projects :: "service \<Rightarrow> ctx \<Rightarrow> multi_request \<Rightarrow> world \<Rightarrow> multi_response result \<times> world" where
  "search_all_projects sv cx mq w =
     (case ss_list (sv_store sv) of
        Inl e \<Rightarrow> (Inl (Wrapped ''list projects: '' e), w)
      | Inr ps0 \<Rightarrow>
          (let ps = unique_by_identity ps0
           in if ps = [] then (Inr empty_multi_response, w)
              else (case search_over sv cx mq (map (project_scope mq (clamp_multi_top_k (mq_top_k mq))) ps) w of
                      (r, w1) \<Rightarrow> (Inr r, w1))))"

definition search_multi :: "service \<Rightarrow> ctx \<Rightarrow> multi_request \<Rightarrow> world \<Rightarrow> multi_response result \<times> world" where
  "search_multi sv cx mq w =
     (if mq_all mq then search_all_projects sv cx mq w
      else if mq_identities mq = [] \<and> mq_projects mq = [] then (Inl (Plain ''no project identities specified''), w)
      else (let k = clamp_multi_top_k (mq_top_k mq)
        in case search_over sv cx mq
                  (map (\<lambda>i. (i, scope_request mq k i [])) (mq_identities mq) @
                   map (\<lambda>p. (p, scope_request mq k [] p)) (mq_projects mq)) w of
             (r, w1) \<Rightarrow> (Inr r, w1)))"


section \<open>The flags of a response\<close>

text \<open>What the legs leave in a fresh response.\<close>

definition fresh_response :: "response \<Rightarrow> bool" where
  "fresh_response rp \<longleftrightarrow> \<not> rp_degraded rp \<and> \<not> rp_fallback rp \<and> \<not> rp_keyword rp \<and> rp_route rp = []"

lemma keyword_leg_flags:
  "keyword_leg sv pid q dims k wt rp = Inr rp1 \<Longrightarrow> rp_keyword rp1 \<and> rp_fallback rp1 = rp_fallback rp \<and>
     rp_degraded rp1 = rp_degraded rp \<and> rp_route rp1 = rp_route rp"
  by (auto simp: keyword_leg_def split: sum.splits)

lemma search_semantic_flags:
  assumes "fresh_response rp" "search_semantic sv cx pid req model dims wt rp w = (Inr rp1, w1)"
  shows "(rp_degraded rp1 \<longrightarrow> rp_fallback rp1) \<and> (rp_keyword rp1 \<longleftrightarrow> rp_fallback rp1) \<and>
    (rp_fallback rp1 \<or> rp_route rp1 \<in> {''vector'', ''hybrid''})"
proof -
  obtain r w2 where e: "em_single (sv_emb sv) cx model (rq_query req) w = (r, w2)" by fastforce
  show ?thesis
  proof (cases r)
    case (Inl err)
    define rp2 where "rp2 = (case first_retry err of
        Some d \<Rightarrow> rp\<lparr>rp_degraded := True, rp_retry_after := d\<rparr> | None \<Rightarrow> rp)
      \<lparr>rp_fallback := True, rp_keyword := True, rp_reason := summarize_failure (sv_env sv) (Some err)\<rparr>"
    have "keyword_leg sv pid (rq_query req) dims (rq_top_k req) wt rp2 = Inr rp1"
      using Inl e assms(2) by (simp add: search_semantic_def Let_def rp2_def)
    moreover have "rp_fallback rp2" by (simp add: rp2_def)
    ultimately show ?thesis using keyword_leg_flags by blast
  next
    case (Inr vec)
    with e assms show ?thesis
      by (auto simp: search_semantic_def hybrid_fuse_route_def fresh_response_def Let_def
          split: sum.splits prod.splits)
  qed
qed

lemma retrieve_flags:
  assumes "fresh_response rp" "retrieve sv cx p req model dims rp w = (Inr rp1, w1)"
  shows "(rp_degraded rp1 \<longrightarrow> rp_fallback rp1) \<and> (rp_fallback rp1 \<longrightarrow> rp_keyword rp1) \<and>
    (if rp_fallback rp1 then request_route req = ''hybrid''
     else if request_route req = ''hybrid'' then rp_route rp1 \<in> {''vector'', ''hybrid''} \<and> \<not> rp_keyword rp1
     else rp_route rp1 = [] \<and> (rp_keyword rp1 \<longleftrightarrow> request_route req = ''keyword''))"
proof -
  let ?qt = "classify_query (rq_query req)" and ?wt = "worktree_filter p (rq_worktree req)"
  consider (kw) q d where "keyword_leg sv (pj_id p) q d (rq_top_k req) ?wt rp = Inr rp1" "request_route req = ''keyword''"
    | (vec) "search_vector_only sv cx (pj_id p) req model dims ?wt rp w = (Inr rp1, w1)" "request_route req = ''vector''"
    | (sem) "search_semantic sv cx (pj_id p) req model dims ?wt rp w = (Inr rp1, w1)" "request_route req = ''hybrid''"
    using assms(2) by (auto simp: retrieve_def request_route_def Let_def split: if_splits)
  then show ?thesis
  proof cases
    case kw
    with keyword_leg_flags [OF kw(1)] assms(1) show ?thesis by (auto simp: fresh_response_def)
  next
    case vec
    with assms(1) show ?thesis
      by (auto simp: search_vector_only_def fresh_response_def split: sum.splits prod.splits)
  next
    case sem
    with search_semantic_flags [OF assms(1) sem(1)] show ?thesis by auto
  qed
qed

lemma finish_search_flags:
  "rp_fallback (finish_search sv p req rp) = rp_fallback rp" "rp_keyword (finish_search sv p req rp) = rp_keyword rp"
  "rp_degraded (finish_search sv p req rp) = rp_degraded rp"
  "rp_route (finish_search sv p req rp) =
     (if rp_fallback rp then ''fallback'' else if rp_route rp \<noteq> [] then rp_route rp else request_route req)"
  by (auto simp: finish_search_def apply_graph_expansion_def apply_rerank_def Let_def split: option.splits sum.splits)

lemma start_fresh: "fresh_response (start_response p model)"
  by (simp add: fresh_response_def start_response_def)

lemma search_done:
  "search_one sv cx req w = (Inr rp, w') \<Longrightarrow>
   \<exists>p model dims w1 rp1. retrieve sv cx p (with_defaults_req req) model dims (start_response p model) w1 = (Inr rp1, w') \<and>
     rp = finish_search sv p (with_defaults_req req) rp1"
  by (auto simp: search_one_def Let_def split: sum.splits prod.splits if_splits) blast+

section \<open>Where each hit comes from\<close>

text \<open>The chunk a hit shows, its score, label and staleness marks aside; and what it means that a hit
  was found by the words of a query, or by the vector the embedder gave for it.\<close>

definition same_chunk :: "search_result \<Rightarrow> search_result \<Rightarrow> bool" where
  "same_chunk a b \<longleftrightarrow> sr_path a = sr_path b \<and> sr_content a = sr_content b \<and> sr_start a = sr_start b \<and> sr_end a = sr_end b"

definition found_by_words :: "service \<Rightarrow> project_row \<Rightarrow> request \<Rightarrow> search_result \<Rightarrow> bool" where
  "found_by_words sv p req h \<longleftrightarrow>
     (\<exists>q dims rs. q \<in> {rq_query req, keyword_query_for_routing (rq_query req) (classify_query (rq_query req))} \<and>
        ss_keywords (sv_store sv) (pj_id p) q dims (rq_top_k req) (worktree_filter p (rq_worktree req)) = Inr rs \<and>
        (\<exists>k\<in>set rs. same_chunk h k))"

definition found_by_vector :: "service \<Rightarrow> ctx \<Rightarrow> project_row \<Rightarrow> string \<Rightarrow> request \<Rightarrow> search_result \<Rightarrow> bool" where
  "found_by_vector sv cx p model req h \<longleftrightarrow>
     (\<exists>w vec w1 dims rs. em_single (sv_emb sv) cx model (rq_query req) w = (Inr vec, w1) \<and>
        ss_similar (sv_store sv) (pj_id p) vec dims (rq_top_k req) (worktree_filter p (rq_worktree req)) = Inr rs \<and>
        (\<exists>k\<in>set rs. same_chunk h k))"

definition by_words :: "service \<Rightarrow> project_row \<Rightarrow> request \<Rightarrow> search_result \<Rightarrow> bool" where
  "by_words sv p req h \<longleftrightarrow> sr_source h = ''keyword'' \<and> found_by_words sv p req h"

definition by_vector :: "service \<Rightarrow> ctx \<Rightarrow> project_row \<Rightarrow> string \<Rightarrow> request \<Rightarrow> search_result \<Rightarrow> bool" where
  "by_vector sv cx p model req h \<longleftrightarrow>
     sr_source h = (if rq_vector_only req then [] else ''vector'') \<and> found_by_vector sv cx p model req h"

text \<open>The store's hits carry no label of their own: only the search labels them.\<close>

definition unlabelled :: "search_store \<Rightarrow> bool" where
  "unlabelled st \<longleftrightarrow>
     (\<forall>pid q d k wt rs. ss_keywords st pid q d k wt = Inr rs \<longrightarrow> (\<forall>r\<in>set rs. sr_source r = [])) \<and>
     (\<forall>pid v d k wt rs. ss_similar st pid v d k wt = Inr rs \<longrightarrow> (\<forall>r\<in>set rs. sr_source r = []))"

lemma same_chunk_score [simp]: "same_chunk (r\<lparr>sr_score := x\<rparr>) k = same_chunk r k"
  by (simp add: same_chunk_def)

lemma by_score [simp]:
  "by_words sv p req (h\<lparr>sr_score := x\<rparr>) = by_words sv p req h"
  "by_vector sv cx p model req (h\<lparr>sr_score := x\<rparr>) = by_vector sv cx p model req h"
  by (simp_all add: by_words_def by_vector_def found_by_words_def found_by_vector_def)

text \<open>The fusion only reorders, cuts and rescales the hits of its two legs.\<close>

lemma rerank_rrf_from:
  assumes "sort_func sortf" "h \<in> set (rerank_rrf sortf vector keyword k)"
  shows "\<exists>g x. g \<in> set vector \<union> set keyword \<and> (h = g \<or> h = g\<lparr>sr_score := x\<rparr>)"
proof -
  let ?scored = "sortf compare_scored_desc (fuse_rrf vector keyword (build_ranks vector) (build_ranks keyword))"
  have "rf_result ` set ?scored \<subseteq> set vector \<union> set keyword"
    using arg_cong [OF fuse_keeps [of vector keyword "build_ranks vector" "build_ranks keyword"], of set]
    by (auto simp: sort_func.sort_set [OF assms(1)])
  then have sub: "s \<in> set ?scored \<Longrightarrow> rf_result s \<in> set vector \<union> set keyword" for s by blast
  from assms(2) consider "h \<in> set keyword" | "h \<in> set vector"
    | s x where "s \<in> set ?scored" "h = rf_result s \<or> h = (rf_result s)\<lparr>sr_score := x\<rparr>"
    by (auto simp: rerank_rrf_def normalise_rrf_def Let_def split: if_splits dest!: in_set_takeD)
  then show ?thesis
  proof cases
    case (3 s x)
    with sub show ?thesis by blast
  qed auto
qed

lemma keyword_leg_hits:
  assumes "unlabelled (sv_store sv)" "q \<in> {rq_query req, keyword_query_for_routing (rq_query req) (classify_query (rq_query req))}"
    "keyword_leg sv (pj_id p) q dims (rq_top_k req) (worktree_filter p (rq_worktree req)) rp = Inr rp1"
    "h \<in> set (rp_results rp1)"
  shows "by_words sv p req h"
proof -
  from assms(3) obtain rs where rs:
    "ss_keywords (sv_store sv) (pj_id p) q dims (rq_top_k req) (worktree_filter p (rq_worktree req)) = Inr rs"
    "rp_results rp1 = tag_result_source ''keyword'' rs"
    by (auto simp: keyword_leg_def split: sum.splits)
  with assms(4) obtain k where k: "k \<in> set rs" "h = k \<or> h = k\<lparr>sr_source := ''keyword''\<rparr>"
      "sr_source k = [] \<longrightarrow> sr_source h = ''keyword''"
    by (auto simp: tag_result_source_def)
  have "sr_source k = []" using assms(1) rs(1) k(1) unfolding unlabelled_def by blast
  moreover have "same_chunk h k" using k(2) by (auto simp: same_chunk_def)
  ultimately show ?thesis
    using assms(2) rs(1) k unfolding by_words_def found_by_words_def by blast
qed

lemma similar_tagged:
  assumes "unlabelled (sv_store sv)"
    "ss_similar (sv_store sv) (pj_id p) vec dims (rq_top_k req) (worktree_filter p (rq_worktree req)) = Inr rs"
    "em_single (sv_emb sv) cx model (rq_query req) w = (Inr vec, w1)"
    "h \<in> set (if rq_vector_only req then rs else tag_result_source ''vector'' rs)"
  shows "by_vector sv cx p model req h"
proof -
  from assms(4) obtain k where k: "k \<in> set rs" "h = k \<or> h = k\<lparr>sr_source := ''vector''\<rparr>"
      "sr_source k = [] \<longrightarrow> sr_source h = (if rq_vector_only req then [] else ''vector'')"
    by (auto simp: tag_result_source_def split: if_splits)
  have "sr_source k = []" using assms(1,2) k(1) unfolding unlabelled_def by blast
  moreover have "same_chunk h k" using k(2) by (auto simp: same_chunk_def)
  ultimately show ?thesis
    using assms(2,3) k(1,3) unfolding by_vector_def found_by_vector_def by blast
qed

lemma keyword_tagged:
  assumes "unlabelled (sv_store sv)"
    "ss_keywords (sv_store sv) (pj_id p) (rq_query req) dims (rq_top_k req) (worktree_filter p (rq_worktree req)) = Inr rs"
    "h \<in> set (tag_result_source ''keyword'' rs)"
  shows "by_words sv p req h"
  by (rule keyword_leg_hits [OF assms(1), of "rq_query req" req p dims
        undefined "undefined\<lparr>rp_results := tag_result_source ''keyword'' rs, rp_keyword := True\<rparr>"])
    (use assms(2,3) in \<open>auto simp: keyword_leg_def\<close>)

lemma semantic_hits:
  assumes "unlabelled (sv_store sv)" "sort_func (sv_sort_rrf sv)" "\<not> rq_vector_only req"
    "search_semantic sv cx (pj_id p) req model dims (worktree_filter p (rq_worktree req)) rp w = (Inr rp1, w1)"
    "h \<in> set (rp_results rp1)"
  shows "by_words sv p req h \<or> by_vector sv cx p model req h \<and> rp_fallback rp1 = rp_fallback rp"
proof -
  let ?wt = "worktree_filter p (rq_worktree req)"
  obtain r w2 where e: "em_single (sv_emb sv) cx model (rq_query req) w = (r, w2)" by fastforce
  show ?thesis
  proof (cases r)
    case (Inl err)
    then obtain rp2 where "keyword_leg sv (pj_id p) (rq_query req) dims (rq_top_k req) ?wt rp2 = Inr rp1"
      using e assms(4) by (auto simp: search_semantic_def Let_def)
    from keyword_leg_hits [OF assms(1) _ this assms(5)] show ?thesis by simp
  next
    case (Inr vec)
    with e assms(4) obtain rs route where f:
      "hybrid_fuse_route sv (pj_id p) (rq_query req) vec dims (rq_top_k req) ?wt = Inr (rs, route)"
      "rp1 = rp\<lparr>rp_results := rs, rp_route := route\<rparr>"
      by (auto simp: search_semantic_def Let_def split: sum.splits prod.splits)
    from f(1) obtain vs where v: "ss_similar (sv_store sv) (pj_id p) vec dims (rq_top_k req) ?wt = Inr vs"
      by (auto simp: hybrid_fuse_route_def split: sum.splits)
    have vec: "by_vector sv cx p model req g" if "g \<in> set (tag_result_source ''vector'' vs)" for g
      using similar_tagged [OF assms(1) v] e Inr that assms(3) by simp
    show ?thesis
    proof (cases "ss_keywords (sv_store sv) (pj_id p) (rq_query req) dims (rq_top_k req) ?wt")
      case (Inl err)
      with f v assms(5) have "h \<in> set (tag_result_source ''vector'' vs)"
        by (auto simp: hybrid_fuse_route_def)
      with vec f(2) show ?thesis by auto
    next
      case (Inr ks)
      with f v assms(5) have "h \<in> set (rerank_rrf (sv_sort_rrf sv) (tag_result_source ''vector'' vs)
          (tag_result_source ''keyword'' ks) (rq_top_k req))"
        by (auto simp: hybrid_fuse_route_def Let_def)
      from rerank_rrf_from [OF assms(2) this] obtain g x where
        g: "g \<in> set (tag_result_source ''vector'' vs) \<union> set (tag_result_source ''keyword'' ks)"
          "h = g \<or> h = g\<lparr>sr_score := x\<rparr>" by blast
      with vec keyword_tagged [OF assms(1) Inr] have "by_words sv p req h \<or> by_vector sv cx p model req h" by auto
      with f(2) show ?thesis by auto
    qed
  qed
qed

lemma retrieve_hits:
  assumes "unlabelled (sv_store sv)" "sort_func (sv_sort_rrf sv)" "fresh_response rp"
    "retrieve sv cx p req model dims rp w = (Inr rp1, w1)" "h \<in> set (rp_results rp1)"
  shows "by_words sv p req h \<and> request_route req \<noteq> ''vector'' \<or> by_vector sv cx p model req h \<and> \<not> rp_keyword rp1"
proof -
  let ?qt = "classify_query (rq_query req)" and ?wt = "worktree_filter p (rq_worktree req)"
  consider (kw) q d where "keyword_leg sv (pj_id p) q d (rq_top_k req) ?wt rp = Inr rp1" "request_route req = ''keyword''"
      "q \<in> {rq_query req, keyword_query_for_routing (rq_query req) ?qt}"
    | (vec) "search_vector_only sv cx (pj_id p) req model dims ?wt rp w = (Inr rp1, w1)" "rq_vector_only req"
    | (sem) "search_semantic sv cx (pj_id p) req model dims ?wt rp w = (Inr rp1, w1)" "\<not> rq_vector_only req"
        "request_route req = ''hybrid''"
    using assms(4) by (auto simp: retrieve_def request_route_def Let_def split: if_splits)
  then show ?thesis
  proof cases
    case kw
    with keyword_leg_hits [OF assms(1) kw(3,1) assms(5)] show ?thesis by simp
  next
    case vec
    from vec obtain v rs where "em_single (sv_emb sv) cx model (rq_query req) w = (Inr v, w1)"
        "ss_similar (sv_store sv) (pj_id p) v dims (rq_top_k req) ?wt = Inr rs" "rp1 = rp\<lparr>rp_results := rs\<rparr>"
      by (auto simp: search_vector_only_def split: sum.splits prod.splits)
    with similar_tagged [OF assms(1)] vec(2) assms(3,5) show ?thesis by (auto simp: fresh_response_def)
  next
    case sem
    have "rp_keyword rp1 \<longleftrightarrow> rp_fallback rp1" using search_semantic_flags [OF assms(3) sem(1)] by blast
    moreover have "\<not> rp_fallback rp" using assms(3) by (simp add: fresh_response_def)
    ultimately show ?thesis using semantic_hits [OF assms(1,2) sem(2,1) assms(5)] sem(3) by auto
  qed
qed

lemma retrieve_keeps:
  "retrieve sv cx p req model dims rp w = (Inr rp1, w1) \<Longrightarrow> rp_project rp1 = rp_project rp \<and> rp_model rp1 = rp_model rp"
  by (auto simp: retrieve_def keyword_leg_def search_vector_only_def search_semantic_def Let_def
      split: if_splits sum.splits prod.splits option.splits)

lemma graph_chunks_label: "h \<in> set (fetch_graph_chunks st pid ex) \<Longrightarrow> sr_source h = ''graph''"
proof -
  assume h: "h \<in> set (fetch_graph_chunks st pid ex)"
  have label: "sr_source h = ''graph''"
    if "h \<in> set (concat (map (\<lambda>(path, hop). hop_chunks path hop (F path)) ex))" for F
    using that by (auto simp: hop_chunks_def graph_hit_def split: if_splits)
  show ?thesis
  proof (cases "ss_chunks_paths st")
    case None
    with h show ?thesis unfolding fetch_graph_chunks_def Let_def by (simp only: option.case) (rule label)
  next
    case (Some batch)
    show ?thesis
    proof (cases "batch pid (map fst ex) 3")
      case (Inl e)
      with Some h show ?thesis unfolding fetch_graph_chunks_def Let_def by (simp only: option.case sum.case) (rule label)
    next
      case (Inr by_path)
      with Some h show ?thesis unfolding fetch_graph_chunks_def Let_def by (simp only: option.case sum.case) (rule label)
    qed
  qed
qed

lemma expansion_label: "expand_by_graph st n seeds pid = Inr ex \<Longrightarrow> h \<in> set ex \<Longrightarrow> sr_source h = ''graph''"
  by (auto simp: expand_by_graph_def try_expand_by_cte_def expand_by_graph_go_def Let_def graph_chunks_label
      split: if_splits sum.splits)

lemma append_new_files_sub: "set (append_new_files seen rs) \<subseteq> set rs"
  by (induction seen rs rule: append_new_files.induct) auto

lemma annotated_from:
  "h \<in> set (annotate_staleness sv p dir rs) \<Longrightarrow>
   \<exists>g\<in>set rs. same_chunk h g \<and> sr_source h = sr_source g"
  by (force simp: annotate_staleness_def annotate_hit_def same_chunk_def Let_def split: if_splits sum.splits option.splits)

lemma finish_hits:
  assumes "sort_func (sv_sort_hits sv)" "\<And>f q rs. sv_reranker sv = Some f \<Longrightarrow> set (f q rs) \<subseteq> set rs"
    "h \<in> set (rp_results (finish_search sv p req rp))"
  shows "rq_graph req \<and> sr_source h = ''graph'' \<or>
    (\<exists>g\<in>set (rp_results rp). same_chunk h g \<and> sr_source h = sr_source g)"
proof -
  let ?rr = "apply_rerank sv (rq_query req) rp"
  let ?ge = "apply_graph_expansion sv req (clamp_graph_depth (rq_graph_depth req)) (pj_id p) ?rr"
  from assms(3) obtain g where g: "g \<in> set (rp_results ?ge)" "same_chunk h g" "sr_source h = sr_source g"
    using annotated_from by (fastforce simp: finish_search_def Let_def)
  have "set (rp_results ?rr) \<subseteq> set (rp_results rp)"
    using assms(2) by (auto simp: apply_rerank_def split: option.splits if_splits)
  moreover have "g \<in> set (rp_results ?rr) \<or> rq_graph req \<and> sr_source g = ''graph''"
  proof (cases "rq_graph req \<and> (\<exists>ex. expand_by_graph (sv_store sv) (clamp_graph_depth (rq_graph_depth req)) (rp_results ?rr) (pj_id p) = Inr ex \<and> ex \<noteq> [])")
    case True
    then obtain ex where ex: "rq_graph req" "ex \<noteq> []"
      "expand_by_graph (sv_store sv) (clamp_graph_depth (rq_graph_depth req)) (rp_results ?rr) (pj_id p) = Inr ex" by blast
    with g(1) have "g \<in> set (rp_results ?rr) \<or> g \<in> set ex"
      using append_new_files_sub
      by (auto simp: apply_graph_expansion_def merge_graph_results_def sort_func.sort_set [OF assms(1)])
    with expansion_label [OF ex(3)] ex(1) show ?thesis by blast
  next
    case False
    with g(1) show ?thesis by (auto simp: apply_graph_expansion_def split: if_splits sum.splits)
  qed
  ultimately show ?thesis using g(2,3) by auto
qed

lemma by_same:
  "same_chunk h g \<Longrightarrow> sr_source h = sr_source g \<Longrightarrow> by_words sv p req g \<Longrightarrow> by_words sv p req h"
  "same_chunk h g \<Longrightarrow> sr_source h = sr_source g \<Longrightarrow> by_vector sv cx p model req g \<Longrightarrow> by_vector sv cx p model req h"
  by (simp_all add: by_words_def by_vector_def found_by_words_def found_by_vector_def same_chunk_def)

text \<open>C27: a search is honest about where its hits come from, flag by flag and hit by hit, over a store
  that returns its hits unlabelled, with a sort that keeps the elements and a reranker, if one is
  set, that only reorders or drops hits.  Every hit
  is labelled \<open>graph\<close> (only when graph expansion was asked for); or \<open>keyword\<close>, and then the keyword
  query for the request's words returned it; or \<open>vector\<close> (no label in a vector-only search), and
  then the similarity query for a vector the embedder gave for the request's query returned it, and
  the response carries no keyword flag.
  A vector-only answer has no hit by words.  \<open>Degraded\<close> implies \<open>Fallback\<close>, the route is \<open>fallback\<close> exactly
  when the response says so, and the keyword flag is set exactly on the routes \<open>keyword\<close> and
  \<open>fallback\<close>.  The flag speaks of the route: a hybrid search whose vector leg is empty has no keyword
  flag, but each of its hits is labelled \<open>keyword\<close>.\<close>

theorem search_flags_honest:
  assumes "search_one sv cx req w = (Inr rp, w')"
    "unlabelled (sv_store sv)" "sort_func (sv_sort_rrf sv)" "sort_func (sv_sort_hits sv)"
    "\<And>f q rs. sv_reranker sv = Some f \<Longrightarrow> set (f q rs) \<subseteq> set rs"
  shows "(rp_degraded rp \<longrightarrow> rp_fallback rp) \<and> (rp_fallback rp \<longleftrightarrow> rp_route rp = ''fallback'') \<and>
    (rp_keyword rp \<longleftrightarrow> rp_route rp \<in> {''keyword'', ''fallback''}) \<and>
    rp_route rp \<in> {''keyword'', ''vector'', ''hybrid'', ''fallback''} \<and>
    (\<forall>h\<in>set (rp_results rp).
       rq_graph req \<and> sr_source h = ''graph'' \<or>
       by_words sv (rp_project rp) (with_defaults_req req) h \<and> request_route (with_defaults_req req) \<noteq> ''vector'' \<or>
       by_vector sv cx (rp_project rp) (rp_model rp) (with_defaults_req req) h \<and> \<not> rp_keyword rp)"
proof -
  let ?req = "with_defaults_req req"
  from search_done [OF assms(1)] obtain p model dims w1 rp1 where r:
    "retrieve sv cx p ?req model dims (start_response p model) w1 = (Inr rp1, w')" "rp = finish_search sv p ?req rp1"
    by blast
  have at: "rp_project rp = p" "rp_model rp = model" "rq_graph ?req = rq_graph req"
    using retrieve_keeps [OF r(1)]
    by (auto simp: r(2) finish_search_def apply_graph_expansion_def apply_rerank_def start_response_def
        with_defaults_req_def Let_def split: option.splits sum.splits)
  have "request_route ?req \<in> {''keyword'', ''vector'', ''hybrid''}" by (simp add: request_route_def)
  with retrieve_flags [OF start_fresh r(1)]
  have flags: "(rp_degraded rp \<longrightarrow> rp_fallback rp) \<and> (rp_fallback rp \<longleftrightarrow> rp_route rp = ''fallback'') \<and>
    (rp_keyword rp \<longleftrightarrow> rp_route rp \<in> {''keyword'', ''fallback''}) \<and>
    rp_route rp \<in> {''keyword'', ''vector'', ''hybrid'', ''fallback''}"
    unfolding r(2) finish_search_flags by (auto split: if_splits)
  have "rq_graph req \<and> sr_source h = ''graph'' \<or>
      by_words sv p ?req h \<and> request_route ?req \<noteq> ''vector'' \<or> by_vector sv cx p model ?req h \<and> \<not> rp_keyword rp"
    if h: "h \<in> set (rp_results rp)" for h
  proof -
    consider "rq_graph req \<and> sr_source h = ''graph''"
      | g where "g \<in> set (rp_results rp1)" "same_chunk h g" "sr_source h = sr_source g"
      using finish_hits [of sv h p ?req rp1] assms(4,5) h at(3) unfolding r(2) by blast
    then show ?thesis
    proof cases
      case (2 g)
      from retrieve_hits [OF assms(2,3) start_fresh r(1) 2(1)] by_same [OF 2(2,3)] show ?thesis
        by (auto simp: r(2) finish_search_flags)
    qed simp
  qed
  with flags show ?thesis unfolding at by blast
qed

section \<open>Privacy\<close>

text \<open>What a search does to the world is what its embedder does: the model query, then at most one
  embedding of the query text.\<close>

lemma search_one_confined:
  assumes em: "confined_embedder (sv_emb sv) C P" and C: "C cx"
  shows "confined P w (snd (search_one sv cx req w))"
proof -
  have info: "confined P w (snd (model_dims sv cx m w))" for m w
    using confined_embedder.info_confined [OF em C, of w m]
    by (auto simp: model_dims_def split: prod.splits sum.splits)
  have single: "confined P w (snd (em_single (sv_emb sv) cx m q w))" for m q w
    using confined_embedder.single_confined [OF em C] .
  have got: "confined P w (snd (retrieve sv cx p r m dims rp w))" for p r m dims rp w
    using single [of w m "rq_query r"]
    by (auto simp: retrieve_def search_vector_only_def search_semantic_def Let_def split: prod.splits sum.splits)
  show ?thesis
  proof (cases "resolve_project sv (with_defaults_req req)")
    case (Inr p)
    let ?m = "if rq_model (with_defaults_req req) \<noteq> [] then rq_model (with_defaults_req req) else pj_model p"
    obtain dims w1 where d: "model_dims sv cx ?m w = (dims, w1)" by fastforce
    obtain r w2 where t: "retrieve sv cx p (with_defaults_req req) ?m dims (start_response p ?m) w1 = (r, w2)" by fastforce
    have "confined P w w1" "confined P w1 w2" using info [of w ?m] got [of w1 p "with_defaults_req req" ?m dims] d t by (metis snd_conv)+
    then have "confined P w w2" by (rule confined_trans)
    with Inr d t show ?thesis by (cases r) (simp_all add: search_one_def Let_def)
  qed (simp add: search_one_def Let_def)
qed

text \<open>The first Gemini call of a chain without a custom provider: the model query sends nothing and
  leaves the breaker admitting; the embedding posts the text.\<close>

definition gemini_first :: "chain_config \<Rightarrow> bool" where
  "gemini_first cfg \<longleftrightarrow> length (cc_ollama_urls cfg) < 2 \<and> cc_provider cfg = [] \<and> cc_gemini_key cfg \<noteq> [] \<and> \<not> cc_privacy cfg"

definition gemini_post :: "chain_config \<Rightarrow> string \<Rightarrow> string \<Rightarrow> http_req" where
  "gemini_post cfg model q =
     \<lparr> rq_method = ''POST'', rq_url = cc_gemini_url cfg @ ''/embeddings'', rq_auth = openai_auth (cc_gemini_key cfg),
       rq_payload = OpenAIEmbedRequest model [q] \<rparr>"

lemma allow_after_success: "fst (fst (allow now (record_success cb)))"
  by (simp add: allow_def record_success_def remaining_def)

lemma gemini_info:
  assumes "gemini_first cfg" "\<not> is_force_local cx" "fst (fst (allow (w_now w) (w_breakers w 1)))"
    "infer_dims (en_lower en) m > 0"
    "em_info (new_chain_from_config en cfg) cx m w = (r, w1)"
  shows "w_sent w1 = w_sent w \<and> fst (fst (allow (w_now w1) (w_breakers w1 1)))"
proof -
  obtain rem cb where a: "allow (w_now w) (w_breakers w 1) = ((True, rem), cb)"
    using assms(3) by (metis fst_conv surj_pair)
  have "em_info (new_chain_from_config en cfg) cx m w =
      (Inr \<lparr>mi_name = m, mi_dims = infer_dims (en_lower en) m\<rparr>,
       set_breaker 1 (record_success cb) (set_breaker 1 cb w))"
    using assms(1,2,4) a
    by (simp add: gemini_first_def new_chain_from_config_def chain_as_embedder_def chain_model_info_def try_each_def
        new_chain_embedder_def config_providers_def cloud_providers_def skip_provider_def wrapped_def
        wrap_with_circuit_def circuit_model_info_def guarded_def new_openai_client_def openai_model_info_def Let_def)
  with assms(5) show ?thesis by (auto simp: allow_after_success)
qed

lemma gemini_embeds:
  assumes "gemini_first cfg" "\<not> is_force_local cx" "fst (fst (allow (w_now w) (w_breakers w 1)))"
    "en_url_error en (cc_gemini_url cfg @ ''/embeddings'') = None"
  shows "\<exists>rs. w_sent (snd (em_single (new_chain_from_config en cfg) cx m q w)) = w_sent w @ gemini_post cfg m q # rs"
proof -
  let ?cl = "new_openai_client en (cc_gemini_url cfg) (cc_gemini_key cfg)"
  let ?c = "with_timeout cx (w_now w) (30 * 1000000000)"
  let ?wb = "set_breaker 1 (snd (allow (w_now w) (w_breakers w 1))) w"
  let ?first = "circuit_embed_single en 1 ''gemini'' ?cl ?c m q w"
  define ps where "ps = tl (config_providers en cfg)"
  have ps: "config_providers en cfg = wrapped en 1 ''gemini'' ?cl False # ps"
    using assms(1) by (simp add: ps_def gemini_first_def config_providers_def cloud_providers_def)
  have "set (config_providers en cfg) \<subseteq> insert (wrapped en 5 ''ollama'' (new_ollama_client en (cc_ollama_url cfg)) True)
      (set (cloud_providers en cfg))"
    using assms(1) by (simp add: gemini_first_def config_providers_def subset_iff)
  then have rest: "grows (pi_embedder p)" if "p \<in> set ps" for p
    using that ps cloud_grows by auto
  have "w_sent (snd (em_single ?cl ?c m q ?wb)) = w_sent w @ [gemini_post cfg m q]"
    using openai_embed_sends [of "[q]" en "cc_gemini_url cfg" "cc_gemini_key cfg" ?c m ?wb] assms(4)
    by (auto simp: new_openai_client_def openai_embed_single_def first_embedding_def gemini_post_def Let_def
        split: prod.splits sum.splits list.splits)
  moreover have "confined (\<lambda>_. True) (snd (em_single ?cl ?c m q ?wb)) (snd (retry_transient en ?c (em_single ?cl ?c m q) ?wb))"
    by (rule retry_transient_first) (simp add: confined_embedder.single_confined [OF client_grows(1)])
  moreover have "w_sent (snd ?first) = w_sent (snd (retry_transient en ?c (em_single ?cl ?c m q) ?wb))"
    unfolding circuit_embed_single_def by (rule guarded_admitted [OF assms(3)])
  ultimately obtain rs where first: "w_sent (snd ?first) = w_sent w @ gemini_post cfg m q # rs"
    by (auto simp: confined_def)
  have "confined (\<lambda>_. True) (snd ?first) (snd (try_loop en False cx op (\<lambda>c e. em_single e c m q) ps fs (snd ?first)))" for op fs
    by (rule try_loop_confined) (auto intro: confined_embedder.single_confined rest)
  then have "confined (\<lambda>_. True) (snd ?first) (snd (em_single (new_chain_from_config en cfg) cx m q w))"
    using assms(1,2)
    by (cases ?first)
      (auto simp: gemini_first_def new_chain_from_config_def chain_as_embedder_def chain_embed_single_def try_each_def
        new_chain_embedder_def ps skip_provider_def wrapped_def wrap_with_circuit_def provider_timeout_def
        split: sum.splits option.splits)
  with first show ?thesis by (auto simp: confined_def)
qed

text \<open>C9: a search does not look at the project's privacy policy.  The embedder is the one built from a
  configuration with a Gemini key, the privacy setting off, no custom provider and fewer than two
  Ollama URLs; the caller's context is live and not force-local, the Gemini breaker admits calls,
  and the model's dimensions can be told from its name.  Then, for a project whose policy is \<open>edge\<close>, a
  query that routes to the hybrid search is posted to the Gemini endpoint.  The embedder itself would have obeyed
  the policy: under the force-local mark, which indexing sets for such a project, the same search
  sends requests to the local endpoints only.\<close>

theorem edge_query_reaches_cloud:
  fixes req :: request
  assumes "resolve_project sv (with_defaults_req req) = Inr p" "pj_privacy p = ''edge''"
    "request_route (with_defaults_req req) = ''hybrid''"
    "sv_emb sv = new_chain_from_config en cfg" "gemini_first cfg"
    "\<not> is_force_local cx" "ctx_err cx w = None" "fst (fst (allow (w_now w) (w_breakers w 1)))"
    "infer_dims (en_lower en) (if rq_model req \<noteq> [] then rq_model req else pj_model p) > 0"
    "en_url_error en (cc_gemini_url cfg @ ''/embeddings'') = None"
  shows "(\<exists>rs. w_sent (snd (search_one sv cx req w)) = w_sent w @
      gemini_post cfg (if rq_model req \<noteq> [] then rq_model req else pj_model p) (rq_query req) # rs) \<and>
    confined (local_endpoint cfg) w (snd (search_one sv (with_force_local cx True) req w))"
proof
  let ?req = "with_defaults_req req"
  let ?model = "if rq_model req \<noteq> [] then rq_model req else pj_model p"
  have keep: "rq_model ?req = rq_model req" "rq_query ?req = rq_query req" by (simp_all add: with_defaults_req_def)
  obtain dims w1 where d: "model_dims sv cx ?model w = (dims, w1)" by fastforce
  then have w1: "w_sent w1 = w_sent w" "fst (fst (allow (w_now w1) (w_breakers w1 1)))"
    using gemini_info [OF assms(5,6,8,9)] assms(4) by (auto simp: model_dims_def split: prod.splits sum.splits)
  have "snd (retrieve sv cx p ?req ?model dims rp w1) = snd (em_single (sv_emb sv) cx ?model (rq_query ?req) w1)" for rp
    using assms(3)
    by (auto simp: retrieve_def request_route_def search_semantic_def Let_def split: if_splits sum.splits prod.splits)
  then have "snd (search_one sv cx req w) = snd (em_single (sv_emb sv) cx ?model (rq_query ?req) w1)"
    using assms(1) d keep by (auto simp: search_one_def Let_def split: sum.splits prod.splits) (metis snd_conv)+
  then show "\<exists>rs. w_sent (snd (search_one sv cx req w)) = w_sent w @ gemini_post cfg ?model (rq_query req) # rs"
    using gemini_embeds [OF assms(5,6) w1(2) assms(10)] by (simp add: assms(4) keep w1(1))
  have "length (cc_ollama_urls cfg) < 2" using assms(5) by (simp add: gemini_first_def)
  from config_chain_confined [OF this] show "confined (local_endpoint cfg) w (snd (search_one sv (with_force_local cx True) req w))"
    by (rule search_one_confined [where sv = sv, unfolded assms(4)]) (simp add: with_force_local_def is_force_local_def)
qed


text \<open>Every search asks the embedder for the model first, keyword searches included; that is all
  they send.\<close>

lemma keyword_search_asks_model:
  assumes "resolve_project sv (with_defaults_req req) = Inr p" "request_route (with_defaults_req req) = ''keyword''"
  shows "snd (search_one sv cx req w) =
    snd (model_dims sv cx (if rq_model req \<noteq> [] then rq_model req else pj_model p) w)"
proof -
  let ?req = "with_defaults_req req"
  have keep: "rq_model ?req = rq_model req" by (simp add: with_defaults_req_def)
  have kw: "snd (retrieve sv cx p ?req m dims rp w1) = w1" for m dims rp w1
    using assms(2) by (auto simp: retrieve_def request_route_def Let_def split: if_splits)
  have "snd (case retrieve sv cx p ?req m dims rp w1 of
      (Inl e, w2) \<Rightarrow> (Inl e, w2) | (Inr rp1, w2) \<Rightarrow> (Inr (finish_search sv p ?req rp1), w2)) = w1" for m dims rp w1
    using kw [of m dims rp w1] by (auto split: prod.splits sum.splits)
  then show ?thesis using assms(1) by (simp add: search_one_def Let_def keep case_prod_beta)
qed

section \<open>A search at work\<close>

definition demo_shop :: project_row where
  "demo_shop = \<lparr> pj_id = 1, pj_name = ''shop'', pj_path = [], pj_model = ''nomic'', pj_status = ''ready'',
     pj_source = ''docs'', pj_identity = ''shop'', pj_dims = 0, pj_privacy = ''edge'', pj_commit = [] \<rparr>"

definition demo_path_env :: path_env where
  "demo_path_env = \<lparr> pe_git = (\<lambda>_. None), pe_abs = (\<lambda>_. None), pe_real = (\<lambda>_. None), pe_quote = id, pe_fold = (=) \<rparr>"

definition demo_service :: "env \<Rightarrow> service" where
  "demo_service en =
     \<lparr> sv_store = local_search_store id (\<lambda>_ _. 0) (\<lambda>_ _. None) (\<lambda>_. 0)
         (demo_text_db\<lparr>db_projects := [demo_shop]\<rparr>),
       sv_emb = new_openai_client en ''https://c'' ''k'', sv_reranker = None,
       sv_env = en, sv_paths = demo_path_env, sv_sort_rrf = insertion_sort,
       sv_sort_hits = insertion_sort, sv_sort_multi = insertion_sort, sv_iter = id,
       sv_read_file = (\<lambda>_. None), sv_sha = id \<rparr>"

definition demo_request :: "string \<Rightarrow> request" where
  "demo_request q =
     \<lparr> rq_project = [], rq_identity = ''shop'', rq_query = q, rq_model = [], rq_top_k = 0, rq_keyword_only = False,
       rq_vector_only = False, rq_worktree = [], rq_graph = False, rq_graph_depth = 0 \<rparr>"

definition open_ctx :: ctx where
  "open_ctx = \<lparr> cx_force_local = False, cx_deadline = None \<rparr>"

lemma demo_resolve: "resolve_project (demo_service en) (with_defaults_req (demo_request q)) = Inr demo_shop"
  by (simp add: resolve_project_def with_defaults_req_def demo_request_def demo_service_def
      local_search_store_def get_project_by_identity_def demo_shop_def)

definition gemini_config :: chain_config where
  "gemini_config = demo_config\<lparr>cc_provider := [], cc_gemini_key := ''g'', cc_gemini_url := ''https://c'', cc_privacy := False\<rparr>"

definition gemini_service :: service where
  "gemini_service = (demo_service (fixed_env ok_reply))\<lparr>sv_emb := new_chain_from_config (fixed_env ok_reply) gemini_config\<rparr>"

theorem edge_query_reaches_cloud_witness:
  "\<exists>rs. w_sent (snd (search_one gemini_service open_ctx (demo_request ''where is it'')
       (start_world (new_circuit_breaker 0 0)))) =
     \<lparr> rq_method = ''POST'', rq_url = ''https://c/embeddings'', rq_auth = Some ''Bearer g'',
       rq_payload = OpenAIEmbedRequest ''nomic'' [''where is it''] \<rparr> # rs"
proof -
  let ?w = "start_world (new_circuit_breaker 0 0)"
  have res: "resolve_project gemini_service (with_defaults_req (demo_request ''where is it'')) = Inr demo_shop"
    using demo_resolve [of "fixed_env ok_reply" "''where is it''"] by (simp add: gemini_service_def resolve_project_def split: if_splits)
  have "request_route (with_defaults_req (demo_request ''where is it'')) = ''hybrid''"
    "infer_dims (en_lower (fixed_env ok_reply)) ''nomic'' > 0" "fst (fst (allow (w_now ?w) (w_breakers ?w 1)))"
    by code_simp+
  moreover have "pj_privacy demo_shop = ''edge''" "gemini_first gemini_config" "\<not> is_force_local open_ctx" "ctx_err open_ctx ?w = None"
    "sv_emb gemini_service = new_chain_from_config (fixed_env ok_reply) gemini_config"
    "en_url_error (fixed_env ok_reply) (cc_gemini_url gemini_config @ ''/embeddings'') = None"
    "(if rq_model (demo_request ''where is it'') \<noteq> [] then rq_model (demo_request ''where is it'') else pj_model demo_shop) = ''nomic''"
    by (simp_all add: demo_shop_def gemini_first_def gemini_config_def demo_config_def is_force_local_def open_ctx_def
        gemini_service_def ctx_err_def start_world_def fixed_env_def demo_request_def)
  ultimately show ?thesis
    using edge_query_reaches_cloud [OF res, where cfg = gemini_config and en = "fixed_env ok_reply" and cx = open_ctx and w = ?w]
    by (simp add: gemini_post_def gemini_config_def start_world_def openai_auth_def demo_request_def)
qed

lemma demo_fallback:
  "\<exists>rp w'. search_one (demo_service (fixed_env (hang_reply 5))) open_ctx (demo_request ''where is it'')
     (start_world (new_circuit_breaker 0 0)) = (Inr rp, w') \<and> rp_fallback rp"
proof -
  have "\<not> isl (fst (search_one (demo_service (fixed_env (hang_reply 5))) open_ctx (demo_request ''where is it'')
     (start_world (new_circuit_breaker 0 0)))) \<and>
    rp_fallback (projr (fst (search_one (demo_service (fixed_env (hang_reply 5))) open_ctx (demo_request ''where is it'')
     (start_world (new_circuit_breaker 0 0)))))"
    by code_simp
  then show ?thesis by (metis sum.collapse(2) prod.collapse)
qed

lemma local_hits_unlabelled: "unlabelled (local_search_store ul cosine bm25 indexed_at d)"
proof -
  have plain: "sr_source (chunk_hit d s c) = []" for s c by (simp add: chunk_hit_def)
  have merged: "set (merge_like seen rs) \<subseteq> set rs" for seen rs by (induction seen rs rule: merge_like.induct) auto
  have "h \<in> set (search_keywords ul bm25 pid q k wt d) \<Longrightarrow> sr_source h = []" for pid q k wt h
    using merged by (fastforce simp: search_keywords_def fts_rows_def like_rows_def plain Let_def split: if_splits dest: in_set_takeD)
  then show ?thesis
    by (auto simp: unlabelled_def local_search_store_def similar_hits_def plain)
qed

theorem search_flags_honest_witness:
  "\<exists>rp w'. search_one (demo_service (fixed_env (hang_reply 5))) open_ctx (demo_request ''where is it'')
     (start_world (new_circuit_breaker 0 0)) = (Inr rp, w') \<and> rp_route rp = ''fallback'' \<and> rp_keyword rp"
proof -
  let ?sv = "demo_service (fixed_env (hang_reply 5))"
  have "unlabelled (sv_store ?sv)" "sort_func (sv_sort_rrf ?sv)" "sort_func (sv_sort_hits ?sv)" "sv_reranker ?sv = None"
    by (simp_all add: demo_service_def local_hits_unlabelled go_sort.sort_func_axioms)
  then show ?thesis
    using demo_fallback search_flags_honest [where sv = ?sv] by (metis insert_iff option.distinct(1))
qed


section \<open>Graph expansion after reranking\<close>

lemma append_new_files_cong: "set s = set s' \<Longrightarrow> append_new_files s rs = append_new_files s' rs"
  by (induction s rs arbitrary: s' rule: append_new_files.induct) auto

text \<open>Of the up to three chunks fetched for each expanded file only the first is kept.\<close>

lemma one_chunk_per_new_file:
  "distinct (map sr_path (append_new_files s rs)) \<and> sr_path ` set (append_new_files s rs) \<inter> set s = {}"
  by (induction s rs rule: append_new_files.induct) auto

lemma compare_hits_ok: "cmp_ok compare_hits A"
  by (rule cmp_ok_key [where key = "\<lambda>r. - sr_score r"]) (simp add: compare_hits_def)

lemma merge_graph_order:
  assumes "sort_func sortf" "mset rs = mset rs'"
    "distinct (map sr_score (rs @ append_new_files (map sr_path rs) ex))"
  shows "merge_graph_results sortf rs ex = merge_graph_results sortf rs' ex"
proof -
  let ?all = "rs @ append_new_files (map sr_path rs) ex"
  have "append_new_files (map sr_path rs') ex = append_new_files (map sr_path rs) ex"
    using assms(2) by (intro append_new_files_cong) (metis list.set_map mset_eq_setD)
  moreover have "a = b" if "a \<in> set ?all" "b \<in> set ?all" "compare_hits a b = 0" for a b
    using that assms(3) by (auto simp: compare_hits_def distinct_map dest: inj_onD split: if_splits)
  ultimately show ?thesis
    unfolding merge_graph_results_def
    using sort_func.sort_agree [OF assms(1) compare_hits_ok, of ?all "rs' @ append_new_files (map sr_path rs) ex"]
      assms(2) by simp
qed

text \<open>A reranker has no effect on a search with graph expansion: when the expansion finds
  something, the merge sorts the hits by their scores again, which a reranker leaves alone, so the
  answer is the one without a reranker.\<close>

theorem graph_search_ignores_reranker:
  assumes "sort_func (sv_sort_hits sv)" "sv_reranker sv = Some f" "mset (f query (rp_results rp)) = mset (rp_results rp)"
    "rq_graph req" "ex \<noteq> []" "expand_by_graph (sv_store sv) n (rp_results rp) pid = Inr ex"
    "expand_by_graph (sv_store sv) n (f query (rp_results rp)) pid = Inr ex"
    "distinct (map sr_score (rp_results rp @ append_new_files (map sr_path (rp_results rp)) ex))"
  shows "apply_graph_expansion sv req n pid (apply_rerank sv query rp) = apply_graph_expansion sv req n pid rp"
  using merge_graph_order [OF assms(1) assms(3) [symmetric] assms(8)] assms(2,4-7)
  by (simp add: apply_graph_expansion_def apply_rerank_def)

definition demo_graph_service :: service where
  "demo_graph_service = (demo_service (fixed_env ok_reply))
     \<lparr>sv_reranker := Some (\<lambda>q. rev),
      sv_store := local_search_store id (\<lambda>_ _. 0) (\<lambda>_ _. None) (\<lambda>_. 0) demo_deps_db\<rparr>"

definition demo_graph_response :: response where
  "demo_graph_response = (start_response demo_shop ''m'')
     \<lparr>rp_results := [(demo_hit ''a'' 1)\<lparr>sr_score := 9 / 10\<rparr>, (demo_hit ''d'' 1)\<lparr>sr_score := 8 / 10\<rparr>]\<rparr>"

lemma demo_graph_expand:
  "expand_by_graph (sv_store demo_graph_service) 2 [(demo_hit ''a'' 1)\<lparr>sr_score := 9 / 10\<rparr>, (demo_hit ''d'' 1)\<lparr>sr_score := 8 / 10\<rparr>] 7 =
     Inr [graph_hit ''b'' \<lparr> gh_score = 153 / 200, gh_depth = 1 \<rparr>, graph_hit ''c'' \<lparr> gh_score = 2601 / 4000, gh_depth = 2 \<rparr>] \<and>
   expand_by_graph (sv_store demo_graph_service) 2 [(demo_hit ''d'' 1)\<lparr>sr_score := 8 / 10\<rparr>, (demo_hit ''a'' 1)\<lparr>sr_score := 9 / 10\<rparr>] 7 =
     Inr [graph_hit ''b'' \<lparr> gh_score = 153 / 200, gh_depth = 1 \<rparr>, graph_hit ''c'' \<lparr> gh_score = 2601 / 4000, gh_depth = 2 \<rparr>]"
  by code_simp

theorem graph_search_ignores_reranker_witness:
  "apply_graph_expansion demo_graph_service ((demo_request [])\<lparr>rq_graph := True\<rparr>) 2 7
     (apply_rerank demo_graph_service [] demo_graph_response) =
   apply_graph_expansion demo_graph_service ((demo_request [])\<lparr>rq_graph := True\<rparr>) 2 7 demo_graph_response"
proof (rule graph_search_ignores_reranker [where f = "\<lambda>q. rev" and ex =
      "[graph_hit ''b'' \<lparr> gh_score = 153 / 200, gh_depth = 1 \<rparr>, graph_hit ''c'' \<lparr> gh_score = 2601 / 4000, gh_depth = 2 \<rparr>]"])
  show "expand_by_graph (sv_store demo_graph_service) 2 (rp_results demo_graph_response) 7 =
      Inr [graph_hit ''b'' \<lparr> gh_score = 153 / 200, gh_depth = 1 \<rparr>, graph_hit ''c'' \<lparr> gh_score = 2601 / 4000, gh_depth = 2 \<rparr>]"
    "expand_by_graph (sv_store demo_graph_service) 2 (rev (rp_results demo_graph_response)) 7 =
      Inr [graph_hit ''b'' \<lparr> gh_score = 153 / 200, gh_depth = 1 \<rparr>, graph_hit ''c'' \<lparr> gh_score = 2601 / 4000, gh_depth = 2 \<rparr>]"
    using demo_graph_expand by (simp_all add: demo_graph_response_def)
  show "distinct (map sr_score (rp_results demo_graph_response @ append_new_files (map sr_path (rp_results demo_graph_response))
      [graph_hit ''b'' \<lparr> gh_score = 153 / 200, gh_depth = 1 \<rparr>, graph_hit ''c'' \<lparr> gh_score = 2601 / 4000, gh_depth = 2 \<rparr>]))"
    by code_simp
qed (simp_all add: demo_graph_service_def demo_service_def demo_request_def go_sort.sort_func_axioms)

section \<open>Staleness looks at the path only\<close>

text \<open>Two hits of one path get the same mark, also when they come from different versions of the
  file: the stored hash is that of the newest version, not of the hit's.\<close>

lemma stale_by_path:
  assumes "sr_path a = sr_path b" "map_of infos (sr_path a) = Some (h, t)" "h \<noteq> []"
    "hash_project_file sv dir (sr_path a) \<noteq> []"
  shows "sr_stale (annotate_hit sv dir infos a) = sr_stale (annotate_hit sv dir infos b)"
  using assms by (simp add: annotate_hit_def Let_def)

lemma hash_inside_root:
  assumes "hash_project_file (sv\<lparr>sv_read_file := f\<rparr>) dir rel \<noteq> hash_project_file (sv\<lparr>sv_read_file := g\<rparr>) dir rel"
  shows "\<exists>full. f full \<noteq> g full \<and> (full = path_clean dir \<or> has_prefix full (path_clean dir @ ''/''))"
  by (rule exI [of _ "path_clean (path_clean dir @ ''/'' @ rel)"])
    (use assms in \<open>auto simp: hash_project_file_def Let_def split: if_splits option.splits\<close>)

section \<open>Searches over several projects\<close>

lemma search_scopes_skipped:
  "search_scopes sv cx scopes (rs, fl, n) w = ((rs', fl', n'), w') \<Longrightarrow> n \<le> n' \<and> n' \<le> n + length scopes"
proof (induction scopes arbitrary: rs fl n w)
  case (Cons sc scopes)
  obtain label req r w1 where s: "sc = (label, req)" "search_one sv cx req w = (r, w1)" by (metis surj_pair)
  show ?case
  proof (cases r)
    case (Inl e)
    with Cons.IH [of rs fl "Suc n" w1] Cons.prems s show ?thesis by simp
  next
    case (Inr rp)
    with Cons.IH [of "rs @ tag_results label 0 (rp_results rp)" "absorb rp fl" n w1] Cons.prems s
    show ?thesis by simp
  qed
qed simp

lemma absorb_flags:
  assumes "fl_degraded fl \<longrightarrow> fl_fallback fl" "fl_fallback fl \<longrightarrow> fl_keyword fl"
    "rp_degraded rp \<longrightarrow> rp_fallback rp" "rp_fallback rp \<longrightarrow> rp_keyword rp"
  shows "(fl_degraded (absorb rp fl) \<longrightarrow> fl_fallback (absorb rp fl)) \<and>
    (fl_fallback (absorb rp fl) \<longrightarrow> fl_keyword (absorb rp fl))"
  using assms by (auto simp: absorb_def Let_def)

end
