(* ===== verification/Access.thy ===== *)
theory Access
  imports JobQueue
begin

text \<open>
  The identity tables of the server's PostgreSQL store: users, API tokens, web sessions
  (\<open>internal/store/store.go\<close>, migrations 00002, 00005, 00006), tenants, memberships and
  workspaces (\<open>internal/store/tenants.go\<close>, migrations 00020 and 00022).  Each function of the
  store is a function from the tables to a result and the tables after it; a row that a foreign key
  or a unique index refuses is an error, and uses up a number of the sequence, as in the database.
  Times are nanoseconds, hashes are the strings the code stores.
\<close>

section \<open>Rows\<close>

record user_row =
  ur_id :: int
  ur_name :: string
  ur_hash :: string
  ur_role :: string
  ur_disabled :: "int option"

record token_row =
  tr_id :: int
  tr_tenant :: int
  tr_user :: "int option"
  tr_name :: string
  tr_hash :: string
  tr_scopes :: "string list"
  tr_kind :: string
  tr_created :: int
  tr_used :: "int option"
  tr_expires :: "int option"
  tr_revoked :: "int option"

record session_row =
  sr_hash :: string
  sr_user :: int
  sr_created :: int
  sr_expires :: int

record tenant =
  tn_id :: int
  tn_slug :: string
  tn_name :: string
  tn_created :: int

record membership =
  mb_tenant :: int
  mb_user :: int
  mb_role :: string

record workspace =
  ws_id :: int
  ws_tenant :: int
  ws_slug :: string
  ws_name :: string
  ws_created :: int

record access_db =
  ad_users :: "user_row list"
  ad_tokens :: "token_row list"
  ad_sessions :: "session_row list"
  ad_tenants :: "tenant list"
  ad_members :: "membership list"
  ad_spaces :: "workspace list"
  ad_user_seq :: int
  ad_token_seq :: int
  ad_tenant_seq :: int
  ad_space_seq :: int

text \<open>What the store hands out.\<close>

record token =
  tk_id :: int
  tk_tenant :: int
  tk_user :: int
  tk_name :: string
  tk_scopes :: "string list"
  tk_kind :: string
  tk_created :: int
  tk_used :: "int option"
  tk_expires :: "int option"

record user =
  us_id :: int
  us_name :: string
  us_hash :: string
  us_role :: string
  us_disabled :: bool

definition err_unique :: go_err where
  "err_unique = Plain ''duplicate key value violates unique constraint''"

definition err_foreign_key :: go_err where
  "err_foreign_key = Plain ''insert violates foreign key constraint''"

definition err_user_exists :: go_err where
  "err_user_exists = Plain ''user already exists''"

definition err_tenant_exists :: go_err where
  "err_tenant_exists = Plain ''tenant already exists''"

definition err_workspace_exists :: go_err where
  "err_workspace_exists = Plain ''workspace already exists''"

definition err_invalid_role :: go_err where
  "err_invalid_role = Plain ''invalid tenant role''"

definition user_exists :: "int \<Rightarrow> access_db \<Rightarrow> bool" where
  "user_exists u d \<longleftrightarrow> list_ex (\<lambda>r. ur_id r = u) (ad_users d)"

definition tenant_exists :: "int \<Rightarrow> access_db \<Rightarrow> bool" where
  "tenant_exists t d \<longleftrightarrow> list_ex (\<lambda>r. tn_id r = t) (ad_tenants d)"

text \<open>The database right after the migrations.\<close>

definition fresh_access :: "int \<Rightarrow> access_db" where
  "fresh_access now =
     \<lparr>ad_users = [], ad_tokens = [], ad_sessions = [],
      ad_tenants = [\<lparr>tn_id = 1, tn_slug = ''default'', tn_name = ''Default organization'', tn_created = now\<rparr>],
      ad_members = [],
      ad_spaces = [\<lparr>ws_id = 1, ws_tenant = 1, ws_slug = ''default'', ws_name = ''Default workspace'',
                     ws_created = now\<rparr>],
      ad_user_seq = 1, ad_token_seq = 1, ad_tenant_seq = 2, ad_space_seq = 2\<rparr>"

section \<open>Tokens\<close>

definition insert_token ::
  "int \<Rightarrow> tenant_ctx option \<Rightarrow> int option \<Rightarrow> string \<Rightarrow> string \<Rightarrow> string list \<Rightarrow> string \<Rightarrow> int option \<Rightarrow>
   access_db \<Rightarrow> int result \<times> access_db" where
  "insert_token now cx uid name hash scopes kind expires d =
     (let i = ad_token_seq d; d1 = d\<lparr>ad_token_seq := i + 1\<rparr>
      in if list_ex (\<lambda>r. tr_hash r = hash) (ad_tokens d) then (Inl err_unique, d1)
         else if \<not> tenant_exists (tenant_id cx) d \<or>
                 (case uid of Some u \<Rightarrow> \<not> user_exists u d | None \<Rightarrow> False)
         then (Inl err_foreign_key, d1)
         else (Inr i, d1\<lparr>ad_tokens := ad_tokens d @
                 [\<lparr>tr_id = i, tr_tenant = tenant_id cx, tr_user = uid, tr_name = name, tr_hash = hash,
                   tr_scopes = scopes, tr_kind = kind, tr_created = now, tr_used = None,
                   tr_expires = expires, tr_revoked = None\<rparr>]\<rparr>))"

definition create_token ::
  "int \<Rightarrow> tenant_ctx option \<Rightarrow> string \<Rightarrow> string \<Rightarrow> string list \<Rightarrow> access_db \<Rightarrow> int result \<times> access_db" where
  "create_token now cx name hash scopes d =
     insert_token now cx None name hash scopes ''opaque'' None d"

definition create_user_token ::
  "int \<Rightarrow> tenant_ctx option \<Rightarrow> int \<Rightarrow> string \<Rightarrow> string \<Rightarrow> string list \<Rightarrow> access_db \<Rightarrow> int result \<times> access_db" where
  "create_user_token now cx uid name hash scopes d =
     insert_token now cx (Some uid) name hash scopes ''opaque'' None d"

definition create_jwt_token ::
  "int \<Rightarrow> tenant_ctx option \<Rightarrow> int \<Rightarrow> string \<Rightarrow> string \<Rightarrow> string list \<Rightarrow> int option \<Rightarrow> access_db \<Rightarrow>
   int result \<times> access_db" where
  "create_jwt_token now cx uid name jti scopes expires d =
     insert_token now cx (Some uid) name jti scopes ''jwt'' expires d"

definition user_disabled :: "int \<Rightarrow> access_db \<Rightarrow> bool" where
  "user_disabled u d \<longleftrightarrow> list_ex (\<lambda>r. ur_id r = u \<and> ur_disabled r \<noteq> None) (ad_users d)"

text \<open>The \<open>WHERE\<close> clause of \<open>TokenByHash\<close>.  Note that it does not look at
  \<open>expires_at\<close>.\<close>

definition live_token :: "string \<Rightarrow> access_db \<Rightarrow> token_row \<Rightarrow> bool" where
  "live_token hash d r \<longleftrightarrow>
     tr_hash r = hash \<and> tr_revoked r = None \<and>
     (case tr_user r of None \<Rightarrow> True | Some u \<Rightarrow> \<not> user_disabled u d)"

definition token_of_row :: "token_row \<Rightarrow> token" where
  "token_of_row r =
     \<lparr>tk_id = tr_id r, tk_tenant = tr_tenant r,
      tk_user = (case tr_user r of Some u \<Rightarrow> u | None \<Rightarrow> 0), tk_name = tr_name r,
      tk_scopes = tr_scopes r, tk_kind = tr_kind r, tk_created = tr_created r, tk_used = tr_used r,
      tk_expires = tr_expires r\<rparr>"

definition token_by_hash :: "int \<Rightarrow> string \<Rightarrow> access_db \<Rightarrow> token option result \<times> access_db" where
  "token_by_hash now hash d =
     (case find (live_token hash d) (ad_tokens d) of
        None \<Rightarrow> (Inr None, d)
      | Some r \<Rightarrow>
          (Inr (Some (token_of_row (r\<lparr>tr_used := Some now\<rparr>))),
           d\<lparr>ad_tokens := map (\<lambda>q. if live_token hash d q then q\<lparr>tr_used := Some now\<rparr> else q) (ad_tokens d)\<rparr>))"

definition revoke_token :: "int \<Rightarrow> tenant_ctx option \<Rightarrow> int \<Rightarrow> access_db \<Rightarrow> access_db" where
  "revoke_token now cx i d =
     d\<lparr>ad_tokens := map (\<lambda>r. if tr_tenant r = tenant_id cx \<and> tr_id r = i \<and> tr_revoked r = None
                             then r\<lparr>tr_revoked := Some now\<rparr> else r) (ad_tokens d)\<rparr>"

definition revoke_user_token ::
  "int \<Rightarrow> tenant_ctx option \<Rightarrow> int \<Rightarrow> int \<Rightarrow> access_db \<Rightarrow> unit result \<times> access_db" where
  "revoke_user_token now cx uid i d =
     (let hit = (\<lambda>r. tr_tenant r = tenant_id cx \<and> tr_id r = i \<and> tr_user r = Some uid \<and> tr_revoked r = None);
          d1 = d\<lparr>ad_tokens := map (\<lambda>r. if hit r then r\<lparr>tr_revoked := Some now\<rparr> else r) (ad_tokens d)\<rparr>
      in if list_ex hit (ad_tokens d) then (Inr (), d1) else (Inl err_not_found, d1))"

text \<open>The query does not read \<open>tenant_id\<close> and \<open>user_id\<close>: these fields stay zero.  Rows
  created at the same instant come in no specified order; here the later row comes first.\<close>

definition list_user_tokens :: "tenant_ctx option \<Rightarrow> int \<Rightarrow> string \<Rightarrow> access_db \<Rightarrow> token list" where
  "list_user_tokens cx uid kind d =
     map (\<lambda>r. (token_of_row r)\<lparr>tk_tenant := 0, tk_user := 0\<rparr>)
       (rev (sort_key tr_created
          (filter (\<lambda>r. tr_tenant r = tenant_id cx \<and> tr_user r = Some uid \<and> tr_kind r = kind \<and>
                       tr_revoked r = None) (ad_tokens d))))"

definition count_tokens :: "tenant_ctx option \<Rightarrow> access_db \<Rightarrow> nat" where
  "count_tokens cx d =
     length (filter (\<lambda>r. tr_tenant r = tenant_id cx \<and> tr_revoked r = None) (ad_tokens d))"

section \<open>Users\<close>

definition scan_user :: "user_row \<Rightarrow> user" where
  "scan_user r =
     \<lparr>us_id = ur_id r, us_name = ur_name r, us_hash = ur_hash r, us_role = ur_role r,
      us_disabled = (ur_disabled r \<noteq> None)\<rparr>"

definition create_user :: "string \<Rightarrow> string \<Rightarrow> string \<Rightarrow> access_db \<Rightarrow> user result \<times> access_db" where
  "create_user name hash role d =
     (let i = ad_user_seq d; d1 = d\<lparr>ad_user_seq := i + 1\<rparr>;
          r = \<lparr>ur_id = i, ur_name = name, ur_hash = hash, ur_role = role, ur_disabled = None\<rparr>
      in if list_ex (\<lambda>q. ur_name q = name) (ad_users d) then (Inl err_user_exists, d1)
         else (Inr (scan_user r), d1\<lparr>ad_users := ad_users d @ [r]\<rparr>))"

definition find_user :: "(user_row \<Rightarrow> bool) \<Rightarrow> access_db \<Rightarrow> user result" where
  "find_user P d =
     (case find P (ad_users d) of Some r \<Rightarrow> Inr (scan_user r) | None \<Rightarrow> Inl err_not_found)"

definition get_user_by_username :: "string \<Rightarrow> access_db \<Rightarrow> user result" where
  "get_user_by_username name d = find_user (\<lambda>r. ur_name r = name) d"

definition get_user_by_id :: "int \<Rightarrow> access_db \<Rightarrow> user result" where
  "get_user_by_id i d = find_user (\<lambda>r. ur_id r = i) d"

text \<open>\<open>ORDER BY username\<close> follows the collation of the database, an argument.\<close>

definition list_users ::
  "(user_row list \<Rightarrow> user_row list) \<Rightarrow> int \<Rightarrow> int \<Rightarrow> access_db \<Rightarrow> user list result" where
  "list_users order_by limit offset d =
     (if offset < 0 then Inl (Plain ''OFFSET must not be negative'')
      else let rest = drop (nat offset) (order_by (ad_users d))
           in Inr (map scan_user (if limit > 0 then take (nat limit) rest else rest)))"

definition update_user :: "int \<Rightarrow> (user_row \<Rightarrow> user_row) \<Rightarrow> access_db \<Rightarrow> access_db" where
  "update_user i f d = d\<lparr>ad_users := map (\<lambda>r. if ur_id r = i then f r else r) (ad_users d)\<rparr>"

definition set_user_password :: "int \<Rightarrow> string \<Rightarrow> access_db \<Rightarrow> unit result \<times> access_db" where
  "set_user_password i hash d =
     (let d1 = update_user i (\<lambda>r. r\<lparr>ur_hash := hash\<rparr>) d
      in if user_exists i d then (Inr (), d1) else (Inl err_not_found, d1))"

definition set_user_disabled :: "int \<Rightarrow> int \<Rightarrow> bool \<Rightarrow> access_db \<Rightarrow> unit result \<times> access_db" where
  "set_user_disabled now i disabled d =
     (let d1 = update_user i (\<lambda>r. r\<lparr>ur_disabled := (if disabled then Some now else None)\<rparr>) d
      in if \<not> user_exists i d then (Inl err_not_found, d1)
         else if disabled
         then (Inr (), d1\<lparr>ad_sessions := filter (\<lambda>s. sr_user s \<noteq> i) (ad_sessions d1)\<rparr>)
         else (Inr (), d1))"

definition count_users :: "access_db \<Rightarrow> nat" where
  "count_users d = length (ad_users d)"

section \<open>Sessions\<close>

definition create_session ::
  "int \<Rightarrow> string \<Rightarrow> int \<Rightarrow> int \<Rightarrow> access_db \<Rightarrow> unit result \<times> access_db" where
  "create_session now hash uid expires d =
     (if list_ex (\<lambda>s. sr_hash s = hash) (ad_sessions d) then (Inl err_unique, d)
      else if \<not> user_exists uid d then (Inl err_foreign_key, d)
      else (Inr (), d\<lparr>ad_sessions := ad_sessions d @
              [\<lparr>sr_hash = hash, sr_user = uid, sr_created = now, sr_expires = expires\<rparr>]\<rparr>))"

text \<open>The join of sessions and users: the first pair that fits.\<close>

definition session_user :: "int \<Rightarrow> string \<Rightarrow> access_db \<Rightarrow> user result" where
  "session_user now hash d =
     (case find (\<lambda>(s, u). ur_id u = sr_user s \<and> sr_hash s = hash \<and> sr_expires s > now \<and> ur_disabled u = None)
             (List.product (ad_sessions d) (ad_users d)) of
        Some (s, u) \<Rightarrow> Inr (scan_user u)
      | None \<Rightarrow> Inl err_not_found)"

definition delete_session :: "string \<Rightarrow> access_db \<Rightarrow> access_db" where
  "delete_session hash d = d\<lparr>ad_sessions := filter (\<lambda>s. sr_hash s \<noteq> hash) (ad_sessions d)\<rparr>"

definition delete_expired_sessions :: "int \<Rightarrow> access_db \<Rightarrow> nat \<times> access_db" where
  "delete_expired_sessions now d =
     (length (filter (\<lambda>s. sr_expires s \<le> now) (ad_sessions d)),
      d\<lparr>ad_sessions := filter (\<lambda>s. \<not> sr_expires s \<le> now) (ad_sessions d)\<rparr>)"

section \<open>Tenants, memberships, workspaces\<close>

definition get_tenant_by_id :: "int \<Rightarrow> access_db \<Rightarrow> tenant result" where
  "get_tenant_by_id i d =
     (case find (\<lambda>t. tn_id t = i) (ad_tenants d) of Some t \<Rightarrow> Inr t | None \<Rightarrow> Inl err_not_found)"

definition get_tenant_by_slug :: "string \<Rightarrow> access_db \<Rightarrow> tenant result" where
  "get_tenant_by_slug slug d =
     (case find (\<lambda>t. tn_slug t = slug) (ad_tenants d) of Some t \<Rightarrow> Inr t | None \<Rightarrow> Inl err_not_found)"

definition list_tenants ::
  "(tenant list \<Rightarrow> tenant list) \<Rightarrow> tenant_ctx option \<Rightarrow> access_db \<Rightarrow> tenant list result" where
  "list_tenants order_by cx d =
     (case tenant_from cx of
        Some tc \<Rightarrow>
          if tc_global tc then Inr (order_by (ad_tenants d))
          else if tc_user tc \<le> 0 then
            (case get_tenant_by_id (tenant_id cx) d of
               Inl e \<Rightarrow> if e = err_not_found then Inr [] else Inl e
             | Inr t \<Rightarrow> Inr [t])
          else Inr (order_by (filter (\<lambda>t. list_ex (\<lambda>m. mb_tenant m = tn_id t \<and> mb_user m = tc_user tc)
                                            (ad_members d)) (ad_tenants d)))
      | None \<Rightarrow>
          (case get_tenant_by_id (tenant_id cx) d of
             Inl e \<Rightarrow> if e = err_not_found then Inr [] else Inl e
           | Inr t \<Rightarrow> Inr [t]))"

definition membership_roles :: "string list" where
  "membership_roles = [''owner'', ''admin'', ''member'', ''viewer'']"

definition validate_membership_role :: "string \<Rightarrow> unit result" where
  "validate_membership_role role =
     (if role \<in> set membership_roles then Inr () else Inl err_invalid_role)"

definition list_memberships :: "int \<Rightarrow> access_db \<Rightarrow> membership list" where
  "list_memberships uid d = sort_key mb_tenant (filter (\<lambda>m. mb_user m = uid) (ad_members d))"

definition upsert_membership :: "membership \<Rightarrow> access_db \<Rightarrow> unit result \<times> access_db" where
  "upsert_membership m d =
     (if mb_tenant m \<le> 0 \<or> mb_user m \<le> 0
      then (Inl (Plain ''tenant membership requires tenant and user''), d)
      else case validate_membership_role (mb_role m) of
        Inl e \<Rightarrow> (Inl e, d)
      | Inr _ \<Rightarrow>
          (let same = (\<lambda>q. mb_tenant q = mb_tenant m \<and> mb_user q = mb_user m)
           in if list_ex same (ad_members d)
              then (Inr (), d\<lparr>ad_members := map (\<lambda>q. if same q then q\<lparr>mb_role := mb_role m\<rparr> else q) (ad_members d)\<rparr>)
              else if \<not> tenant_exists (mb_tenant m) d \<or> \<not> user_exists (mb_user m) d
              then (Inl err_foreign_key, d)
              else (Inr (), d\<lparr>ad_members := ad_members d @ [m]\<rparr>)))"

definition can_access_tenant :: "int \<Rightarrow> int \<Rightarrow> access_db \<Rightarrow> bool" where
  "can_access_tenant uid tid d \<longleftrightarrow>
     uid > 0 \<and> tid > 0 \<and> list_ex (\<lambda>m. mb_user m = uid \<and> mb_tenant m = tid) (ad_members d)"

definition list_workspaces ::
  "(workspace list \<Rightarrow> workspace list) \<Rightarrow> tenant_ctx option \<Rightarrow> access_db \<Rightarrow> workspace list" where
  "list_workspaces order_by cx d = order_by (filter (\<lambda>w. ws_tenant w = tenant_id cx) (ad_spaces d))"

definition get_workspace_by_slug :: "tenant_ctx option \<Rightarrow> string \<Rightarrow> access_db \<Rightarrow> workspace result" where
  "get_workspace_by_slug cx slug d =
     (case find (\<lambda>w. ws_tenant w = tenant_id cx \<and> ws_slug w = slug) (ad_spaces d) of
        Some w \<Rightarrow> Inr w | None \<Rightarrow> Inl err_not_found)"

definition insert_workspace ::
  "int \<Rightarrow> int \<Rightarrow> string \<Rightarrow> string \<Rightarrow> access_db \<Rightarrow> workspace result \<times> access_db" where
  "insert_workspace now tid slug name d =
     (let i = ad_space_seq d; d1 = d\<lparr>ad_space_seq := i + 1\<rparr>;
          w = \<lparr>ws_id = i, ws_tenant = tid, ws_slug = slug, ws_name = name, ws_created = now\<rparr>
      in if list_ex (\<lambda>q. ws_tenant q = tid \<and> ws_slug q = slug) (ad_spaces d) then (Inl err_unique, d1)
         else if \<not> tenant_exists tid d then (Inl err_foreign_key, d1)
         else (Inr w, d1\<lparr>ad_spaces := ad_spaces d @ [w]\<rparr>))"

definition create_workspace ::
  "int \<Rightarrow> tenant_ctx option \<Rightarrow> string \<Rightarrow> string \<Rightarrow> access_db \<Rightarrow> workspace result \<times> access_db" where
  "create_workspace now cx slug name d =
     (case insert_workspace now (tenant_id cx) slug name d of
        (Inl e, d1) \<Rightarrow> (Inl (if e = err_unique then err_workspace_exists else e), d1)
      | (Inr w, d1) \<Rightarrow> (Inr w, d1))"

text \<open>\<open>ON CONFLICT DO NOTHING\<close> turns the unique violation into success.  The three statements
  are not in a transaction.\<close>

definition grant_owner :: "tenant_ctx option \<Rightarrow> tenant \<Rightarrow> access_db \<Rightarrow> tenant result \<times> access_db" where
  "grant_owner cx t d =
     (case tenant_from cx of
        Some tc \<Rightarrow>
          if tc_user tc > 0 then
            (case upsert_membership \<lparr>mb_tenant = tn_id t, mb_user = tc_user tc, mb_role = ''owner''\<rparr> d of
               (Inl e, d1) \<Rightarrow> (Inl e, d1) | (Inr _, d1) \<Rightarrow> (Inr t, d1))
          else (Inr t, d)
      | None \<Rightarrow> (Inr t, d))"

definition create_tenant ::
  "int \<Rightarrow> tenant_ctx option \<Rightarrow> string \<Rightarrow> string \<Rightarrow> access_db \<Rightarrow> tenant result \<times> access_db" where
  "create_tenant now cx slug name d =
     (let i = ad_tenant_seq d; d1 = d\<lparr>ad_tenant_seq := i + 1\<rparr>;
          t = \<lparr>tn_id = i, tn_slug = slug, tn_name = name, tn_created = now\<rparr>
      in if list_ex (\<lambda>q. tn_slug q = slug) (ad_tenants d) then (Inl err_tenant_exists, d1)
         else
           (case insert_workspace now i ''default'' ''Default workspace'' (d1\<lparr>ad_tenants := ad_tenants d @ [t]\<rparr>) of
              (Inl e, d2) \<Rightarrow> if e = err_unique then grant_owner cx t d2 else (Inl e, d2)
            | (Inr _, d2) \<Rightarrow> grant_owner cx t d2))"

section \<open>Integrity\<close>

definition users_ok :: "access_db \<Rightarrow> bool" where
  "users_ok d \<longleftrightarrow>
     distinct (map ur_id (ad_users d)) \<and> distinct (map ur_name (ad_users d)) \<and> 0 < ad_user_seq d \<and>
     (\<forall>r\<in>set (ad_users d). 0 < ur_id r \<and> ur_id r < ad_user_seq d)"

definition tokens_ok :: "access_db \<Rightarrow> bool" where
  "tokens_ok d \<longleftrightarrow>
     distinct (map tr_id (ad_tokens d)) \<and> distinct (map tr_hash (ad_tokens d)) \<and> 0 < ad_token_seq d \<and>
     (\<forall>r\<in>set (ad_tokens d). 0 < tr_id r \<and> tr_id r < ad_token_seq d \<and> tenant_exists (tr_tenant r) d \<and>
        (\<forall>u. tr_user r = Some u \<longrightarrow> user_exists u d))"

definition sessions_ok :: "access_db \<Rightarrow> bool" where
  "sessions_ok d \<longleftrightarrow>
     distinct (map sr_hash (ad_sessions d)) \<and> (\<forall>s\<in>set (ad_sessions d). user_exists (sr_user s) d)"

definition tenants_ok :: "access_db \<Rightarrow> bool" where
  "tenants_ok d \<longleftrightarrow>
     distinct (map tn_id (ad_tenants d)) \<and> distinct (map tn_slug (ad_tenants d)) \<and> 0 < ad_tenant_seq d \<and>
     (\<forall>t\<in>set (ad_tenants d). 0 < tn_id t \<and> tn_id t < ad_tenant_seq d)"

definition members_ok :: "access_db \<Rightarrow> bool" where
  "members_ok d \<longleftrightarrow>
     distinct (map (\<lambda>m. (mb_tenant m, mb_user m)) (ad_members d)) \<and>
     (\<forall>m\<in>set (ad_members d). tenant_exists (mb_tenant m) d \<and> user_exists (mb_user m) d \<and>
        mb_role m \<in> set membership_roles)"

text \<open>Every tenant has its default workspace, which a request without a workspace header is
  sent to.\<close>

definition spaces_ok :: "access_db \<Rightarrow> bool" where
  "spaces_ok d \<longleftrightarrow>
     distinct (map ws_id (ad_spaces d)) \<and> distinct (map (\<lambda>w. (ws_tenant w, ws_slug w)) (ad_spaces d)) \<and>
     0 < ad_space_seq d \<and>
     (\<forall>w\<in>set (ad_spaces d). 0 < ws_id w \<and> ws_id w < ad_space_seq d \<and> tenant_exists (ws_tenant w) d) \<and>
     (\<forall>t\<in>set (ad_tenants d). \<exists>w\<in>set (ad_spaces d). ws_tenant w = tn_id t \<and> ws_slug w = ''default'')"

definition access_wf :: "access_db \<Rightarrow> bool" where
  "access_wf d \<longleftrightarrow> users_ok d \<and> tokens_ok d \<and> sessions_ok d \<and> tenants_ok d \<and> members_ok d \<and> spaces_ok d"

lemmas access_wf_defs = access_wf_def users_ok_def tokens_ok_def sessions_ok_def tenants_ok_def
  members_ok_def spaces_ok_def

lemma exists_iff:
  "user_exists u d \<longleftrightarrow> u \<in> ur_id ` set (ad_users d)" "tenant_exists t d \<longleftrightarrow> t \<in> tn_id ` set (ad_tenants d)"
  by (auto simp: user_exists_def tenant_exists_def list_ex_iff)

lemma fresh_access_wf [go_inv]: "access_wf (fresh_access now)"
  by (simp add: access_wf_defs fresh_access_def exists_iff)

lemma insert_token_wf [go_inv]:
  assumes "access_wf d"
  shows "access_wf (snd (insert_token now cx uid name hash scopes kind expires d))"
  using assms
  by (auto simp: insert_token_def Let_def access_wf_defs exists_iff list_ex_iff split: option.splits)

text \<open>Updates of rows that keep the keys keep the integrity.\<close>

lemma map_keeps:
  assumes "\<And>r. g (f r) = g r"
  shows "map g (map (\<lambda>r. if P r then f r else r) rs) = map g rs"
    "g ` set (map (\<lambda>r. if P r then f r else r) rs) = g ` set rs"
proof -
  show 1: "map g (map (\<lambda>r. if P r then f r else r) rs) = map g rs" using assms by simp
  from arg_cong [OF this, of set] show "g ` set (map (\<lambda>r. if P r then f r else r) rs) = g ` set rs"
    by (simp only: set_map)
qed

lemma update_tokens_wf:
  assumes "access_wf d" "\<And>r. tr_id (f r) = tr_id r" "\<And>r. tr_hash (f r) = tr_hash r"
    "\<And>r. tr_tenant (f r) = tr_tenant r" "\<And>r. tr_user (f r) = tr_user r"
  shows "access_wf (d\<lparr>ad_tokens := map (\<lambda>r. if P r then f r else r) (ad_tokens d)\<rparr>)"
proof -
  let ?rs = "map (\<lambda>r. if P r then f r else r) (ad_tokens d)"
  from map_keeps(1) [of tr_id f P, OF assms(2)] map_keeps(1) [of tr_hash f P, OF assms(3)] assms(1)
  have "distinct (map tr_id ?rs)" "distinct (map tr_hash ?rs)"
    by (simp_all only: access_wf_def tokens_ok_def)
  with assms show ?thesis by (auto simp: access_wf_defs exists_iff simp del: map_map)
qed

lemma update_user_wf:
  assumes "access_wf d" "\<And>r. ur_id (f r) = ur_id r" "\<And>r. ur_name (f r) = ur_name r"
  shows "access_wf (update_user i f d)"
proof -
  let ?rs = "map (\<lambda>r. if ur_id r = i then f r else r) (ad_users d)"
  have ids: "ur_id ` set ?rs = ur_id ` set (ad_users d)" by (rule map_keeps(2)) (rule assms(2))
  from map_keeps(1) [of ur_id f "\<lambda>r. ur_id r = i", OF assms(2)]
    map_keeps(1) [of ur_name f "\<lambda>r. ur_id r = i", OF assms(3)] assms(1)
  have "distinct (map ur_id ?rs)" "distinct (map ur_name ?rs)"
    by (simp_all only: access_wf_def users_ok_def)
  moreover have "\<forall>r\<in>set ?rs. 0 < ur_id r \<and> ur_id r < ad_user_seq d"
    using assms by (auto simp: access_wf_defs)
  ultimately show ?thesis
    using assms(1) by (simp add: access_wf_defs exists_iff update_user_def ids del: set_map map_map)
qed

lemma drop_sessions_wf:
  assumes "access_wf d" shows "access_wf (d\<lparr>ad_sessions := filter P (ad_sessions d)\<rparr>)"
  using assms by (simp add: access_wf_defs exists_iff distinct_map_filter)

lemma token_statements_wf [go_inv]:
  assumes "access_wf d"
  shows "access_wf (snd (create_token now cx name hash scopes d))"
    "access_wf (snd (create_user_token now cx uid name hash scopes d))"
    "access_wf (snd (create_jwt_token now cx uid name hash scopes expires d))"
    "access_wf (snd (token_by_hash now hash d))"
    "access_wf (revoke_token now cx i d)"
    "access_wf (snd (revoke_user_token now cx uid i d))"
  using assms
  by (auto simp: create_token_def create_user_token_def create_jwt_token_def token_by_hash_def
    revoke_token_def revoke_user_token_def Let_def insert_token_wf intro!: update_tokens_wf
    split: option.splits)

lemma user_statements_wf [go_inv]:
  assumes "access_wf d"
  shows "access_wf (snd (create_user name hash role d))"
    "access_wf (snd (set_user_password i hash d))"
    "access_wf (snd (set_user_disabled now i dis d))"
proof -
  show "access_wf (snd (create_user name hash role d))"
    using assms by (auto simp: create_user_def Let_def access_wf_defs exists_iff list_ex_iff)
  show "access_wf (snd (set_user_password i hash d))"
    using assms by (simp add: set_user_password_def Let_def update_user_wf)
  show "access_wf (snd (set_user_disabled now i dis d))"
    using assms by (simp add: set_user_disabled_def Let_def update_user_wf drop_sessions_wf)
qed

lemma session_statements_wf [go_inv]:
  assumes "access_wf d"
  shows "access_wf (snd (create_session now hash uid expires d))" "access_wf (delete_session hash d)"
    "access_wf (snd (delete_expired_sessions now d))"
proof -
  show "access_wf (snd (create_session now hash uid expires d))"
    using assms by (auto simp: create_session_def access_wf_defs exists_iff list_ex_iff)
qed (simp_all add: delete_session_def delete_expired_sessions_def drop_sessions_wf assms)

lemma insert_workspace_wf [go_inv]:
  assumes "access_wf d" shows "access_wf (snd (insert_workspace now tid slug name d))"
  using assms by (auto simp: insert_workspace_def Let_def access_wf_defs exists_iff list_ex_iff)

lemma create_workspace_wf [go_inv]:
  assumes "access_wf d" shows "access_wf (snd (create_workspace now cx slug name d))"
  using insert_workspace_wf [OF assms, of now "tenant_id cx" slug name]
  by (auto simp: create_workspace_def split: prod.splits sum.splits)

lemma with_members_wf:
  assumes "access_wf d" "distinct (map (\<lambda>m. (mb_tenant m, mb_user m)) ms)"
    "\<And>m. m \<in> set ms \<Longrightarrow> tenant_exists (mb_tenant m) d \<and> user_exists (mb_user m) d \<and>
       mb_role m \<in> set membership_roles"
  shows "access_wf (d\<lparr>ad_members := ms\<rparr>)"
  using assms by (simp add: access_wf_defs exists_iff)

lemma upsert_membership_wf [go_inv]:
  assumes "access_wf d" shows "access_wf (snd (upsert_membership m d))"
proof (cases "mb_role m \<in> set membership_roles")
  case role: True
  let ?same = "\<lambda>q. mb_tenant q = mb_tenant m \<and> mb_user q = mb_user m"
  let ?k = "\<lambda>m. (mb_tenant m, mb_user m)"
  let ?upd = "map (\<lambda>q. if ?same q then q\<lparr>mb_role := mb_role m\<rparr> else q) (ad_members d)"
  from assms have old: "distinct (map ?k (ad_members d))"
    "\<And>q. q \<in> set (ad_members d) \<Longrightarrow> tenant_exists (mb_tenant q) d \<and> user_exists (mb_user q) d \<and>
       mb_role q \<in> set membership_roles"
    unfolding access_wf_def members_ok_def by blast+
  have "map ?k ?upd = map ?k (ad_members d)" by (rule map_keeps(1)) simp
  with old(1) have "distinct (map ?k ?upd)" by (simp only:)
  then have 1: "access_wf (d\<lparr>ad_members := ?upd\<rparr>)"
    by (rule with_members_wf [OF assms]) (use old(2) role in \<open>force split: if_splits\<close>)
  have 2: "access_wf (d\<lparr>ad_members := ad_members d @ [m]\<rparr>)"
    if "\<not> list_ex ?same (ad_members d)" "tenant_exists (mb_tenant m) d" "user_exists (mb_user m) d"
    using assms old role that by (intro with_members_wf) (auto simp: list_ex_iff)
  from 1 2 assms show ?thesis by (simp add: upsert_membership_def validate_membership_role_def Let_def)
qed (simp add: upsert_membership_def validate_membership_role_def Let_def assms)

lemma grant_owner_wf:
  assumes "access_wf d" shows "access_wf (snd (grant_owner cx t d))"
  using assms upsert_membership_wf [OF assms, of "\<lparr>mb_tenant = tn_id t, mb_user = u, mb_role = ''owner''\<rparr>" for u]
  by (auto simp: grant_owner_def split: option.splits prod.splits sum.splits) (metis snd_conv)+

text \<open>The insertion of the default workspace of a new tenant succeeds.\<close>

lemma new_tenant_default:
  fixes slug name :: string
  defines "t d now \<equiv> \<lparr>tn_id = ad_tenant_seq d, tn_slug = slug, tn_name = name, tn_created = now\<rparr>"
  assumes "access_wf d" "slug \<notin> tn_slug ` set (ad_tenants d)"
  obtains w d2 where
    "insert_workspace now (ad_tenant_seq d) ''default'' ''Default workspace''
       (d\<lparr>ad_tenant_seq := ad_tenant_seq d + 1, ad_tenants := ad_tenants d @ [t d now]\<rparr>) = (Inr w, d2)"
    "access_wf d2"
proof
  let ?w = "\<lparr>ws_id = ad_space_seq d, ws_tenant = ad_tenant_seq d, ws_slug = ''default'',
              ws_name = ''Default workspace'', ws_created = now\<rparr>"
  let ?d1 = "d\<lparr>ad_tenant_seq := ad_tenant_seq d + 1, ad_tenants := ad_tenants d @ [t d now]\<rparr>"
  let ?d2 = "?d1\<lparr>ad_space_seq := ad_space_seq d + 1, ad_spaces := ad_spaces d @ [?w]\<rparr>"
  from assms(2) have "ad_tenant_seq d \<notin> tn_id ` set (ad_tenants d)"
    by (auto simp: access_wf_def tenants_ok_def)
  with assms(2) have new: "\<forall>q\<in>set (ad_spaces d). ws_tenant q \<noteq> ad_tenant_seq d"
    by (metis access_wf_def exists_iff(2) spaces_ok_def)
  from new show "insert_workspace now (ad_tenant_seq d) ''default'' ''Default workspace'' ?d1 = (Inr ?w, ?d2)"
    by (auto simp: insert_workspace_def Let_def list_ex_iff exists_iff t_def)
  show "access_wf ?d2"
    using assms(2,3) new by (auto simp: access_wf_defs exists_iff t_def)
qed

lemma create_tenant_wf [go_inv]:
  assumes "access_wf d" shows "access_wf (snd (create_tenant now cx slug name d))"
proof (cases "slug \<in> tn_slug ` set (ad_tenants d)")
  case True
  then show ?thesis
    using assms by (auto simp: create_tenant_def Let_def list_ex_iff access_wf_defs exists_iff)
next
  case False
  from new_tenant_default [OF assms this, of now name] obtain w d2 where
    "insert_workspace now (ad_tenant_seq d) ''default'' ''Default workspace''
       (d\<lparr>ad_tenant_seq := ad_tenant_seq d + 1, ad_tenants := ad_tenants d @
          [\<lparr>tn_id = ad_tenant_seq d, tn_slug = slug, tn_name = name, tn_created = now\<rparr>]\<rparr>) = (Inr w, d2)"
    "access_wf d2" by blast
  with False show ?thesis
    using grant_owner_wf by (auto simp: create_tenant_def Let_def list_ex_iff)
qed

end
