(* ===== verification/ServerAuth.thy ===== *)
theory ServerAuth
  imports Access
begin

text \<open>
  Bearer authentication of the HTTP API (\<open>internal/server/auth.go\<close>,
  \<open>internal/jwtauth/jwtauth.go\<close>), the tenant and workspace handlers
  (\<open>internal/server/tenants.go\<close>, \<open>internal/server/workspaces.go\<close>) and the bootstrap of the
  first token and user.  The store behind it is a record of operations, with the optional parts the
  code finds by type assertion; a locale states what the middleware needs of them, and it is
  interpreted on the PostgreSQL statements of theory \<open>Access\<close>.  SHA-256, the JWT library and the
  random numbers are arguments.
\<close>

section \<open>Control tokens\<close>

record claims =
  cm_scopes :: "string list"
  cm_issuer :: string
  cm_subject :: string
  cm_id :: string
  cm_issued :: int
  cm_expires :: "int option"

text \<open>The library: \<open>jwt.NewNumericDate\<close>, \<open>SignedString\<close>, and
  \<open>ParseWithClaims\<close> with the options of \<open>Verify\<close> (HS256 only, issuer) at a given time.\<close>

record jwt_lib =
  jl_date :: "int \<Rightarrow> int"
  jl_sign :: "string \<Rightarrow> claims \<Rightarrow> string result"
  jl_parse :: "string \<Rightarrow> string \<Rightarrow> int \<Rightarrow> string \<Rightarrow> claims result"

definition jwt_issuer :: string where
  "jwt_issuer = ''semidx''"

text \<open>The issuer is its secret.\<close>

definition new_issuer :: "string \<Rightarrow> string result" where
  "new_issuer secret = (if secret = [] then Inl (Plain ''jwtauth: empty secret'') else Inr secret)"

record minted =
  mn_token :: string
  mn_jti :: string
  mn_expires :: "int option"

definition expiry :: "int \<Rightarrow> int \<Rightarrow> int option" where
  "expiry ttl now = (if ttl > 0 then Some (now + ttl) else None)"

definition new_claims :: "jwt_lib \<Rightarrow> string \<Rightarrow> string list \<Rightarrow> int \<Rightarrow> int \<Rightarrow> string \<Rightarrow> claims" where
  "new_claims lib subject scopes ttl now jti =
     \<lparr>cm_scopes = scopes, cm_issuer = jwt_issuer, cm_subject = subject, cm_id = jti,
      cm_issued = jl_date lib now, cm_expires = map_option (jl_date lib) (expiry ttl now)\<rparr>"

text \<open>\<open>random_id\<close> is the result of \<open>randomID\<close>.\<close>

definition mint ::
  "jwt_lib \<Rightarrow> string \<Rightarrow> string result \<Rightarrow> string \<Rightarrow> string list \<Rightarrow> int \<Rightarrow> int \<Rightarrow> minted result" where
  "mint lib secret random_id subject scopes ttl now =
     (case random_id of
        Inl e \<Rightarrow> Inl e
      | Inr jti \<Rightarrow>
          (case jl_sign lib secret (new_claims lib subject scopes ttl now jti) of
             Inl e \<Rightarrow> Inl e
           | Inr signed \<Rightarrow> Inr \<lparr>mn_token = signed, mn_jti = jti, mn_expires = expiry ttl now\<rparr>))"

definition verify_jwt :: "jwt_lib \<Rightarrow> string \<Rightarrow> int \<Rightarrow> string \<Rightarrow> claims result" where
  "verify_jwt lib secret now raw =
     (case jl_parse lib secret jwt_issuer now raw of
        Inl e \<Rightarrow> Inl e
      | Inr c \<Rightarrow> if cm_id c = [] then Inl (Plain ''jwtauth: token missing jti'') else Inr c)"

section \<open>The interface\<close>

record 's tenant_store =
  ts_list :: "tenant_ctx option \<Rightarrow> 's \<Rightarrow> tenant list result"
  ts_by_slug :: "string \<Rightarrow> 's \<Rightarrow> tenant result"
  ts_create :: "int \<Rightarrow> tenant_ctx option \<Rightarrow> string \<Rightarrow> string \<Rightarrow> 's \<Rightarrow> tenant result \<times> 's"
  ts_can_access :: "int \<Rightarrow> int \<Rightarrow> 's \<Rightarrow> bool result"

record 's workspace_store =
  wp_list :: "tenant_ctx option \<Rightarrow> 's \<Rightarrow> workspace list result"
  wp_by_slug :: "tenant_ctx option \<Rightarrow> string \<Rightarrow> 's \<Rightarrow> workspace result"
  wp_create :: "int \<Rightarrow> tenant_ctx option \<Rightarrow> string \<Rightarrow> string \<Rightarrow> 's \<Rightarrow> workspace result \<times> 's"

record 's auth_store =
  au_token :: "int \<Rightarrow> string \<Rightarrow> 's \<Rightarrow> token option result \<times> 's"
  au_tenants :: "'s tenant_store option"
  au_spaces :: "'s workspace_store option"

text \<open>The server: its store, the secret of \<open>EnableJWT\<close>, the JWT library and the hex SHA-256 of
  \<open>HashToken\<close>.\<close>

record 's auth_server =
  as_store :: "'s auth_store"
  as_jwt :: "string option"
  as_lib :: jwt_lib
  as_sha :: "string \<Rightarrow> string"

section \<open>The middleware\<close>

record api_request =
  rq_auth :: string
  rq_tenant :: string
  rq_workspace :: string

record auth_identity =
  ai_scopes :: "string list"
  ai_tenant :: int
  ai_user :: int

text \<open>What a wrapped handler becomes: a refusal with a status, or the handler's own answer.\<close>

datatype 'r gate = Denied nat string | Ran 'r

definition bearer_token :: "api_request \<Rightarrow> string" where
  "bearer_token rq =
     (if has_prefix (rq_auth rq) ''Bearer '' then trim_space (drop 7 (rq_auth rq)) else [])"

definition normalized_tenant_id :: "int \<Rightarrow> int" where
  "normalized_tenant_id i = (if i \<le> 0 then default_tenant else i)"

definition resolve_auth ::
  "'s auth_server \<Rightarrow> int \<Rightarrow> string \<Rightarrow> 's \<Rightarrow> auth_identity option result \<times> 's" where
  "resolve_auth sv now raw s =
     (case (case as_jwt sv of
              None \<Rightarrow> None
            | Some secret \<Rightarrow> (case verify_jwt (as_lib sv) secret now raw of Inr c \<Rightarrow> Some c | Inl e \<Rightarrow> None)) of
        Some c \<Rightarrow>
          (case au_token (as_store sv) now (cm_id c) s of
             (Inl e, s1) \<Rightarrow> (Inl e, s1)
           | (Inr None, s1) \<Rightarrow> (Inr None, s1)
           | (Inr (Some t), s1) \<Rightarrow>
               (Inr (Some \<lparr>ai_scopes = cm_scopes c, ai_tenant = normalized_tenant_id (tk_tenant t),
                           ai_user = tk_user t\<rparr>), s1))
      | None \<Rightarrow>
          (case au_token (as_store sv) now (as_sha sv raw) s of
             (Inl e, s1) \<Rightarrow> (Inl e, s1)
           | (Inr None, s1) \<Rightarrow> (Inr None, s1)
           | (Inr (Some t), s1) \<Rightarrow>
               (Inr (Some \<lparr>ai_scopes = tk_scopes t, ai_tenant = normalized_tenant_id (tk_tenant t),
                           ai_user = tk_user t\<rparr>), s1)))"

definition is_not_found :: "go_err \<Rightarrow> bool" where
  "is_not_found = err_any (\<lambda>e. e = err_not_found)"

lemma is_not_found_self [simp]: "is_not_found err_not_found"
  by (simp add: is_not_found_def err_not_found_def)

text \<open>The header \<open>X-Semidx-Tenant\<close>: the tenant and its slug, or the refusal.\<close>

definition select_tenant ::
  "'s auth_store \<Rightarrow> auth_identity \<Rightarrow> api_request \<Rightarrow> 's \<Rightarrow> (nat \<times> string) + (int \<times> string)" where
  "select_tenant st idn rq s =
     (let requested = trim_space (rq_tenant rq)
      in if requested = [] then Inr (ai_tenant idn, [])
         else case au_tenants st of
           None \<Rightarrow> Inl (501, ''tenant selection requires PostgreSQL'')
         | Some ts \<Rightarrow>
             (case ts_by_slug ts requested s of
                Inl e \<Rightarrow> Inl (if is_not_found e then (403, ''tenant access denied'')
                              else (500, ''tenant lookup failed''))
              | Inr t \<Rightarrow>
                  (case (if tn_id t = ai_tenant idn then Inr True
                         else if ai_user idn > 0 then ts_can_access ts (ai_user idn) (tn_id t) s
                         else Inr False) of
                     Inl e \<Rightarrow> Inl (500, ''tenant access check failed'')
                   | Inr allowed \<Rightarrow>
                       if allowed then Inr (tn_id t, tn_slug t) else Inl (403, ''tenant access denied''))))"

text \<open>The header \<open>X-Semidx-Workspace\<close>.\<close>

definition select_workspace ::
  "'s auth_store \<Rightarrow> tenant_ctx option \<Rightarrow> api_request \<Rightarrow> 's \<Rightarrow> (nat \<times> string) + (int \<times> string)" where
  "select_workspace st cx rq s =
     (case au_spaces st of
        None \<Rightarrow> Inr (0, [])
      | Some ws \<Rightarrow>
          (let asked = trim_space (rq_workspace rq);
               slug = (if asked = [] then ''default'' else asked)
           in case wp_by_slug ws cx slug s of
                Inl e \<Rightarrow> Inl (if is_not_found e then (403, ''workspace access denied'')
                              else (500, ''workspace lookup failed''))
              | Inr w \<Rightarrow> Inr (ws_id w, ws_slug w)))"

definition authed ::
  "'s auth_server \<Rightarrow> int \<Rightarrow> string \<Rightarrow> (tenant_ctx option \<Rightarrow> string list \<Rightarrow> 's \<Rightarrow> 'r \<times> 's) \<Rightarrow>
   api_request \<Rightarrow> 's \<Rightarrow> 'r gate \<times> 's" where
  "authed sv now scope h rq s =
     (let raw = bearer_token rq
      in if raw = [] then (Denied 401 ''missing bearer token'', s)
         else case resolve_auth sv now raw s of
           (Inl e, s1) \<Rightarrow> (Denied 500 ''auth check failed'', s1)
         | (Inr None, s1) \<Rightarrow> (Denied 401 ''invalid token'', s1)
         | (Inr (Some idn), s1) \<Rightarrow>
             if scope \<noteq> [] \<and> scope \<notin> set (ai_scopes idn) \<and> ''admin'' \<notin> set (ai_scopes idn)
             then (Denied 403 (''token missing required scope: '' @ scope), s1)
             else case select_tenant (as_store sv) idn rq s1 of
               Inl (code, msg) \<Rightarrow> (Denied code msg, s1)
             | Inr (tid, slug) \<Rightarrow>
                 (let base = (bare_tenant tid)\<lparr>tc_slug := slug, tc_user := ai_user idn\<rparr>
                  in case tenant_with base of
                       Inl e \<Rightarrow> (Denied 500 ''auth context failed'', s1)
                     | Inr base_cx \<Rightarrow>
                         (case select_workspace (as_store sv) base_cx rq s1 of
                            Inl (code, msg) \<Rightarrow> (Denied code msg, s1)
                          | Inr (wid, wslug) \<Rightarrow>
                              (case tenant_with (base\<lparr>tc_workspace := wid, tc_ws_slug := wslug\<rparr>) of
                                 Inl e \<Rightarrow> (Denied 500 ''auth context failed'', s1)
                               | Inr cx \<Rightarrow>
                                   (case h cx (ai_scopes idn) s1 of (r, s2) \<Rightarrow> (Ran r, s2))))))"

definition has_scope :: "string list \<Rightarrow> string \<Rightarrow> bool" where
  "has_scope scopes scope \<longleftrightarrow> scope \<in> set scopes \<or> ''admin'' \<in> set scopes"

definition resolve_scopes ::
  "'s auth_server \<Rightarrow> int \<Rightarrow> string \<Rightarrow> 's \<Rightarrow> string list option result \<times> 's" where
  "resolve_scopes sv now raw s =
     (case resolve_auth sv now raw s of
        (Inl e, s1) \<Rightarrow> (Inl e, s1)
      | (Inr idn, s1) \<Rightarrow> (Inr (map_option ai_scopes idn), s1))"

definition bearer_has_admin_scope ::
  "'s auth_server \<Rightarrow> int \<Rightarrow> api_request \<Rightarrow> 's \<Rightarrow> bool result \<times> 's" where
  "bearer_has_admin_scope sv now rq s =
     (let raw = bearer_token rq
      in if raw = [] then (Inr False, s)
         else case resolve_scopes sv now raw s of
           (Inl e, s1) \<Rightarrow> (Inl e, s1)
         | (Inr None, s1) \<Rightarrow> (Inr False, s1)
         | (Inr (Some scopes), s1) \<Rightarrow> (Inr (''admin'' \<in> set scopes), s1))"

section \<open>Tenants and workspaces over HTTP\<close>

datatype 'a http = Status_error nat string | Status nat 'a

text \<open>The regular expression of both slugs, anchored at both ends.\<close>

definition slug_char :: "char \<Rightarrow> bool" where
  "slug_char c \<longleftrightarrow> (CHR ''a'' \<le> c \<and> c \<le> CHR ''z'') \<or> (CHR ''0'' \<le> c \<and> c \<le> CHR ''9'')"

definition valid_slug :: "string \<Rightarrow> bool" where
  "valid_slug s \<longleftrightarrow>
     (case s of
        [] \<Rightarrow> False
      | c # cs \<Rightarrow> slug_char c \<and> 1 \<le> length cs \<and> length cs \<le> 62 \<and>
                  list_all (\<lambda>x. slug_char x \<or> x = CHR ''-'') cs)"

definition handle_list_tenants ::
  "'s auth_store \<Rightarrow> tenant_ctx option \<Rightarrow> 's \<Rightarrow> (int \<times> string \<times> string) list http" where
  "handle_list_tenants st cx s =
     (case au_tenants st of
        None \<Rightarrow> Status_error 501 ''tenant management requires PostgreSQL''
      | Some ts \<Rightarrow>
          (case ts_list ts cx s of
             Inl e \<Rightarrow> Status_error 500 ''could not list tenants''
           | Inr l \<Rightarrow> Status 200 (map (\<lambda>t. (tn_id t, tn_slug t, tn_name t)) l)))"

text \<open>\<open>body\<close> is the decoded JSON object, \<open>None\<close> if it does not parse; \<open>ul\<close> lowers
  non-ASCII text.  The status and message of a refused slug or name are those of both handlers.\<close>

definition clean_slug_name ::
  "(string \<Rightarrow> string) \<Rightarrow> (string \<times> string) option \<Rightarrow> string + (string \<times> string)" where
  "clean_slug_name ul body =
     (case body of
        None \<Rightarrow> Inl ''invalid JSON body''
      | Some (slug0, name0) \<Rightarrow>
          (let slug = to_lower ul (trim_space slug0); name = trim_space name0
           in if \<not> valid_slug slug then Inl ''slug must contain 2-63 lowercase letters, digits, or hyphens''
              else if name = [] \<or> length name > 255
              then Inl ''name is required and must be at most 255 characters''
              else Inr (slug, name)))"

definition handle_create_tenant ::
  "'s auth_store \<Rightarrow> (string \<Rightarrow> string) \<Rightarrow> int \<Rightarrow> (string \<times> string) option \<Rightarrow> tenant_ctx option \<Rightarrow> 's \<Rightarrow>
   tenant http \<times> 's" where
  "handle_create_tenant st ul now body cx s =
     (case au_tenants st of
        None \<Rightarrow> (Status_error 501 ''tenant management requires PostgreSQL'', s)
      | Some ts \<Rightarrow>
          (case clean_slug_name ul body of
             Inl msg \<Rightarrow> (Status_error 400 msg, s)
           | Inr (slug, name) \<Rightarrow>
               (case ts_create ts now cx slug name s of
                  (Inl e, s1) \<Rightarrow>
                    (if err_any (\<lambda>e. e = err_tenant_exists) e then Status_error 409 ''tenant already exists''
                     else Status_error 500 ''could not create tenant'', s1)
                | (Inr t, s1) \<Rightarrow> (Status 201 t, s1))))"

definition handle_list_workspaces ::
  "'s auth_store \<Rightarrow> tenant_ctx option \<Rightarrow> 's \<Rightarrow> (int \<times> int \<times> string \<times> string) list http" where
  "handle_list_workspaces st cx s =
     (case au_spaces st of
        None \<Rightarrow> Status_error 501 ''workspace management requires PostgreSQL''
      | Some ws \<Rightarrow>
          (case wp_list ws cx s of
             Inl e \<Rightarrow> Status_error 500 ''could not list workspaces''
           | Inr l \<Rightarrow> Status 200 (map (\<lambda>w. (ws_id w, ws_tenant w, ws_slug w, ws_name w)) l)))"

definition handle_create_workspace ::
  "'s auth_store \<Rightarrow> (string \<Rightarrow> string) \<Rightarrow> int \<Rightarrow> (string \<times> string) option \<Rightarrow> tenant_ctx option \<Rightarrow> 's \<Rightarrow>
   workspace http \<times> 's" where
  "handle_create_workspace st ul now body cx s =
     (case au_spaces st of
        None \<Rightarrow> (Status_error 501 ''workspace management requires PostgreSQL'', s)
      | Some ws \<Rightarrow>
          (case clean_slug_name ul body of
             Inl msg \<Rightarrow> (Status_error 400 msg, s)
           | Inr (slug, name) \<Rightarrow>
               (case wp_create ws now cx slug name s of
                  (Inl e, s1) \<Rightarrow>
                    (if err_any (\<lambda>e. e = err_workspace_exists) e
                     then Status_error 409 ''workspace already exists''
                     else Status_error 500 ''could not create workspace'', s1)
                | (Inr w, s1) \<Rightarrow> (Status 201 w, s1))))"

section \<open>Bootstrap\<close>

text \<open>\<open>random_hex\<close> is the hex encoding of the random bytes, or the failure of the source of
  randomness.\<close>

definition generate_token :: "(string \<Rightarrow> string) \<Rightarrow> string result \<Rightarrow> (string \<times> string) result" where
  "generate_token sha random_hex =
     (case random_hex of
        Inl e \<Rightarrow> Inl e
      | Inr x \<Rightarrow> (let plaintext = ''semidx_'' @ x in Inr (plaintext, sha plaintext)))"

definition ensure_bootstrap_token ::
  "(string \<Rightarrow> string) \<Rightarrow> string result \<Rightarrow> int \<Rightarrow> tenant_ctx option \<Rightarrow> string \<Rightarrow> access_db \<Rightarrow>
   string result \<times> access_db" where
  "ensure_bootstrap_token sha random_hex now cx env_token d =
     (if count_tokens cx d > 0 then (Inr [], d)
      else case (if env_token \<noteq> [] then Inr env_token
                 else map_sum id fst (generate_token sha random_hex)) of
        Inl e \<Rightarrow> (Inl e, d)
      | Inr plaintext \<Rightarrow>
          (case create_token now cx ''bootstrap-admin'' (sha plaintext) [''admin''] d of
             (Inl e, d1) \<Rightarrow> (Inl e, d1)
           | (Inr _, d1) \<Rightarrow> (Inr plaintext, d1)))"

text \<open>\<open>pw_hash\<close> is \<open>passwd.Hash\<close> with the salt it draws.\<close>

definition ensure_bootstrap_admin ::
  "(string \<Rightarrow> string result) \<Rightarrow> string \<Rightarrow> string \<Rightarrow> access_db \<Rightarrow> string result \<times> access_db" where
  "ensure_bootstrap_admin pw_hash username password d =
     (if password = [] then (Inr [], d)
      else if count_users d > 0 then (Inr [], d)
      else case pw_hash password of
        Inl e \<Rightarrow> (Inl e, d)
      | Inr h \<Rightarrow>
          (case create_user username h ''admin'' d of
             (Inl e, d1) \<Rightarrow> (Inl e, d1)
           | (Inr _, d1) \<Rightarrow> (Inr username, d1)))"

section \<open>What a backend promises\<close>

text \<open>
  \<open>holds s h t\<close>: in state \<open>s\<close> the token \<open>t\<close> answers to the hash \<open>h\<close> and is in force;
  \<open>member s u t\<close>: user \<open>u\<close> is a member of tenant \<open>t\<close>; \<open>owns s t w\<close>: workspace \<open>w\<close>
  belongs to tenant \<open>t\<close>.
\<close>

locale tenancy =
  fixes tns :: "'s tenant_store option" and wss :: "'s workspace_store option"
    and member :: "'s \<Rightarrow> int \<Rightarrow> int \<Rightarrow> bool"
    and owns :: "'s \<Rightarrow> int \<Rightarrow> int \<Rightarrow> bool"
  assumes access_member: "\<lbrakk>tns = Some ts; ts_can_access ts u i s = Inr True\<rbrakk> \<Longrightarrow> member s u i"
    and space_owned: "\<lbrakk>wss = Some ws; wp_by_slug ws cx slug s = Inr w\<rbrakk> \<Longrightarrow> owns s (tenant_id cx) (ws_id w)"

locale auth_backend = tenancy "au_tenants st" "au_spaces st" member owns
  for st :: "'s auth_store" and member owns +
  fixes holds :: "'s \<Rightarrow> string \<Rightarrow> token \<Rightarrow> bool"
  assumes token_holds: "au_token st now h s = (Inr (Some t), s1) \<Longrightarrow> holds s h t"
    and token_keeps: "au_token st now h s = (r, s1) \<Longrightarrow> member s1 = member s \<and> owns s1 = owns s"

text \<open>How a bearer becomes the hash that is looked up and the scopes that count: a control token
  by its id and with the scopes it was signed with, anything else by its digest and with the scopes
  of its row.\<close>

definition credential ::
  "'s auth_server \<Rightarrow> int \<Rightarrow> string \<Rightarrow> string \<Rightarrow> token \<Rightarrow> string list \<Rightarrow> bool" where
  "credential sv now raw h t scopes \<longleftrightarrow>
     (case as_jwt sv of
        None \<Rightarrow> h = as_sha sv raw \<and> scopes = tk_scopes t
      | Some secret \<Rightarrow>
          (case verify_jwt (as_lib sv) secret now raw of
             Inr c \<Rightarrow> h = cm_id c \<and> scopes = cm_scopes c
           | Inl e \<Rightarrow> h = as_sha sv raw \<and> scopes = tk_scopes t))"

lemma resolve_auth_cases:
  assumes "resolve_auth sv now raw s = (Inr (Some idn), s1)"
  obtains h t where
    "au_token (as_store sv) now h s = (Inr (Some t), s1)" "credential sv now raw h t (ai_scopes idn)"
    "ai_tenant idn = normalized_tenant_id (tk_tenant t)" "ai_user idn = tk_user t"
  using assms unfolding resolve_auth_def credential_def
  by (auto split: option.splits sum.splits prod.splits)

lemma normalized_positive [simp]: "normalized_tenant_id i > 0"
  by (simp add: normalized_tenant_id_def default_tenant_def)

lemma tenant_with_Inr [simp]: "tenant_with tc = Inr cx \<longleftrightarrow> tc_id tc > 0 \<and> cx = Some tc"
  by (auto simp: tenant_with_def)

lemma tenant_id_Some [simp]: "tc_id tc > 0 \<Longrightarrow> tenant_id (Some tc) = tc_id tc"
  by (simp add: tenant_id_def tenant_from_def)

text \<open>How a request got to its handler.\<close>

lemma authed_RanE:
  assumes "authed sv now scope h rq s = (Ran r, s2)"
  obtains idn s1 tid slug wid wslug where
    "bearer_token rq \<noteq> []" "resolve_auth sv now (bearer_token rq) s = (Inr (Some idn), s1)"
    "scope = [] \<or> has_scope (ai_scopes idn) scope"
    "select_tenant (as_store sv) idn rq s1 = Inr (tid, slug)" "tid > 0"
    "select_workspace (as_store sv) (Some ((bare_tenant tid)\<lparr>tc_slug := slug, tc_user := ai_user idn\<rparr>)) rq s1 =
       Inr (wid, wslug)"
    "h (Some ((bare_tenant tid)\<lparr>tc_slug := slug, tc_user := ai_user idn, tc_workspace := wid, tc_ws_slug := wslug\<rparr>))
       (ai_scopes idn) s1 = (r, s2)"
proof -
  let ?raw = "bearer_token rq"
  from assms obtain idn s1 where raw: "?raw \<noteq> []" and
    ra: "resolve_auth sv now ?raw s = (Inr (Some idn), s1)" and
    sc: "scope = [] \<or> has_scope (ai_scopes idn) scope"
    by (auto simp: authed_def Let_def has_scope_def split: if_splits sum.splits option.splits prod.splits)
  from assms raw ra obtain tid slug wid wslug where
    "select_tenant (as_store sv) idn rq s1 = Inr (tid, slug)" "tid > 0"
    "select_workspace (as_store sv) (Some ((bare_tenant tid)\<lparr>tc_slug := slug, tc_user := ai_user idn\<rparr>)) rq s1 =
       Inr (wid, wslug)"
    "h (Some ((bare_tenant tid)\<lparr>tc_slug := slug, tc_user := ai_user idn, tc_workspace := wid, tc_ws_slug := wslug\<rparr>))
       (ai_scopes idn) s1 = (r, s2)"
    unfolding authed_def by (auto simp: Let_def split: if_splits sum.splits prod.splits)
  with raw ra sc show ?thesis by (rule that)
qed

text \<open>What a handler behind \<open>authed\<close> may rely on.\<close>

definition granted ::
  "'s auth_server \<Rightarrow> ('s \<Rightarrow> string \<Rightarrow> token \<Rightarrow> bool) \<Rightarrow> ('s \<Rightarrow> int \<Rightarrow> int \<Rightarrow> bool) \<Rightarrow> ('s \<Rightarrow> int \<Rightarrow> int \<Rightarrow> bool) \<Rightarrow>
   int \<Rightarrow> string \<Rightarrow> api_request \<Rightarrow> 's \<Rightarrow> tenant_ctx \<Rightarrow> string list \<Rightarrow> bool" where
  "granted sv holds member owns now scope rq s tc scopes \<longleftrightarrow>
     (\<exists>h t. bearer_token rq \<noteq> [] \<and> credential sv now (bearer_token rq) h t scopes \<and> holds s h t \<and>
        (scope = [] \<or> has_scope scopes scope) \<and> tc_user tc = tk_user t \<and> \<not> tc_global tc \<and> tc_id tc > 0 \<and>
        (tc_id tc = normalized_tenant_id (tk_tenant t) \<or> (tk_user t > 0 \<and> member s (tk_user t) (tc_id tc))) \<and>
        (if au_spaces (as_store sv) = None then tc_workspace tc = 0 else owns s (tc_id tc) (tc_workspace tc)))"

context auth_backend begin

lemma select_tenant_allowed:
  assumes "select_tenant st idn rq s = Inr (tid, slug)"
  shows "tid = ai_tenant idn \<or> (ai_user idn > 0 \<and> member s (ai_user idn) tid)"
  using assms access_member
  by (auto simp: select_tenant_def Let_def split: if_splits option.splits sum.splits)

lemma select_workspace_owned:
  assumes "select_workspace st cx rq s = Inr (wid, slug)"
  shows "if au_spaces st = None then wid = 0 else owns s (tenant_id cx) wid"
  using assms space_owned
  by (auto simp: select_workspace_def Let_def split: if_splits option.splits sum.splits)

lemma authed_grants:
  assumes "authed sv now scope h rq s = (Ran r, s2)" "as_store sv = st"
  obtains tc scopes s1 where
    "granted sv holds member owns now scope rq s tc scopes" "h (Some tc) scopes s1 = (r, s2)"
    "member s1 = member s" "owns s1 = owns s"
proof -
  let ?raw = "bearer_token rq"
  from assms(1) obtain idn s1 tid slug wid wslug where raw: "?raw \<noteq> []" and
    ra: "resolve_auth sv now ?raw s = (Inr (Some idn), s1)" and
    sc: "scope = [] \<or> has_scope (ai_scopes idn) scope" and
    sel: "select_tenant st idn rq s1 = Inr (tid, slug)" and pos: "tid > 0" and
    ws: "select_workspace st (Some ((bare_tenant tid)\<lparr>tc_slug := slug, tc_user := ai_user idn\<rparr>)) rq s1 = Inr (wid, wslug)"
    and h: "h (Some ((bare_tenant tid)\<lparr>tc_slug := slug, tc_user := ai_user idn, tc_workspace := wid, tc_ws_slug := wslug\<rparr>))
              (ai_scopes idn) s1 = (r, s2)"
    unfolding assms(2) [symmetric] by (rule authed_RanE)
  from ra obtain d t where tok: "au_token st now d s = (Inr (Some t), s1)"
    and cred: "credential sv now ?raw d t (ai_scopes idn)"
    and idn: "ai_tenant idn = normalized_tenant_id (tk_tenant t)" "ai_user idn = tk_user t"
    unfolding assms(2) [symmetric] by (rule resolve_auth_cases) blast
  from token_keeps [OF tok] have keeps: "member s1 = member s" "owns s1 = owns s" by simp_all
  let ?tc = "(bare_tenant tid)\<lparr>tc_slug := slug, tc_user := ai_user idn, tc_workspace := wid, tc_ws_slug := wslug\<rparr>"
  have "granted sv holds member owns now scope rq s ?tc (ai_scopes idn)"
    using raw sc cred token_holds [OF tok] pos idn select_tenant_allowed [OF sel]
      select_workspace_owned [OF ws] keeps assms(2)
    by (auto simp: granted_def bare_tenant_def intro!: exI [of _ d] exI [of _ t])
  from this h keeps show ?thesis by (rule that)
qed

end

section \<open>The PostgreSQL store\<close>

definition pg_tenant_store :: "(tenant list \<Rightarrow> tenant list) \<Rightarrow> access_db tenant_store" where
  "pg_tenant_store by_slug =
     \<lparr>ts_list = list_tenants by_slug, ts_by_slug = get_tenant_by_slug, ts_create = create_tenant,
      ts_can_access = (\<lambda>u t d. Inr (can_access_tenant u t d))\<rparr>"

definition pg_workspace_store :: "(workspace list \<Rightarrow> workspace list) \<Rightarrow> access_db workspace_store" where
  "pg_workspace_store by_slug =
     \<lparr>wp_list = (\<lambda>cx d. Inr (list_workspaces by_slug cx d)), wp_by_slug = get_workspace_by_slug,
      wp_create = create_workspace\<rparr>"

definition pg_auth_store ::
  "(tenant list \<Rightarrow> tenant list) \<Rightarrow> (workspace list \<Rightarrow> workspace list) \<Rightarrow> access_db auth_store" where
  "pg_auth_store tns wss =
     \<lparr>au_token = token_by_hash, au_tenants = Some (pg_tenant_store tns), au_spaces = Some (pg_workspace_store wss)\<rparr>"

text \<open>A row in force that hands out the token, up to the time of its last use.\<close>

definition token_in_force :: "access_db \<Rightarrow> string \<Rightarrow> token \<Rightarrow> bool" where
  "token_in_force d h t \<longleftrightarrow>
     (\<exists>r\<in>set (ad_tokens d). live_token h d r \<and> (\<exists>u. t = (token_of_row r)\<lparr>tk_used := u\<rparr>))"

definition is_member :: "access_db \<Rightarrow> int \<Rightarrow> int \<Rightarrow> bool" where
  "is_member d u i \<longleftrightarrow> (\<exists>m\<in>set (ad_members d). mb_user m = u \<and> mb_tenant m = i)"

definition owns_space :: "access_db \<Rightarrow> int \<Rightarrow> int \<Rightarrow> bool" where
  "owns_space d i w \<longleftrightarrow> (\<exists>q\<in>set (ad_spaces d). ws_id q = w \<and> ws_tenant q = i)"

lemma tokens_keep_tenancy [simp]:
  "is_member (d\<lparr>ad_tokens := ts\<rparr>) = is_member d" "owns_space (d\<lparr>ad_tokens := ts\<rparr>) = owns_space d"
  by (simp_all add: fun_eq_iff is_member_def owns_space_def)

interpretation pg_tenancy: tenancy "Some (pg_tenant_store tns)" "Some (pg_workspace_store wss)" is_member owns_space
  for tns wss
  by unfold_locales
    (auto simp: pg_tenant_store_def pg_workspace_store_def can_access_tenant_def get_workspace_by_slug_def
      is_member_def owns_space_def list_ex_iff split: option.splits dest!: find_SomeD)

interpretation pg: auth_backend "pg_auth_store tns wss" is_member owns_space token_in_force for tns wss
proof
  fix now h s t s1 assume "au_token (pg_auth_store tns wss) now h s = (Inr (Some t), s1)"
  then obtain r where r: "find (live_token h s) (ad_tokens s) = Some r" "t = token_of_row (r\<lparr>tr_used := Some now\<rparr>)"
    by (auto simp: pg_auth_store_def token_by_hash_def split: option.splits)
  from find_SomeD [OF r(1)] r(2) show "token_in_force s h t"
    unfolding token_in_force_def by (auto simp: token_of_row_def)
qed (auto simp: pg_auth_store_def token_by_hash_def split: option.splits
      intro: pg_tenancy.access_member pg_tenancy.space_owned)

end
