(* ===== verification/WebAuth.thy ===== *)
theory WebAuth
  imports ServerAuth "HOL-Library.Word"
begin

text \<open>
  Sessions of the web administration (\<open>internal/webadmin/webadmin.go\<close>,
  \<open>protect_auth.go\<close>, \<open>scopes.go\<close>): the login with its rate limiter, the checks in front of
  every handler, and the handlers of the account pages (\<open>spa_api.go\<close>, \<open>spa_settings.go\<close>).
  Argon2, SHA-256, HMAC, random bytes and JSON decoding are arguments; response cookies are not
  modelled.
\<close>

section \<open>The login limiter\<close>

definition login_window :: int where
  "login_window = 15 * minute"

definition login_max_tries :: nat where
  "login_max_tries = 5"

text \<open>\<open>map[string][]time.Time\<close>.\<close>

type_synonym limiter = "string \<rightharpoonup> int list"

definition tries_of :: "limiter \<Rightarrow> string \<Rightarrow> int list" where
  "tries_of l key = (case l key of Some ts \<Rightarrow> ts | None \<Rightarrow> [])"

definition prune :: "int list \<Rightarrow> int \<Rightarrow> int list" where
  "prune ts cutoff = filter (\<lambda>t. t > cutoff) ts"

definition limiter_allowed :: "string \<Rightarrow> int \<Rightarrow> limiter \<Rightarrow> bool \<times> limiter" where
  "limiter_allowed key now l =
     (let kept = prune (tries_of l key) (now - login_window)
      in (length kept < login_max_tries, l(key \<mapsto> kept)))"

definition limiter_record :: "string \<Rightarrow> int \<Rightarrow> limiter \<Rightarrow> limiter" where
  "limiter_record key now l = l(key \<mapsto> prune (tries_of l key) (now - login_window) @ [now])"

definition limiter_reset :: "string \<Rightarrow> limiter \<Rightarrow> limiter" where
  "limiter_reset key l = l(key := None)"

text \<open>One round of the reaper.\<close>

definition limiter_reap :: "int \<Rightarrow> limiter \<Rightarrow> limiter" where
  "limiter_reap now l =
     (\<lambda>key. case l key of
        None \<Rightarrow> None
      | Some ts \<Rightarrow> if list_ex (\<lambda>t. t > now - login_window) ts then Some ts else None)"

section \<open>The server\<close>

record web_config =
  wc_sha :: "string \<Rightarrow> string"
  wc_hmac :: "string \<Rightarrow> string"
  wc_verify :: "string \<Rightarrow> string \<Rightarrow> bool result"
  wc_hash :: "string \<Rightarrow> string result"
  wc_jwt :: "string option"
  wc_lib :: jwt_lib

record 's session_store =
  wb_session :: "int \<Rightarrow> string \<Rightarrow> 's \<Rightarrow> user result"
  wb_tenants :: "'s tenant_store option"
  wb_spaces :: "'s workspace_store option"

text \<open>\<open>wr_form\<close> is \<open>r.FormValue("csrf_token")\<close>, \<open>wr_csrf\<close> the header \<open>X-CSRF-Token\<close>.\<close>

record web_request =
  wr_method :: string
  wr_cookie :: "string option"
  wr_form :: string
  wr_csrf :: string
  wr_tenant :: string
  wr_workspace :: string

record auth_ctx =
  ac_user :: user
  ac_session :: string
  ac_csrf :: string

definition session_ttl :: int where
  "session_ttl = 24 * 60 * minute"

definition remember_me_ttl :: int where
  "remember_me_ttl = 30 * 24 * 60 * minute"

text \<open>\<open>random_hex\<close> is the hex encoding of 32 random bytes.\<close>

definition new_session_token :: "(string \<Rightarrow> string) \<Rightarrow> string result \<Rightarrow> (string \<times> string) result" where
  "new_session_token sha random_hex =
     (case random_hex of Inl e \<Rightarrow> Inl e | Inr plaintext \<Rightarrow> Inr (plaintext, sha plaintext))"

definition generate_api_token :: "(string \<Rightarrow> string) \<Rightarrow> string result \<Rightarrow> (string \<times> string) result" where
  "generate_api_token sha random_hex =
     (case random_hex of
        Inl e \<Rightarrow> Inl e
      | Inr x \<Rightarrow> (let plaintext = ''semidx_'' @ x in Inr (plaintext, sha plaintext)))"

section \<open>The checks in front of a handler\<close>

definition resolve_auth_ctx ::
  "web_config \<Rightarrow> 's session_store \<Rightarrow> int \<Rightarrow> web_request \<Rightarrow> 's \<Rightarrow> (nat \<times> string) + auth_ctx" where
  "resolve_auth_ctx wc st now rq s =
     (case wr_cookie rq of
        None \<Rightarrow> Inl (401, ''unauthorized'')
      | Some v \<Rightarrow>
          (case wb_session st now (wc_sha wc v) s of
             Inl e \<Rightarrow> Inl (if is_not_found e then (401, ''unauthorized'') else (500, ''internal error''))
           | Inr u \<Rightarrow> Inr \<lparr>ac_user = u, ac_session = v, ac_csrf = wc_hmac wc v\<rparr>))"

definition valid_csrf :: "web_request \<Rightarrow> auth_ctx \<Rightarrow> bool" where
  "valid_csrf rq ac \<longleftrightarrow>
     (let got = (if wr_form rq = [] then wr_csrf rq else wr_form rq)
      in got \<noteq> [] \<and> got = ac_csrf ac)"

definition web_base_ctx :: "user \<Rightarrow> tenant_ctx" where
  "web_base_ctx u =
     (bare_tenant default_tenant)\<lparr>tc_user := us_id u, tc_role := us_role u, tc_global := (us_role u = ''admin'')\<rparr>"

text \<open>The part of \<open>withTenantContext\<close> on the header \<open>X-Semidx-Tenant\<close>.\<close>

definition web_select_tenant ::
  "'s tenant_store \<Rightarrow> user \<Rightarrow> web_request \<Rightarrow> 's \<Rightarrow> (nat \<times> string) + tenant_ctx" where
  "web_select_tenant ts u rq s =
     (let tc = web_base_ctx u; slug = trim_space (wr_tenant rq)
      in if slug = [] then Inr tc
         else case ts_by_slug ts slug s of
           Inl e \<Rightarrow> Inl (if is_not_found e then (403, ''tenant access denied'') else (500, ''internal error''))
         | Inr t \<Rightarrow>
             (case (if tc_global tc then Inr True else ts_can_access ts (us_id u) (tn_id t) s) of
                Inl e \<Rightarrow> Inl (500, ''internal error'')
              | Inr allowed \<Rightarrow>
                  if allowed then Inr (tc\<lparr>tc_id := tn_id t\<rparr>) else Inl (403, ''tenant access denied'')))"

definition web_select_workspace ::
  "'s workspace_store \<Rightarrow> tenant_ctx \<Rightarrow> web_request \<Rightarrow> 's \<Rightarrow> (nat \<times> string) + tenant_ctx" where
  "web_select_workspace ws tc rq s =
     (let asked = trim_space (wr_workspace rq);
          slug = (if asked = [] then ''default'' else asked)
      in case tenant_with tc of
           Inl e \<Rightarrow> Inl (500, ''internal error'')
         | Inr base \<Rightarrow>
             (case wp_by_slug ws base slug s of
                Inl e \<Rightarrow> Inl (if is_not_found e then (403, ''workspace access denied'') else (500, ''internal error''))
              | Inr w \<Rightarrow> Inr (tc\<lparr>tc_workspace := ws_id w, tc_ws_slug := ws_slug w\<rparr>)))"

definition with_tenant_context ::
  "'s session_store \<Rightarrow> auth_ctx \<Rightarrow> web_request \<Rightarrow> 's \<Rightarrow> (nat \<times> string) + tenant_ctx option" where
  "with_tenant_context st ac rq s =
     (case wb_tenants st of
        None \<Rightarrow> Inr None
      | Some ts \<Rightarrow>
          (case web_select_tenant ts (ac_user ac) rq s of
             Inl r \<Rightarrow> Inl r
           | Inr tc \<Rightarrow>
               (case (case wb_spaces st of None \<Rightarrow> Inr tc | Some ws \<Rightarrow> web_select_workspace ws tc rq s) of
                  Inl r \<Rightarrow> Inl r
                | Inr tc1 \<Rightarrow>
                    (case tenant_with tc1 of Inl e \<Rightarrow> Inl (500, ''internal error'') | Inr cx \<Rightarrow> Inr cx))))"

definition protect ::
  "web_config \<Rightarrow> 's session_store \<Rightarrow> int \<Rightarrow> string \<Rightarrow> (tenant_ctx option \<Rightarrow> auth_ctx \<Rightarrow> 's \<Rightarrow> 'r \<times> 's) \<Rightarrow>
   web_request \<Rightarrow> 's \<Rightarrow> 'r gate \<times> 's" where
  "protect wc st now role fn rq s =
     (case resolve_auth_ctx wc st now rq s of
        Inl (code, msg) \<Rightarrow> (Denied code msg, s)
      | Inr ac \<Rightarrow>
          if wr_method rq \<noteq> ''GET'' \<and> wr_method rq \<noteq> ''HEAD'' \<and> \<not> valid_csrf rq ac
          then (Denied 403 ''invalid or missing CSRF token'', s)
          else if role = ''admin'' \<and> us_role (ac_user ac) \<noteq> ''admin'' then (Denied 403 ''admin only'', s)
          else case with_tenant_context st ac rq s of
            Inl (code, msg) \<Rightarrow> (Denied code msg, s)
          | Inr cx \<Rightarrow> (case fn cx ac s of (r, s1) \<Rightarrow> (Ran r, s1)))"

section \<open>Scopes\<close>

definition valid_scopes :: "string set" where
  "valid_scopes = {''read'', ''write'', ''admin''}"

definition normalize_scopes :: "string list \<Rightarrow> string list" where
  "normalize_scopes form = (if form = [] then [''read''] else form)"

definition validate_scopes :: "string list \<Rightarrow> string \<Rightarrow> unit result" where
  "validate_scopes scopes role =
     (case find (\<lambda>x. x \<notin> valid_scopes) scopes of
        Some x \<Rightarrow> Inl (Plain (''invalid scope: '' @ x @ '' (allowed: read, write, admin)''))
      | None \<Rightarrow>
          if ''admin'' \<in> set scopes \<and> role \<noteq> ''admin''
          then Inl (Plain ''only admins can issue admin-scoped tokens'') else Inr ())"

definition scopes_from_form :: "string list \<Rightarrow> string \<Rightarrow> string list result" where
  "scopes_from_form form role =
     (let scopes = normalize_scopes form
      in case validate_scopes scopes role of Inl e \<Rightarrow> Inl e | Inr _ \<Rightarrow> Inr scopes)"

section \<open>Login and logout\<close>

record login_body =
  lb_user :: string
  lb_password :: string
  lb_remember :: bool

text \<open>What a handler answers: status, and the secret that is shown once.\<close>

record web_reply =
  wy_status :: nat
  wy_message :: string
  wy_secret :: "string option"

definition web_error :: "nat \<Rightarrow> string \<Rightarrow> web_reply" where
  "web_error code msg = \<lparr>wy_status = code, wy_message = msg, wy_secret = None\<rparr>"

definition web_ok :: "nat \<Rightarrow> string option \<Rightarrow> web_reply" where
  "web_ok code secret = \<lparr>wy_status = code, wy_message = [], wy_secret = secret\<rparr>"

text \<open>
  \<open>apiLogin\<close> after the limiter let it pass, with the time it took at its start.  The limiter's
  operations are separate critical sections: between the check and the record other logins run.
  The verdict says which operation of the limiter ends the login.
\<close>

datatype verdict = Recorded | Cleared | Untouched

definition login_finish ::
  "web_config \<Rightarrow> int \<Rightarrow> login_body \<Rightarrow> string result \<Rightarrow> access_db \<Rightarrow> web_reply \<times> verdict \<times> access_db" where
  "login_finish wc now body random_hex d =
     (let username = trim_space (lb_user body);
          refused = (web_error 401 ''invalid username or password'', Recorded, d)
      in case get_user_by_username username d of
           Inl e \<Rightarrow> if is_not_found e then refused else (web_error 500 ''internal error'', Untouched, d)
         | Inr u \<Rightarrow>
             if us_disabled u then refused
             else case wc_verify wc (lb_password body) (us_hash u) of
               Inl e \<Rightarrow> refused
             | Inr ok \<Rightarrow>
                 if \<not> ok then refused
                 else (case new_session_token (wc_sha wc) random_hex of
                         Inl e \<Rightarrow> (web_error 500 ''internal error'', Untouched, d)
                       | Inr (plaintext, hash) \<Rightarrow>
                           (case create_session now hash (us_id u)
                                   (now + (if lb_remember body then remember_me_ttl else session_ttl)) d of
                              (Inl e, d1) \<Rightarrow> (web_error 500 ''internal error'', Untouched, d1)
                            | (Inr _, d1) \<Rightarrow> (web_ok 200 (Some plaintext), Cleared, d1))))"

definition settle :: "verdict \<Rightarrow> string \<Rightarrow> int \<Rightarrow> limiter \<Rightarrow> limiter" where
  "settle v key now l =
     (case v of Recorded \<Rightarrow> limiter_record key now l | Cleared \<Rightarrow> limiter_reset key l | Untouched \<Rightarrow> l)"

text \<open>The whole handler when nothing runs in between; \<open>body = None\<close> is JSON that does not
  decode.\<close>

definition api_login ::
  "web_config \<Rightarrow> string \<Rightarrow> int \<Rightarrow> login_body option \<Rightarrow> string result \<Rightarrow> access_db \<times> limiter \<Rightarrow>
   web_reply \<times> access_db \<times> limiter" where
  "api_login wc http_method now body0 random_hex s =
     (case s of (d, l) \<Rightarrow>
        if http_method \<noteq> ''POST'' then (web_error 405 ''POST required'', d, l)
        else case body0 of
          None \<Rightarrow> (web_error 400 ''invalid JSON body'', d, l)
        | Some body \<Rightarrow>
            (let username = trim_space (lb_user body)
             in case limiter_allowed username now l of (allowed, l1) \<Rightarrow>
                  if \<not> allowed
                  then (web_error 429 (''too many attempts '' @ [CHR 0xE2, CHR 0x80, CHR 0x94] @ '' wait a few minutes and try again''), d, l1)
                  else case login_finish wc now body random_hex d of
                    (r, v, d1) \<Rightarrow> (r, d1, settle v username now l1)))"

definition api_logout :: "web_config \<Rightarrow> tenant_ctx option \<Rightarrow> auth_ctx \<Rightarrow> access_db \<Rightarrow> web_reply \<times> access_db" where
  "api_logout wc cx ac d = (web_ok 200 None, delete_session (wc_sha wc (ac_session ac)) d)"

section \<open>Keys and control tokens\<close>

definition api_list_keys :: "tenant_ctx option \<Rightarrow> auth_ctx \<Rightarrow> access_db \<Rightarrow> token list" where
  "api_list_keys cx ac d = list_user_tokens cx (us_id (ac_user ac)) ''opaque'' d"

definition api_create_key ::
  "web_config \<Rightarrow> int \<Rightarrow> (string \<times> string list) option \<Rightarrow> string result \<Rightarrow> tenant_ctx option \<Rightarrow> auth_ctx \<Rightarrow>
   access_db \<Rightarrow> web_reply \<times> access_db" where
  "api_create_key wc now body random_hex cx ac d =
     (case body of
        None \<Rightarrow> (web_error 400 ''invalid JSON'', d)
      | Some (name0, form) \<Rightarrow>
          (let name = trim_space name0
           in if name = [] then (web_error 400 ''name is required'', d)
              else case scopes_from_form form (us_role (ac_user ac)) of
                Inl e \<Rightarrow> (web_error 400 (err_msg id e), d)
              | Inr scopes \<Rightarrow>
                  (case generate_api_token (wc_sha wc) random_hex of
                     Inl e \<Rightarrow> (web_error 500 ''internal error'', d)
                   | Inr (plaintext, hash) \<Rightarrow>
                       (case create_user_token now cx (us_id (ac_user ac)) name hash scopes d of
                          (Inl e, d1) \<Rightarrow> (web_error 500 ''could not create key'', d1)
                        | (Inr _, d1) \<Rightarrow> (web_ok 201 (Some plaintext), d1)))))"

text \<open>\<open>apiRevokeKey\<close> and \<open>apiRevokeToken\<close> only differ in the noun.\<close>

definition api_revoke ::
  "string \<Rightarrow> int \<Rightarrow> string \<Rightarrow> tenant_ctx option \<Rightarrow> auth_ctx \<Rightarrow> access_db \<Rightarrow> web_reply \<times> access_db" where
  "api_revoke noun now path_id cx ac d =
     (case atoi path_id of
        None \<Rightarrow> (web_error 400 (''invalid '' @ noun @ '' id''), d)
      | Some i \<Rightarrow>
          (case revoke_user_token now cx (us_id (ac_user ac)) i d of
             (Inl e, d1) \<Rightarrow>
               (if is_not_found e then web_error 404 (noun @ '' not found'')
                else web_error 500 (''could not revoke '' @ noun), d1)
           | (Inr _, d1) \<Rightarrow> (web_ok 200 None, d1)))"

definition api_revoke_key ::
  "int \<Rightarrow> string \<Rightarrow> tenant_ctx option \<Rightarrow> auth_ctx \<Rightarrow> access_db \<Rightarrow> web_reply \<times> access_db" where
  "api_revoke_key now path_id cx ac d = api_revoke ''key'' now path_id cx ac d"

definition api_revoke_token ::
  "int \<Rightarrow> string \<Rightarrow> tenant_ctx option \<Rightarrow> auth_ctx \<Rightarrow> access_db \<Rightarrow> web_reply \<times> access_db" where
  "api_revoke_token now path_id cx ac d = api_revoke ''token'' now path_id cx ac d"

definition api_list_tokens ::
  "web_config \<Rightarrow> tenant_ctx option \<Rightarrow> auth_ctx \<Rightarrow> access_db \<Rightarrow> bool \<times> token list" where
  "api_list_tokens wc cx ac d =
     (if wc_jwt wc = None then (False, [])
      else (True, list_user_tokens cx (us_id (ac_user ac)) ''jwt'' d))"

text \<open>\<open>time.Duration(days) * 24 * time.Hour\<close> in 64 bits.\<close>

definition days_duration :: "int \<Rightarrow> int" where
  "days_duration n =
     sint (word_of_int n * word_of_int 24 * word_of_int (60 * minute) :: 64 word)"

definition control_ttl :: "int \<Rightarrow> int" where
  "control_ttl ttl_days = (if ttl_days > 0 then days_duration ttl_days else 0)"

text \<open>The product is not checked: a token asked for 213504 days lives 25 minutes, and one asked for
  106752 days gets a negative lifetime, which \<open>Mint\<close> takes for none.\<close>

lemma long_ttl_wraps:
  "control_ttl 213504 = 1526290448384"
  "control_ttl 106752 < 0"
  by code_simp+

definition api_create_token ::
  "web_config \<Rightarrow> int \<Rightarrow> (string \<times> string list \<times> int) option \<Rightarrow> string result \<Rightarrow> tenant_ctx option \<Rightarrow>
   auth_ctx \<Rightarrow> access_db \<Rightarrow> web_reply \<times> access_db" where
  "api_create_token wc now body random_id cx ac d =
     (case wc_jwt wc of
        None \<Rightarrow> (web_error 403 ''control tokens are disabled (set SEMIDX_JWT_SECRET)'', d)
      | Some secret \<Rightarrow>
          (case body of
             None \<Rightarrow> (web_error 400 ''invalid JSON'', d)
           | Some (name0, form, ttl_days) \<Rightarrow>
               (let name = trim_space name0
                in if name = [] then (web_error 400 ''name is required'', d)
                   else case scopes_from_form form (us_role (ac_user ac)) of
                     Inl e \<Rightarrow> (web_error 400 (err_msg id e), d)
                   | Inr scopes \<Rightarrow>
                       (case mint (wc_lib wc) secret random_id (us_name (ac_user ac)) scopes
                               (control_ttl ttl_days) now of
                          Inl e \<Rightarrow> (web_error 500 ''internal error'', d)
                        | Inr m \<Rightarrow>
                            (case create_jwt_token now cx (us_id (ac_user ac)) name (mn_jti m) scopes
                                    (mn_expires m) d of
                               (Inl e, d1) \<Rightarrow> (web_error 500 ''could not create token'', d1)
                             | (Inr _, d1) \<Rightarrow> (web_ok 201 (Some (mn_token m)), d1))))))"

section \<open>Accounts\<close>

definition api_change_password ::
  "web_config \<Rightarrow> (string \<times> string) option \<Rightarrow> tenant_ctx option \<Rightarrow> auth_ctx \<Rightarrow> access_db \<Rightarrow>
   web_reply \<times> access_db" where
  "api_change_password wc body cx ac d =
     (case body of
        None \<Rightarrow> (web_error 400 ''invalid JSON'', d)
      | Some (old, new) \<Rightarrow>
          if wc_verify wc old (us_hash (ac_user ac)) \<noteq> Inr True
          then (web_error 400 ''current password is incorrect'', d)
          else if length new < 8 then (web_error 400 ''new password must be at least 8 characters'', d)
          else case wc_hash wc new of
            Inl e \<Rightarrow> (web_error 500 ''internal error'', d)
          | Inr h \<Rightarrow>
              (case set_user_password (us_id (ac_user ac)) h d of
                 (Inl e, d1) \<Rightarrow> (web_error 500 ''could not update password'', d1)
               | (Inr _, d1) \<Rightarrow> (web_ok 200 None, d1)))"

text \<open>\<open>strconv.Atoi\<close> with the error dropped: 0 for what is no number, the nearest bound for
  what does not fit.\<close>

definition atoi_value :: "string \<Rightarrow> int" where
  "atoi_value s =
     (let neg = has_prefix s ''-'';
          body = (if neg \<or> has_prefix s ''+'' then drop 1 s else s)
      in if body = [] then 0
         else (case digits_val 0 body of
                 None \<Rightarrow> 0
               | Some v \<Rightarrow> (let r = (if neg then - v else v) in max (- (2 ^ 63)) (min (2 ^ 63 - 1) r))))"

definition parse_list_params :: "string \<Rightarrow> string \<Rightarrow> int \<times> int" where
  "parse_list_params limit0 offset0 =
     (let limit = atoi_value limit0; offset = atoi_value offset0;
          limit1 = (if limit < 0 then 0 else limit);
          offset1 = (if offset < 0 then 0 else offset)
      in (if limit1 > 1000 then 1000 else limit1, offset1))"

definition api_list_users ::
  "(user_row list \<Rightarrow> user_row list) \<Rightarrow> string \<Rightarrow> string \<Rightarrow> access_db \<Rightarrow> (int \<times> string \<times> string \<times> bool) list http" where
  "api_list_users by_name limit0 offset0 d =
     (case parse_list_params limit0 offset0 of (limit, offset) \<Rightarrow>
        (case list_users by_name limit offset d of
           Inl e \<Rightarrow> Status_error 500 ''could not load users''
         | Inr us \<Rightarrow> Status 200 (map (\<lambda>u. (us_id u, us_name u, us_role u, us_disabled u)) us)))"

record user_body =
  ub_name :: string
  ub_password :: string
  ub_role :: string

definition api_create_user ::
  "web_config \<Rightarrow> user_body option \<Rightarrow> tenant_ctx option \<Rightarrow> auth_ctx \<Rightarrow> access_db \<Rightarrow> web_reply \<times> access_db" where
  "api_create_user wc body0 cx ac d =
     (case body0 of
        None \<Rightarrow> (web_error 400 ''invalid JSON'', d)
      | Some body \<Rightarrow>
          (let role = (if ub_role body \<noteq> ''admin'' then ''member'' else ub_role body);
               username = trim_space (ub_name body)
           in if username = [] \<or> length (ub_password body) < 8
              then (web_error 400 ''username required and password must be at least 8 characters'', d)
              else case wc_hash wc (ub_password body) of
                Inl e \<Rightarrow> (web_error 500 ''internal error'', d)
              | Inr h \<Rightarrow>
                  (case create_user username h role d of
                     (Inl e, d1) \<Rightarrow>
                       (if err_any (\<lambda>e. e = err_user_exists) e
                        then web_error 409 ''a user with that name already exists''
                        else web_error 500 ''could not create user'', d1)
                   | (Inr _, d1) \<Rightarrow> (web_ok 201 None, d1))))"

definition api_set_user_disabled ::
  "int \<Rightarrow> string \<Rightarrow> bool option \<Rightarrow> tenant_ctx option \<Rightarrow> auth_ctx \<Rightarrow> access_db \<Rightarrow> web_reply \<times> access_db" where
  "api_set_user_disabled now path_id body cx ac d =
     (case atoi path_id of
        None \<Rightarrow> (web_error 400 ''invalid user id'', d)
      | Some i \<Rightarrow>
          if i = us_id (ac_user ac) then (web_error 400 ''you cannot disable your own account'', d)
          else case body of
            None \<Rightarrow> (web_error 400 ''invalid JSON'', d)
          | Some disabled \<Rightarrow>
              (case set_user_disabled now i disabled d of
                 (Inl e, d1) \<Rightarrow>
                   (if is_not_found e then web_error 404 ''user not found''
                    else web_error 500 ''could not update user'', d1)
               | (Inr _, d1) \<Rightarrow> (web_ok 200 None, d1)))"

section \<open>What a handler behind the checks may rely on\<close>

text \<open>\<open>live s now h u\<close>: the session with hash \<open>h\<close> is in force and belongs to \<open>u\<close>.\<close>

locale session_backend = tenancy "wb_tenants st" "wb_spaces st" member owns
  for st :: "'s session_store" and member owns +
  fixes live :: "'s \<Rightarrow> int \<Rightarrow> string \<Rightarrow> user \<Rightarrow> bool"
  assumes session_live: "wb_session st now h s = Inr u \<Longrightarrow> live s now h u"

definition admitted ::
  "web_config \<Rightarrow> 's session_store \<Rightarrow> ('s \<Rightarrow> int \<Rightarrow> string \<Rightarrow> user \<Rightarrow> bool) \<Rightarrow> ('s \<Rightarrow> int \<Rightarrow> int \<Rightarrow> bool) \<Rightarrow>
   ('s \<Rightarrow> int \<Rightarrow> int \<Rightarrow> bool) \<Rightarrow> int \<Rightarrow> string \<Rightarrow> web_request \<Rightarrow> 's \<Rightarrow> tenant_ctx option \<Rightarrow> auth_ctx \<Rightarrow> bool" where
  "admitted wc st live member owns now role rq s cx ac \<longleftrightarrow>
     wr_cookie rq = Some (ac_session ac) \<and> ac_csrf ac = wc_hmac wc (ac_session ac) \<and> live s now (wc_sha wc (ac_session ac)) (ac_user ac) \<and>
     (wr_method rq \<in> {''GET'', ''HEAD''} \<or>
      (if wr_form rq = [] then wr_csrf rq else wr_form rq) = wc_hmac wc (ac_session ac)) \<and>
     (role = ''admin'' \<longrightarrow> us_role (ac_user ac) = ''admin'') \<and>
     (case cx of
        None \<Rightarrow> wb_tenants st = None
      | Some tc \<Rightarrow>
          tc_id tc > 0 \<and> tc_user tc = us_id (ac_user ac) \<and>
          (if trim_space (wr_tenant rq) = [] then tc_id tc = default_tenant
           else us_role (ac_user ac) = ''admin'' \<or> member s (us_id (ac_user ac)) (tc_id tc)) \<and>
          (if wb_spaces st = None then tc_workspace tc = 0 else owns s (tc_id tc) (tc_workspace tc)))"

lemma web_base_ctx_sel [simp]:
  "tc_id (web_base_ctx u) = default_tenant" "tc_user (web_base_ctx u) = us_id u"
  "tc_global (web_base_ctx u) \<longleftrightarrow> us_role u = ''admin''" "tc_workspace (web_base_ctx u) = 0"
  by (simp_all add: web_base_ctx_def)

context session_backend begin

lemma web_select_tenant_cases:
  assumes "web_select_tenant ts u rq s = Inr tc" "wb_tenants st = Some ts"
  shows "tc_user tc = us_id u" "tc_workspace tc = 0"
    "if trim_space (wr_tenant rq) = [] then tc_id tc = default_tenant
     else us_role u = ''admin'' \<or> member s (us_id u) (tc_id tc)"
  using assms access_member
  by (auto simp: web_select_tenant_def Let_def split: if_splits sum.splits)

lemma with_tenant_context_cases:
  assumes "with_tenant_context st ac rq s = Inr cx"
  shows "case cx of
        None \<Rightarrow> wb_tenants st = None
      | Some tc \<Rightarrow>
          tc_id tc > 0 \<and> tc_user tc = us_id (ac_user ac) \<and>
          (if trim_space (wr_tenant rq) = [] then tc_id tc = default_tenant
           else us_role (ac_user ac) = ''admin'' \<or> member s (us_id (ac_user ac)) (tc_id tc)) \<and>
          (if wb_spaces st = None then tc_workspace tc = 0 else owns s (tc_id tc) (tc_workspace tc))"
proof (cases "wb_tenants st")
  case None
  with assms show ?thesis by (simp add: with_tenant_context_def)
next
  case (Some ts)
  from assms Some obtain tc tc1 where
    1: "web_select_tenant ts (ac_user ac) rq s = Inr tc" and
    2: "(case wb_spaces st of None \<Rightarrow> Inr tc | Some ws \<Rightarrow> web_select_workspace ws tc rq s) = Inr tc1" and
    3: "tc_id tc1 > 0" "cx = Some tc1"
    unfolding with_tenant_context_def by (auto split: sum.splits)
  note tc = web_select_tenant_cases [OF 1 Some]
  show ?thesis
  proof (cases "wb_spaces st")
    case None
    with 2 3 tc show ?thesis by auto
  next
    case (Some ws)
    with 2 obtain w where
      w: "wp_by_slug ws (Some tc) (if trim_space (wr_workspace rq) = [] then ''default'' else trim_space (wr_workspace rq)) s = Inr w"
      and tc1: "tc1 = tc\<lparr>tc_workspace := ws_id w, tc_ws_slug := ws_slug w\<rparr>"
      by (auto simp: web_select_workspace_def Let_def split: if_splits sum.splits)
    from space_owned [OF Some w] 3 tc1 have "owns s (tc_id tc) (ws_id w)" by simp
    with Some tc 3 tc1 show ?thesis by simp
  qed
qed

lemma protect_grants:
  assumes "protect wc st now role fn rq s = (Ran r, s1)"
  obtains cx ac where "admitted wc st live member owns now role rq s cx ac" "fn cx ac s = (r, s1)"
proof -
  from assms obtain ac cx where
    1: "resolve_auth_ctx wc st now rq s = Inr ac" and
    2: "wr_method rq \<noteq> ''GET'' \<longrightarrow> wr_method rq \<noteq> ''HEAD'' \<longrightarrow> valid_csrf rq ac"
    "role = ''admin'' \<longrightarrow> us_role (ac_user ac) = ''admin''" and
    3: "with_tenant_context st ac rq s = Inr cx" and 4: "fn cx ac s = (r, s1)"
    unfolding protect_def by (auto split: if_splits sum.splits prod.splits)
  from 1 have ac: "wr_cookie rq = Some (ac_session ac)" "ac_csrf ac = wc_hmac wc (ac_session ac)"
    "live s now (wc_sha wc (ac_session ac)) (ac_user ac)"
    by (auto simp: resolve_auth_ctx_def split: option.splits sum.splits intro: session_live)
  have "admitted wc st live member owns now role rq s cx ac"
    unfolding admitted_def
    using ac 2 with_tenant_context_cases [OF 3] by (auto simp: valid_csrf_def Let_def split: option.splits)
  from this 4 show ?thesis by (rule that)
qed

end

definition pg_session_store ::
  "(tenant list \<Rightarrow> tenant list) \<Rightarrow> (workspace list \<Rightarrow> workspace list) \<Rightarrow> access_db session_store" where
  "pg_session_store tns wss =
     \<lparr>wb_session = session_user, wb_tenants = Some (pg_tenant_store tns), wb_spaces = Some (pg_workspace_store wss)\<rparr>"

definition session_live_in :: "access_db \<Rightarrow> int \<Rightarrow> string \<Rightarrow> user \<Rightarrow> bool" where
  "session_live_in d now h u \<longleftrightarrow>
     (\<exists>x\<in>set (ad_sessions d). \<exists>r\<in>set (ad_users d). sr_hash x = h \<and> sr_user x = ur_id r \<and> now < sr_expires x \<and>
        ur_disabled r = None \<and> u = scan_user r)"

interpretation pg_web: session_backend "pg_session_store tns wss" is_member owns_space session_live_in for tns wss
proof
  fix now h s u assume "wb_session (pg_session_store tns wss) now h s = Inr u"
  then obtain x r where
    r: "find (\<lambda>(x, r). ur_id r = sr_user x \<and> sr_hash x = h \<and> sr_expires x > now \<and> ur_disabled r = None)
          (List.product (ad_sessions s) (ad_users s)) = Some (x, r)" "u = scan_user r"
    by (auto simp: pg_session_store_def session_user_def split: option.splits)
  from find_SomeD [OF r(1)] r(2) show "session_live_in s now h u"
    unfolding session_live_in_def by (auto intro!: bexI [of _ x] bexI [of _ r])
qed (auto simp: pg_session_store_def intro: pg_tenancy.access_member pg_tenancy.space_owned)

end
