(* ===== verification/AccessFlow.thy ===== *)
theory AccessFlow
  imports WebAuth
begin

text \<open>
  Histories of the identity tables: every operation of the server that changes users, tokens,
  sessions, tenants, memberships or workspaces, as the steps of one relation.  Requests go through
  the checks of \<open>WebAuth\<close> and \<open>ServerAuth\<close>; a login is two steps, since the limiter is only
  locked inside its operations, so logins interleave.  Three fields of the state only serve the
  proofs: the signed claims of the control tokens that were handed out, the logins of each name that
  were answered with 401 since its last successful one, and the most logins that ever ran at the same time.
\<close>

section \<open>Calls\<close>

record deployment =
  dp_web :: web_config
  dp_tenants :: "tenant list \<Rightarrow> tenant list"
  dp_spaces :: "workspace list \<Rightarrow> workspace list"
  dp_lower :: "string \<Rightarrow> string"

definition api_server :: "deployment \<Rightarrow> access_db auth_server" where
  "api_server dp =
     \<lparr>as_store = pg_auth_store (dp_tenants dp) (dp_spaces dp), as_jwt = wc_jwt (dp_web dp),
      as_lib = wc_lib (dp_web dp), as_sha = wc_sha (dp_web dp)\<rparr>"

definition web_store :: "deployment \<Rightarrow> access_db session_store" where
  "web_store dp = pg_session_store (dp_tenants dp) (dp_spaces dp)"

text \<open>The routes of the web administration that write to the identity tables, with the decoded
  bodies and the random values they draw; every other route is \<open>Read_page\<close>.\<close>

datatype web_call =
    Logout
  | Create_key "(string \<times> string list) option" "string result"
  | Revoke_key string
  | Create_control "(string \<times> string list \<times> int) option" "string result"
  | Revoke_control string
  | Change_password "(string \<times> string) option"
  | Create_account "user_body option"
  | Set_disabled string "bool option"
  | Read_page string string

fun web_route :: "web_call \<Rightarrow> string \<times> string" where
  "web_route Logout = (''POST'', [])"
| "web_route (Create_key b x) = (''POST'', [])"
| "web_route (Revoke_key i) = (''DELETE'', [])"
| "web_route (Create_control b x) = (''POST'', [])"
| "web_route (Revoke_control i) = (''DELETE'', [])"
| "web_route (Change_password b) = (''POST'', [])"
| "web_route (Create_account b) = (''POST'', ''admin'')"
| "web_route (Set_disabled i b) = (''POST'', ''admin'')"
| "web_route (Read_page http_method role) = (http_method, role)"

fun run_web ::
  "web_config \<Rightarrow> int \<Rightarrow> web_call \<Rightarrow> tenant_ctx option \<Rightarrow> auth_ctx \<Rightarrow> access_db \<Rightarrow> web_reply \<times> access_db" where
  "run_web wc now Logout cx ac d = api_logout wc cx ac d"
| "run_web wc now (Create_key b x) cx ac d = api_create_key wc now b x cx ac d"
| "run_web wc now (Revoke_key i) cx ac d = api_revoke_key now i cx ac d"
| "run_web wc now (Create_control b x) cx ac d = api_create_token wc now b x cx ac d"
| "run_web wc now (Revoke_control i) cx ac d = api_revoke_token now i cx ac d"
| "run_web wc now (Change_password b) cx ac d = api_change_password wc b cx ac d"
| "run_web wc now (Create_account b) cx ac d = api_create_user wc b cx ac d"
| "run_web wc now (Set_disabled i b) cx ac d = api_set_user_disabled now i b cx ac d"
| "run_web wc now (Read_page http_method role) cx ac d = (web_ok 200 None, d)"

text \<open>The claims signed by a successful creation of a control token.\<close>

fun signed_claims :: "web_config \<Rightarrow> int \<Rightarrow> web_call \<Rightarrow> auth_ctx \<Rightarrow> web_reply \<Rightarrow> claims list" where
  "signed_claims wc now (Create_control (Some (name, form, days)) (Inr jti)) ac r =
     (if wy_status r = 201
      then [new_claims (wc_lib wc) (us_name (ac_user ac)) (normalize_scopes form) (control_ttl days) now jti]
      else [])"
| "signed_claims wc now call ac r = []"

definition web_handler ::
  "web_config \<Rightarrow> int \<Rightarrow> web_call \<Rightarrow> tenant_ctx option \<Rightarrow> auth_ctx \<Rightarrow> access_db \<Rightarrow>
   (web_reply \<times> claims list) \<times> access_db" where
  "web_handler wc now call cx ac d =
     (case run_web wc now call cx ac d of (r, d1) \<Rightarrow> ((r, signed_claims wc now call ac r), d1))"

definition web_call_run ::
  "deployment \<Rightarrow> int \<Rightarrow> web_request \<Rightarrow> web_call \<Rightarrow> access_db \<Rightarrow> (web_reply \<times> claims list) gate \<times> access_db" where
  "web_call_run dp now rq call d =
     (case web_route call of (http_method, role) \<Rightarrow>
        protect (dp_web dp) (web_store dp) now role (web_handler (dp_web dp) now call)
          (rq\<lparr>wr_method := http_method\<rparr>) d)"

text \<open>The API: the two routes that write to the identity tables, and the others by their scope.  The
  handlers of the others are components of their own; what they are given here is the context and the
  scopes they run with, and that is their answer.\<close>

datatype api_call =
    Create_tenant "(string \<times> string) option"
  | Create_space "(string \<times> string) option"
  | Use_api string

datatype api_reply =
    Replied nat
  | Served "tenant_ctx option" "string list"

fun api_scope :: "api_call \<Rightarrow> string" where
  "api_scope (Create_tenant b) = ''admin''"
| "api_scope (Create_space b) = ''admin''"
| "api_scope (Use_api scope) = scope"

fun run_api ::
  "deployment \<Rightarrow> int \<Rightarrow> api_call \<Rightarrow> tenant_ctx option \<Rightarrow> string list \<Rightarrow> access_db \<Rightarrow> api_reply \<times> access_db" where
  "run_api dp now (Create_tenant b) cx scopes d =
     (case handle_create_tenant (pg_auth_store (dp_tenants dp) (dp_spaces dp)) (dp_lower dp) now b cx d of
        (Status_error c m, d1) \<Rightarrow> (Replied c, d1) | (Status c t, d1) \<Rightarrow> (Replied c, d1))"
| "run_api dp now (Create_space b) cx scopes d =
     (case handle_create_workspace (pg_auth_store (dp_tenants dp) (dp_spaces dp)) (dp_lower dp) now b cx d of
        (Status_error c m, d1) \<Rightarrow> (Replied c, d1) | (Status c t, d1) \<Rightarrow> (Replied c, d1))"
| "run_api dp now (Use_api scope) cx scopes d = (Served cx scopes, d)"

definition api_call_run ::
  "deployment \<Rightarrow> int \<Rightarrow> api_request \<Rightarrow> api_call \<Rightarrow> access_db \<Rightarrow> api_reply gate \<times> access_db" where
  "api_call_run dp now rq call d = authed (api_server dp) now (api_scope call) (run_api dp now call) rq d"

section \<open>Steps\<close>

record access_world =
  aw_now :: int
  aw_db :: access_db
  aw_tries :: limiter
  aw_pending :: "(nat \<times> login_body \<times> int) list"
  aw_claims :: "claims list"
  aw_failures :: "(string \<times> int) list"
  aw_peak :: nat

datatype access_event =
    Elapse nat
  | Login_begin nat login_body
  | Login_end nat "string result"
  | Reap
  | Web web_request web_call
  | Api api_request api_call
  | Boot_token string "string result"
  | Boot_admin string string

definition gate_claims :: "(web_reply \<times> claims list) gate \<Rightarrow> claims list" where
  "gate_claims g = (case g of Ran (r, cs) \<Rightarrow> cs | Denied c m \<Rightarrow> [])"

text \<open>What the client sees of a login, whatever the limiter makes of it: an answer 401 is a failed
  login of the name at the time it started, an answer 200 a successful one.\<close>

definition note_failure :: "web_reply \<Rightarrow> string \<Rightarrow> int \<Rightarrow> (string \<times> int) list \<Rightarrow> (string \<times> int) list" where
  "note_failure r key at fs =
     (if wy_status r = 401 then (key, at) # fs
      else if wy_status r = 200 then filter (\<lambda>f. fst f \<noteq> key) fs
      else fs)"

inductive access_step :: "deployment \<Rightarrow> access_world \<Rightarrow> access_event \<Rightarrow> access_world \<Rightarrow> bool" for dp where
  elapse: "access_step dp w (Elapse dt) (w\<lparr>aw_now := aw_now w + int dt\<rparr>)"
| login_begin:
    "\<lbrakk>i \<notin> fst ` set (aw_pending w); limiter_allowed (trim_space (lb_user body)) (aw_now w) (aw_tries w) = (True, l)\<rbrakk> \<Longrightarrow>
     access_step dp w (Login_begin i body)
       (w\<lparr>aw_tries := l, aw_pending := (i, body, aw_now w) # aw_pending w,
          aw_peak := max (aw_peak w) (Suc (length (aw_pending w)))\<rparr>)"
| login_refused:
    "limiter_allowed (trim_space (lb_user body)) (aw_now w) (aw_tries w) = (False, l) \<Longrightarrow>
     access_step dp w (Login_begin i body) (w\<lparr>aw_tries := l\<rparr>)"
| login_end:
    "\<lbrakk>(i, body, at) \<in> set (aw_pending w); login_finish (dp_web dp) at body x (aw_db w) = (r, v, d)\<rbrakk> \<Longrightarrow>
     access_step dp w (Login_end i x)
       (w\<lparr>aw_db := d, aw_tries := settle v (trim_space (lb_user body)) at (aw_tries w),
          aw_pending := filter (\<lambda>p. fst p \<noteq> i) (aw_pending w),
          aw_failures := note_failure r (trim_space (lb_user body)) at (aw_failures w)\<rparr>)"
| reap: "access_step dp w Reap (w\<lparr>aw_tries := limiter_reap (aw_now w) (aw_tries w)\<rparr>)"
| web:
    "web_call_run dp (aw_now w) rq call (aw_db w) = (g, d) \<Longrightarrow>
     access_step dp w (Web rq call) (w\<lparr>aw_db := d, aw_claims := gate_claims g @ aw_claims w\<rparr>)"
| api:
    "api_call_run dp (aw_now w) rq call (aw_db w) = (g, d) \<Longrightarrow>
     access_step dp w (Api rq call) (w\<lparr>aw_db := d\<rparr>)"
| boot_token:
    "ensure_bootstrap_token (wc_sha (dp_web dp)) x (aw_now w) None tok (aw_db w) = (r, d) \<Longrightarrow>
     access_step dp w (Boot_token tok x) (w\<lparr>aw_db := d\<rparr>)"
| boot_admin:
    "ensure_bootstrap_admin (wc_hash (dp_web dp)) name pw (aw_db w) = (r, d) \<Longrightarrow>
     access_step dp w (Boot_admin name pw) (w\<lparr>aw_db := d\<rparr>)"

inductive_cases access_stepE: "access_step dp w e w'"

inductive access_run :: "deployment \<Rightarrow> access_world \<Rightarrow> access_event list \<Rightarrow> access_world \<Rightarrow> bool" for dp where
  run_nil: "access_run dp w [] w"
| run_cons: "\<lbrakk>access_step dp w e w1; access_run dp w1 es w2\<rbrakk> \<Longrightarrow> access_run dp w (e # es) w2"

definition access_start :: "int \<Rightarrow> access_world" where
  "access_start now =
     \<lparr>aw_now = now, aw_db = fresh_access now, aw_tries = Map.empty, aw_pending = [], aw_claims = [],
      aw_failures = [], aw_peak = 0\<rparr>"

definition access_reachable :: "deployment \<Rightarrow> access_world \<Rightarrow> bool" where
  "access_reachable dp w \<longleftrightarrow> (\<exists>now es. access_run dp (access_start now) es w)"

section \<open>What the statements leave alone\<close>

text \<open>Rows are only appended; the parts below of a row never change.\<close>

definition token_core :: "token_row \<Rightarrow> int \<times> int \<times> int option \<times> string \<times> string list \<times> int option" where
  "token_core r = (tr_id r, tr_tenant r, tr_user r, tr_hash r, tr_scopes r, tr_expires r)"

definition user_core :: "user_row \<Rightarrow> int \<times> string \<times> string" where
  "user_core r = (ur_id r, ur_name r, ur_role r)"

definition token_cores where "token_cores d = map token_core (ad_tokens d)"

definition user_cores where "user_cores d = map user_core (ad_users d)"

definition revoked_ids :: "access_db \<Rightarrow> int set" where
  "revoked_ids d = tr_id ` {r \<in> set (ad_tokens d). tr_revoked r \<noteq> None}"

named_theorems access_frame \<open>what a statement leaves alone\<close>

lemma update_token_cores:
  assumes "\<And>r. token_core (f r) = token_core r"
  shows "token_cores (d\<lparr>ad_tokens := map (\<lambda>r. if P r then f r else r) (ad_tokens d)\<rparr>) = token_cores d"
  using assms by (simp add: token_cores_def)

lemma token_update_cores [simp]:
  "token_core (r\<lparr>tr_used := x\<rparr>) = token_core r" "token_core (r\<lparr>tr_revoked := x\<rparr>) = token_core r"
  by (simp_all add: token_core_def)

lemma user_update_cores [simp]:
  "user_core (r\<lparr>ur_hash := h\<rparr>) = user_core r" "user_core (r\<lparr>ur_disabled := x\<rparr>) = user_core r"
  by (simp_all add: user_core_def)

lemma update_user_cores:
  assumes "\<And>r. user_core (f r) = user_core r" shows "user_cores (update_user i f d) = user_cores d"
  using assms by (simp add: user_cores_def update_user_def)

lemma update_user_tokens [simp]:
  "ad_tokens (update_user i f d) = ad_tokens d" "token_cores (update_user i f d) = token_cores d"
  "revoked_ids (update_user i f d) = revoked_ids d" "ad_sessions (update_user i f d) = ad_sessions d"
  by (simp_all add: update_user_def token_cores_def revoked_ids_def)

lemma frame_sel [simp]:
  "token_cores (d\<lparr>ad_sessions := x\<rparr>) = token_cores d" "user_cores (d\<lparr>ad_sessions := x\<rparr>) = user_cores d"
  "user_cores (d\<lparr>ad_tokens := y\<rparr>) = user_cores d" "revoked_ids (d\<lparr>ad_sessions := x\<rparr>) = revoked_ids d"
  "token_cores (d\<lparr>ad_members := m\<rparr>) = token_cores d" "user_cores (d\<lparr>ad_members := m\<rparr>) = user_cores d"
  "revoked_ids (d\<lparr>ad_members := m\<rparr>) = revoked_ids d"
  "token_cores (d\<lparr>ad_user_seq := i\<rparr>) = token_cores d" "user_cores (d\<lparr>ad_user_seq := i\<rparr>) = user_cores d"
  "revoked_ids (d\<lparr>ad_user_seq := i\<rparr>) = revoked_ids d"
  "token_cores (d\<lparr>ad_token_seq := i\<rparr>) = token_cores d" "user_cores (d\<lparr>ad_token_seq := i\<rparr>) = user_cores d"
  "revoked_ids (d\<lparr>ad_token_seq := i\<rparr>) = revoked_ids d"
  "token_cores (d\<lparr>ad_users := us\<rparr>) = token_cores d" "revoked_ids (d\<lparr>ad_users := us\<rparr>) = revoked_ids d"
  by (simp_all add: token_cores_def user_cores_def revoked_ids_def)

text \<open>\<open>settled d d'\<close>: nothing but sequences, sessions, passwords, disabling, revocations and times
  of use changed, and no revocation was taken back.\<close>

definition settled :: "access_db \<Rightarrow> access_db \<Rightarrow> bool" where
  "settled d d' \<longleftrightarrow> token_cores d' = token_cores d \<and> user_cores d' = user_cores d \<and> revoked_ids d \<subseteq> revoked_ids d'"

lemma settled_refl [simp, intro]: "settled d d"
  by (simp add: settled_def)

lemma settled_trans: "\<lbrakk>settled d d1; settled d1 d2\<rbrakk> \<Longrightarrow> settled d d2"
  by (auto simp: settled_def)

lemma update_token_settled:
  assumes "\<And>r. token_core (f r) = token_core r" "\<And>r. tr_revoked r \<noteq> None \<Longrightarrow> tr_revoked (f r) \<noteq> None"
  shows "settled d (d\<lparr>ad_tokens := map (\<lambda>r. if P r then f r else r) (ad_tokens d)\<rparr>)"
proof -
  let ?g = "\<lambda>r. if P r then f r else r"
  have "i \<in> revoked_ids (d\<lparr>ad_tokens := map ?g (ad_tokens d)\<rparr>)" if i: "i \<in> revoked_ids d" for i
  proof -
    from i obtain r where r: "r \<in> set (ad_tokens d)" "tr_revoked r \<noteq> None" "i = tr_id r"
      by (auto simp: revoked_ids_def)
    have "tr_id (?g r) = i" "tr_revoked (?g r) \<noteq> None"
      using assms(1) [of r] assms(2) [of r] r by (auto simp: token_core_def)
    with r(1) show ?thesis unfolding revoked_ids_def by (intro image_eqI [of _ _ "?g r"]) auto
  qed
  then show ?thesis by (auto simp: settled_def update_token_cores [OF assms(1)])
qed

lemma statements_settled [access_frame]:
  "settled d (snd (token_by_hash now h d))"
  "settled d (snd (revoke_user_token now cx u i d))"
  "settled d (snd (create_session now h u e d))"
  "settled d (delete_session h d)"
  "settled d (snd (set_user_password i h d))"
  "settled d (snd (set_user_disabled now i b d))"
  by (auto simp: token_by_hash_def revoke_user_token_def create_session_def delete_session_def
    set_user_password_def set_user_disabled_def Let_def settled_def [of d "update_user _ _ _"]
    settled_def [of d "ad_sessions_update _ _"] update_user_cores
    intro!: update_token_settled split: option.splits)

lemma frame_tenancy [simp]:
  "settled d (d\<lparr>ad_tenants := t, ad_tenant_seq := i\<rparr>)" "settled d (d\<lparr>ad_tenant_seq := i\<rparr>)"
  "settled d (d\<lparr>ad_tenant_seq := i, ad_tenants := t\<rparr>)"
  "settled d (d\<lparr>ad_space_seq := i\<rparr>)" "settled d (d\<lparr>ad_space_seq := i, ad_spaces := ws\<rparr>)"
  "settled d (d\<lparr>ad_members := m\<rparr>)" "settled d (d\<lparr>ad_token_seq := i\<rparr>)" "settled d (d\<lparr>ad_user_seq := i\<rparr>)"
  by (simp_all add: settled_def token_cores_def user_cores_def revoked_ids_def)

lemma tenancy_settled [access_frame]:
  "settled d (snd (upsert_membership m d))" "settled d (snd (insert_workspace now t slug name d))"
  by (simp_all add: upsert_membership_def insert_workspace_def Let_def split: sum.splits)

lemma grant_owner_settled [access_frame]: "settled d (snd (grant_owner cx t d))"
  using tenancy_settled(1) [of d]
  by (auto simp: grant_owner_def split: option.splits prod.splits sum.splits) (metis snd_conv)+

lemma create_workspace_settled [access_frame]: "settled d (snd (create_workspace now cx slug name d))"
  using tenancy_settled(2) [of d now "tenant_id cx" slug name]
  by (auto simp: create_workspace_def split: prod.splits sum.splits)

lemma create_tenant_settled [access_frame]: "settled d (snd (create_tenant now cx slug name d))"
proof -
  let ?t = "\<lparr>tn_id = ad_tenant_seq d, tn_slug = slug, tn_name = name, tn_created = now\<rparr>"
  let ?d1 = "d\<lparr>ad_tenant_seq := ad_tenant_seq d + 1, ad_tenants := ad_tenants d @ [?t]\<rparr>"
  obtain r d2 where
    1: "insert_workspace now (ad_tenant_seq d) ''default'' ''Default workspace'' ?d1 = (r, d2)" by fastforce
  have "settled ?d1 d2"
    using tenancy_settled(2) [of ?d1 now "ad_tenant_seq d" "''default''" "''Default workspace''"] unfolding 1 by simp
  with frame_tenancy(3) have 2: "settled d d2" by (rule settled_trans)
  then have 3: "settled d (snd (grant_owner cx ?t d2))" using grant_owner_settled by (rule settled_trans)
  show ?thesis unfolding create_tenant_def Let_def using 1 2 3 by (auto split: sum.splits)
qed

text \<open>\<open>quiet d d'\<close>: settled, and the integrity is kept.\<close>

definition quiet :: "access_db \<Rightarrow> access_db \<Rightarrow> bool" where
  "quiet d d' \<longleftrightarrow> settled d d' \<and> (access_wf d \<longrightarrow> access_wf d')"

lemma quiet_refl [simp, intro]: "quiet d d"
  by (simp add: quiet_def)

lemma quiet_trans: "\<lbrakk>quiet d d1; quiet d1 d2\<rbrakk> \<Longrightarrow> quiet d d2"
  using settled_trans by (auto simp: quiet_def)

lemma quiet_sndI: "\<lbrakk>settled d (snd p); access_wf d \<Longrightarrow> access_wf (snd p); p = (r, d1)\<rbrakk> \<Longrightarrow> quiet d d1"
  by (simp add: quiet_def)

lemma statements_quiet:
  "token_by_hash now h d = (r, d1) \<Longrightarrow> quiet d d1"
  "revoke_user_token now cx u i d = (r2, d1) \<Longrightarrow> quiet d d1"
  "create_session now h u e d = (r2, d1) \<Longrightarrow> quiet d d1"
  "set_user_password i h d = (r2, d1) \<Longrightarrow> quiet d d1"
  "set_user_disabled now i b d = (r2, d1) \<Longrightarrow> quiet d d1"
  "create_tenant now cx slug name d = (r3, d1) \<Longrightarrow> quiet d d1"
  "create_workspace now cx slug name d = (r4, d1) \<Longrightarrow> quiet d d1"
  by (erule quiet_sndI [rotated 2], simp_all add: access_frame go_inv)+

lemma delete_session_quiet: "quiet d (delete_session h d)"
  by (simp add: quiet_def access_frame go_inv)

lemma insert_token_Inl:
  assumes "insert_token now cx u n h sc k e d = (Inl err, d1)" shows "quiet d d1"
proof -
  have "settled d d1" using assms by (auto simp: insert_token_def Let_def split: if_splits)
  moreover have "access_wf d \<longrightarrow> access_wf d1"
    using insert_token_wf [of d now cx u n h sc k e] assms by auto
  ultimately show ?thesis by (simp add: quiet_def)
qed

lemma create_user_Inl:
  assumes "create_user n h role d = (Inl err, d1)" shows "quiet d d1"
proof -
  have "settled d d1" using assms by (auto simp: create_user_def Let_def split: if_splits)
  moreover have "access_wf d \<longrightarrow> access_wf d1"
    using user_statements_wf(1) [of d n h role] assms by auto
  ultimately show ?thesis by (simp add: quiet_def)
qed

text \<open>\<open>grown d d' ts us\<close>: the rows \<open>ts\<close> and \<open>us\<close> were appended.\<close>

definition grown where
  "grown d d' ts us \<longleftrightarrow> token_cores d' = token_cores d @ ts \<and> user_cores d' = user_cores d @ us \<and>
     revoked_ids d \<subseteq> revoked_ids d' \<and> (access_wf d \<longrightarrow> access_wf d')"

lemma quiet_grown: "quiet d d' \<longleftrightarrow> grown d d' [] []"
  by (auto simp: quiet_def settled_def grown_def)

lemma insert_token_Inr:
  assumes "insert_token now cx u n h sc k e d = (Inr i, d1)"
  shows "grown d d1 [(i, tenant_id cx, u, h, sc, e)] []"
  using assms insert_token_wf [of d now cx u n h sc k e]
  by (auto simp: insert_token_def Let_def grown_def token_cores_def user_cores_def revoked_ids_def token_core_def
    split: if_splits)

lemma create_user_Inr:
  assumes "create_user n h role d = (Inr u, d1)" shows "grown d d1 [] [(us_id u, n, role)]"
  using assms user_statements_wf(1) [of d n h role]
  by (auto simp: create_user_def Let_def grown_def token_cores_def user_cores_def revoked_ids_def user_core_def
    scan_user_def split: if_splits)

lemmas token_creations = create_token_def create_user_token_def create_jwt_token_def

section \<open>What the handlers append\<close>

lemma scopes_from_form_Inr:
  assumes "scopes_from_form form role = Inr scopes"
  shows "scopes = normalize_scopes form" "set scopes \<subseteq> valid_scopes" "''admin'' \<in> set scopes \<longrightarrow> role = ''admin''"
  using assms
  by (auto simp: scopes_from_form_def validate_scopes_def Let_def find_None_iff split: option.splits sum.splits if_splits)

lemma scopes_from_form_D:
  "scopes_from_form form role = Inr scopes \<Longrightarrow> ''admin'' \<in> set scopes \<longrightarrow> role = ''admin''"
  by (rule scopes_from_form_Inr(3))

lemma scan_user_sel [simp]:
  "us_id (scan_user q) = ur_id q" "us_role (scan_user q) = ur_role q" "us_name (scan_user q) = ur_name q"
  "us_hash (scan_user q) = ur_hash q"
  by (simp_all add: scan_user_def)

lemma quiet_handlers:
  "api_revoke noun now i cx ac d = (r, d1) \<Longrightarrow> quiet d d1"
  "api_change_password wc b2 cx ac d = (r, d1) \<Longrightarrow> quiet d d1"
  "api_set_user_disabled now i b3 cx ac d = (r, d1) \<Longrightarrow> quiet d d1"
  "api_logout wc cx ac d = (r, d1) \<Longrightarrow> quiet d d1"
  by (auto simp: api_revoke_def api_change_password_def api_set_user_disabled_def api_logout_def
      delete_session_quiet split: option.splits sum.splits prod.splits if_splits dest: statements_quiet)

lemma api_create_key_effect:
  assumes "api_create_key wc now body x cx ac d = (r, d1)"
  shows "quiet d d1 \<or>
    (\<exists>i h sc. grown d d1 [(i, tenant_id cx, Some (us_id (ac_user ac)), h, sc, None)] [] \<and>
       (''admin'' \<in> set sc \<longrightarrow> us_role (ac_user ac) = ''admin''))"
  using assms
  by (auto simp: api_create_key_def Let_def token_creations split: option.splits sum.splits prod.splits if_splits
    dest!: insert_token_Inl insert_token_Inr scopes_from_form_D)

lemma api_create_token_effect:
  assumes "api_create_token wc now body x cx ac d = (r, d1)"
  shows "(wy_status r \<noteq> 201 \<and> quiet d d1) \<or>
    (\<exists>name form days jti i e. body = Some (name, form, days) \<and> x = Inr jti \<and> wy_status r = 201 \<and>
       grown d d1 [(i, tenant_id cx, Some (us_id (ac_user ac)), jti, normalize_scopes form, e)] [] \<and>
       (''admin'' \<in> set (normalize_scopes form) \<longrightarrow> us_role (ac_user ac) = ''admin''))"
proof (cases "\<exists>name form days scopes m.
    wc_jwt wc \<noteq> None \<and> body = Some (name, form, days) \<and> scopes_from_form form (us_role (ac_user ac)) = Inr scopes \<and>
    mint (wc_lib wc) (the (wc_jwt wc)) x (us_name (ac_user ac)) scopes (control_ttl days) now = Inr m \<and> trim_space name \<noteq> []")
  case False
  then show ?thesis
    using assms by (auto simp: api_create_token_def web_error_def Let_def split: option.splits sum.splits if_splits)
next
  case True
  then obtain name form days scopes m where
    1: "wc_jwt wc \<noteq> None" "body = Some (name, form, days)" "trim_space name \<noteq> []" and
    2: "scopes_from_form form (us_role (ac_user ac)) = Inr scopes" and
    3: "mint (wc_lib wc) (the (wc_jwt wc)) x (us_name (ac_user ac)) scopes (control_ttl days) now = Inr m" by blast
  note sc = scopes_from_form_Inr [OF 2]
  from 3 have x: "x = Inr (mn_jti m)" by (auto simp: mint_def split: sum.splits)
  show ?thesis
    using assms 1 2 3 sc x
    by (auto simp: api_create_token_def web_error_def web_ok_def token_creations
      split: option.splits sum.splits prod.splits dest: insert_token_Inl insert_token_Inr)
qed

lemma api_create_user_effect:
  assumes "api_create_user wc body cx ac d = (r, d1)"
  shows "quiet d d1 \<or> (\<exists>i n role. grown d d1 [] [(i, n, role)])"
  using assms
  by (auto simp: api_create_user_def Let_def split: option.splits sum.splits prod.splits if_splits
    dest: create_user_Inl create_user_Inr)

text \<open>\<open>lawful q d d' cs\<close>: new tokens belong to the account \<open>q\<close> and carry admin only if \<open>q\<close>
  does; the claims \<open>cs\<close> are those of new tokens.\<close>

definition lawful :: "user_row \<Rightarrow> access_db \<Rightarrow> access_db \<Rightarrow> claims list \<Rightarrow> bool" where
  "lawful q d d' cs \<longleftrightarrow>
     (\<exists>ts us. grown d d' ts us \<and>
        (\<forall>(i, t, u, h, sc, e)\<in>set ts. u = Some (ur_id q) \<and> (''admin'' \<in> set sc \<longrightarrow> ur_role q = ''admin'')) \<and>
        (\<forall>c\<in>set cs. \<exists>(i, t, u, h, sc, e)\<in>set ts. h = cm_id c \<and> sc = cm_scopes c))"

lemma no_token_lawful: "grown d d' [] us \<Longrightarrow> lawful q d d' []"
  unfolding lawful_def by (intro exI [of _ "[]"] exI [of _ us]) simp

lemma quiet_lawful: "quiet d d' \<Longrightarrow> lawful q d d' []"
  by (simp add: quiet_grown no_token_lawful)

lemma single_lawful:
  assumes "grown d d' [(i, t, Some (ur_id q), h, sc, e)] []" "''admin'' \<in> set sc \<longrightarrow> ur_role q = ''admin''"
    "\<And>c. c \<in> set cs \<Longrightarrow> h = cm_id c \<and> sc = cm_scopes c"
  shows "lawful q d d' cs"
  unfolding lawful_def using assms by (intro exI [of _ "[_]"] exI [of _ "[]"]) auto

lemma run_web_lawful:
  assumes "run_web wc now call cx ac d = (r, d1)" "ac_user ac = scan_user q"
  shows "lawful q d d1 (signed_claims wc now call ac r)"
proof -
  show ?thesis
  proof (cases call)
    case (Create_key b x)
    with assms api_create_key_effect [of wc now b x cx ac d r d1] have
      "quiet d d1 \<or> (\<exists>i h sc. grown d d1 [(i, tenant_id cx, Some (ur_id q), h, sc, None)] [] \<and>
         (''admin'' \<in> set sc \<longrightarrow> ur_role q = ''admin''))" by simp
    with Create_key show ?thesis
      by (auto intro: quiet_lawful single_lawful)
  next
    case (Create_control b x)
    with assms api_create_token_effect [of wc now b x cx ac d r d1] consider
      "wy_status r \<noteq> 201" "quiet d d1" |
      name form days jti i e where "b = Some (name, form, days)" "x = Inr jti" "wy_status r = 201"
        "grown d d1 [(i, tenant_id cx, Some (ur_id q), jti, normalize_scopes form, e)] []"
        "''admin'' \<in> set (normalize_scopes form) \<longrightarrow> ur_role q = ''admin''" by auto
    then show ?thesis
    proof cases
      case 1
      then have "signed_claims wc now call ac r = []"
        unfolding Create_control by (cases "(wc, now, Create_control b x, ac, r)" rule: signed_claims.cases) simp_all
      with 1 show ?thesis by (simp add: quiet_lawful)
    next
      case 2
      then show ?thesis
        unfolding Create_control by (auto intro!: single_lawful simp: new_claims_def)
    qed
  next
    case (Create_account b)
    with assms api_create_user_effect [of wc b cx ac d r d1] have
      "quiet d d1 \<or> (\<exists>i n role. grown d d1 [] [(i, n, role)])" by simp
    with Create_account show ?thesis by (auto intro: quiet_lawful no_token_lawful)
  qed (use assms(1) in \<open>auto simp: api_revoke_key_def api_revoke_token_def intro: quiet_lawful quiet_handlers\<close>)
qed

lemma pg_store_sel [simp]:
  "au_token (pg_auth_store tns wss) = token_by_hash"
  "au_tenants (pg_auth_store tns wss) = Some (pg_tenant_store tns)"
  "au_spaces (pg_auth_store tns wss) = Some (pg_workspace_store wss)"
  "ts_create (pg_tenant_store tns) = create_tenant" "wp_create (pg_workspace_store wss) = create_workspace"
  "wb_tenants (pg_session_store tns wss) = Some (pg_tenant_store tns)"
  "wb_spaces (pg_session_store tns wss) = Some (pg_workspace_store wss)"
  "wb_session (pg_session_store tns wss) = session_user"
  by (simp_all add: pg_auth_store_def pg_tenant_store_def pg_workspace_store_def pg_session_store_def)

lemma run_api_quiet: "run_api dp now call cx scopes d = (r, d1) \<Longrightarrow> quiet d d1"
  by (cases call)
    (auto simp: handle_create_tenant_def handle_create_workspace_def split: sum.splits prod.splits http.splits
      dest: statements_quiet)

lemma api_server_sel [simp]:
  "as_store (api_server dp) = pg_auth_store (dp_tenants dp) (dp_spaces dp)" "as_jwt (api_server dp) = wc_jwt (dp_web dp)"
  "as_lib (api_server dp) = wc_lib (dp_web dp)" "as_sha (api_server dp) = wc_sha (dp_web dp)"
  by (simp_all add: api_server_def)

lemma resolve_auth_quiet: "resolve_auth (api_server dp) now raw d = (r, d1) \<Longrightarrow> quiet d d1"
  by (auto simp: resolve_auth_def split: option.splits sum.splits prod.splits dest: statements_quiet)

lemma api_call_quiet:
  assumes "api_call_run dp now rq call d = (g, d2)" shows "quiet d d2"
proof (cases "bearer_token rq = []")
  case True
  with assms show ?thesis by (simp add: api_call_run_def authed_def)
next
  case False
  obtain r d1 where 1: "resolve_auth (api_server dp) now (bearer_token rq) d = (r, d1)" by fastforce
  from resolve_auth_quiet [OF this] have q: "quiet d d1" .
  have "d2 = d1 \<or> (\<exists>cx scopes r. run_api dp now call cx scopes d1 = (r, d2))"
    using assms False 1
    by (auto simp: api_call_run_def authed_def Let_def split: sum.splits option.splits if_splits prod.splits)
  then show ?thesis using q run_api_quiet quiet_trans by blast
qed

lemma web_call_lawful:
  assumes "web_call_run dp now rq call d = (g, d1)"
  shows "quiet d d1 \<and> gate_claims g = [] \<or> (\<exists>q\<in>set (ad_users d). lawful q d d1 (gate_claims g))"
proof (cases g)
  case (Denied c m)
  with assms have "d1 = d"
    by (auto simp: web_call_run_def protect_def Let_def split: prod.splits sum.splits if_splits)
  with Denied show ?thesis by (simp add: gate_claims_def)
next
  case (Ran p)
  obtain http_method role where ro: "web_route call = (http_method, role)" by fastforce
  from assms Ran ro have
    "protect (dp_web dp) (web_store dp) now role (web_handler (dp_web dp) now call) (rq\<lparr>wr_method := http_method\<rparr>) d
       = (Ran p, d1)" by (simp add: web_call_run_def)
  then obtain cx ac where
    1: "admitted (dp_web dp) (web_store dp) session_live_in is_member owns_space now role
          (rq\<lparr>wr_method := http_method\<rparr>) d cx ac" and
    2: "web_handler (dp_web dp) now call cx ac d = (p, d1)"
    unfolding web_store_def by (rule pg_web.protect_grants)
  from 1 obtain q where q: "q \<in> set (ad_users d)" "ac_user ac = scan_user q"
    by (auto simp: admitted_def session_live_in_def)
  from 2 obtain r where r: "run_web (dp_web dp) now call cx ac d = (r, d1)"
    "p = (r, signed_claims (dp_web dp) now call ac r)"
    by (auto simp: web_handler_def split: prod.splits)
  from run_web_lawful [OF r(1) q(2)] q(1) r(2) Ran show ?thesis by (auto simp: gate_claims_def)
qed

section \<open>The invariant\<close>

definition no_escalation :: "access_db \<Rightarrow> bool" where
  "no_escalation d \<longleftrightarrow>
     (\<forall>(i, t, u, h, sc, e)\<in>set (token_cores d). ''admin'' \<in> set sc \<longrightarrow>
        u = None \<or> (\<exists>n. (the u, n, ''admin'') \<in> set (user_cores d)))"

definition claims_backed :: "claims list \<Rightarrow> access_db \<Rightarrow> bool" where
  "claims_backed cs d \<longleftrightarrow>
     (\<forall>c\<in>set cs. \<exists>(i, t, u, h, sc, e)\<in>set (token_cores d). h = cm_id c \<and> sc = cm_scopes c)"

definition access_inv :: "access_world \<Rightarrow> bool" where
  "access_inv w \<longleftrightarrow> access_wf (aw_db w) \<and> no_escalation (aw_db w) \<and> claims_backed (aw_claims w) (aw_db w)"

lemma quiet_inv:
  assumes "quiet d d'" "access_wf d" "no_escalation d" "claims_backed cs d"
  shows "access_wf d' \<and> no_escalation d' \<and> claims_backed cs d'"
  using assms by (simp add: quiet_def settled_def no_escalation_def claims_backed_def)

lemma lawful_inv:
  assumes "lawful q d d' cs" "q \<in> set (ad_users d)" "access_wf d" "no_escalation d" "claims_backed cs0 d"
  shows "access_wf d' \<and> no_escalation d' \<and> claims_backed (cs @ cs0) d'"
proof -
  from assms(1) obtain ts us where g: "token_cores d' = token_cores d @ ts" "user_cores d' = user_cores d @ us"
    "access_wf d \<longrightarrow> access_wf d'" and
    ts: "\<forall>(i, t, u, h, sc, e)\<in>set ts. u = Some (ur_id q) \<and> (''admin'' \<in> set sc \<longrightarrow> ur_role q = ''admin'')" and
    cs: "\<forall>c\<in>set cs. \<exists>(i, t, u, h, sc, e)\<in>set ts. h = cm_id c \<and> sc = cm_scopes c"
    by (auto simp: lawful_def grown_def)
  from assms(2) have "(ur_id q, ur_name q, ur_role q) \<in> set (user_cores d)"
    by (auto simp: user_cores_def user_core_def)
  with assms(4) ts have "no_escalation d'"
    unfolding no_escalation_def g by fastforce
  moreover have "claims_backed (cs @ cs0) d'"
    using assms(5) cs unfolding claims_backed_def g by fastforce
  ultimately show ?thesis using g assms(3) by simp
qed

lemma login_finish_quiet:
  assumes "login_finish wc now body x d = (r, v, d1)" shows "quiet d d1"
  using assms
  by (auto simp: login_finish_def Let_def split: sum.splits if_splits prod.splits dest: statements_quiet)

lemma boot_token_inv:
  assumes "ensure_bootstrap_token sha x now cx tok d = (r, d1)" "access_wf d" "no_escalation d" "claims_backed cs d"
  shows "access_wf d1 \<and> no_escalation d1 \<and> claims_backed cs d1"
proof -
  from assms(1) consider "quiet d d1" | i h where "grown d d1 [(i, tenant_id cx, None, h, [''admin''], None)] []"
    by (auto simp: ensure_bootstrap_token_def token_creations split: if_splits sum.splits prod.splits
      dest: insert_token_Inl insert_token_Inr)
  then show ?thesis
  proof cases
    case 1
    from quiet_inv [OF this assms(2-4)] show ?thesis .
  next
    case 2
    with assms(2-4) show ?thesis by (auto simp: grown_def no_escalation_def claims_backed_def)
  qed
qed

lemma boot_admin_inv:
  assumes "ensure_bootstrap_admin ph n pw d = (r, d1)" "access_wf d" "no_escalation d" "claims_backed cs d"
  shows "access_wf d1 \<and> no_escalation d1 \<and> claims_backed cs d1"
proof -
  from assms(1) consider "quiet d d1" | i role where "grown d d1 [] [(i, n, role)]"
    by (auto simp: ensure_bootstrap_admin_def split: if_splits sum.splits prod.splits
      dest: create_user_Inl create_user_Inr)
  then show ?thesis
  proof cases
    case 1
    from quiet_inv [OF this assms(2-4)] show ?thesis .
  next
    case 2
    with assms(2-4) show ?thesis by (fastforce simp: grown_def no_escalation_def claims_backed_def)
  qed
qed

lemma access_step_inv:
  assumes "access_step dp w e w'" "access_inv w" shows "access_inv w'"
  using assms
proof cases
  case (login_end i body at x r v d)
  with assms(2) quiet_inv [OF login_finish_quiet [OF login_end(4)], where cs = "aw_claims w"] show ?thesis by (simp add: access_inv_def)
next
  case (web rq call g d)
  with assms(2) web_call_lawful [OF web(3)] quiet_inv [of "aw_db w" d] lawful_inv [of _ "aw_db w" d]
  show ?thesis by (fastforce simp: access_inv_def)
next
  case (api rq call g d)
  with assms(2) quiet_inv [OF api_call_quiet [OF api(3)], where cs = "aw_claims w"] show ?thesis by (simp add: access_inv_def)
next
  case (boot_token x tok r d)
  with assms(2) boot_token_inv show ?thesis by (fastforce simp: access_inv_def)
next
  case (boot_admin name pw r d)
  with assms(2) boot_admin_inv show ?thesis by (fastforce simp: access_inv_def)
qed (simp_all add: access_inv_def)

lemma access_run_inv:
  assumes "access_run dp w es w'" "access_inv w" shows "access_inv w'"
  using assms by (induction rule: access_run.induct) (blast dest: access_step_inv)+

lemma access_reachable_inv:
  assumes "access_reachable dp w" shows "access_inv w"
proof -
  have "access_inv (access_start now)" for now
    using fresh_access_wf [of now]
    by (simp add: access_inv_def access_start_def fresh_access_def no_escalation_def claims_backed_def token_cores_def)
  with assms access_run_inv show ?thesis unfolding access_reachable_def by blast
qed

section \<open>Running a history\<close>

fun exec_access :: "deployment \<Rightarrow> access_event \<Rightarrow> access_world \<Rightarrow> access_world option" where
  "exec_access dp (Elapse dt) w = Some (w\<lparr>aw_now := aw_now w + int dt\<rparr>)"
| "exec_access dp (Login_begin i body) w =
     (case limiter_allowed (trim_space (lb_user body)) (aw_now w) (aw_tries w) of
        (allowed, l) \<Rightarrow>
          if \<not> allowed then Some (w\<lparr>aw_tries := l\<rparr>)
          else if list_ex (\<lambda>p. fst p = i) (aw_pending w) then None
          else Some (w\<lparr>aw_tries := l, aw_pending := (i, body, aw_now w) # aw_pending w,
                       aw_peak := max (aw_peak w) (Suc (length (aw_pending w)))\<rparr>))"
| "exec_access dp (Login_end i x) w =
     (case find (\<lambda>p. fst p = i) (aw_pending w) of
        None \<Rightarrow> None
      | Some (j, body, at) \<Rightarrow>
          (case login_finish (dp_web dp) at body x (aw_db w) of
             (r, v, d) \<Rightarrow>
               Some (w\<lparr>aw_db := d, aw_tries := settle v (trim_space (lb_user body)) at (aw_tries w),
                       aw_pending := filter (\<lambda>p. fst p \<noteq> i) (aw_pending w),
                       aw_failures := note_failure r (trim_space (lb_user body)) at (aw_failures w)\<rparr>)))"
| "exec_access dp Reap w = Some (w\<lparr>aw_tries := limiter_reap (aw_now w) (aw_tries w)\<rparr>)"
| "exec_access dp (Web rq call) w =
     (case web_call_run dp (aw_now w) rq call (aw_db w) of
        (g, d) \<Rightarrow> Some (w\<lparr>aw_db := d, aw_claims := gate_claims g @ aw_claims w\<rparr>))"
| "exec_access dp (Api rq call) w =
     (case api_call_run dp (aw_now w) rq call (aw_db w) of (g, d) \<Rightarrow> Some (w\<lparr>aw_db := d\<rparr>))"
| "exec_access dp (Boot_token tok x) w =
     (case ensure_bootstrap_token (wc_sha (dp_web dp)) x (aw_now w) None tok (aw_db w) of
        (r, d) \<Rightarrow> Some (w\<lparr>aw_db := d\<rparr>))"
| "exec_access dp (Boot_admin name pw) w =
     (case ensure_bootstrap_admin (wc_hash (dp_web dp)) name pw (aw_db w) of (r, d) \<Rightarrow> Some (w\<lparr>aw_db := d\<rparr>))"

fun exec_history :: "deployment \<Rightarrow> access_event list \<Rightarrow> access_world \<Rightarrow> access_world option" where
  "exec_history dp [] w = Some w"
| "exec_history dp (e # es) w = (case exec_access dp e w of None \<Rightarrow> None | Some w1 \<Rightarrow> exec_history dp es w1)"

lemma exec_access_step: "exec_access dp e w = Some w' \<Longrightarrow> access_step dp w e w'"
proof (cases e)
  case (Login_end i x)
  assume "exec_access dp e w = Some w'"
  with Login_end obtain j body at where f: "find (\<lambda>p. fst p = i) (aw_pending w) = Some (j, body, at)"
    by (auto split: option.splits)
  from find_SomeD [OF f] have "(i, body, at) \<in> set (aw_pending w)" by auto
  with \<open>exec_access dp e w = Some w'\<close> Login_end f show ?thesis
    by (auto split: prod.splits intro: access_step.intros)
qed (auto simp: list_ex_iff split: prod.splits if_splits intro: access_step.intros)

lemma exec_history_run: "exec_history dp es w = Some w' \<Longrightarrow> access_run dp w es w'"
  by (induction es arbitrary: w) (auto split: option.splits intro: access_run.intros exec_access_step)

lemma exec_reachable: "exec_history dp es (access_start now) = Some w \<Longrightarrow> access_reachable dp w"
  unfolding access_reachable_def using exec_history_run by blast

section \<open>A deployment and a history\<close>

text \<open>A server whose digests are visible and whose JWT library signs one set of claims.\<close>

definition demo_claims :: claims where
  "demo_claims =
     \<lparr>cm_scopes = [''read''], cm_issuer = ''semidx'', cm_subject = ''root'', cm_id = ''j1'', cm_issued = 1000,
      cm_expires = Some (1000 + 86400 * 1000000000)\<rparr>"

definition demo_lib :: jwt_lib where
  "demo_lib =
     \<lparr>jl_date = (\<lambda>t. t),
      jl_sign = (\<lambda>k c. if c = demo_claims then Inr ''J'' else Inl (Plain ''refused'')),
      jl_parse = (\<lambda>k iss t raw. if raw = ''J'' \<and> t < 1000 + 86400 * 1000000000 then Inr demo_claims
                               else Inl (Plain ''token is malformed''))\<rparr>"

definition demo_deployment :: deployment where
  "demo_deployment =
     \<lparr>dp_web = \<lparr>wc_sha = (\<lambda>s. CHR ''h'' # s), wc_hmac = (\<lambda>s. CHR ''c'' # s),
                wc_verify = (\<lambda>pw h. Inr (h = CHR ''p'' # pw)), wc_hash = (\<lambda>pw. Inr (CHR ''p'' # pw)),
                wc_jwt = Some ''k'', wc_lib = demo_lib\<rparr>,
      dp_tenants = (\<lambda>ts. ts), dp_spaces = (\<lambda>ws. ws), dp_lower = (\<lambda>s. s)\<rparr>"

definition demo_page :: "string \<Rightarrow> web_request" where
  "demo_page v =
     \<lparr>wr_method = ''POST'', wr_cookie = Some v, wr_form = [], wr_csrf = CHR ''c'' # v, wr_tenant = [],
      wr_workspace = []\<rparr>"

definition demo_bearer :: "string \<Rightarrow> api_request" where
  "demo_bearer raw = \<lparr>rq_auth = ''Bearer '' @ raw, rq_tenant = [], rq_workspace = []\<rparr>"

definition demo_login :: "string \<Rightarrow> string \<Rightarrow> login_body" where
  "demo_login name pw = \<lparr>lb_user = name, lb_password = pw, lb_remember = False\<rparr>"

text \<open>An administrator logs in, creates a control token and the account of a member, who logs in,
  creates a key, and then tries two wrong passwords at the same time.\<close>

definition demo_access_events :: "access_event list" where
  "demo_access_events =
     [Boot_admin ''root'' ''secret01'',
      Boot_token ''tok0'' (Inr []),
      Login_begin 0 (demo_login ''root'' ''secret01''), Login_end 0 (Inr ''s1''),
      Web (demo_page ''s1'') (Create_control (Some (''ci'', [''read''], 1)) (Inr ''j1'')),
      Web (demo_page ''s1'') (Create_account (Some \<lparr>ub_name = ''bob'', ub_password = ''secret02'', ub_role = ''member''\<rparr>)),
      Login_begin 1 (demo_login ''bob'' ''secret02''), Login_end 1 (Inr ''s2''),
      Web (demo_page ''s2'') (Create_key (Some (''k'', [''write''])) (Inr ''x2'')),
      Login_begin 2 (demo_login ''bob'' ''a''), Login_begin 3 (demo_login ''bob'' ''b''),
      Login_end 2 (Inr []), Login_end 3 (Inr [])]"

definition demo_world :: access_world where
  "demo_world = the (exec_history demo_deployment demo_access_events (access_start 1000))"

lemma demo_defined:
  "(case exec_history demo_deployment demo_access_events (access_start 1000) of None \<Rightarrow> False | Some w \<Rightarrow> True)"
  by code_simp

lemma demo_reachable: "access_reachable demo_deployment demo_world"
proof (rule exec_reachable)
  show "exec_history demo_deployment demo_access_events (access_start 1000) = Some demo_world"
    using demo_defined by (auto simp: demo_world_def split: option.splits)
qed

end
