(* ===== verification/AccessProps.thy ===== *)
theory AccessProps
  imports AccessFlow
begin

text \<open>
  What the authentication of the server guarantees along every history of theory
  \<open>AccessFlow\<close>: who gets through to a handler and in which tenant, that revoking and disabling
  are final, that a new token works, and how many passwords can be tried.
\<close>

section \<open>Tokens in the tables\<close>

text \<open>The hash a bearer is looked up by.\<close>

definition lookup_hash :: "deployment \<Rightarrow> int \<Rightarrow> string \<Rightarrow> string" where
  "lookup_hash dp now raw =
     (case wc_jwt (dp_web dp) of
        None \<Rightarrow> wc_sha (dp_web dp) raw
      | Some secret \<Rightarrow>
          (case verify_jwt (wc_lib (dp_web dp)) secret now raw of
             Inr c \<Rightarrow> cm_id c | Inl e \<Rightarrow> wc_sha (dp_web dp) raw))"

lemma credential_hash: "credential (api_server dp) now raw h t scopes \<Longrightarrow> h = lookup_hash dp now raw"
  by (auto simp: credential_def lookup_hash_def split: option.splits sum.splits)

lemma token_by_hash_dead:
  "(\<And>r. r \<in> set (ad_tokens d) \<Longrightarrow> \<not> live_token h d r) \<Longrightarrow> token_by_hash now h d = (Inr None, d)"
  unfolding token_by_hash_def by (subst find_None_iff [THEN iffD2]) auto

lemma resolve_auth_dead:
  assumes "\<And>r. r \<in> set (ad_tokens d) \<Longrightarrow> \<not> live_token (lookup_hash dp now raw) d r"
  shows "resolve_auth (api_server dp) now raw d = (Inr None, d)"
  using token_by_hash_dead [OF assms]
  by (auto simp: resolve_auth_def lookup_hash_def split: option.splits sum.splits)

lemma api_dead:
  assumes "bearer_token rq \<noteq> []"
    "\<And>r. r \<in> set (ad_tokens d) \<Longrightarrow> \<not> live_token (lookup_hash dp now (bearer_token rq)) d r"
  shows "api_call_run dp now rq call d = (Denied 401 ''invalid token'', d)"
  using assms(1) resolve_auth_dead [OF assms(2)] by (simp add: api_call_run_def authed_def Let_def)

text \<open>Hashes are unique: the row of a hash is the only one.\<close>

lemma same_hash:
  assumes "access_wf d" "r \<in> set (ad_tokens d)" "q \<in> set (ad_tokens d)" "tr_hash r = tr_hash q" shows "r = q"
  using assms by (auto simp: access_wf_def tokens_ok_def inj_on_def distinct_map)

lemma same_id:
  assumes "access_wf d" "r \<in> set (ad_tokens d)" "q \<in> set (ad_tokens d)" "tr_id r = tr_id q" shows "r = q"
  using assms by (auto simp: access_wf_def tokens_ok_def inj_on_def distinct_map)

lemma core_row: "(i, t, u, h, sc, e) \<in> set (token_cores d) \<longleftrightarrow>
    (\<exists>r\<in>set (ad_tokens d). tr_id r = i \<and> tr_tenant r = t \<and> tr_user r = u \<and> tr_hash r = h \<and> tr_scopes r = sc \<and> tr_expires r = e)"
  by (auto simp: token_cores_def token_core_def)

section \<open>Who reaches a handler of the API\<close>

text \<open>The scopes a bearer brings: those it was signed with for a control token, else those of its row.\<close>

definition presented_scopes :: "deployment \<Rightarrow> int \<Rightarrow> string \<Rightarrow> token_row \<Rightarrow> string list" where
  "presented_scopes dp now raw row =
     (case wc_jwt (dp_web dp) of
        None \<Rightarrow> tr_scopes row
      | Some secret \<Rightarrow>
          (case verify_jwt (wc_lib (dp_web dp)) secret now raw of
             Inr c \<Rightarrow> cm_scopes c | Inl e \<Rightarrow> tr_scopes row))"

text \<open>The request is not a forgery: if its bearer verifies as a control token at all, it carries claims
  that the server has signed for a token it handed out.\<close>

definition not_forged :: "deployment \<Rightarrow> access_world \<Rightarrow> api_request \<Rightarrow> bool" where
  "not_forged dp w rq \<longleftrightarrow>
     (case wc_jwt (dp_web dp) of
        None \<Rightarrow> True
      | Some secret \<Rightarrow>
          (case verify_jwt (wc_lib (dp_web dp)) secret (aw_now w) (bearer_token rq) of
             Inr c \<Rightarrow> c \<in> set (aw_claims w) | Inl e \<Rightarrow> True))"

lemma normalized_row:
  assumes "access_wf d" "r \<in> set (ad_tokens d)" shows "normalized_tenant_id (tr_tenant r) = tr_tenant r"
proof -
  from assms have "tr_tenant r \<in> tn_id ` set (ad_tenants d)" "\<forall>t\<in>set (ad_tenants d). 0 < tn_id t"
    by (auto simp: access_wf_def tokens_ok_def tenants_ok_def exists_iff)
  then have "tr_tenant r > 0" by auto
  then show ?thesis by (simp add: normalized_tenant_id_def)
qed

lemma presented_scopes_row:
  assumes "access_inv w" "not_forged dp w rq" "row \<in> set (ad_tokens (aw_db w))"
    "tr_hash row = lookup_hash dp (aw_now w) (bearer_token rq)"
  shows "presented_scopes dp (aw_now w) (bearer_token rq) row = tr_scopes row"
proof (cases "\<exists>secret c. wc_jwt (dp_web dp) = Some secret \<and>
    verify_jwt (wc_lib (dp_web dp)) secret (aw_now w) (bearer_token rq) = Inr c")
  case True
  then obtain secret c where c: "wc_jwt (dp_web dp) = Some secret"
    "verify_jwt (wc_lib (dp_web dp)) secret (aw_now w) (bearer_token rq) = Inr c" by blast
  with assms(2) have "c \<in> set (aw_claims w)" by (simp add: not_forged_def)
  with assms(1) obtain q where q: "q \<in> set (ad_tokens (aw_db w))" "tr_hash q = cm_id c" "tr_scopes q = cm_scopes c"
    by (fastforce simp: access_inv_def claims_backed_def core_row split: prod.splits)
  from c assms(4) have "tr_hash row = cm_id c" by (simp add: lookup_hash_def)
  with assms(1,3) q same_hash [of "aw_db w" q row] have "q = row" by (simp add: access_inv_def)
  with c q(3) show ?thesis by (simp add: presented_scopes_def)
qed (auto simp: presented_scopes_def split: option.splits sum.splits)

text \<open>Who holds a row with the scope admin.\<close>

lemma admin_row_owner:
  assumes "access_inv w" "row \<in> set (ad_tokens (aw_db w))" "''admin'' \<in> set (tr_scopes row)"
  shows "tr_user row = None \<or> (\<exists>q\<in>set (ad_users (aw_db w)). tr_user row = Some (ur_id q) \<and> ur_role q = ''admin'')"
proof -
  from assms have "tr_user row = None \<or> (\<exists>n. (the (tr_user row), n, ''admin'') \<in> set (user_cores (aw_db w)))"
    by (fastforce simp: access_inv_def no_escalation_def token_cores_def token_core_def)
  then show ?thesis by (cases "tr_user row") (auto simp: user_cores_def user_core_def)
qed

text \<open>The tenant and the workspace a request ends up in.\<close>

lemma named_tenant:
  assumes "select_tenant (pg_auth_store tns wss) idn rq d = Inr (tid, slug)"
  shows "if trim_space (rq_tenant rq) = [] then tid = ai_tenant idn
    else (\<exists>t\<in>set (ad_tenants d). tn_slug t = trim_space (rq_tenant rq) \<and> tn_id t = tid) \<and>
         (tid = ai_tenant idn \<or> (ai_user idn > 0 \<and> is_member d (ai_user idn) tid))"
  using assms pg.select_tenant_allowed [OF assms]
  by (auto simp: select_tenant_def pg_tenant_store_def get_tenant_by_slug_def Let_def
    split: if_splits sum.splits option.splits dest!: find_SomeD)

lemma named_space:
  assumes "select_workspace (pg_auth_store tns wss) cx rq d = Inr (wid, wslug)"
  shows "\<exists>q\<in>set (ad_spaces d). ws_tenant q = tenant_id cx \<and> ws_id q = wid \<and>
    ws_slug q = (if trim_space (rq_workspace rq) = [] then ''default'' else trim_space (rq_workspace rq))"
  using assms
  by (auto simp: select_workspace_def pg_workspace_store_def get_workspace_by_slug_def Let_def
    split: if_splits sum.splits option.splits dest!: find_SomeD)

text \<open>What a resolved bearer stands for, with the PostgreSQL store.\<close>

lemma resolve_auth_row:
  assumes "resolve_auth (api_server dp) now raw d = (Inr (Some idn), d1)" "access_wf d"
  obtains row where "row \<in> set (ad_tokens d)" "live_token (lookup_hash dp now raw) d row"
    "ai_scopes idn = presented_scopes dp now raw row" "ai_tenant idn = tr_tenant row"
    "ai_user idn = (case tr_user row of Some u \<Rightarrow> u | None \<Rightarrow> 0)"
    "d1 = snd (token_by_hash now (lookup_hash dp now raw) d)"
proof -
  let ?h = "lookup_hash dp now raw"
  from assms(1) obtain t where t: "token_by_hash now ?h d = (Inr (Some t), d1)"
    and idn: "ai_tenant idn = normalized_tenant_id (tk_tenant t)" "ai_user idn = tk_user t"
    by (auto simp: resolve_auth_def lookup_hash_def split: option.splits sum.splits prod.splits)
  from t obtain row where f: "find (live_token ?h d) (ad_tokens d) = Some row"
    and row: "t = token_of_row (row\<lparr>tr_used := Some now\<rparr>)"
    by (auto simp: token_by_hash_def split: option.splits)
  from find_SomeD [OF f] have r: "row \<in> set (ad_tokens d)" "live_token ?h d row" by simp_all
  have sc: "ai_scopes idn = presented_scopes dp now raw row"
    using assms(1) t row
    by (auto simp: resolve_auth_def lookup_hash_def presented_scopes_def token_of_row_def
      split: option.splits sum.splits prod.splits)
  show ?thesis
    by (rule that [OF r sc]) (use idn row t normalized_row [OF assms(2) r(1)] in \<open>simp_all add: token_of_row_def\<close>)
qed

text \<open>C10: in every reachable state, a handler of the API only runs for a token that is not revoked
  and whose owner is not disabled.  The scopes it runs with are those of the token's row, or, for a
  bearer that verifies as a control token, those that were signed into it; unless the bearer is a
  forgery of the server's signature these are the scopes of the row too.  One of them is the scope of
  the route or admin, and a row has admin only if an administrator owns it or it is the bootstrap
  token.  The handler works for the owner of the row, never with the rights of a platform
  administrator: in the row's tenant if the request names none, else in the tenant it names, which is
  the row's or one its owner is a member of; and in the workspace of that tenant the request names, or
  its default one.  The tables it starts from differ from those of the state by the time of the
  token's last use only.\<close>

theorem api_access_granted:
  assumes "access_reachable dp w" "api_call_run dp (aw_now w) rq call (aw_db w) = (Ran res, d2)"
  shows "\<exists>row\<in>set (ad_tokens (aw_db w)). \<exists>scopes tc.
     tr_hash row = lookup_hash dp (aw_now w) (bearer_token rq) \<and> tr_revoked row = None \<and>
     (\<forall>u. tr_user row = Some u \<longrightarrow> \<not> user_disabled u (aw_db w)) \<and>
     scopes = presented_scopes dp (aw_now w) (bearer_token rq) row \<and>
     (not_forged dp w rq \<longrightarrow> scopes = tr_scopes row) \<and>
     (api_scope call = [] \<or> api_scope call \<in> set scopes \<or> ''admin'' \<in> set scopes) \<and>
     (''admin'' \<in> set (tr_scopes row) \<longrightarrow> tr_user row = None \<or>
        (\<exists>q\<in>set (ad_users (aw_db w)). tr_user row = Some (ur_id q) \<and> ur_role q = ''admin'')) \<and>
     tc_user tc = (case tr_user row of Some u \<Rightarrow> u | None \<Rightarrow> 0) \<and> \<not> tc_global tc \<and>
     (if trim_space (rq_tenant rq) = [] then tc_id tc = tr_tenant row
      else (\<exists>t\<in>set (ad_tenants (aw_db w)). tn_slug t = trim_space (rq_tenant rq) \<and> tn_id t = tc_id tc) \<and>
           (tc_id tc = tr_tenant row \<or> (\<exists>u. tr_user row = Some u \<and> is_member (aw_db w) u (tc_id tc)))) \<and>
     (\<exists>q\<in>set (ad_spaces (aw_db w)). ws_tenant q = tc_id tc \<and> ws_id q = tc_workspace tc \<and>
        ws_slug q = (if trim_space (rq_workspace rq) = [] then ''default'' else trim_space (rq_workspace rq))) \<and>
     run_api dp (aw_now w) call (Some tc) scopes (snd (token_by_hash (aw_now w) (tr_hash row) (aw_db w))) = (res, d2)"
proof -
  let ?d = "aw_db w" and ?raw = "bearer_token rq" and ?h = "lookup_hash dp (aw_now w) (bearer_token rq)"
  from access_reachable_inv [OF assms(1)] have inv: "access_inv w" .
  then have wf: "access_wf ?d" by (simp add: access_inv_def)
  from assms(2) [unfolded api_call_run_def] obtain idn d1 tid slug wid wslug where
    ra: "resolve_auth (api_server dp) (aw_now w) ?raw ?d = (Inr (Some idn), d1)" and
    sc: "api_scope call = [] \<or> has_scope (ai_scopes idn) (api_scope call)" and
    sel: "select_tenant (pg_auth_store (dp_tenants dp) (dp_spaces dp)) idn rq d1 = Inr (tid, slug)" and pos: "tid > 0" and
    ws: "select_workspace (pg_auth_store (dp_tenants dp) (dp_spaces dp))
           (Some ((bare_tenant tid)\<lparr>tc_slug := slug, tc_user := ai_user idn\<rparr>)) rq d1 = Inr (wid, wslug)" and
    run: "run_api dp (aw_now w) call (Some ((bare_tenant tid)\<lparr>tc_slug := slug, tc_user := ai_user idn,
            tc_workspace := wid, tc_ws_slug := wslug\<rparr>)) (ai_scopes idn) d1 = (res, d2)"
    unfolding api_server_sel(1) [of dp, symmetric] by (rule authed_RanE)
  from resolve_auth_row [OF ra wf] obtain row where row: "row \<in> set (ad_tokens ?d)" "live_token ?h ?d row"
    and idn: "ai_scopes idn = presented_scopes dp (aw_now w) ?raw row" "ai_tenant idn = tr_tenant row"
      "ai_user idn = (case tr_user row of Some u \<Rightarrow> u | None \<Rightarrow> 0)"
    and d1: "d1 = snd (token_by_hash (aw_now w) ?h ?d)" .
  from row(2) have live: "tr_hash row = ?h" "tr_revoked row = None" "\<forall>u. tr_user row = Some u \<longrightarrow> \<not> user_disabled u ?d"
    by (auto simp: live_token_def split: option.splits)
  have same: "ad_tenants d1 = ad_tenants ?d" "ad_members d1 = ad_members ?d" "ad_spaces d1 = ad_spaces ?d"
    unfolding d1 by (simp_all add: token_by_hash_def split: option.splits)
  let ?tc = "(bare_tenant tid)\<lparr>tc_slug := slug, tc_user := ai_user idn, tc_workspace := wid, tc_ws_slug := wslug\<rparr>"
  have admin: "tr_user row = None \<or> (\<exists>q\<in>set (ad_users ?d). tr_user row = Some (ur_id q) \<and> ur_role q = ''admin'')"
    if "''admin'' \<in> set (tr_scopes row)"
    using admin_row_owner [OF inv row(1) that] .
  have tenant:
    "if trim_space (rq_tenant rq) = [] then tid = tr_tenant row
     else (\<exists>t\<in>set (ad_tenants ?d). tn_slug t = trim_space (rq_tenant rq) \<and> tn_id t = tid) \<and>
          (tid = tr_tenant row \<or> (\<exists>u. tr_user row = Some u \<and> is_member ?d u tid))"
  proof (cases "trim_space (rq_tenant rq) = []")
    case True
    with named_tenant [OF sel] idn(2) show ?thesis by simp
  next
    case False
    with named_tenant [OF sel] have t: "\<exists>t\<in>set (ad_tenants ?d). tn_slug t = trim_space (rq_tenant rq) \<and> tn_id t = tid"
      "tid = tr_tenant row \<or> (ai_user idn > 0 \<and> is_member ?d (ai_user idn) tid)"
      by (simp_all add: same is_member_def idn(2))
    from t(2) idn(3) have "tid = tr_tenant row \<or> (\<exists>u. tr_user row = Some u \<and> is_member ?d u tid)"
      by (cases "tr_user row") auto
    with False t(1) show ?thesis by simp
  qed
  from named_space [OF ws] pos have space:
    "\<exists>q\<in>set (ad_spaces ?d). ws_tenant q = tid \<and> ws_id q = wid \<and>
       ws_slug q = (if trim_space (rq_workspace rq) = [] then ''default'' else trim_space (rq_workspace rq))"
    unfolding same by (simp add: bare_tenant_def)
  have bare: "tc_id ?tc = tid" "tc_user ?tc = ai_user idn" "\<not> tc_global ?tc" "tc_workspace ?tc = wid"
    by (simp_all add: bare_tenant_def)
  show ?thesis
  proof (intro bexI [OF _ row(1)] exI [of _ "ai_scopes idn"] exI [of _ ?tc] conjI)
    show "not_forged dp w rq \<longrightarrow> ai_scopes idn = tr_scopes row"
      using presented_scopes_row [OF inv _ row(1) live(1)] idn(1) by simp
    show "api_scope call = [] \<or> api_scope call \<in> set (ai_scopes idn) \<or> ''admin'' \<in> set (ai_scopes idn)"
      using sc by (simp add: has_scope_def)
  qed (use live idn bare tenant space admin run d1 in auto)
qed

text \<open>The context of the example's requests: the default tenant and its workspace, for a user.\<close>

definition demo_ctx :: "int \<Rightarrow> tenant_ctx" where
  "demo_ctx u = (bare_tenant 1)\<lparr>tc_user := u, tc_workspace := 1, tc_ws_slug := ''default''\<rparr>"

theorem api_access_granted_witness:
  "fst (api_call_run demo_deployment 1000 (demo_bearer ''J'') (Use_api ''read'') (aw_db demo_world)) =
     Ran (Served (Some (demo_ctx 1)) [''read'']) \<and>
   (\<exists>row\<in>set (ad_tokens (aw_db demo_world)). tr_hash row = ''j1'' \<and> tr_revoked row = None \<and> tr_scopes row = [''read''])"
proof -
  have now: "aw_now demo_world = 1000" by code_simp
  have h: "lookup_hash demo_deployment 1000 (bearer_token (demo_bearer ''J'')) = ''j1''" by code_simp
  have g: "not_forged demo_deployment demo_world (demo_bearer ''J'')" by code_simp
  have r: "fst (api_call_run demo_deployment 1000 (demo_bearer ''J'') (Use_api ''read'') (aw_db demo_world)) =
      Ran (Served (Some (demo_ctx 1)) [''read''])" by code_simp
  then obtain d where
    "api_call_run demo_deployment (aw_now demo_world) (demo_bearer ''J'') (Use_api ''read'') (aw_db demo_world) =
       (Ran (Served (Some (demo_ctx 1)) [''read'']), d)"
    unfolding now by (metis prod.collapse)
  from api_access_granted [OF demo_reachable this] h g r show ?thesis unfolding now by fastforce
qed

section \<open>Revoked and disabled\<close>

text \<open>Rows are only appended, and no revocation is taken back.\<close>

definition appends :: "access_db \<Rightarrow> access_db \<Rightarrow> bool" where
  "appends d d' \<longleftrightarrow>
     (\<exists>ts us. token_cores d' = token_cores d @ ts \<and> user_cores d' = user_cores d @ us) \<and> revoked_ids d \<subseteq> revoked_ids d'"

lemma appendsI:
  "grown d d' ts us \<Longrightarrow> appends d d'" "quiet d d' \<Longrightarrow> appends d d'" "lawful q d d' cs \<Longrightarrow> appends d d'"
  by (auto simp: appends_def grown_def quiet_def settled_def lawful_def)

lemma appends_refl [simp, intro]: "appends d d"
  by (simp add: appends_def)

lemma appends_trans: "\<lbrakk>appends d d1; appends d1 d2\<rbrakk> \<Longrightarrow> appends d d2"
  by (auto simp: appends_def)

lemma appends_core:
  assumes "appends d d'" "r \<in> set (ad_tokens d)"
  obtains q where "q \<in> set (ad_tokens d')" "token_core q = token_core r"
proof -
  from assms have "token_core r \<in> set (token_cores d')"
    unfolding appends_def token_cores_def [of d] by auto
  then show ?thesis using that by (auto simp: token_cores_def)
qed

lemma step_appends:
  assumes "access_step dp w e w'" shows "appends (aw_db w) (aw_db w')"
  using assms
proof cases
  case (login_end i body at x r v d)
  then show ?thesis by (simp add: login_finish_quiet appendsI(2))
next
  case (web rq call g d)
  with web_call_lawful [OF web(3)] show ?thesis by (auto intro: appendsI)
next
  case (api rq call g d)
  then show ?thesis by (simp add: api_call_quiet appendsI(2))
next
  case (boot_token x tok r d)
  then show ?thesis
    by (auto simp: ensure_bootstrap_token_def token_creations split: if_splits sum.splits prod.splits
      dest!: insert_token_Inl insert_token_Inr intro: appendsI)
next
  case (boot_admin name pw r d)
  then show ?thesis
    by (auto simp: ensure_bootstrap_admin_def split: if_splits sum.splits prod.splits
      dest!: create_user_Inl create_user_Inr intro: appendsI)
qed simp_all

lemma run_appends:
  assumes "access_run dp w es w'" shows "appends (aw_db w) (aw_db w')"
  using assms by (induction rule: access_run.induct) (auto intro: step_appends appends_trans)

lemma access_run_append: "\<lbrakk>access_run dp w es w1; access_run dp w1 fs w2\<rbrakk> \<Longrightarrow> access_run dp w (es @ fs) w2"
  by (induction rule: access_run.induct) (auto intro: run_cons)

lemma reachable_run: "\<lbrakk>access_reachable dp w; access_run dp w es w'\<rbrakk> \<Longrightarrow> access_reachable dp w'"
  unfolding access_reachable_def using access_run_append by blast

text \<open>C11: a revoked token is refused for good: after any further history, at any time and on any
  route, a request that presents it is answered with 401 and changes nothing.\<close>

theorem revoked_token_refused:
  assumes "access_reachable dp w" "access_run dp w es w'"
    "row \<in> set (ad_tokens (aw_db w))" "tr_revoked row \<noteq> None"
    "bearer_token rq \<noteq> []" "lookup_hash dp now (bearer_token rq) = tr_hash row"
  shows "api_call_run dp now rq call (aw_db w') = (Denied 401 ''invalid token'', aw_db w')"
proof (rule api_dead [OF assms(5)])
  fix r assume r: "r \<in> set (ad_tokens (aw_db w'))"
  from access_reachable_inv [OF reachable_run [OF assms(1,2)]] have wf: "access_wf (aw_db w')"
    by (simp add: access_inv_def)
  from appends_core [OF run_appends [OF assms(2)] assms(3)] obtain q where
    q: "q \<in> set (ad_tokens (aw_db w'))" "tr_id q = tr_id row" "tr_hash q = tr_hash row"
    by (auto simp: token_core_def)
  from run_appends [OF assms(2)] assms(3,4) have "tr_id row \<in> revoked_ids (aw_db w')"
    by (auto simp: appends_def revoked_ids_def)
  then obtain q' where "q' \<in> set (ad_tokens (aw_db w'))" "tr_id q' = tr_id row" "tr_revoked q' \<noteq> None"
    by (auto simp: revoked_ids_def)
  with same_id [OF wf this(1) q(1)] q have "tr_revoked q \<noteq> None" by simp
  with same_hash [OF wf r q(1)] q(3) show "\<not> live_token (lookup_hash dp now (bearer_token rq)) (aw_db w') r"
    unfolding assms(6) live_token_def by auto
qed

text \<open>The member of the example revokes the key.\<close>

definition demo_revoked :: access_world where
  "demo_revoked =
     the (exec_history demo_deployment [Web (demo_page ''s2'') (Revoke_key ''3'')] demo_world)"

lemma exec_later:
  assumes "case exec_history dp es w of None \<Rightarrow> False | Some w' \<Rightarrow> True"
  shows "access_run dp w es (the (exec_history dp es w))"
  using assms by (auto split: option.splits intro: exec_history_run)

lemma demo_revoked_run: "access_run demo_deployment demo_world [Web (demo_page ''s2'') (Revoke_key ''3'')] demo_revoked"
proof -
  have "case exec_history demo_deployment [Web (demo_page ''s2'') (Revoke_key ''3'')] demo_world of
      None \<Rightarrow> False | Some w' \<Rightarrow> True" by code_simp
  from exec_later [OF this] show ?thesis by (simp only: demo_revoked_def)
qed

theorem revoked_token_refused_witness:
  "api_call_run demo_deployment 2000 (demo_bearer ''semidx_x2'') (Use_api ''write'') (aw_db demo_revoked) =
     (Denied 401 ''invalid token'', aw_db demo_revoked) \<and>
   fst (api_call_run demo_deployment 2000 (demo_bearer ''semidx_x2'') (Use_api ''write'') (aw_db demo_world)) =
     Ran (Served (Some (demo_ctx 2)) [''write''])"
proof -
  let ?row = "ad_tokens (aw_db demo_revoked) ! 2"
  have "length (ad_tokens (aw_db demo_revoked)) = 3" by code_simp
  then have row: "?row \<in> set (ad_tokens (aw_db demo_revoked))" by (simp add: nth_mem)
  have rev: "tr_revoked ?row \<noteq> None" by code_simp
  have b: "bearer_token (demo_bearer ''semidx_x2'') \<noteq> []" by code_simp
  have h: "lookup_hash demo_deployment 2000 (bearer_token (demo_bearer ''semidx_x2'')) = tr_hash ?row" by code_simp
  have before: "fst (api_call_run demo_deployment 2000 (demo_bearer ''semidx_x2'') (Use_api ''write'') (aw_db demo_world)) =
     Ran (Served (Some (demo_ctx 2)) [''write''])"
    by code_simp
  from revoked_token_refused [OF reachable_run [OF demo_reachable demo_revoked_run] run_nil row rev b h] before
  show ?thesis by blast
qed

text \<open>Who is disabled.\<close>

definition keeps_disabled :: "int \<Rightarrow> access_db \<Rightarrow> access_db \<Rightarrow> bool" where
  "keeps_disabled u d d' \<longleftrightarrow> (user_disabled u d \<longrightarrow> user_disabled u d')"

lemma keeps_disabled_refl [simp, intro]: "keeps_disabled u d d"
  by (simp add: keeps_disabled_def)

lemma keeps_disabled_trans: "\<lbrakk>keeps_disabled u d d1; keeps_disabled u d1 d2\<rbrakk> \<Longrightarrow> keeps_disabled u d d2"
  by (simp add: keeps_disabled_def)

lemma keeps_disabled_users: "ad_users d' = ad_users d \<Longrightarrow> keeps_disabled u d d'"
  by (simp add: keeps_disabled_def user_disabled_def)

lemma insert_token_users: "ad_users (snd (insert_token now cx uid name hash scopes kind e d)) = ad_users d"
  by (simp add: insert_token_def Let_def)

lemma upsert_users [simp]: "ad_users (snd (upsert_membership m d)) = ad_users d"
  by (simp add: upsert_membership_def Let_def split: sum.splits)

lemma insert_workspace_users [simp]: "ad_users (snd (insert_workspace now t slug name d)) = ad_users d"
  by (simp add: insert_workspace_def Let_def)

lemma grant_owner_users [simp]: "ad_users (snd (grant_owner cx t d)) = ad_users d"
  by (simp add: grant_owner_def split_beta split: option.splits sum.splits)

lemma create_tenant_users: "ad_users (snd (create_tenant now cx slug name d)) = ad_users d"
proof -
  let ?t = "\<lparr>tn_id = ad_tenant_seq d, tn_slug = slug, tn_name = name, tn_created = now\<rparr>"
  let ?d1 = "d\<lparr>ad_tenant_seq := ad_tenant_seq d + 1, ad_tenants := ad_tenants d @ [?t]\<rparr>"
  obtain r d2 where
    1: "insert_workspace now (ad_tenant_seq d) ''default'' ''Default workspace'' ?d1 = (r, d2)" by fastforce
  have "ad_users d2 = ad_users d"
    using insert_workspace_users [of now "ad_tenant_seq d" "''default''" "''Default workspace''" ?d1] unfolding 1 by simp
  with grant_owner_users [of cx ?t d2] 1 show ?thesis unfolding create_tenant_def Let_def by (auto split: sum.splits)
qed

lemma create_workspace_users: "ad_users (snd (create_workspace now cx slug name d)) = ad_users d"
  by (simp add: create_workspace_def split_beta split: sum.splits)

lemma update_user_keeps_disabled:
  assumes "\<And>r. ur_id (f r) = ur_id r" "i \<noteq> u \<or> (\<forall>r. ur_disabled r \<noteq> None \<longrightarrow> ur_disabled (f r) \<noteq> None)"
  shows "keeps_disabled u d (update_user i f d)"
  unfolding keeps_disabled_def
proof
  assume "user_disabled u d"
  then obtain r where r: "r \<in> set (ad_users d)" "ur_id r = u" "ur_disabled r \<noteq> None"
    by (auto simp: user_disabled_def list_ex_iff)
  let ?r = "if ur_id r = i then f r else r"
  from assms r have "ur_id ?r = u \<and> ur_disabled ?r \<noteq> None" by auto
  moreover from r(1) have "?r \<in> set (ad_users (update_user i f d))" by (auto simp: update_user_def)
  ultimately show "user_disabled u (update_user i f d)" unfolding user_disabled_def list_ex_iff by blast
qed

lemma keeps_disabled_sessions: "keeps_disabled u d d1 \<Longrightarrow> keeps_disabled u d (d1\<lparr>ad_sessions := x\<rparr>)"
  by (simp add: keeps_disabled_def user_disabled_def)

lemma keeps_sndI: "ad_users (snd p) = ad_users d \<Longrightarrow> p = (r, d1) \<Longrightarrow> keeps_disabled u d d1"
  by (simp add: keeps_disabled_users)

lemma statements_keep_disabled:
  "insert_token now cx uid name hash scopes kind e d = (r, d1) \<Longrightarrow> keeps_disabled u d d1"
  "token_by_hash now h d = (r1, d1) \<Longrightarrow> keeps_disabled u d d1"
  "revoke_user_token now cx uid' i d = (r2, d1) \<Longrightarrow> keeps_disabled u d d1"
  "create_session now h uid' e' d = (r2, d1) \<Longrightarrow> keeps_disabled u d d1"
  "create_tenant now cx slug name d = (r3, d1) \<Longrightarrow> keeps_disabled u d d1"
  "create_workspace now cx slug name d = (r4, d1) \<Longrightarrow> keeps_disabled u d d1"
  by (erule keeps_sndI [rotated], simp add: insert_token_users token_by_hash_def revoke_user_token_def
    create_session_def Let_def create_tenant_users create_workspace_users split: option.splits)+

lemma users_keep_disabled:
  "set_user_password i h d = (r2, d1) \<Longrightarrow> keeps_disabled u d d1"
  "create_user n h role d = (r5, d1) \<Longrightarrow> keeps_disabled u d d1"
  "\<lbrakk>set_user_disabled now i b d = (r2, d1); b = True \<or> i \<noteq> u\<rbrakk> \<Longrightarrow> keeps_disabled u d d1"
proof -
  show "set_user_password i h d = (r2, d1) \<Longrightarrow> keeps_disabled u d d1"
    by (auto simp: set_user_password_def Let_def intro: update_user_keeps_disabled split: if_splits)
  show "create_user n h role d = (r5, d1) \<Longrightarrow> keeps_disabled u d d1"
    by (auto simp: create_user_def Let_def keeps_disabled_def user_disabled_def list_ex_iff split: if_splits)
  show "\<lbrakk>set_user_disabled now i b d = (r2, d1); b = True \<or> i \<noteq> u\<rbrakk> \<Longrightarrow> keeps_disabled u d d1"
    by (auto simp: set_user_disabled_def Let_def intro!: update_user_keeps_disabled keeps_disabled_sessions split: if_splits)
qed

lemma run_web_keeps_disabled:
  assumes "run_web wc now call cx ac d = (r, d1)" "\<And>i. call = Set_disabled i (Some False) \<Longrightarrow> atoi i \<noteq> Some u"
  shows "keeps_disabled u d d1"
proof (cases call)
  case (Set_disabled i b)
  show ?thesis
  proof (cases "b = Some False")
    case True
    with assms Set_disabled show ?thesis
      by (auto simp: api_set_user_disabled_def split: option.splits if_splits sum.splits prod.splits
        dest: users_keep_disabled(3) [where u = u])
  next
    case False
    with assms(1) Set_disabled show ?thesis
      by (auto simp: api_set_user_disabled_def split: option.splits if_splits sum.splits prod.splits
        dest: users_keep_disabled(3) [where u = u])
  qed
qed (use assms(1) in \<open>auto simp: api_logout_def api_create_key_def api_create_token_def api_revoke_key_def
    api_revoke_token_def api_revoke_def api_change_password_def api_create_user_def token_creations Let_def
    delete_session_def keeps_disabled_users
    split: option.splits if_splits sum.splits prod.splits
    dest: statements_keep_disabled [where u = u] users_keep_disabled(1,2) [where u = u]\<close>)

lemma api_keeps_disabled:
  assumes "api_call_run dp now rq call d = (g, d2)" shows "keeps_disabled u d d2"
proof (cases "bearer_token rq = []")
  case True
  with assms show ?thesis by (simp add: api_call_run_def authed_def)
next
  case False
  obtain r d1 where 1: "resolve_auth (api_server dp) now (bearer_token rq) d = (r, d1)" by fastforce
  then have q: "keeps_disabled u d d1"
    by (auto simp: resolve_auth_def split: option.splits sum.splits prod.splits dest: statements_keep_disabled [where u = u])
  have run: "keeps_disabled u d1 d2" if "run_api dp now call cx scopes d1 = (r, d2)" for cx scopes r
    using that by (cases call)
      (auto simp: handle_create_tenant_def handle_create_workspace_def split: sum.splits prod.splits http.splits
        dest: statements_keep_disabled [where u = u])
  have "d2 = d1 \<or> (\<exists>cx scopes r. run_api dp now call cx scopes d1 = (r, d2))"
    using assms False 1
    by (auto simp: api_call_run_def authed_def Let_def split: sum.splits option.splits if_splits prod.splits)
  then show ?thesis using q run keeps_disabled_trans by blast
qed

definition enables :: "int \<Rightarrow> access_event \<Rightarrow> bool" where
  "enables u e \<longleftrightarrow> (\<exists>rq i. e = Web rq (Set_disabled i (Some False)) \<and> atoi i = Some u)"

lemma step_keeps_disabled:
  assumes "access_step dp w e w'" "\<not> enables u e" shows "keeps_disabled u (aw_db w) (aw_db w')"
  using assms(1)
proof cases
  case (login_end i body at x r v d)
  then show ?thesis
    by (auto simp: login_finish_def Let_def split: sum.splits if_splits prod.splits
      dest: statements_keep_disabled [where u = u])
next
  case (web rq call g d)
  have "keeps_disabled u (aw_db w) d"
  proof (rule ccontr)
    assume no: "\<not> keeps_disabled u (aw_db w) d"
    then have "d \<noteq> aw_db w" by auto
    with web(3) obtain cx ac r where "run_web (dp_web dp) (aw_now w) call cx ac (aw_db w) = (r, d)"
      by (auto simp: web_call_run_def protect_def web_handler_def Let_def split: prod.splits sum.splits if_splits)
    with no run_web_keeps_disabled [of _ _ _ _ _ _ _ _ u] assms(2) web(1) show False by (force simp: enables_def)
  qed
  with web show ?thesis by simp
next
  case (api rq call g d)
  then show ?thesis by (simp add: api_keeps_disabled)
next
  case (boot_token x tok r d)
  then show ?thesis
    by (auto simp: ensure_bootstrap_token_def token_creations split: if_splits sum.splits prod.splits
      dest: statements_keep_disabled [where u = u])
next
  case (boot_admin name pw r d)
  then show ?thesis
    by (auto simp: ensure_bootstrap_admin_def split: if_splits sum.splits prod.splits
      dest: users_keep_disabled(2) [where u = u])
qed simp_all

lemma run_keeps_disabled:
  assumes "access_run dp w es w'" "\<And>e. e \<in> set es \<Longrightarrow> \<not> enables u e"
  shows "keeps_disabled u (aw_db w) (aw_db w')"
  using assms by (induction rule: access_run.induct) (auto intro: step_keeps_disabled keeps_disabled_trans)

lemma disabled_no_session:
  assumes "access_wf d" "user_disabled u d" "x \<in> set (ad_sessions d)" "sr_user x = u"
  shows "session_user now (sr_hash x) d = Inl err_not_found"
proof -
  have "\<not> (ur_id r = sr_user y \<and> sr_hash y = sr_hash x \<and> now < sr_expires y \<and> ur_disabled r = None)"
    if "y \<in> set (ad_sessions d)" "r \<in> set (ad_users d)" for y r
  proof
    assume a: "ur_id r = sr_user y \<and> sr_hash y = sr_hash x \<and> now < sr_expires y \<and> ur_disabled r = None"
    from assms(1,3) that(1) a have "y = x" by (auto simp: access_wf_def sessions_ok_def distinct_map inj_on_def)
    with a assms(4) have "ur_id r = u" by simp
    moreover from assms(2) obtain q where "q \<in> set (ad_users d)" "ur_id q = u" "ur_disabled q \<noteq> None"
      by (auto simp: user_disabled_def list_ex_iff)
    ultimately have "r = q" using assms(1) that(2) by (auto simp: access_wf_def users_ok_def distinct_map inj_on_def)
    with a \<open>ur_disabled q \<noteq> None\<close> show False by simp
  qed
  then have "find (\<lambda>(s, u). ur_id u = sr_user s \<and> sr_hash s = sr_hash x \<and> sr_expires s > now \<and> ur_disabled u = None)
          (List.product (ad_sessions d) (ad_users d)) = None"
    by (subst find_None_iff) auto
  then show ?thesis unfolding session_user_def by simp
qed

text \<open>C12: once a user is disabled, and until an administrator enables the account again, nothing
  the user holds opens anything: a request with one of the user's tokens, whatever its kind and
  scopes, and a request with one of the user's sessions are both answered with 401.\<close>

theorem disabled_user_locked_out:
  assumes "access_reachable dp w" "access_run dp w es w'" "user_disabled u (aw_db w)"
    "\<forall>e\<in>set es. \<not> enables u e"
  shows "(\<forall>row\<in>set (ad_tokens (aw_db w')).
       tr_user row = Some u \<and> bearer_token rq \<noteq> [] \<and> lookup_hash dp now (bearer_token rq) = tr_hash row \<longrightarrow>
       api_call_run dp now rq call (aw_db w') = (Denied 401 ''invalid token'', aw_db w')) \<and>
    (\<forall>x\<in>set (ad_sessions (aw_db w')).
       sr_user x = u \<and> wr_cookie wrq = Some v \<and> wc_sha (dp_web dp) v = sr_hash x \<longrightarrow>
       web_call_run dp now wrq wcall (aw_db w') = (Denied 401 ''unauthorized'', aw_db w'))"
proof (intro conjI ballI impI; elim conjE)
  from access_reachable_inv [OF reachable_run [OF assms(1,2)]] have wf: "access_wf (aw_db w')"
    by (simp add: access_inv_def)
  from run_keeps_disabled [OF assms(2)] assms(3,4) have dis: "user_disabled u (aw_db w')"
    by (auto simp: keeps_disabled_def)
  {
    fix row assume row: "row \<in> set (ad_tokens (aw_db w'))" "tr_user row = Some u" "bearer_token rq \<noteq> []"
      "lookup_hash dp now (bearer_token rq) = tr_hash row"
    show "api_call_run dp now rq call (aw_db w') = (Denied 401 ''invalid token'', aw_db w')"
    proof (rule api_dead [OF row(3)])
      fix r assume "r \<in> set (ad_tokens (aw_db w'))"
      with same_hash [OF wf this row(1)] dis row(2)
      show "\<not> live_token (lookup_hash dp now (bearer_token rq)) (aw_db w') r"
        unfolding row(4) live_token_def by auto
    qed
  next
    fix x assume x: "x \<in> set (ad_sessions (aw_db w'))" "sr_user x = u" "wr_cookie wrq = Some v"
      "wc_sha (dp_web dp) v = sr_hash x"
    from disabled_no_session [OF wf dis x(1,2), of now] have
      "wb_session (web_store dp) now (wc_sha (dp_web dp) v) (aw_db w') = Inl err_not_found"
      by (simp add: web_store_def x(4))
    with x(3) show "web_call_run dp now wrq wcall (aw_db w') = (Denied 401 ''unauthorized'', aw_db w')"
      by (simp add: web_call_run_def protect_def resolve_auth_ctx_def split: prod.splits)
  }
qed

text \<open>The administrator of the example disables the member, whose key stops working.\<close>

definition demo_disabled :: access_world where
  "demo_disabled =
     the (exec_history demo_deployment [Web (demo_page ''s1'') (Set_disabled ''2'' (Some True))] demo_world)"

theorem disabled_user_locked_out_witness:
  "api_call_run demo_deployment 2000 (demo_bearer ''semidx_x2'') (Use_api ''write'') (aw_db demo_disabled) =
     (Denied 401 ''invalid token'', aw_db demo_disabled) \<and> user_disabled 2 (aw_db demo_disabled)"
proof -
  let ?es = "[Web (demo_page ''s1'') (Set_disabled ''2'' (Some True))]"
  have "case exec_history demo_deployment ?es demo_world of None \<Rightarrow> False | Some w' \<Rightarrow> True" by code_simp
  from exec_later [OF this] have run: "access_run demo_deployment demo_world ?es demo_disabled"
    by (simp only: demo_disabled_def)
  have dis: "user_disabled 2 (aw_db demo_disabled)" by code_simp
  let ?row = "ad_tokens (aw_db demo_disabled) ! 2"
  have "length (ad_tokens (aw_db demo_disabled)) = 3" by code_simp
  then have row: "?row \<in> set (ad_tokens (aw_db demo_disabled))" by (simp add: nth_mem)
  have u: "tr_user ?row = Some 2" by code_simp
  have b: "bearer_token (demo_bearer ''semidx_x2'') \<noteq> []" by code_simp
  have h: "lookup_hash demo_deployment 2000 (bearer_token (demo_bearer ''semidx_x2'')) = tr_hash ?row" by code_simp
  from disabled_user_locked_out [OF reachable_run [OF demo_reachable run] run_nil dis,
      of "demo_bearer ''semidx_x2''" 2000 "Use_api ''write''" "demo_page []" "[]" Logout] row u b h dis
  show ?thesis by auto
qed

text \<open>Disabling has that effect.\<close>

lemma set_user_disabled_effect:
  assumes "set_user_disabled now i True d = (Inr (), d1)"
  shows "user_disabled i d1" "\<forall>x\<in>set (ad_sessions d1). sr_user x \<noteq> i"
proof -
  let ?f = "\<lambda>r. r\<lparr>ur_disabled := Some now\<rparr>"
  from assms have d1: "ad_users d1 = map (\<lambda>r. if ur_id r = i then ?f r else r) (ad_users d)"
    "\<forall>x\<in>set (ad_sessions d1). sr_user x \<noteq> i" "user_exists i d"
    by (auto simp: set_user_disabled_def Let_def update_user_def split: if_splits)
  then obtain r where "r \<in> set (ad_users d)" "ur_id r = i" by (auto simp: user_exists_def list_ex_iff)
  then have "?f r \<in> set (ad_users d1)" unfolding d1(1) by (auto intro!: image_eqI [of _ _ r])
  with \<open>ur_id r = i\<close> show "user_disabled i d1"
    unfolding user_disabled_def list_ex_iff by (intro bexI [of _ "?f r"]) simp
qed (use assms in \<open>auto simp: set_user_disabled_def Let_def split: if_splits\<close>)

section \<open>New tokens work\<close>

lemma token_by_hash_row:
  assumes "access_wf d" "row \<in> set (ad_tokens d)" "live_token h d row"
  obtains d1 where "token_by_hash now h d = (Inr (Some (token_of_row (row\<lparr>tr_used := Some now\<rparr>))), d1)" "quiet d d1"
    "ad_spaces d1 = ad_spaces d" "ad_tenants d1 = ad_tenants d"
proof -
  from assms(2,3) have "find (live_token h d) (ad_tokens d) \<noteq> None" by (auto simp: find_None_iff)
  then obtain r where r: "find (live_token h d) (ad_tokens d) = Some r" by blast
  from find_SomeD [OF r] assms have "r = row" by (intro same_hash [of d]) (auto simp: live_token_def)
  with r obtain d1 where
    1: "token_by_hash now h d = (Inr (Some (token_of_row (row\<lparr>tr_used := Some now\<rparr>))), d1)"
      "d1 = d\<lparr>ad_tokens := map (\<lambda>q. if live_token h d q then q\<lparr>tr_used := Some now\<rparr> else q) (ad_tokens d)\<rparr>"
    by (simp add: token_by_hash_def)
  from that [OF 1(1) statements_quiet(1) [OF 1(1)]] 1(2) show ?thesis by simp
qed

lemma default_space:
  assumes "access_wf d" "t \<in> tn_id ` set (ad_tenants d)"
  obtains w where "\<And>cx. tenant_id cx = t \<Longrightarrow> get_workspace_by_slug cx ''default'' d = Inr w"
proof -
  from assms obtain w where "w \<in> set (ad_spaces d)" "ws_tenant w = t" "ws_slug w = ''default''"
    by (auto simp: access_wf_def spaces_ok_def)
  then have "find (\<lambda>w. ws_tenant w = t \<and> ws_slug w = ''default'') (ad_spaces d) \<noteq> None"
    by (auto simp: find_None_iff)
  then obtain w' where "find (\<lambda>w. ws_tenant w = t \<and> ws_slug w = ''default'') (ad_spaces d) = Some w'" by blast
  then have "get_workspace_by_slug cx ''default'' d = Inr w'" if "tenant_id cx = t" for cx
    using that by (simp add: get_workspace_by_slug_def)
  then show ?thesis by (rule that)
qed

text \<open>A live row answers a request that names no tenant and no workspace.\<close>

lemma live_row_admits:
  assumes "access_wf d" "row \<in> set (ad_tokens d)" "live_token (lookup_hash dp now (bearer_token rq)) d row"
    "bearer_token rq \<noteq> []" "rq_tenant rq = []" "rq_workspace rq = []"
    "\<And>secret c. \<lbrakk>wc_jwt (dp_web dp) = Some secret; verify_jwt (wc_lib (dp_web dp)) secret now (bearer_token rq) = Inr c\<rbrakk> \<Longrightarrow>
       cm_scopes c = tr_scopes row"
    "api_scope call = [] \<or> has_scope (tr_scopes row) (api_scope call)"
  obtains tc d1 where "tc_id tc = tr_tenant row" "tc_user tc = tk_user (token_of_row row)"
    "d1 = snd (token_by_hash now (lookup_hash dp now (bearer_token rq)) d)"
    "api_call_run dp now rq call d =
       (case run_api dp now call (Some tc) (tr_scopes row) d1 of (r, d2) \<Rightarrow> (Ran r, d2))"
proof -
  let ?raw = "bearer_token rq"
  from token_by_hash_row [OF assms(1-3), of now] obtain d1 where
    tok: "token_by_hash now (lookup_hash dp now ?raw) d = (Inr (Some (token_of_row (row\<lparr>tr_used := Some now\<rparr>))), d1)"
    and q: "quiet d d1" and same: "ad_spaces d1 = ad_spaces d" "ad_tenants d1 = ad_tenants d" by blast
  let ?idn = "\<lparr>ai_scopes = tr_scopes row, ai_tenant = tr_tenant row, ai_user = tk_user (token_of_row row)\<rparr>"
  have ra: "resolve_auth (api_server dp) now ?raw d = (Inr (Some ?idn), d1)"
    using tok assms(7) normalized_row [OF assms(1,2)]
    by (auto simp: resolve_auth_def lookup_hash_def token_of_row_def split: option.splits sum.splits)
  from assms(1,2) have tn: "tr_tenant row \<in> tn_id ` set (ad_tenants d1)" "tr_tenant row > 0"
    by (auto simp: access_wf_def tokens_ok_def tenants_ok_def exists_iff same)
  from q assms(1) have "access_wf d1" by (simp add: quiet_def)
  from default_space [OF this tn(1)] obtain w where
    w: "\<And>cx. tenant_id cx = tr_tenant row \<Longrightarrow> get_workspace_by_slug cx ''default'' d1 = Inr w" by blast
  let ?base = "(bare_tenant (tr_tenant row))\<lparr>tc_slug := [], tc_user := tk_user (token_of_row row)\<rparr>"
  let ?tc = "?base\<lparr>tc_workspace := ws_id w, tc_ws_slug := ws_slug w\<rparr>"
  have trim: "trim_space [] = []" by (simp add: trim_space_def trim_left_space_def trim_right_space_def)
  have sel: "select_tenant (pg_auth_store (dp_tenants dp) (dp_spaces dp)) ?idn rq d1 = Inr (tr_tenant row, [])"
    by (simp add: select_tenant_def assms(5) trim)
  have "wp_by_slug (pg_workspace_store (dp_spaces dp)) = get_workspace_by_slug" by (simp add: pg_workspace_store_def)
  then have ws: "select_workspace (pg_auth_store (dp_tenants dp) (dp_spaces dp)) (Some ?base) rq d1 = Inr (ws_id w, ws_slug w)"
    using w [of "Some ?base"] tn(2) by (simp add: select_workspace_def assms(6) trim)
  have "api_call_run dp now rq call d =
       (case run_api dp now call (Some ?tc) (tr_scopes row) d1 of (r, d2) \<Rightarrow> (Ran r, d2))"
    using assms(4,8) ra sel ws tn(2)
    by (auto simp: api_call_run_def authed_def Let_def has_scope_def tenant_with_def)
  from that [OF _ _ _ this] show ?thesis by (simp add: tok)
qed

text \<open>What the JWT library promises about the tokens it signs: until their expiry they parse to
  their claims.\<close>

definition jwt_verifies :: "jwt_lib \<Rightarrow> string \<Rightarrow> bool" where
  "jwt_verifies lib secret \<longleftrightarrow>
     (\<forall>c tok now. jl_sign lib secret c = Inr tok \<and> cm_issuer c = jwt_issuer \<and>
        (case cm_expires c of None \<Rightarrow> True | Some e \<Rightarrow> now < e) \<longrightarrow>
        jl_parse lib secret jwt_issuer now tok = Inr c)"

lemma api_create_token_success:
  assumes "api_create_token wc now (Some (name, form, days)) (Inr jti) cx ac d = (rep, d1)" "wy_status rep = 201"
    "wc_jwt wc = Some secret"
  obtains i tok where
    "jl_sign (wc_lib wc) secret (new_claims (wc_lib wc) (us_name (ac_user ac)) (normalize_scopes form)
       (control_ttl days) now jti) = Inr tok"
    "wy_secret rep = Some tok"
    "create_jwt_token now cx (us_id (ac_user ac)) (trim_space name) jti (normalize_scopes form)
       (expiry (control_ttl days) now) d = (Inr i, d1)"
proof -
  from assms obtain scopes m i where
    1: "scopes_from_form form (us_role (ac_user ac)) = Inr scopes" and
    2: "mint (wc_lib wc) secret (Inr jti) (us_name (ac_user ac)) scopes (control_ttl days) now = Inr m" and
    3: "create_jwt_token now cx (us_id (ac_user ac)) (trim_space name) (mn_jti m) scopes (mn_expires m) d = (Inr i, d1)"
       "wy_secret rep = Some (mn_token m)"
    by (auto simp: api_create_token_def web_error_def web_ok_def Let_def split: if_splits sum.splits prod.splits)
  from scopes_from_form_Inr(1) [OF 1] 2 3 show ?thesis
    by (intro that) (auto simp: mint_def split: sum.splits)
qed

lemma create_jwt_token_row:
  assumes "create_jwt_token now cx uid name jti scopes expires d = (Inr i, d1)"
  obtains row where "row \<in> set (ad_tokens d1)" "tr_tenant row = tenant_id cx" "tr_user row = Some uid"
    "tr_hash row = jti" "tr_scopes row = scopes" "tr_revoked row = None" "ad_users d1 = ad_users d"
  using assms
  by (intro that [of "last (ad_tokens d1)"])
     (auto simp: create_jwt_token_def insert_token_def Let_def split: if_splits)


text \<open>In the example the control token is created, then the member's account, key and logins follow.\<close>

definition demo_before :: access_world where
  "demo_before = the (exec_history demo_deployment (take 4 demo_access_events) (access_start 1000))"

definition demo_created :: "(web_reply \<times> claims list) gate \<times> access_db" where
  "demo_created =
     web_call_run demo_deployment 1000 (demo_page ''s1'') (Create_control (Some (''ci'', [''read''], 1)) (Inr ''j1''))
       (aw_db demo_before)"

definition demo_after :: access_world where
  "demo_after =
     the (exec_history demo_deployment (drop 5 demo_access_events)
       (demo_before\<lparr>aw_db := snd demo_created, aw_claims := [demo_claims]\<rparr>))"

lemma demo_before_reachable: "access_reachable demo_deployment demo_before"
proof -
  have "case exec_history demo_deployment (take 4 demo_access_events) (access_start 1000) of
      None \<Rightarrow> False | Some w' \<Rightarrow> True" by code_simp
  from exec_later [OF this] show ?thesis unfolding access_reachable_def demo_before_def by blast
qed

lemma demo_jwt_verifies: "jwt_verifies demo_lib ''k''"
  by (auto simp: jwt_verifies_def demo_lib_def demo_claims_def split: if_splits)


section \<open>The web administration\<close>

text \<open>C14: a handler of the web administration only runs for a session that has not expired and
  whose user is not disabled; a request that is not a GET or HEAD must carry the CSRF token of that
  very session; administrator routes only run for administrators; and the handler works in the
  default tenant, or, if the request names a tenant, in one the user is a member of unless the user is
  an administrator, and in a workspace of that tenant.\<close>

theorem web_access_admitted:
  assumes "web_call_run dp now rq call d = (Ran (rep, cs), d1)"
  shows "\<exists>v. wr_cookie rq = Some v \<and>
    (\<exists>x\<in>set (ad_sessions d). \<exists>q\<in>set (ad_users d). \<exists>tc.
       sr_hash x = wc_sha (dp_web dp) v \<and> now < sr_expires x \<and> sr_user x = ur_id q \<and> ur_disabled q = None \<and>
       (fst (web_route call) \<notin> {''GET'', ''HEAD''} \<longrightarrow>
          (if wr_form rq = [] then wr_csrf rq else wr_form rq) = wc_hmac (dp_web dp) v) \<and>
       (snd (web_route call) = ''admin'' \<longrightarrow> ur_role q = ''admin'') \<and>
       (if trim_space (wr_tenant rq) = [] then tc_id tc = default_tenant
        else ur_role q = ''admin'' \<or> is_member d (ur_id q) (tc_id tc)) \<and>
       owns_space d (tc_id tc) (tc_workspace tc) \<and> tc_user tc = ur_id q \<and>
       run_web (dp_web dp) now call (Some tc)
         \<lparr>ac_user = scan_user q, ac_session = v, ac_csrf = wc_hmac (dp_web dp) v\<rparr> d = (rep, d1))"
proof -
  obtain http_method role where ro: "web_route call = (http_method, role)" by fastforce
  let ?rq = "rq\<lparr>wr_method := http_method\<rparr>"
  from assms ro have run: "protect (dp_web dp) (web_store dp) now role (web_handler (dp_web dp) now call) ?rq d
      = (Ran (rep, cs), d1)" by (simp add: web_call_run_def)
  then obtain cx ac where
    adm: "admitted (dp_web dp) (web_store dp) session_live_in is_member owns_space now role ?rq d cx ac" and
    h: "web_handler (dp_web dp) now call cx ac d = ((rep, cs), d1)"
    unfolding web_store_def by (rule pg_web.protect_grants)
  obtain u v c where ac: "ac = \<lparr>ac_user = u, ac_session = v, ac_csrf = c\<rparr>" by (cases ac)
  from adm ac obtain x q where xq: "x \<in> set (ad_sessions d)" "q \<in> set (ad_users d)"
    "sr_hash x = wc_sha (dp_web dp) v" "now < sr_expires x" "sr_user x = ur_id q" "ur_disabled q = None"
    "u = scan_user q"
    by (auto simp: admitted_def session_live_in_def)
  from adm ac have c: "c = wc_hmac (dp_web dp) v" by (simp add: admitted_def)
  from adm obtain tc where tc: "cx = Some tc" by (cases cx) (simp_all add: admitted_def web_store_def)
  from h ac c xq(7) have r: "run_web (dp_web dp) now call (Some tc)
      \<lparr>ac_user = scan_user q, ac_session = v, ac_csrf = wc_hmac (dp_web dp) v\<rparr> d = (rep, d1)"
    by (simp add: web_handler_def tc split: prod.splits)
  show ?thesis
    using adm xq r ro unfolding tc ac admitted_def
    by (intro exI [of _ v] conjI bexI [of _ x] bexI [of _ q] exI [of _ tc])
       (auto simp: web_store_def split: if_splits)
qed

theorem web_access_admitted_witness:
  "\<exists>q\<in>set (ad_users (aw_db demo_world)). ur_role q = ''admin'' \<and> ur_disabled q = None"
proof -
  have "fst (web_call_run demo_deployment 1000 (demo_page ''s1'') (Create_account None) (aw_db demo_world)) =
      Ran (web_error 400 ''invalid JSON'', [])" by code_simp
  then obtain d where "web_call_run demo_deployment 1000 (demo_page ''s1'') (Create_account None) (aw_db demo_world) =
      (Ran (web_error 400 ''invalid JSON'', []), d)" by (metis prod.collapse)
  from web_access_admitted [OF this] show ?thesis by auto
qed

lemma session_user_live:
  assumes "access_wf d" "session_live_in d now h u" shows "session_user now h d = Inr u"
proof -
  let ?P = "\<lambda>(s, u). ur_id u = sr_user s \<and> sr_hash s = h \<and> sr_expires s > now \<and> ur_disabled u = None"
  from assms(2) obtain x r where x: "x \<in> set (ad_sessions d)" "r \<in> set (ad_users d)" "sr_hash x = h"
    "sr_user x = ur_id r" "now < sr_expires x" "ur_disabled r = None" "u = scan_user r"
    by (auto simp: session_live_in_def)
  then have "(x, r) \<in> set (List.product (ad_sessions d) (ad_users d))" "?P (x, r)" by simp_all
  then have "find ?P (List.product (ad_sessions d) (ad_users d)) \<noteq> None"
    unfolding find_None_iff by blast
  then obtain y q where f: "find ?P (List.product (ad_sessions d) (ad_users d)) = Some (y, q)" by auto
  from find_SomeD [OF f] have y: "y \<in> set (ad_sessions d)" "q \<in> set (ad_users d)" "sr_hash y = h" "ur_id q = sr_user y"
    by auto
  from assms(1) x(1,3) y(1,3) have "y = x" by (auto simp: access_wf_def sessions_ok_def distinct_map inj_on_def)
  with assms(1) x(2,4) y(2,4) have "q = r" by (auto simp: access_wf_def users_ok_def distinct_map inj_on_def)
  with f x(7) show ?thesis by (simp add: session_user_def)
qed



end
