(* ===== verification/LoginLimit.thy ===== *)
theory LoginLimit
  imports AccessFlow "HOL-Library.Multiset"
begin

text \<open>
  How many passwords the login limiter lets through: its table and the failed logins agree on the
  window, whatever the interleaving, so at most four more than the number of concurrent logins fail
  within fifteen minutes.
\<close>

section \<open>The table and the failures\<close>

lemma tries_of_update [simp]:
  "tries_of (l(k \<mapsto> ts)) k' = (if k' = k then ts else tries_of l k')"
  "tries_of (l(k := None)) k' = (if k' = k then [] else tries_of l k')"
  by (simp_all add: tries_of_def)

definition fails_of :: "(string \<times> int) list \<Rightarrow> string \<Rightarrow> int list" where
  "fails_of fs key = map snd (filter (\<lambda>f. fst f = key) fs)"

lemma fails_of_note:
  "wy_status r = 401 \<Longrightarrow>
     fails_of (note_failure r k at fs) k' = (if k' = k then at # fails_of fs k' else fails_of fs k')"
  "wy_status r = 200 \<Longrightarrow> fails_of (note_failure r k at fs) k' = (if k' = k then [] else fails_of fs k')"
  "\<lbrakk>wy_status r \<noteq> 401; wy_status r \<noteq> 200\<rbrakk> \<Longrightarrow> fails_of (note_failure r k at fs) k' = fails_of fs k'"
proof -
  have "filter (\<lambda>f. fst f = k' \<and> fst f \<noteq> k) fs = filter (\<lambda>f. fst f = k') fs" if "k' \<noteq> k"
    using that by (intro filter_cong) auto
  then show "wy_status r = 200 \<Longrightarrow> fails_of (note_failure r k at fs) k' = (if k' = k then [] else fails_of fs k')"
    by (auto simp: fails_of_def note_failure_def filter_empty_conv conj_commute)
qed (simp_all add: fails_of_def note_failure_def)

text \<open>What the limiter makes of a login and what the client sees agree: exactly the logins answered
  with 401 are recorded, and exactly those answered with 200 clear the record.\<close>

definition agrees :: "web_reply \<Rightarrow> verdict \<Rightarrow> bool" where
  "agrees r v \<longleftrightarrow>
     (v = Recorded \<longleftrightarrow> wy_status r = 401) \<and> (v = Cleared \<longleftrightarrow> wy_status r = 200)"

lemma login_finish_agrees: "login_finish wc now body x d = (r, v, d1) \<Longrightarrow> agrees r v"
  by (auto simp: login_finish_def agrees_def web_error_def web_ok_def Let_def
    split: sum.splits if_splits prod.splits)

lemma fails_of_agrees:
  assumes "agrees r v"
  shows "fails_of (note_failure r k at fs) k' =
    (if k' \<noteq> k then fails_of fs k' else case v of Recorded \<Rightarrow> at # fails_of fs k' | Cleared \<Rightarrow> [] | Untouched \<Rightarrow> fails_of fs k')"
  using assms by (cases v) (simp_all add: agrees_def fails_of_note)

definition after :: "int \<Rightarrow> int list \<Rightarrow> int list" where
  "after c ts = filter (\<lambda>t. t > c) ts"

lemma after_prune [simp]: "cutoff \<le> c \<Longrightarrow> after c (prune ts cutoff) = after c ts"
  by (auto simp: after_def prune_def intro: filter_cong)

lemma after_simps [simp]:
  "after c [] = []" "after c (t # ts) = (if t > c then t # after c ts else after c ts)"
  "after c (ts @ us) = after c ts @ after c us"
  by (simp_all add: after_def)

definition tracked :: "int \<Rightarrow> limiter \<Rightarrow> (string \<times> int) list \<Rightarrow> bool" where
  "tracked now l fs \<longleftrightarrow>
     (\<forall>k c. now - login_window \<le> c \<longrightarrow> mset (after c (tries_of l k)) = mset (after c (fails_of fs k)))"

lemma tracked_later: "\<lbrakk>tracked now l fs; now \<le> now'\<rbrakk> \<Longrightarrow> tracked now' l fs"
  by (simp add: tracked_def)

lemma tracked_allowed:
  assumes "tracked now l fs" "limiter_allowed k now l = (b, l')" shows "tracked now l' fs"
  using assms by (auto simp: tracked_def limiter_allowed_def Let_def)

lemma tracked_settle:
  assumes "tracked now l fs" "at \<le> now" "agrees r v"
  shows "tracked now (settle v k at l) (note_failure r k at fs)"
  using assms(1,2) fails_of_agrees [OF assms(3)]
  by (cases v) (auto simp: tracked_def settle_def limiter_record_def limiter_reset_def)

lemma tracked_reap:
  assumes "tracked now l fs" shows "tracked now (limiter_reap now l) fs"
proof -
  have "after c (tries_of (limiter_reap now l) k) = after c (tries_of l k)" if "now - login_window \<le> c" for k c
    using that
    by (auto simp: limiter_reap_def tries_of_def after_def list_ex_iff split: option.splits intro!: filter_False [symmetric])
  with assms show ?thesis by (simp add: tracked_def)
qed

lemma tracked_count:
  assumes "tracked now l fs"
  shows "length (after (now - login_window) (tries_of l k)) = length (after (now - login_window) (fails_of fs k))"
  using assms by (metis order_refl size_mset tracked_def)

section \<open>The invariant\<close>

definition in_flight :: "string \<Rightarrow> access_world \<Rightarrow> nat" where
  "in_flight k w = length (filter (\<lambda>(i, b, at). trim_space (lb_user b) = k) (aw_pending w))"

definition recent_failures :: "string \<Rightarrow> access_world \<Rightarrow> int list" where
  "recent_failures k w = after (aw_now w - login_window) (fails_of (aw_failures w) k)"

definition login_inv :: "access_world \<Rightarrow> bool" where
  "login_inv w \<longleftrightarrow>
     tracked (aw_now w) (aw_tries w) (aw_failures w) \<and> distinct (map fst (aw_pending w)) \<and>
     (\<forall>(i, b, at)\<in>set (aw_pending w). at \<le> aw_now w) \<and> length (aw_pending w) \<le> aw_peak w \<and>
     (\<forall>k. length (recent_failures k w) + in_flight k w \<le> 4 + aw_peak w)"

lemma in_flight_le: "in_flight k w \<le> length (aw_pending w)"
  by (simp add: in_flight_def)

lemma after_length_mono: "c \<le> c' \<Longrightarrow> length (after c' ts) \<le> length (after c ts)"
  by (induction ts) auto

lemma login_begin_inv:
  assumes "login_inv w" "i \<notin> fst ` set (aw_pending w)"
    "limiter_allowed (trim_space (lb_user body)) (aw_now w) (aw_tries w) = (True, l)"
  shows "login_inv (w\<lparr>aw_tries := l, aw_pending := (i, body, aw_now w) # aw_pending w,
    aw_peak := max (aw_peak w) (Suc (length (aw_pending w)))\<rparr>)" (is "login_inv ?w")
proof -
  let ?k = "trim_space (lb_user body)"
  from assms(1) have tr: "tracked (aw_now w) (aw_tries w) (aw_failures w)" by (simp add: login_inv_def)
  have "length (recent_failures ?k w) < login_max_tries"
    using assms(3) tracked_count [OF tr, of ?k]
    by (simp add: limiter_allowed_def Let_def recent_failures_def after_def prune_def)
  then have here: "length (recent_failures ?k ?w) + in_flight ?k ?w \<le> 4 + aw_peak ?w"
    using in_flight_le [of ?k ?w] by (simp add: recent_failures_def login_max_tries_def)
  have "length (recent_failures k ?w) + in_flight k ?w \<le> 4 + aw_peak ?w" for k
  proof (cases "k = ?k")
    case False
    from assms(1) have "length (recent_failures k w) + in_flight k w \<le> 4 + aw_peak w" by (simp add: login_inv_def)
    with False show ?thesis by (simp add: recent_failures_def in_flight_def)
  qed (use here in simp)
  then have "\<forall>k. length (recent_failures k ?w) + in_flight k ?w \<le> 4 + aw_peak ?w" ..
  with assms(1,2) tracked_allowed [OF tr assms(3)] show ?thesis
    unfolding login_inv_def by (intro conjI) simp_all
qed

lemma login_end_inv:
  assumes "login_inv w" "(i, body, at) \<in> set (aw_pending w)" "agrees r v"
  shows "login_inv (w\<lparr>aw_db := d, aw_tries := settle v (trim_space (lb_user body)) at (aw_tries w),
    aw_pending := filter (\<lambda>p. fst p \<noteq> i) (aw_pending w),
    aw_failures := note_failure r (trim_space (lb_user body)) at (aw_failures w)\<rparr>)" (is "login_inv ?w")
proof -
  let ?k = "trim_space (lb_user body)"
  from assms(1,2) have at: "at \<le> aw_now w" by (auto simp: login_inv_def)
  from assms(2) obtain ps qs where ps: "aw_pending w = ps @ (i, body, at) # qs" by (meson split_list)
  with assms(1) have i: "i \<notin> fst ` set ps" "i \<notin> fst ` set qs" by (auto simp: login_inv_def)
  then have rest: "filter (\<lambda>p. fst p \<noteq> i) (aw_pending w) = ps @ qs"
    unfolding ps by (auto simp: filter_True image_iff intro!: arg_cong2 [of _ _ _ _ append] filter_True)
  have "length (recent_failures k ?w) + in_flight k ?w \<le> length (recent_failures k w) + in_flight k w" for k
  proof -
    let ?P = "\<lambda>(i, b, at). trim_space (lb_user b) = k"
    have "in_flight k ?w = length (filter ?P (ps @ qs))" by (simp add: in_flight_def rest)
    moreover have "in_flight k w = length (filter ?P (ps @ (i, body, at) # qs))" by (simp add: in_flight_def ps)
    ultimately show ?thesis by (cases v) (auto simp: recent_failures_def fails_of_agrees [OF assms(3)])
  qed
  moreover have "\<forall>k. length (recent_failures k w) + in_flight k w \<le> 4 + aw_peak w" using assms(1) by (simp add: login_inv_def)
  ultimately have "length (recent_failures k ?w) + in_flight k ?w \<le> 4 + aw_peak w" for k
    using le_trans by blast
  then have "\<forall>k. length (recent_failures k ?w) + in_flight k ?w \<le> 4 + aw_peak ?w" by simp
  with assms(1) tracked_settle [OF _ at assms(3), of "aw_tries w" "aw_failures w" ?k] show ?thesis
    unfolding login_inv_def by (intro conjI) (simp_all add: rest, auto simp: ps)
qed

lemma login_step_inv:
  assumes "access_step dp w e w'" "login_inv w" shows "login_inv w'"
  using assms(1)
proof cases
  case (elapse dt)
  have "length (recent_failures k w') \<le> length (recent_failures k w)" for k
    using elapse by (auto simp: recent_failures_def intro: after_length_mono)
  moreover have "in_flight k w' = in_flight k w" for k using elapse by (simp add: in_flight_def)
  moreover have "aw_peak w' = aw_peak w" using elapse by simp
  ultimately have "\<forall>k. length (recent_failures k w') + in_flight k w' \<le> 4 + aw_peak w'"
    using assms(2) unfolding login_inv_def by (metis add_le_mono1 le_trans)
  with assms(2) elapse show ?thesis
    unfolding login_inv_def by (intro conjI) (auto intro: tracked_later)
next
  case (login_begin i body l)
  with assms(2) login_begin_inv show ?thesis by simp
next
  case (login_refused body l i)
  with assms(2) tracked_allowed [OF _ login_refused(3), of "aw_failures w"] show ?thesis
    by (simp add: login_inv_def recent_failures_def in_flight_def)
next
  case (login_end i body at x r v d)
  from login_end_inv [OF assms(2) login_end(3) login_finish_agrees [OF login_end(4)]] login_end(2)
  show ?thesis by simp
next
  case reap
  with assms(2) show ?thesis by (simp add: login_inv_def recent_failures_def in_flight_def tracked_reap)
qed (use assms(2) in \<open>simp_all add: login_inv_def recent_failures_def in_flight_def\<close>)

lemma login_reachable_inv:
  assumes "access_reachable dp w" shows "login_inv w"
proof -
  have "login_inv (access_start now)" for now
    by (simp add: login_inv_def access_start_def tracked_def tries_of_def fails_of_def recent_failures_def in_flight_def)
  moreover have "login_inv w'" if "access_run dp w0 es w'" "login_inv w0" for w0 es w'
    using that by (induction rule: access_run.induct) (blast dest: login_step_inv)+
  ultimately show ?thesis using assms unfolding access_reachable_def by blast
qed

text \<open>C16: the login limiter: in every history, the logins of a name that were started within the last
  fifteen minutes and answered with 401, counted since its last successful one, are at most four more
  than the largest number of logins that ran at the same time; five when logins never overlap.  What
  counts is the answer the client gets, not what the limiter recorded.\<close>

theorem failed_logins_bounded:
  assumes "access_reachable dp w"
  shows "length (recent_failures k w) \<le> 4 + aw_peak w"
proof -
  from login_reachable_inv [OF assms] have "length (recent_failures k w) + in_flight k w \<le> 4 + aw_peak w"
    by (simp add: login_inv_def)
  then show ?thesis by simp
qed

text \<open>The bound is reached: after four wrong passwords one after the other, two more that are
  tried at the same time both pass the check.\<close>

definition race_events :: "access_event list" where
  "race_events =
     Boot_admin ''root'' ''secret01'' #
     concat (map (\<lambda>i. [Login_begin i (demo_login ''root'' ''a''), Login_end i (Inr [])]) [0, 1, 2, 3]) @
     [Login_begin 4 (demo_login ''root'' ''b''), Login_begin 5 (demo_login ''root'' ''c''),
      Login_end 4 (Inr []), Login_end 5 (Inr [])]"

definition race_world :: access_world where
  "race_world = the (exec_history demo_deployment race_events (access_start 1000))"

lemma race_defined:
  "(case exec_history demo_deployment race_events (access_start 1000) of None \<Rightarrow> False | Some w \<Rightarrow> True)"
  by code_simp

lemma race_reachable: "access_reachable demo_deployment race_world"
proof (rule exec_reachable)
  show "exec_history demo_deployment race_events (access_start 1000) = Some race_world"
    using race_defined by (auto simp: race_world_def split: option.splits)
qed

lemma concurrent_logins_exceed:
  "access_reachable demo_deployment race_world"
  "length (recent_failures ''root'' race_world) = 6" "login_max_tries = 5" "aw_peak race_world = 2"
  by (rule race_reachable, code_simp+)

theorem failed_logins_bounded_witness:
  "length (recent_failures ''root'' race_world) \<le> 4 + aw_peak race_world \<and> aw_peak race_world = 2"
  using failed_logins_bounded [OF race_reachable, of "''root''"] concurrent_logins_exceed(4) by simp

end
