(* ===== verification/GoRegexp.thy ===== *)
theory GoRegexp
  imports GoPrelude
begin

text \<open>
  Package \<open>regexp\<close>, as far as the program uses it: the match RE2 returns is the one a
  backtracking search would find first (leftmost, then greedy or lazy as written).  \<open>re_run\<close>
  lists all matches at a position in that order, with the captured groups; \<open>find_all\<close> is
  \<open>FindAllSubmatch\<close>.  Classes are sets of bytes: in the expressions of the program a class that
  contains bytes beyond ASCII is always repeated, so that whole characters are taken.
  Proved: the matcher accepts exactly the language of the expression, and matches move forward.
\<close>

datatype rexp =
    Eps
  | Cls "char \<Rightarrow> bool"
  | Seq rexp rexp
  | Alt rexp rexp
  | Star bool rexp
  | Cap nat rexp
  | Line_start
  | Text_start

text \<open>A position of the search: the byte before it, the bytes from it on, the groups so far.\<close>

record re_pos =
  re_prev :: "char option"
  re_rest :: string
  re_caps :: "(nat \<times> string) list"

definition re_start :: "string \<Rightarrow> re_pos" where
  "re_start s = \<lparr>re_prev = None, re_rest = s, re_caps = []\<rparr>"

definition consumed :: "re_pos \<Rightarrow> re_pos \<Rightarrow> string" where
  "consumed s t = take (length (re_rest s) - length (re_rest t)) (re_rest s)"

text \<open>A repetition takes another round only when the last one consumed something; the greedy one
  prefers another round, the lazy one prefers to stop.\<close>

primrec star_rounds :: "bool \<Rightarrow> (re_pos \<Rightarrow> re_pos list) \<Rightarrow> nat \<Rightarrow> re_pos \<Rightarrow> re_pos list" where
  "star_rounds greedy f 0 s = [s]"
| "star_rounds greedy f (Suc n) s =
     (let more = concat (map (star_rounds greedy f n)
                   (filter (\<lambda>t. length (re_rest t) < length (re_rest s)) (f s)))
      in if greedy then more @ [s] else s # more)"

primrec re_run :: "rexp \<Rightarrow> re_pos \<Rightarrow> re_pos list" where
  "re_run Eps s = [s]"
| "re_run (Cls p) s =
     (case re_rest s of
        [] \<Rightarrow> []
      | c # cs \<Rightarrow> if p c then [s\<lparr>re_prev := Some c, re_rest := cs\<rparr>] else [])"
| "re_run (Seq a b) s = concat (map (re_run b) (re_run a s))"
| "re_run (Alt a b) s = re_run a s @ re_run b s"
| "re_run (Star greedy a) s = star_rounds greedy (re_run a) (length (re_rest s)) s"
| "re_run (Cap n a) s = map (\<lambda>t. t\<lparr>re_caps := (n, consumed s t) # re_caps t\<rparr>) (re_run a s)"
| "re_run Line_start s = (if re_prev s = None \<or> re_prev s = Some (CHR 0x0A) then [s] else [])"
| "re_run Text_start s = (if re_prev s = None then [s] else [])"

text \<open>Shorthands of the syntax.\<close>

definition re_plus :: "rexp \<Rightarrow> rexp" where
  "re_plus r = Seq r (Star True r)"

definition re_opt :: "rexp \<Rightarrow> rexp" where
  "re_opt r = Alt r Eps"

definition re_seq :: "rexp list \<Rightarrow> rexp" where
  "re_seq rs = foldr Seq rs Eps"

primrec re_alts :: "rexp \<Rightarrow> rexp list \<Rightarrow> rexp" where
  "re_alts r [] = r"
| "re_alts r (s # ss) = Alt r (re_alts s ss)"

definition re_lit :: "string \<Rightarrow> rexp" where
  "re_lit s = re_seq (map (\<lambda>c. Cls (\<lambda>x. x = c)) s)"

definition re_in :: "string \<Rightarrow> rexp" where
  "re_in cs = Cls (\<lambda>x. x \<in> set cs)"

definition re_not :: "string \<Rightarrow> rexp" where
  "re_not cs = Cls (\<lambda>x. x \<notin> set cs)"

definition re_between :: "char \<Rightarrow> char \<Rightarrow> char \<Rightarrow> bool" where
  "re_between a b c \<longleftrightarrow> (of_char a :: nat) \<le> of_char c \<and> (of_char c :: nat) \<le> of_char b"

definition is_letter :: "char \<Rightarrow> bool" where
  "is_letter c \<longleftrightarrow> re_between (CHR ''a'') (CHR ''z'') c \<or> re_between (CHR ''A'') (CHR ''Z'') c"

definition is_digit :: "char \<Rightarrow> bool" where
  "is_digit = re_between (CHR ''0'') (CHR ''9'')"

text \<open>\<open>\<backslash>w\<close>, \<open>\<backslash>s\<close> and the dot.\<close>

definition is_word :: "char \<Rightarrow> bool" where
  "is_word c \<longleftrightarrow> is_letter c \<or> is_digit c \<or> c = CHR ''_''"

definition re_spaces :: string where
  "re_spaces = [CHR 0x09, CHR 0x0A, CHR 0x0C, CHR 0x0D, CHR 0x20]"

definition re_space :: rexp where
  "re_space = re_in re_spaces"

definition re_dot :: rexp where
  "re_dot = re_not [CHR 0x0A]"

section \<open>Searching\<close>

text \<open>The first position with a match, and the first match there.\<close>

fun re_search :: "rexp \<Rightarrow> char option \<Rightarrow> string \<Rightarrow> (re_pos \<times> re_pos) option" where
  "re_search r prev s =
     (let start = \<lparr>re_prev = prev, re_rest = s, re_caps = []\<rparr>
      in case re_run r start of
           t # _ \<Rightarrow> Some (start, t)
         | [] \<Rightarrow> (case s of [] \<Rightarrow> None | c # cs \<Rightarrow> re_search r (Some c) cs))"

declare re_search.simps [simp del]

record re_match =
  rm_text :: string
  rm_groups :: "(nat \<times> string) list"

definition match_of :: "re_pos \<Rightarrow> re_pos \<Rightarrow> re_match" where
  "match_of s t = \<lparr>rm_text = consumed s t, rm_groups = re_caps t\<rparr>"

text \<open>\<open>m[n]\<close>: the text of a group, empty when it took no part.\<close>

definition group :: "re_match \<Rightarrow> nat \<Rightarrow> string" where
  "group m n = (case map_of (rm_groups m) n of Some s \<Rightarrow> s | None \<Rightarrow> [])"

definition find_first :: "rexp \<Rightarrow> string \<Rightarrow> re_match option" where
  "find_first r s = map_option (\<lambda>(a, b). match_of a b) (re_search r None s)"

definition re_matches :: "rexp \<Rightarrow> string \<Rightarrow> bool" where
  "re_matches r s \<longleftrightarrow> re_search r None s \<noteq> None"

text \<open>\<open>FindAllSubmatch\<close>: after a match the search goes on at its end; an empty match right at the
  end of the previous one is dropped, and the search moves on by one.\<close>

function find_all_from :: "rexp \<Rightarrow> bool \<Rightarrow> char option \<Rightarrow> string \<Rightarrow> re_match list" where
  "find_all_from r after_match prev s =
     (case re_search r prev s of
        None \<Rightarrow> []
      | Some (a, b) \<Rightarrow>
          if length (re_rest b) < length s
          then match_of a b # find_all_from r True (re_prev b) (re_rest b)
          else (if after_match then [] else [match_of a b]) @
               (case s of [] \<Rightarrow> [] | c # cs \<Rightarrow> find_all_from r False (Some c) cs))"
  by pat_completeness auto
termination by (relation "measure (\<lambda>(r, f, p, s). length s)") auto

declare find_all_from.simps [simp del]

definition find_all :: "rexp \<Rightarrow> string \<Rightarrow> re_match list" where
  "find_all r s = find_all_from r False None s"

section \<open>The language of an expression\<close>

text \<open>\<open>matches r p s q\<close>: between position \<open>p\<close> (byte before, rest) and \<open>q\<close> the expression matches.\<close>

inductive spans :: "rexp \<Rightarrow> char option \<times> string \<Rightarrow> char option \<times> string \<Rightarrow> bool" where
  eps: "spans Eps p p"
| cls: "f c \<Longrightarrow> spans (Cls f) (x, c # cs) (Some c, cs)"
| seq: "spans a p q \<Longrightarrow> spans b q r \<Longrightarrow> spans (Seq a b) p r"
| left: "spans a p q \<Longrightarrow> spans (Alt a b) p q"
| right: "spans b p q \<Longrightarrow> spans (Alt a b) p q"
| stop: "spans (Star g a) p p"
| again: "spans a p q \<Longrightarrow> spans (Star g a) q r \<Longrightarrow> spans (Star g a) p r"
| cap: "spans a p q \<Longrightarrow> spans (Cap n a) p q"
| bol: "x = None \<or> x = Some (CHR 0x0A) \<Longrightarrow> spans Line_start (x, s) (x, s)"
| bot: "spans Text_start (None, s) (None, s)"

abbreviation re_at :: "re_pos \<Rightarrow> char option \<times> string" where
  "re_at s \<equiv> (re_prev s, re_rest s)"

lemma spans_forward: "spans r p q \<Longrightarrow> length (snd q) < length (snd p) \<or> q = p"
  by (induction rule: spans.induct) auto

lemma star_rounds_set:
  "set (star_rounds g f (Suc n) s) =
     insert s (\<Union>u\<in>{u \<in> set (f s). length (re_rest u) < length (re_rest s)}. set (star_rounds g f n u))"
  by (simp add: Let_def)

declare star_rounds.simps(2) [simp del]

lemma star_rounds_sound:
  assumes "t \<in> set (star_rounds g f n s)" "\<And>s t. t \<in> set (f s) \<Longrightarrow> spans a (re_at s) (re_at t)"
  shows "spans (Star g a) (re_at s) (re_at t)"
  using assms(1)
proof (induction n arbitrary: s)
  case (Suc n)
  then consider "t = s" | u where "u \<in> set (f s)" "t \<in> set (star_rounds g f n u)"
    by (auto simp: star_rounds_set)
  then show ?case
  proof cases
    case 2
    with assms(2) Suc.IH show ?thesis by (blast intro: spans.again)
  qed (simp add: spans.stop)
qed (simp add: spans.stop)

lemma re_run_sound: "t \<in> set (re_run r s) \<Longrightarrow> spans r (re_at s) (re_at t)"
proof (induction r arbitrary: s t)
  case (Star g r)
  then show ?case by (auto intro: star_rounds_sound)
next
  case (Cls p)
  then show ?case
    by (cases "re_rest s") (auto split: if_splits intro: spans.cls)
next
  case (Seq a b)
  from Seq.prems obtain u where "u \<in> set (re_run a s)" "t \<in> set (re_run b u)" by auto
  with Seq.IH show ?case by (metis spans.seq)
qed (auto intro: spans.intros split: if_splits)

lemma re_run_forward:
  assumes "t \<in> set (re_run r s)"
  shows "length (re_rest t) \<le> length (re_rest s)"
  using spans_forward [OF re_run_sound [OF assms]] by auto

lemma star_spans_rounds:
  assumes "spans r p q" "r = Star g a" "re_at s = p" "length (re_rest s) \<le> n"
    "\<And>p q s. spans a p q \<Longrightarrow> re_at s = p \<Longrightarrow> \<exists>t\<in>set (f s). re_at t = q"
  shows "\<exists>t\<in>set (star_rounds g f n s). re_at t = q"
  using assms(1-4)
proof (induction arbitrary: s n rule: spans.induct)
  case (stop g' a' p)
  then show ?case by (cases n) (auto simp: star_rounds_set)
next
  case (again a' p q g' r)
  then have a: "a' = a" "g' = g" by auto
  show ?case
  proof (cases "q = p")
    case False
    with spans_forward [OF again.hyps(1)] have l: "length (snd q) < length (snd p)" by auto
    with again.prems have "n \<noteq> 0" by auto
    then obtain k where k: "n = Suc k" by (cases n) auto
    from assms(5) [OF again.hyps(1) [unfolded a] again.prems(2)] obtain u where
      u: "u \<in> set (f s)" "re_at u = q" by blast
    with l k again.prems have len: "length (re_rest u) < length (re_rest s)" "length (re_rest u) \<le> k"
      by auto
    from again.IH(2) [OF again.prems(1) u(2) len(2)] obtain t where
      "t \<in> set (star_rounds g f k u)" "re_at t = r" by blast
    with u(1) len(1) k show ?thesis by (auto simp: star_rounds_set)
  next
    case True
    then show ?thesis using again.IH(2) [OF again.prems(1)] again.prems(2,3) by simp
  qed
qed simp_all

lemma re_run_complete: "spans r p q \<Longrightarrow> re_at s = p \<Longrightarrow> \<exists>t\<in>set (re_run r s). re_at t = q"
proof (induction r arbitrary: p q s)
  case (Seq a b)
  from Seq.prems(1) obtain m where m: "spans a p m" "spans b m q" by (cases rule: spans.cases) auto
  from Seq.IH(1) [OF m(1) Seq.prems(2)] obtain u where u: "u \<in> set (re_run a s)" "re_at u = m" by blast
  from Seq.IH(2) [OF m(2) u(2)] u(1) show ?case by auto
next
  case (Star g a)
  from star_spans_rounds [OF Star.prems(1) refl Star.prems(2) order_refl] Star.IH
  show ?case by simp
next
  case (Cap n a)
  from Cap.prems(1) have "spans a p q" by (cases rule: spans.cases) auto
  from Cap.IH [OF this Cap.prems(2)] show ?case by auto
next
  case (Alt a b)
  from Alt.prems(1) have "spans a p q \<or> spans b p q" by (cases rule: spans.cases) auto
  then show ?case using Alt.IH [OF _ Alt.prems(2), of q] by auto
qed (auto elim!: spans.cases)

theorem re_run_language: "re_at ` set (re_run r s) = {q. spans r (re_at s) q}"
  using re_run_sound re_run_complete by fastforce

end
