(* ===== verification/GoText.thy ===== *)
theory GoText
  imports GoRegexp
begin

text \<open>
  More of packages \<open>strings\<close> and \<open>path/filepath\<close> (on Unix, where \<open>ToSlash\<close> is the identity), for
  the parts of the program that read source text: joining paths, local paths, replacing and
  trimming, and the list of new directories that the extractors build with a \<open>seen\<close> map.
\<close>

section \<open>Package strings\<close>

definition trim_byte :: "char \<Rightarrow> string \<Rightarrow> string" where
  "trim_byte d s = trim_right_byte d (dropWhile (\<lambda>c. c = d) s)"

definition contains_any :: "string \<Rightarrow> string \<Rightarrow> bool" where
  "contains_any s cs \<longleftrightarrow> list_ex (\<lambda>c. c \<in> set cs) s"

text \<open>\<open>strings.ReplaceAll\<close> for a non-empty old text, and \<open>strings.LastIndex\<close>.\<close>

function replace_all :: "string \<Rightarrow> string \<Rightarrow> string \<Rightarrow> string" where
  "replace_all old new s =
     (case s of
        [] \<Rightarrow> []
      | c # cs \<Rightarrow>
          if old \<noteq> [] \<and> has_prefix s old then new @ replace_all old new (drop (length old) s)
          else c # replace_all old new cs)"
  by pat_completeness auto
termination
  by (relation "measure (\<lambda>(old, new, s). length s)") (auto simp: neq_Nil_conv)

declare replace_all.simps [simp del]

fun last_index_of :: "string \<Rightarrow> string \<Rightarrow> nat option" where
  "last_index_of sub [] = (if sub = [] then Some 0 else None)"
| "last_index_of sub (c # s) =
     (case last_index_of sub s of
        Some i \<Rightarrow> Some (Suc i)
      | None \<Rightarrow> if has_prefix (c # s) sub then Some 0 else None)"

definition has_any_prefix :: "string \<Rightarrow> string list \<Rightarrow> bool" where
  "has_any_prefix s ps \<longleftrightarrow> list_ex (has_prefix s) ps"

text \<open>The first segment of a text, up to a separator.\<close>

definition first_seg :: "char \<Rightarrow> string \<Rightarrow> string" where
  "first_seg d s = takeWhile (\<lambda>c. c \<noteq> d) s"

section \<open>Package filepath\<close>

definition path_join :: "string \<Rightarrow> string \<Rightarrow> string" where
  "path_join a b =
     (if a \<noteq> [] then path_clean (a @ ''/'' @ b) else if b \<noteq> [] then path_clean b else [])"

definition is_abs :: "string \<Rightarrow> bool" where
  "is_abs p \<longleftrightarrow> has_prefix p ''/''"

definition is_local :: "string \<Rightarrow> bool" where
  "is_local p \<longleftrightarrow>
     p \<noteq> [] \<and> \<not> is_abs p \<and> path_clean p \<noteq> ''..'' \<and> \<not> has_prefix (path_clean p) ''../''"

section \<open>Lists without repetitions\<close>

definition add_new :: "'a \<Rightarrow> 'a list \<Rightarrow> 'a list" where
  "add_new x xs = (if x \<in> set xs then xs else xs @ [x])"

text \<open>The loop of the extractors: each item gives a directory or nothing, and a directory is kept
  the first time it is seen.\<close>

definition keep_new :: "('a \<Rightarrow> 'b option) \<Rightarrow> 'a list \<Rightarrow> 'b list \<Rightarrow> 'b list" where
  "keep_new f xs seen = fold (\<lambda>x ds. case f x of None \<Rightarrow> ds | Some d \<Rightarrow> add_new d ds) xs seen"

lemma set_add_new [simp]: "set (add_new x xs) = insert x (set xs)"
  by (auto simp: add_new_def)

lemma distinct_add_new [simp]: "distinct (add_new x xs) \<longleftrightarrow> distinct xs"
  by (auto simp: add_new_def)

lemma keep_new_Nil [simp]: "keep_new f [] ds = ds"
  by (simp add: keep_new_def)

lemma keep_new_Cons [simp]:
  "keep_new f (x # xs) ds = keep_new f xs (case f x of None \<Rightarrow> ds | Some d \<Rightarrow> add_new d ds)"
  by (simp add: keep_new_def)

lemma set_keep_new: "set (keep_new f xs ds) = set ds \<union> {d. \<exists>x\<in>set xs. f x = Some d}"
  by (induction xs arbitrary: ds) (auto split: option.splits)

lemma distinct_keep_new: "distinct (keep_new f xs ds) \<longleftrightarrow> distinct ds"
  by (induction xs arbitrary: ds) (auto split: option.splits)

section \<open>Facts on cleaned paths\<close>

text \<open>The components of a cleaned path: none is empty or a dot, and dot-dots only come first (and
  not below the root).\<close>

definition comp_ok :: "string \<Rightarrow> bool" where
  "comp_ok c \<longleftrightarrow> c \<noteq> [] \<and> c \<noteq> ''.'' \<and> CHR ''/'' \<notin> set c"

definition clean_stack :: "bool \<Rightarrow> string list \<Rightarrow> bool" where
  "clean_stack rooted cs \<longleftrightarrow>
     list_all comp_ok cs \<and> ''..'' \<notin> set (if rooted then cs else dropWhile (\<lambda>c. c = ''..'') cs)"

lemma clean_stack_Nil [simp]: "clean_stack rooted []"
  by (simp add: clean_stack_def)

lemma clean_stack_push:
  assumes "clean_stack rooted cs" "comp_ok c" "c \<noteq> ''..''"
  shows "clean_stack rooted (cs @ [c])"
  using assms by (auto simp: clean_stack_def dropWhile_append)

lemma clean_stack_up:
  assumes "clean_stack False cs" "cs = [] \<or> last cs = ''..''"
  shows "clean_stack False (cs @ [''..''])"
proof -
  have "dropWhile (\<lambda>c. c = ''..'') cs = []"
  proof (rule ccontr)
    assume n: "dropWhile (\<lambda>c. c = ''..'') cs \<noteq> []"
    then have "cs \<noteq> []" by auto
    with assms(2) have "last cs = ''..''" by simp
    moreover have "last (dropWhile (\<lambda>c. c = ''..'') cs) = last cs"
      using last_appendR [OF n, of "takeWhile (\<lambda>c. c = ''..'') cs"] by simp
    ultimately have "''..'' \<in> set (dropWhile (\<lambda>c. c = ''..'') cs)" using last_in_set [OF n] by simp
    with assms(1) show False unfolding clean_stack_def by simp
  qed
  then have "dropWhile (\<lambda>c. c = ''..'') (cs @ [''..'']) = []" by (auto simp: dropWhile_eq_Nil_conv)
  moreover have "list_all comp_ok (cs @ [''..''])" using assms(1) by (simp add: clean_stack_def comp_ok_def)
  ultimately show ?thesis unfolding clean_stack_def by simp
qed

lemma clean_stack_pop:
  assumes "clean_stack rooted (cs @ [c])" shows "clean_stack rooted cs"
proof (cases "\<forall>x\<in>set cs. x = ''..''")
  case True
  then have d: "dropWhile (\<lambda>c. c = ''..'') cs = []" by (simp only: dropWhile_eq_Nil_conv)
  show ?thesis using assms unfolding clean_stack_def d by (simp split: if_splits)
next
  case False
  then have "dropWhile (\<lambda>c. c = ''..'') (cs @ [c]) = dropWhile (\<lambda>c. c = ''..'') cs @ [c]"
    by (auto simp: dropWhile_append)
  with assms show ?thesis by (auto simp: clean_stack_def split: if_splits)
qed

lemma clean_comps_stack:
  assumes "clean_stack rooted (rev st)" "\<forall>c\<in>set cs. CHR ''/'' \<notin> set c"
  shows "clean_stack rooted (clean_comps rooted st cs)"
  using assms
proof (induction rooted st cs rule: clean_comps.induct)
  case (2 rooted st c cs)
  have cs: "\<forall>c\<in>set cs. CHR ''/'' \<notin> set c" using 2 by simp
  consider "c = [] \<or> c = ''.''" | "c \<noteq> [] \<and> c \<noteq> ''.''" "c = ''..''" "st = []"
    | t ts where "c \<noteq> [] \<and> c \<noteq> ''.''" "c = ''..''" "st = t # ts" "t = ''..''"
    | t ts where "c \<noteq> [] \<and> c \<noteq> ''.''" "c = ''..''" "st = t # ts" "t \<noteq> ''..''"
    | "comp_ok c" "c \<noteq> ''..''"
    using 2 by (cases st) (auto simp: comp_ok_def)
  then show ?case
  proof cases
    case 2: 2
    have "clean_stack False ([] @ [''..''])" by (rule clean_stack_up) simp_all
    with 2 "2.IH"(2,3) cs show ?thesis by (cases rooted) simp_all
  next
    case 3
    with "2.prems" have "\<not> rooted" by (auto simp: clean_stack_def)
    with 3 "2.prems" clean_stack_up [of "rev st"] have "clean_stack rooted (rev (c # st))" by simp
    with 3 "2.IH"(4) cs show ?thesis by simp
  next
    case 4
    with "2.IH"(5) "2.prems" cs clean_stack_pop [of rooted "rev ts" t] show ?thesis by simp
  next
    case 5
    with "2.IH"(6) "2.prems" cs clean_stack_push [of rooted "rev st" c] show ?thesis
      by (simp add: comp_ok_def)
  qed (use 2 cs in simp)
qed simp

lemma clean_comps_id:
  assumes "clean_stack rooted (rev st @ cs)"
  shows "clean_comps rooted st cs = rev st @ cs"
  using assms
proof (induction rooted st cs rule: clean_comps.induct)
  case (2 rooted st c cs)
  have c: "c \<noteq> []" "c \<noteq> ''.''" using 2 by (auto simp: clean_stack_def comp_ok_def)
  show ?case
  proof (cases "c = ''..''")
    case True
    with 2(7) have r: "\<not> rooted" by (auto simp: clean_stack_def)
    have "set st \<subseteq> {''..''}"
    proof (rule ccontr)
      assume "\<not> set st \<subseteq> {''..''}"
      then have "''..'' \<in> set (dropWhile (\<lambda>c. c = ''..'') (rev st @ c # cs))"
        using True by (auto simp: dropWhile_append)
      with 2(7) r show False by (simp add: clean_stack_def)
    qed
    with 2 c True r show ?thesis by (cases st) auto
  qed (use 2 c in simp)
qed simp

lemma clean_comps_skip [simp]: "clean_comps rooted st (cs @ [[]]) = clean_comps rooted st cs"
  by (induction rooted st cs rule: clean_comps.induct) (auto split: list.splits)

lemma split_byte_append_sep: "split_byte d (s @ [d]) = split_byte d s @ [[]]"
  by (induction s) (auto split: list.splits)

lemma split_join_byte:
  "cs \<noteq> [] \<Longrightarrow> \<forall>c\<in>set cs. d \<notin> set c \<Longrightarrow> split_byte d (join_byte d cs) = cs"
proof (induction d cs rule: join_byte.induct)
  have free: "d \<notin> set c \<Longrightarrow> split_byte d c = [c]" for c d by (induction c) auto
  have pre: "d \<notin> set c \<Longrightarrow> split_byte d (c @ d # t) = c # split_byte d t" for c d t by (induction c) auto
  { case 2 then show ?case by (simp add: free) }
  { case 3 then show ?case by (simp add: pre) }
qed simp

text \<open>A path as the list of its cleaned components.\<close>

definition path_parts :: "string \<Rightarrow> string list" where
  "path_parts p = clean_comps (is_abs p) [] (split_byte (CHR ''/'') p)"

definition render_path :: "bool \<Rightarrow> string list \<Rightarrow> string" where
  "render_path rooted cs =
     (if rooted then CHR ''/'' # join_byte (CHR ''/'') cs
      else if cs = [] then ''.'' else join_byte (CHR ''/'') cs)"

lemma join_byte_eq_Nil: "list_all comp_ok cs \<Longrightarrow> join_byte d cs = [] \<longleftrightarrow> cs = []"
  by (cases "(d, cs)" rule: join_byte.cases) (auto simp: comp_ok_def)

lemma path_parts_stack [simp]: "clean_stack (is_abs p) (path_parts p)"
  unfolding path_parts_def by (rule clean_comps_stack) (auto dest: split_byte_free)

lemma path_clean_render: "path_clean p = render_path (is_abs p) (path_parts p)"
proof -
  have ok: "list_all comp_ok (path_parts p)" using path_parts_stack [of p] by (simp add: clean_stack_def)
  show ?thesis
    unfolding path_clean_def is_abs_def [symmetric] path_parts_def [symmetric] Let_def render_path_def
    by (simp add: join_byte_eq_Nil [OF ok])
qed

lemma clean_stack_free: "clean_stack rooted cs \<Longrightarrow> c \<in> set cs \<Longrightarrow> comp_ok c"
  by (simp add: clean_stack_def list_all_iff)

lemma render_rooted:
  assumes "clean_stack rooted cs" shows "is_abs (render_path rooted cs) = rooted"
proof (cases "rooted \<or> cs = []")
  case False
  then obtain c ds where cs: "cs = c # ds" "\<not> rooted" by (cases cs) auto
  with clean_stack_free [OF assms, of c] obtain x y where "c = x # y" "x \<noteq> CHR ''/''"
    by (cases c) (auto simp: comp_ok_def)
  with cs show ?thesis by (cases ds) (auto simp: render_path_def is_abs_def has_prefix_def)
qed (auto simp: render_path_def is_abs_def has_prefix_def)

lemma path_parts_render:
  assumes "clean_stack rooted cs" shows "path_parts (render_path rooted cs) = cs"
proof -
  have free: "\<forall>c\<in>set cs. CHR ''/'' \<notin> set c"
    using clean_stack_free [OF assms] by (auto simp: comp_ok_def)
  have "clean_comps rooted [] (split_byte (CHR ''/'') (render_path rooted cs)) = clean_comps rooted [] cs"
    using split_join_byte [OF _ free] by (cases "cs = []"; cases rooted) (auto simp: render_path_def)
  then show ?thesis
    using clean_comps_id [of rooted "[]" cs] assms by (simp add: path_parts_def render_rooted)
qed

lemma path_clean_idem: "clean_stack rooted cs \<Longrightarrow> path_clean (render_path rooted cs) = render_path rooted cs"
  by (simp add: path_clean_render render_rooted path_parts_render)

lemma path_clean_clean [simp]: "path_clean (path_clean p) = path_clean p"
  by (simp only: path_clean_render [of p] path_clean_idem [OF path_parts_stack])

lemma path_clean_slash:
  assumes "p \<noteq> []" shows "path_clean (p @ ''/'') = path_clean p"
proof -
  have "is_abs (p @ ''/'') = is_abs p" using assms by (cases p) (auto simp: is_abs_def has_prefix_def)
  then show ?thesis by (simp add: path_clean_render path_parts_def split_byte_append_sep)
qed

text \<open>Joining appends components; cleaning a part first changes nothing.\<close>

lemma clean_comps_append:
  "clean_comps rooted st (as @ bs) = clean_comps rooted (rev (clean_comps rooted st as)) bs"
  by (induction rooted st as rule: clean_comps.induct) (auto split: list.splits)

lemma split_byte_join_two: "split_byte d (a @ d # b) = split_byte d a @ split_byte d b"
  by (induction a) (auto split: list.splits)

lemma path_parts_append:
  assumes "a \<noteq> []"
  shows "path_parts (a @ ''/'' @ b) = clean_comps (is_abs a) (rev (path_parts a)) (split_byte (CHR ''/'') b)"
    "is_abs (a @ ''/'' @ b) = is_abs a"
proof -
  show abs: "is_abs (a @ ''/'' @ b) = is_abs a"
    using assms by (cases a) (auto simp: is_abs_def has_prefix_def)
  show "path_parts (a @ ''/'' @ b) = clean_comps (is_abs a) (rev (path_parts a)) (split_byte (CHR ''/'') b)"
    using abs by (simp add: path_parts_def split_byte_join_two clean_comps_append)
qed

lemma path_parts_clean [simp]: "path_parts (path_clean p) = path_parts p"
  by (simp add: path_clean_render path_parts_render)

lemma is_abs_clean [simp]: "is_abs (path_clean p) = is_abs p"
  by (simp add: path_clean_render render_rooted)

lemma path_clean_nonempty [simp]: "path_clean p \<noteq> []"
proof -
  have "list_all comp_ok (path_parts p)" using path_parts_stack [of p] by (simp add: clean_stack_def)
  then show ?thesis by (auto simp: path_clean_render render_path_def join_byte_eq_Nil)
qed

lemma path_join_parts:
  assumes "a \<noteq> []"
  shows "path_join a b = render_path (is_abs a) (clean_comps (is_abs a) (rev (path_parts a)) (split_byte (CHR ''/'') b))"
  using assms path_parts_append [OF assms, of b] by (simp add: path_join_def path_clean_render)

lemma path_join_clean [simp]: "a \<noteq> [] \<Longrightarrow> path_join (path_clean a) b = path_join a b"
  by (simp add: path_join_parts)

text \<open>Paths below: relative, without dot-dots.\<close>

definition plain_parts :: "string list \<Rightarrow> bool" where
  "plain_parts cs \<longleftrightarrow> list_all comp_ok cs \<and> ''..'' \<notin> set cs"

lemma plain_parts_simps [simp]:
  "plain_parts []" "plain_parts (as @ bs) \<longleftrightarrow> plain_parts as \<and> plain_parts bs"
  "plain_parts (c # as) \<longleftrightarrow> comp_ok c \<and> c \<noteq> ''..'' \<and> plain_parts as"
  by (auto simp: plain_parts_def)

lemma plain_stack: "plain_parts cs \<Longrightarrow> clean_stack rooted cs"
  by (auto simp: plain_parts_def clean_stack_def dest: set_dropWhileD)

lemma plain_stack_append: "clean_stack rooted as \<Longrightarrow> plain_parts bs \<Longrightarrow> clean_stack rooted (as @ bs)"
  by (induction bs rule: rev_induct) (auto simp flip: append_assoc intro: clean_stack_push)

lemma clean_comps_plain:
  "clean_stack rooted (rev st) \<Longrightarrow> plain_parts cs \<Longrightarrow> clean_comps rooted st cs = rev st @ cs"
  using clean_comps_id plain_stack_append by blast

lemma split_join_plain:
  "plain_parts cs \<Longrightarrow> clean_comps rooted st (split_byte (CHR ''/'') (join_byte (CHR ''/'') cs)) = clean_comps rooted st cs"
  using split_join_byte [of cs "CHR ''/''"] by (cases "cs = []") (auto simp: plain_parts_def list_all_iff comp_ok_def)

lemma path_join_plain:
  assumes "a \<noteq> []" "plain_parts cs"
  shows "path_join a (render_path False cs) = render_path (is_abs a) (path_parts a @ cs)"
proof -
  have "clean_comps (is_abs a) (rev (path_parts a)) (split_byte (CHR ''/'') (render_path False cs)) =
      clean_comps (is_abs a) (rev (path_parts a)) cs"
    using split_join_plain [OF assms(2)] by (cases "cs = []") (simp_all add: render_path_def)
  with assms show ?thesis by (simp add: path_join_parts clean_comps_plain)
qed

lemma is_local_iff:
  "is_local p \<longleftrightarrow> p \<noteq> [] \<and> \<not> is_abs p \<and> plain_parts (path_parts p)"
proof -
  have *: "plain_parts (path_parts p) \<longleftrightarrow> path_clean p \<noteq> ''..'' \<and> \<not> has_prefix (path_clean p) ''../''"
    if n: "\<not> is_abs p"
  proof -
    have st: "clean_stack False (path_parts p)" using path_parts_stack [of p] n by simp
    have r: "path_clean p = render_path False (path_parts p)" by (simp add: path_clean_render n)
    show ?thesis
    proof (cases "path_parts p")
      case Nil
      then show ?thesis using r by (simp add: render_path_def has_prefix_def)
    next
      case (Cons c cs)
      have c: "comp_ok c" using st Cons by (simp add: clean_stack_def)
      have rd: "path_clean p = (if cs = [] then c else c @ CHR ''/'' # join_byte (CHR ''/'') cs)"
        using r Cons by (cases cs) (auto simp: render_path_def)
      have up: "path_clean p = ''..'' \<or> has_prefix (path_clean p) ''../'' \<longleftrightarrow> c = ''..''"
      proof
        assume "path_clean p = ''..'' \<or> has_prefix (path_clean p) ''../''"
        then show "c = ''..''"
        proof
          assume "path_clean p = ''..''"
          with rd c show ?thesis by (cases cs; cases c) (auto simp: comp_ok_def Cons_eq_append_conv split: if_splits)
        next
          assume "has_prefix (path_clean p) ''../''"
          then obtain t where "path_clean p = ''..'' @ CHR ''/'' # t" by (auto simp: has_prefix_iff)
          then have "split_byte (CHR ''/'') (path_clean p) = ''..'' # split_byte (CHR ''/'') t"
            by (simp only: split_byte_join_two) simp
          moreover have "hd (split_byte (CHR ''/'') (path_clean p)) = c"
          proof -
            have "split_byte (CHR ''/'') c = [c]" using c split_join_byte [of "[c]" "CHR ''/''"] by (simp add: comp_ok_def)
            with rd show ?thesis by (simp add: split_byte_join_two)
          qed
          ultimately show ?thesis by simp
        qed
      next
        assume "c = ''..''"
        with rd show "path_clean p = ''..'' \<or> has_prefix (path_clean p) ''../''"
          by (auto simp: has_prefix_def)
      qed
      have "''..'' \<in> set (path_parts p) \<longleftrightarrow> c = ''..''"
        using st Cons by (auto simp: clean_stack_def split: if_splits)
      with up st show ?thesis by (auto simp: plain_parts_def clean_stack_def)
    qed
  qed
  show ?thesis unfolding is_local_def using * by blast
qed

lemma last_slash_join:
  assumes "CHR ''/'' \<notin> set c" shows "upto_last (CHR ''/'') (p @ CHR ''/'' # c) = p @ ''/''"
    "after_last (CHR ''/'') (p @ CHR ''/'' # c) = c"
  using assms by (auto simp: upto_last_def after_last_def dropWhile_append takeWhile_append)

lemma join_byte_snoc: "cs \<noteq> [] \<Longrightarrow> join_byte d (cs @ [c]) = join_byte d cs @ d # c"
  by (induction d cs rule: join_byte.induct) auto

lemma path_dir_render:
  assumes "clean_stack rooted (cs @ [c])"
  shows "path_dir (render_path rooted (cs @ [c])) = render_path rooted cs"
proof -
  have c: "CHR ''/'' \<notin> set c" using clean_stack_free [OF assms, of c] by (simp add: comp_ok_def)
  note st = clean_stack_pop [OF assms]
  show ?thesis
  proof (cases "cs = []")
    case True
    show ?thesis
    proof (cases rooted)
      case True
      then have "render_path rooted (cs @ [c]) = [] @ CHR ''/'' # c" using \<open>cs = []\<close> by (simp add: render_path_def)
      then show ?thesis using True \<open>cs = []\<close>
        by (simp only: path_dir_def last_slash_join [OF c]) (simp add: path_clean_def has_prefix_def render_path_def)
    next
      case False
      then have "upto_last (CHR ''/'') (render_path rooted (cs @ [c])) = []"
        using c \<open>cs = []\<close> by (auto simp: render_path_def upto_last_def dropWhile_eq_Nil_conv)
      with False True show ?thesis by (simp add: path_dir_def path_clean_def has_prefix_def render_path_def)
    qed
  next
    case False
    then have r: "render_path rooted (cs @ [c]) = render_path rooted cs @ CHR ''/'' # c"
      by (simp add: render_path_def join_byte_snoc)
    have ne: "render_path rooted cs \<noteq> []" using path_clean_idem [OF st] path_clean_nonempty by metis
    show ?thesis unfolding path_dir_def r last_slash_join [OF c]
      using path_clean_slash [OF ne] path_clean_idem [OF st] by simp
  qed
qed

text \<open>Cleaning never makes a path longer, so the way up to the root ends.\<close>

definition weight :: "string list \<Rightarrow> nat" where
  "weight cs = sum_list (map (\<lambda>c. Suc (length c)) cs)"

lemma weight_simps [simp]: "weight [] = 0" "weight (c # cs) = Suc (length c) + weight cs"
  "weight (as @ bs) = weight as + weight bs" "weight (rev as) = weight as"
  by (simp_all add: weight_def rev_map [symmetric] sum_list_rev)

lemma weight_clean_comps: "weight (clean_comps rooted st cs) \<le> weight st + weight cs"
  by (induction rooted st cs rule: clean_comps.induct) (auto split: list.splits)

lemma weight_split: "weight (split_byte d s) = Suc (length s)"
  by (induction s) (auto split: list.splits)

lemma weight_join: "cs \<noteq> [] \<Longrightarrow> Suc (length (join_byte d cs)) = weight cs"
  by (induction d cs rule: join_byte.induct) auto

lemma length_path_clean:
  assumes "p \<noteq> []" shows "length (path_clean p) \<le> length p"
proof (cases "path_parts p = []")
  case True
  with assms show ?thesis by (cases p) (auto simp: path_clean_render render_path_def)
next
  case False
  note w = weight_join [OF this, of "CHR ''/''"]
  show ?thesis
  proof (cases "is_abs p")
    case True
    then obtain s where s: "p = CHR ''/'' # s" by (cases p) (auto simp: is_abs_def has_prefix_def)
    then have "path_parts p = clean_comps True [] (split_byte (CHR ''/'') s)"
      using True by (simp add: path_parts_def)
    with weight_clean_comps [of True "[]" "split_byte (CHR ''/'') s"] w True s show ?thesis
      by (simp add: path_clean_render render_path_def weight_split)
  next
    case nabs: False
    with weight_clean_comps [of False "[]" "split_byte (CHR ''/'') p"] w False show ?thesis
      by (simp add: path_clean_render render_path_def weight_split path_parts_def)
  qed
qed

definition up_rank :: "string \<Rightarrow> nat" where
  "up_rank d = (if d = ''.'' then 0 else Suc (length d))"

lemma parent_lower:
  assumes "path_dir d \<noteq> d" "d \<noteq> ''.''"
  shows "up_rank (path_dir d) < up_rank d"
proof (cases "CHR ''/'' \<in> set d")
  case False
  then have "upto_last (CHR ''/'') d = []" by (auto simp: upto_last_def dropWhile_eq_Nil_conv)
  then have "path_dir d = ''.''" by (simp add: path_dir_def path_clean_def has_prefix_def)
  with assms show ?thesis by (simp add: up_rank_def)
next
  case True
  then obtain q t where d: "d = q @ CHR ''/'' # t" "CHR ''/'' \<notin> set t" by (meson split_list_last)
  then have up: "upto_last (CHR ''/'') d = q @ ''/''"
    by (simp add: upto_last_def dropWhile_append)
  show ?thesis
  proof (cases "q = []")
    case True
    then have "path_dir d = ''/''" by (simp add: path_dir_def up path_clean_def has_prefix_def)
    with assms d True show ?thesis by (cases t) (auto simp: up_rank_def)
  next
    case False
    then have "length (path_dir d) \<le> length q"
      using length_path_clean [of q] by (simp add: path_dir_def up path_clean_slash)
    with d assms show ?thesis by (auto simp: up_rank_def)
  qed
qed

end
