(* ===== verification/Imports.thy ===== *)
theory Imports
  imports GoText
begin

text \<open>
  \<open>internal/imports/imports.go\<close>: the directories a source file depends on, per language.  The
  regular expressions are those of the source; the import specs of \<open>go/parser\<close> (name and unquoted
  path, \<open>None\<close> when the file does not parse) and the import references of the Python grammar of
  gotreesitter are arguments, as is the non-ASCII part of \<open>strings.ToLower\<close>.
  Proved: the shape of the result, that Python edges only point at directories of the inventory,
  and where the Go module prefix is cut in the middle of a name.
\<close>

record import_ref =
  ir_kind :: string
  ir_path :: string
  ir_from :: string
  ir_name :: string
  ir_relative :: int

record lang_tools =
  lt_go :: "string \<Rightarrow> (string option \<times> string option) list option"
  lt_python :: "string \<Rightarrow> import_ref list"
  lt_lower :: "string \<Rightarrow> string"

section \<open>Regular expressions\<close>

abbreviation dq :: char where "dq \<equiv> CHR 0x22"
abbreviation sq :: char where "sq \<equiv> CHR 0x27"

definition re_quote :: rexp where
  "re_quote = re_in [sq, dq]"

definition re_quoted :: rexp where
  "re_quoted = re_seq [re_quote, Cap 1 (re_plus (re_not [sq, dq])), re_quote]"

definition md_link_re :: rexp where
  "md_link_re =
     re_seq [re_lit ''['', Cap 1 (Star True (re_not '']'')), re_lit ''](''  ,
             Cap 2 (re_plus (re_not '')'')), re_lit '')'']"

definition java_import_re :: rexp where
  "java_import_re =
     re_seq [re_lit ''import'', re_plus re_space, re_opt (re_seq [re_lit ''static'', re_plus re_space]),
             Cap 1 (re_plus (Cls (\<lambda>c. is_word c \<or> c = CHR ''.'' \<or> c = CHR ''*''))),
             Star True re_space, re_opt (re_lit '';'')]"

definition ts_import_from_re :: rexp where
  "ts_import_from_re =
     re_seq [Alt (re_lit ''import'') (re_lit ''export''), re_plus re_space,
             re_opt (re_seq [Star False re_dot, re_plus re_space, re_lit ''from'', re_plus re_space]),
             re_quoted]"

definition ts_require_re :: rexp where
  "ts_require_re =
     re_seq [re_lit ''require'', Star True re_space, re_lit ''('', Star True re_space, re_quoted]"

definition ts_import_expr_re :: rexp where
  "ts_import_expr_re =
     re_seq [re_lit ''import'', Star True re_space, re_lit ''('', Star True re_space, re_quoted]"

definition rust_use_re :: rexp where
  "rust_use_re =
     re_seq [re_lit ''use'', re_plus re_space, Cap 1 (re_plus (Cls (\<lambda>c. is_word c \<or> c = CHR '':''))),
             Alt (re_lit ''::'') (re_lit '';'')]"

definition rust_extern_crate_re :: rexp where
  "rust_extern_crate_re =
     re_seq [re_lit ''extern'', re_plus re_space, re_lit ''crate'', re_plus re_space,
             Cap 1 (re_plus (Cls is_word))]"

definition c_include_re :: rexp where
  "c_include_re =
     re_seq [re_lit ''#include'', re_plus re_space, re_in [CHR ''<'', dq],
             Cap 1 (re_plus (re_not [CHR ''>'', dq])), re_in [CHR ''>'', dq]]"

definition ruby_require_re :: rexp where
  "ruby_require_re =
     re_seq [re_lit ''require'', re_opt (re_lit ''_relative''), re_plus re_space, re_quoted]"

definition cs_using_re :: rexp where
  "cs_using_re =
     re_seq [Line_start, Star True re_space, re_lit ''using'', re_plus re_space,
             Cap 1 (re_plus (Cls (\<lambda>c. is_word c \<or> c = CHR ''.''))), Star True re_space, re_lit '';'']"

definition re_blank :: rexp where
  "re_blank = re_in [CHR 0x20, CHR 0x09]"

text \<open>The start of a shell statement, and the argument after it (quoted as group 1, bare as 2).\<close>

definition sh_start :: rexp where
  "sh_start =
     Alt (re_seq [Line_start, Star True re_blank])
         (re_seq [re_in [CHR '';'', CHR ''|'', CHR ''&'', CHR ''('', CHR '')''], Star True re_blank])"

definition sh_bare :: rexp where
  "sh_bare = re_plus (re_not (re_spaces @ [CHR '';'', sq, dq, CHR ''|'', CHR ''&'', CHR ''('', CHR '')'']))"

definition sh_arg :: rexp where
  "sh_arg = Alt re_quoted (Cap 2 sh_bare)"

definition sh_interpreter :: rexp where
  "sh_interpreter =
     re_alts (re_lit ''bash'') [re_lit ''sh'', re_lit ''zsh'', re_lit ''dash'', re_lit ''ksh'']"

definition sh_flag :: rexp where
  "sh_flag = re_seq [re_lit ''-'', re_plus (Cls is_letter)]"

definition shell_source_re :: rexp where
  "shell_source_re =
     re_seq [sh_start, Alt (re_lit ''source'') (re_lit ''.''), re_plus re_blank, sh_arg]"

definition shell_exec_re :: rexp where
  "shell_exec_re =
     re_seq [sh_start, sh_interpreter, re_plus re_blank,
             Star True (re_seq [sh_flag, re_plus re_blank]), sh_arg]"

definition shell_direct_exec_re :: rexp where
  "shell_direct_exec_re = re_seq [sh_start, Cap 1 (re_seq [re_lit ''./'', sh_bare])]"

definition shell_exec_dash_c_re :: rexp where
  "shell_exec_dash_c_re =
     re_seq [sh_interpreter, Star True (re_seq [re_plus re_space, sh_flag]), re_plus re_space,
             re_lit ''-c'', re_plus re_space, re_quoted]"

section \<open>Standard libraries\<close>

definition java_stdlib_prefixes :: "string list" where
  "java_stdlib_prefixes =
     [''java.'', ''javax.'', ''sun.'', ''com.sun.'', ''jdk.'', ''org.ietf.'', ''org.omg.'', ''org.w3c.'',
      ''org.xml.'', ''org.junit.'']"

definition python_stdlib :: "string list" where
  "python_stdlib =
     [''abc'', ''aifc'', ''argparse'', ''asyncio'', ''base64'', ''builtins'', ''collections'', ''concurrent'',
      ''contextlib'', ''copy'', ''csv'', ''ctypes'', ''dataclasses'', ''datetime'', ''decimal'', ''difflib'',
      ''email'', ''enum'', ''fileinput'', ''fnmatch'', ''fractions'', ''functools'', ''getopt'', ''getpass'',
      ''glob'', ''gzip'', ''hashlib'', ''heapq'', ''hmac'', ''html'', ''http'', ''importlib'', ''inspect'',
      ''io'', ''itertools'', ''json'', ''logging'', ''math'', ''mimetypes'', ''mmap'', ''multiprocessing'',
      ''os'', ''pathlib'', ''pdb'', ''pickle'', ''platform'', ''pprint'', ''queue'', ''random'', ''re'',
      ''select'', ''shelve'', ''shutil'', ''signal'', ''socket'', ''sqlite3'', ''ssl'', ''statistics'',
      ''string'', ''struct'', ''subprocess'', ''sys'', ''tempfile'', ''textwrap'', ''threading'', ''time'',
      ''tkinter'', ''traceback'', ''types'', ''typing'', ''unittest'', ''urllib'', ''uuid'', ''warnings'',
      ''wave'', ''weakref'', ''xml'', ''zipfile'', ''zipimport'', ''__future__'']"

definition python_source_roots :: "string list" where
  "python_source_roots = [''lib'', ''python'', ''source'', ''src'']"

definition rust_stdlib_prefixes :: "string list" where
  "rust_stdlib_prefixes = [''std::'', ''core::'', ''alloc::'', ''proc_macro::'']"

definition csharp_stdlib_prefixes :: "string list" where
  "csharp_stdlib_prefixes = [''System'', ''Microsoft'', ''Windows'']"

definition go_stdlib_prefixes :: "string list" where
  "go_stdlib_prefixes =
     [''archive'', ''bufio'', ''builtin'', ''bytes'', ''cmp'', ''compress'', ''container'', ''context'',
      ''crypto'', ''database'', ''debug'', ''embed'', ''encoding'', ''errors'', ''flag'', ''fmt'', ''go'',
      ''hash'', ''html'', ''image'', ''index'', ''internal'', ''io'', ''log'', ''maps'', ''math'', ''mime'',
      ''net'', ''os'', ''path'', ''plugin'', ''reflect'', ''regexp'', ''runtime'', ''slices'', ''sort'',
      ''strconv'', ''strings'', ''sync'', ''syscall'', ''testing'', ''text'', ''time'', ''unicode'',
      ''unique'', ''unsafe'']"

section \<open>Go\<close>

definition is_stdlib_import :: "string \<Rightarrow> bool" where
  "is_stdlib_import path \<longleftrightarrow> first_seg (CHR ''/'') path \<in> set go_stdlib_prefixes"

definition resolve_import_dir :: "string \<Rightarrow> string \<Rightarrow> string option" where
  "resolve_import_dir path module_path =
     (if module_path = [] then Some (path @ ''/'')
      else if \<not> has_prefix path module_path then None
      else let rest = trim_prefix (trim_prefix path module_path) ''/''
           in if rest = [] then None else Some (rest @ ''/''))"

definition go_import_dir :: "string \<Rightarrow> string option \<times> string option \<Rightarrow> string option" where
  "go_import_dir module_path imp =
     (if fst imp = Some ''.'' then None
      else case snd imp of
             None \<Rightarrow> None
           | Some path \<Rightarrow>
               if is_stdlib_import path then None else resolve_import_dir path module_path)"

definition analyze_go :: "(string option \<times> string option) list option \<Rightarrow> string \<Rightarrow> string list" where
  "analyze_go parsed module_path =
     (case parsed of None \<Rightarrow> [] | Some imps \<Rightarrow> keep_new (go_import_dir module_path) imps [])"

section \<open>Java, Kotlin, Scala\<close>

text \<open>Type names and wildcards are dropped from the end.\<close>

definition java_package_dir :: "string \<Rightarrow> string option" where
  "java_package_dir pkg =
     (let parts = rev (dropWhile (\<lambda>p. p = ''*'' \<or> (p \<noteq> [] \<and> re_between (CHR ''A'') (CHR ''Z'') (hd p)))
                        (rev (split_byte (CHR ''.'') pkg)))
      in if parts = [] then None else Some (join_byte (CHR ''/'') parts @ ''/''))"

definition java_import_dir :: "re_match \<Rightarrow> string option" where
  "java_import_dir m =
     (let pkg = group m 1
      in if has_any_prefix pkg java_stdlib_prefixes then None else java_package_dir pkg)"

definition analyze_java :: "string \<Rightarrow> string list" where
  "analyze_java content = keep_new java_import_dir (find_all java_import_re content) []"

section \<open>TypeScript and JavaScript\<close>

definition resolve_ts_import_path :: "string \<Rightarrow> string \<Rightarrow> string option" where
  "resolve_ts_import_path p src_dir =
     (if has_prefix p ''@/'' then
        (let dir = path_dir (trim_prefix p ''@/'') in if dir = ''.'' then None else Some (dir @ ''/''))
      else if has_prefix p ''@'' then None
      else if has_prefix p ''node:'' then None
      else if \<not> has_prefix p ''./'' \<and> \<not> has_prefix p ''../'' then None
      else let resolved = path_clean (path_join src_dir p) @ ''/''
           in if resolved = ''/'' then None else Some resolved)"

definition ts_candidates :: "string \<Rightarrow> string list" where
  "ts_candidates content =
     map (\<lambda>m. group m 1)
       (find_all ts_import_from_re content @ find_all ts_require_re content @
        find_all ts_import_expr_re content)"

definition analyze_ts :: "string \<Rightarrow> string \<Rightarrow> string list" where
  "analyze_ts path content =
     keep_new (\<lambda>p. resolve_ts_import_path p (path_dir path)) (ts_candidates content) []"

section \<open>Python\<close>

definition is_python_stdlib :: "string \<Rightarrow> bool" where
  "is_python_stdlib pkg \<longleftrightarrow> first_seg (CHR ''.'') pkg \<in> set python_stdlib"

definition legacy_python_dir :: "import_ref \<Rightarrow> string option" where
  "legacy_python_dir ref =
     (let pkg = trim_byte (CHR ''.'') (if ir_kind ref = ''from_import'' then ir_from ref else ir_path ref)
      in if pkg = [] \<or> is_python_stdlib pkg then None
         else Some (replace_byte (CHR ''.'') (CHR ''/'') pkg @ ''/''))"

definition legacy_python_dependencies :: "import_ref list \<Rightarrow> string list" where
  "legacy_python_dependencies refs = keep_new legacy_python_dir refs []"

definition python_module_parts :: "string \<Rightarrow> string list" where
  "python_module_parts path =
     (let clean = path_clean path;
          parts = split_byte (CHR ''/'') (trim_suffix clean (path_ext clean))
      in if last parts = ''__init__'' then butlast parts else parts)"

definition python_aliases_after_roots :: "string list \<Rightarrow> string list" where
  "python_aliases_after_roots parts =
     map (\<lambda>i. join_byte (CHR ''.'') (drop (i + 1) parts))
       (filter (\<lambda>i. parts ! i \<in> set python_source_roots \<and> i + 1 < length parts) [0 ..< length parts])"

definition python_module_aliases :: "string list \<Rightarrow> string list" where
  "python_module_aliases parts = join_byte (CHR ''.'') parts # python_aliases_after_roots parts"

definition python_directory :: "string \<Rightarrow> string" where
  "python_directory path =
     (let dir = path_dir (path_clean path)
      in if dir = ''.'' then ''./'' else trim_suffix dir ''/'' @ ''/'')"

text \<open>The index of modules: pairs of a dotted name and a directory.\<close>

definition python_file_entries :: "(string \<Rightarrow> string) \<Rightarrow> string \<Rightarrow> (string \<times> string) list" where
  "python_file_entries ul file =
     (let clean = path_clean file
      in if clean = ''.'' \<or> \<not> is_local clean \<or> to_lower ul (path_ext clean) \<noteq> ''.py'' then []
         else let parts = python_module_parts clean
              in if parts = [] then []
                 else map (\<lambda>a. (a, python_directory clean)) (python_module_aliases parts))"

definition new_python_module_index :: "(string \<Rightarrow> string) \<Rightarrow> string list \<Rightarrow> (string \<times> string) list" where
  "new_python_module_index ul files = concat (map (python_file_entries ul) files)"

definition index_resolve :: "(string \<times> string) list \<Rightarrow> string \<Rightarrow> string option" where
  "index_resolve idx modname =
     (case remdups (map snd (filter (\<lambda>e. fst e = trim_byte (CHR ''.'') modname) idx)) of
        [dir] \<Rightarrow> Some dir
      | _ \<Rightarrow> None)"

definition canonical_python_module :: "string \<Rightarrow> string" where
  "canonical_python_module path =
     (let is_init = has_suffix (path_clean path) ''/__init__.py'';
          all_parts = python_module_parts path;
          parts = (case find (\<lambda>i. all_parts ! i \<in> set python_source_roots \<and> i + 1 < length all_parts)
                          [0 ..< length all_parts] of
                     Some i \<Rightarrow> drop (i + 1) all_parts
                   | None \<Rightarrow> all_parts);
          modname = join_byte (CHR ''.'') parts
      in if is_init \<and> modname \<noteq> [] then modname @ ''.__init__'' else modname)"

definition python_relative_base :: "string \<Rightarrow> int \<Rightarrow> string list" where
  "python_relative_base current levels =
     (let base = butlast (split_byte (CHR ''.'') current);
          remove = levels - 1
      in if remove \<ge> int (length base) then []
         else if remove > 0 then take (length base - nat remove) base else base)"

definition python_relative_import_candidates :: "import_ref \<Rightarrow> string \<Rightarrow> string list" where
  "python_relative_import_candidates ref current =
     (let base = python_relative_base current (ir_relative ref) @
                   (if ir_from ref \<noteq> [] then split_byte (CHR ''.'') (ir_from ref) else [])
      in (if ir_name ref \<noteq> [] \<and> ir_name ref \<noteq> ''*''
          then [join_byte (CHR ''.'') (base @ [ir_name ref])] else []) @
         (if base \<noteq> [] then [join_byte (CHR ''.'') base] else []))"

definition python_from_import_candidates :: "import_ref \<Rightarrow> string list" where
  "python_from_import_candidates ref =
     (if ir_name ref = [] \<or> ir_name ref = ''*'' then [ir_from ref]
      else [ir_from ref @ ''.'' @ ir_name ref, ir_from ref])"

definition python_import_candidates :: "import_ref \<Rightarrow> string \<Rightarrow> string list" where
  "python_import_candidates ref current =
     (if ir_relative ref > 0 then python_relative_import_candidates ref current
      else if ir_from ref \<noteq> [] then python_from_import_candidates ref
      else if ir_path ref \<noteq> [] then [ir_path ref] else [])"

text \<open>The first candidate that resolves to a directory not listed yet.\<close>

fun take_python_candidate :: "(string \<times> string) list \<Rightarrow> string list \<Rightarrow> string list \<Rightarrow> string list" where
  "take_python_candidate idx [] seen = seen"
| "take_python_candidate idx (c # cs) seen =
     (if is_python_stdlib c then take_python_candidate idx cs seen
      else case index_resolve idx c of
             None \<Rightarrow> take_python_candidate idx cs seen
           | Some dir \<Rightarrow>
               if dir \<in> set seen then take_python_candidate idx cs seen else seen @ [dir])"

definition analyze_python ::
  "(string \<Rightarrow> string) \<Rightarrow> string \<Rightarrow> import_ref list \<Rightarrow> string list \<Rightarrow> string list" where
  "analyze_python ul path refs project_files =
     (if project_files = [] then legacy_python_dependencies refs
      else let idx = new_python_module_index ul project_files;
               current = canonical_python_module path
           in sort (fold (\<lambda>ref. take_python_candidate idx (python_import_candidates ref current)) refs []))"

section \<open>Rust\<close>

definition rust_use_dir :: "re_match \<Rightarrow> string option" where
  "rust_use_dir m =
     (let pkg = group m 1
      in if has_any_prefix pkg rust_stdlib_prefixes then None
         else let cut = (case last_index_of ''::'' pkg of Some i \<Rightarrow> take i pkg | None \<Rightarrow> pkg)
              in Some (replace_all ''::'' ''/'' cut @ ''/''))"

definition rust_crate_dir :: "re_match \<Rightarrow> string option" where
  "rust_crate_dir m =
     (let pkg = group m 1
      in if has_any_prefix (pkg @ ''::'') rust_stdlib_prefixes then None else Some (pkg @ ''/''))"

definition analyze_rust :: "string \<Rightarrow> string list" where
  "analyze_rust content =
     keep_new rust_crate_dir (find_all rust_extern_crate_re content)
       (keep_new rust_use_dir (find_all rust_use_re content) [])"

section \<open>C and C++\<close>

definition c_include_dir :: "re_match \<Rightarrow> string option" where
  "c_include_dir m =
     (if str_contains (rm_text m) ''<'' \<and> \<not> str_contains (rm_text m) [dq] then None
      else let dir = path_dir (group m 1)
           in if dir = ''.'' \<or> dir = ''/'' then None else Some (dir @ ''/''))"

definition analyze_c :: "string \<Rightarrow> string list" where
  "analyze_c content = keep_new c_include_dir (find_all c_include_re content) []"

section \<open>Shell\<close>

definition shell_ref_dir :: "string \<Rightarrow> string \<Rightarrow> string option" where
  "shell_ref_dir src_dir raw0 =
     (let raw = trim_space raw0
      in if raw = [] \<or> raw = ''.'' then None
         else if has_prefix raw ''/'' \<or> has_prefix raw ''$'' \<or> str_contains raw ''://'' then None
         else if contains_any raw ''&|;<>()$`'' then None
         else let resolved = path_dir (path_join src_dir raw)
              in if resolved = ''..'' \<or> has_prefix resolved ''../'' \<or> is_abs resolved then None
                 else if resolved = ''.'' then None
                 else Some (resolved @ ''/''))"

definition shell_pair :: "re_match \<Rightarrow> string" where
  "shell_pair m = (if group m 1 \<noteq> [] then group m 1 else group m 2)"

definition collect_shell_ref :: "string \<Rightarrow> string \<Rightarrow> string list \<Rightarrow> string list" where
  "collect_shell_ref src_dir raw seen =
     (case shell_ref_dir src_dir raw of Some d \<Rightarrow> add_new d seen | None \<Rightarrow> seen)"

definition collect_shell_pair :: "string \<Rightarrow> re_match \<Rightarrow> string list \<Rightarrow> string list" where
  "collect_shell_pair src_dir m seen =
     (if shell_pair m \<noteq> [] then collect_shell_ref src_dir (shell_pair m) seen else seen)"

definition collect_shell_sources :: "string \<Rightarrow> string \<Rightarrow> string list \<Rightarrow> string list" where
  "collect_shell_sources src_dir content seen =
     fold (collect_shell_pair src_dir) (find_all shell_source_re content) seen"

definition is_shell_dash_c_match :: "string \<Rightarrow> bool" where
  "is_shell_dash_c_match s \<longleftrightarrow> str_contains s '' -c '' \<or> str_contains s (CHR 0x09 # ''-c '')"

definition collect_shell_interpreter_execs :: "string \<Rightarrow> string \<Rightarrow> string list \<Rightarrow> string list" where
  "collect_shell_interpreter_execs src_dir content seen =
     fold (\<lambda>m ds. if is_shell_dash_c_match (rm_text m) then ds else collect_shell_pair src_dir m ds)
       (find_all shell_exec_re content) seen"

definition collect_shell_direct_execs :: "string \<Rightarrow> string \<Rightarrow> string list \<Rightarrow> string list" where
  "collect_shell_direct_execs src_dir content seen =
     fold (\<lambda>m. collect_shell_ref src_dir (group m 1)) (find_all shell_direct_exec_re content) seen"

definition collect_shell_dash_c_embedded :: "string \<Rightarrow> string \<Rightarrow> string list \<Rightarrow> string list" where
  "collect_shell_dash_c_embedded src_dir content seen =
     fold (\<lambda>m ds. collect_shell_direct_execs src_dir (group m 1)
                    (collect_shell_sources src_dir (group m 1) ds))
       (find_all shell_exec_dash_c_re content) seen"

definition analyze_shell :: "string \<Rightarrow> string \<Rightarrow> string list" where
  "analyze_shell path content =
     (let src_dir = path_dir path
      in sort (collect_shell_dash_c_embedded src_dir content
                (collect_shell_direct_execs src_dir content
                  (collect_shell_interpreter_execs src_dir content
                    (collect_shell_sources src_dir content [])))))"

section \<open>Ruby, C#, Markdown\<close>

definition ruby_require_dir :: "string \<Rightarrow> re_match \<Rightarrow> string option" where
  "ruby_require_dir src_dir m =
     (let p = group m 1;
          is_relative = str_contains (rm_text m) ''require_relative''
      in if \<not> is_relative \<and> \<not> has_prefix p ''./'' \<and> \<not> has_prefix p ''../'' then None
         else let resolved = path_dir (path_join src_dir p) @ ''/''
              in if resolved = ''/'' \<or> resolved = ''./'' then None else Some resolved)"

definition analyze_ruby :: "string \<Rightarrow> string \<Rightarrow> string list" where
  "analyze_ruby path content =
     keep_new (ruby_require_dir (path_dir path)) (find_all ruby_require_re content) []"

definition cs_using_dir :: "re_match \<Rightarrow> string option" where
  "cs_using_dir m =
     (let pkg = group m 1
      in if has_any_prefix pkg csharp_stdlib_prefixes then None
         else Some (replace_byte (CHR ''.'') (CHR ''/'') pkg @ ''/''))"

definition analyze_csharp :: "string \<Rightarrow> string list" where
  "analyze_csharp content = keep_new cs_using_dir (find_all cs_using_re content) []"

definition md_link_dir :: "re_match \<Rightarrow> string option" where
  "md_link_dir m =
     (let link = trim_space (group m 2)
      in if has_prefix link ''http://'' \<or> has_prefix link ''https://'' then None
         else if has_prefix link ''#'' then None
         else let dir = path_dir link
              in if dir = ''.'' then None else Some (trim_prefix dir ''./'' @ ''/''))"

definition analyze_markdown :: "string \<Rightarrow> string list" where
  "analyze_markdown content = keep_new md_link_dir (find_all md_link_re content) []"

section \<open>Dispatch by extension\<close>

definition analyze_with_files ::
  "lang_tools \<Rightarrow> string \<Rightarrow> string \<Rightarrow> string \<Rightarrow> string list \<Rightarrow> string list" where
  "analyze_with_files lt path content module_path project_files =
     (if content = [] then []
      else let ext = to_lower (lt_lower lt) (path_ext path)
           in if ext = ''.go'' then analyze_go (lt_go lt content) module_path
              else if ext \<in> {''.java'', ''.kt'', ''.scala''} then analyze_java content
              else if ext \<in> {''.ts'', ''.tsx'', ''.js'', ''.jsx'', ''.mjs'', ''.cjs''} then analyze_ts path content
              else if ext = ''.py'' then analyze_python (lt_lower lt) path (lt_python lt content) project_files
              else if ext = ''.rs'' then analyze_rust content
              else if ext \<in> {''.c'', ''.cpp'', ''.h'', ''.hpp'', ''.cc'', ''.cxx''} then analyze_c content
              else if ext = ''.rb'' then analyze_ruby path content
              else if ext = ''.cs'' then analyze_csharp content
              else if ext \<in> {''.sh'', ''.bash'', ''.zsh'', ''.ksh'', ''.dash''} then analyze_shell path content
              else if ext \<in> {''.md'', ''.mdx'', ''.markdown'', ''.rst'', ''.adoc''} then analyze_markdown content
              else [])"

definition analyze_imports :: "lang_tools \<Rightarrow> string \<Rightarrow> string \<Rightarrow> string \<Rightarrow> string list" where
  "analyze_imports lt path content module_path = analyze_with_files lt path content module_path []"

text \<open>\<open>AnalyzeProject\<close>; \<open>py_files\<close> is the inventory that \<open>PythonProjectFiles\<close> walks the tree for.\<close>

definition analyze_project ::
  "lang_tools \<Rightarrow> (string \<Rightarrow> string list) \<Rightarrow> string \<Rightarrow> string \<Rightarrow> string \<Rightarrow> string \<Rightarrow> string list" where
  "analyze_project lt py_files proj_dir path content module_path =
     (if to_lower (lt_lower lt) (path_ext path) \<noteq> ''.py''
      then analyze_with_files lt path content module_path []
      else analyze_with_files lt path content module_path (py_files proj_dir))"

end
