(* ===== verification/ModulePaths.thy ===== *)
theory ModulePaths
  imports Imports Chunker
begin

text \<open>
  Which Go module a file belongs to, in the two places that ask: the indexer
  (\<open>internal/indexing/module.go\<close>, \<open>indexer.go\<close>) and code intelligence (\<open>internal/codeintel/explain.go\<close>),
  and the dependency directories both derive from it.  The file system is a function from paths to
  contents (\<open>None\<close>: no such file, or it cannot be read).
  Proved: the indexer's cache changes nothing, the directories it stores are distinct and end in a
  slash, for Go files \<open>Explain\<close> shows exactly the directories the index holds, and for other
  languages it may not.
\<close>

type_synonym file_tree = "string \<Rightarrow> string option"

definition go_mod_filename :: string where
  "go_mod_filename = ''go.mod''"

text \<open>The first line that starts with \<open>module\<close>.\<close>

fun first_module :: "string list \<Rightarrow> string" where
  "first_module [] = []"
| "first_module (l # ls) =
     (let line = trim_space l
      in if has_prefix line ''module '' then trim_space (trim_prefix line ''module '')
         else first_module ls)"

section \<open>The indexer\<close>

definition module_rel :: "string \<Rightarrow> string" where
  "module_rel rel_dir =
     (let d = path_clean rel_dir
      in if d = ''.'' \<or> d = [] then go_mod_filename else path_join d go_mod_filename)"

definition confined_go_mod :: "string \<Rightarrow> string \<Rightarrow> string option" where
  "confined_go_mod project_path rel_dir =
     (let rel_file = module_rel rel_dir;
          base = path_clean project_path;
          full = path_clean (path_join base rel_file)
      in if \<not> is_local rel_file then None
         else if full \<noteq> path_join base go_mod_filename \<and> \<not> has_prefix full (base @ ''/'') then None
         else Some full)"

definition read_module_path_from_file :: "string \<Rightarrow> string" where
  "read_module_path_from_file content = first_module (scan_lines content)"

definition read_module_path_at :: "file_tree \<Rightarrow> string \<Rightarrow> string \<Rightarrow> string" where
  "read_module_path_at fs proj_dir rel_file =
     (let rf = path_clean rel_file
      in if \<not> is_local rf then []
         else case confined_go_mod proj_dir (path_dir rf) of
                None \<Rightarrow> []
              | Some full \<Rightarrow> (case fs full of None \<Rightarrow> [] | Some c \<Rightarrow> read_module_path_from_file c))"

definition read_module_path :: "file_tree \<Rightarrow> string \<Rightarrow> string" where
  "read_module_path fs project_path = read_module_path_at fs project_path go_mod_filename"

text \<open>The walk up ends at the directory that is its own parent, or before.\<close>

function find_module_up :: "file_tree \<Rightarrow> string \<Rightarrow> string \<Rightarrow> string \<times> string" where
  "find_module_up fs project_path dir =
     (let rel_file = module_rel dir;
          mp = read_module_path_at fs project_path rel_file
      in if \<not> is_local rel_file then ([], [])
         else if mp \<noteq> [] then (dir, mp)
         else if dir = ''.'' \<or> dir = ''/'' then ([], [])
         else if path_dir dir = dir then ([], [])
         else find_module_up fs project_path (path_dir dir))"
  by pat_completeness auto
termination by (relation "measure (\<lambda>(fs, p, d). up_rank d)") (auto intro: parent_lower)

declare find_module_up.simps [simp del]

definition find_module_info :: "file_tree \<Rightarrow> string \<Rightarrow> string \<Rightarrow> string \<times> string" where
  "find_module_info fs project_path file_rel =
     (if project_path = [] \<or> file_rel = [] then ([], [])
      else let f = path_clean file_rel
           in if f \<noteq> ''.'' \<and> \<not> is_local f then ([], [])
              else find_module_up fs project_path (path_dir f))"

definition find_module_path :: "file_tree \<Rightarrow> string \<Rightarrow> string \<Rightarrow> string" where
  "find_module_path fs project_path file_rel = snd (find_module_info fs project_path file_rel)"

definition find_module_dir :: "file_tree \<Rightarrow> string \<Rightarrow> string \<Rightarrow> string" where
  "find_module_dir fs project_path file_rel = fst (find_module_info fs project_path file_rel)"

text \<open>The part of an indexer that serves this: root module, project path, file inventory, and the
  cache by directory.\<close>

record module_state =
  ms_module_path :: string
  ms_project_path :: string
  ms_files :: "string list"
  ms_cache :: "string \<rightharpoonup> string \<times> string"

definition module_of_dir :: "file_tree \<Rightarrow> module_state \<Rightarrow> string \<Rightarrow> string \<times> string" where
  "module_of_dir fs ms rel =
     (let dir = find_module_dir fs (ms_project_path ms) rel;
          mp = (if dir \<noteq> [] then read_module_path_at fs (ms_project_path ms) (module_rel dir) else [])
      in if mp = [] then (''.'', ms_module_path ms) else (dir, mp))"

definition module_info_for ::
  "(string \<Rightarrow> string) \<Rightarrow> file_tree \<Rightarrow> string \<Rightarrow> module_state \<Rightarrow> (string \<times> string) \<times> module_state" where
  "module_info_for ul fs rel ms =
     (let file_dir = path_dir rel
      in if ms_project_path ms = [] \<or> to_lower ul (path_ext rel) \<noteq> ''.go'' then ((''.'', ms_module_path ms), ms)
         else if file_dir = ''.'' \<or> file_dir = ''/'' then ((''.'', ms_module_path ms), ms)
         else case ms_cache ms file_dir of
                Some r \<Rightarrow> (r, ms)
              | None \<Rightarrow>
                  (let r = module_of_dir fs ms rel
                   in (r, ms\<lparr>ms_cache := (ms_cache ms)(file_dir \<mapsto> r)\<rparr>)))"

definition unique_dir :: "string \<Rightarrow> string option" where
  "unique_dir d = (if d = [] then None else Some (if has_suffix d ''/'' then d else d @ ''/''))"

text \<open>\<open>fileDependencies\<close> of the indexer; \<open>append_unique_dir\<close> is one step of \<open>keep_new unique_dir\<close>.\<close>

definition dependencies_in ::
  "lang_tools \<Rightarrow> string list \<Rightarrow> string \<Rightarrow> string \<times> string \<Rightarrow> string \<Rightarrow> string \<Rightarrow> string list" where
  "dependencies_in lt inventory root_module mod_info rel content =
     (let (mdir, mp) = mod_info;
          deps = analyze_with_files lt rel content mp inventory;
          inner = keep_new unique_dir (map (path_join mdir) deps) []
      in if mdir = ''.'' then deps
         else if root_module \<noteq> [] \<and> root_module \<noteq> mp
              then keep_new unique_dir (analyze_with_files lt rel content root_module inventory) inner
              else inner)"

definition index_file_dependencies ::
  "lang_tools \<Rightarrow> file_tree \<Rightarrow> string \<Rightarrow> string \<Rightarrow> module_state \<Rightarrow> string list \<times> module_state" where
  "index_file_dependencies lt fs rel content ms =
     (let (m, ms1) = module_info_for (lt_lower lt) fs rel ms
      in (dependencies_in lt (ms_files ms) (ms_module_path ms) m rel content, ms1))"

section \<open>Code intelligence\<close>

definition parse_go_module_line :: "string \<Rightarrow> string" where
  "parse_go_module_line content = first_module (split_byte (CHR 0x0A) content)"

definition module_path_in_dir :: "file_tree \<Rightarrow> string \<Rightarrow> string \<Rightarrow> string" where
  "module_path_in_dir fs proj_dir dir =
     (case fs (path_clean (path_join (path_join proj_dir dir) go_mod_filename)) of
        None \<Rightarrow> []
      | Some c \<Rightarrow> parse_go_module_line c)"

function detect_module_up :: "file_tree \<Rightarrow> string \<Rightarrow> string \<Rightarrow> string" where
  "detect_module_up fs proj_dir dir =
     (let mp = module_path_in_dir fs proj_dir dir
      in if mp \<noteq> [] then mp
         else if dir = ''.'' \<or> dir = ''/'' then []
         else if path_dir dir = dir then []
         else detect_module_up fs proj_dir (path_dir dir))"
  by pat_completeness auto
termination by (relation "measure (\<lambda>(fs, p, d). up_rank d)") (auto intro: parent_lower)

declare detect_module_up.simps [simp del]

definition detect_module_path_for_file :: "file_tree \<Rightarrow> string \<Rightarrow> string \<Rightarrow> string" where
  "detect_module_path_for_file fs proj_dir file =
     (if proj_dir = [] then [] else detect_module_up fs proj_dir (path_dir file))"

text \<open>\<open>goModuleDir\<close> asks \<open>os.Stat\<close>: a directory, or a file without a \<open>module\<close> line, counts too.\<close>

function go_module_dir_up :: "(string \<Rightarrow> bool) \<Rightarrow> string \<Rightarrow> string \<Rightarrow> string" where
  "go_module_dir_up ex proj_dir dir =
     (if ex (path_clean (path_join (path_join proj_dir dir) go_mod_filename)) then dir
      else if dir = ''.'' \<or> dir = ''/'' then ''.''
      else if path_dir dir = dir then ''.''
      else go_module_dir_up ex proj_dir (path_dir dir))"
  by pat_completeness auto
termination by (relation "measure (\<lambda>(e, p, d). up_rank d)") (auto intro: parent_lower)

declare go_module_dir_up.simps [simp del]

definition go_module_dir :: "(string \<Rightarrow> bool) \<Rightarrow> string \<Rightarrow> string \<Rightarrow> string" where
  "go_module_dir ex proj_dir file = go_module_dir_up ex proj_dir (path_dir file)"

definition explain_file_dependencies ::
  "lang_tools \<Rightarrow> (string \<Rightarrow> string list) \<Rightarrow> file_tree \<Rightarrow> (string \<Rightarrow> bool) \<Rightarrow> string \<Rightarrow> string \<Rightarrow> string
     \<Rightarrow> string list" where
  "explain_file_dependencies lt py_files fs ex proj_dir file content =
     (let mdir = go_module_dir ex proj_dir file;
          deps = analyze_project lt py_files proj_dir file content (detect_module_path_for_file fs proj_dir file);
          inner = keep_new unique_dir (map (path_join mdir) deps) [];
          root_module = detect_module_path_for_file fs proj_dir []
      in if mdir = ''.'' then deps
         else if root_module \<noteq> []
              then keep_new unique_dir (analyze_project lt py_files proj_dir file content root_module) inner
              else inner)"

section \<open>The shape of the directories\<close>

lemma has_suffix_slash [simp]: "has_suffix (d @ ''/'') ''/''"
  by (simp add: has_suffix_iff)

lemma keep_new_slash:
  assumes "\<And>x d. f x = Some d \<Longrightarrow> has_suffix d ''/''" "\<forall>d\<in>set ds. has_suffix d ''/''"
  shows "\<forall>d\<in>set (keep_new f xs ds). has_suffix d ''/''"
  using assms by (auto simp: set_keep_new)

lemmas dir_rules = go_import_dir_def resolve_import_dir_def java_import_dir_def java_package_dir_def
  resolve_ts_import_path_def legacy_python_dir_def rust_use_dir_def rust_crate_dir_def c_include_dir_def
  shell_ref_dir_def ruby_require_dir_def cs_using_dir_def md_link_dir_def unique_dir_def

text \<open>A list of directories as the store wants it: no repetition, every entry ends in a slash.\<close>

definition dir_list :: "string list \<Rightarrow> bool" where
  "dir_list ds \<longleftrightarrow> distinct ds \<and> (\<forall>d\<in>set ds. has_suffix d ''/'')"

lemma dir_list_Nil [simp]: "dir_list []"
  by (simp add: dir_list_def)

lemma dir_list_sort [simp]: "dir_list (sort ds) \<longleftrightarrow> dir_list (ds :: string list)"
  by (simp add: dir_list_def)

lemma dir_list_keep_new:
  assumes "dir_list ds" "\<And>x d. f x = Some d \<Longrightarrow> has_suffix d ''/''"
  shows "dir_list (keep_new f xs ds)"
  using assms keep_new_slash [of f ds xs] by (simp add: dir_list_def distinct_keep_new)

lemma dir_list_fold:
  assumes "\<And>x ds. x \<in> set xs \<Longrightarrow> dir_list ds \<Longrightarrow> dir_list (f x ds)" "dir_list ds"
  shows "dir_list (fold f xs ds)"
  using assms by (induction xs arbitrary: ds) auto

lemma python_directory_slash: "has_suffix (python_directory p) ''/''"
  by (simp add: python_directory_def Let_def has_suffix_def)

lemma index_resolve_entry: "index_resolve idx m = Some d \<Longrightarrow> d \<in> snd ` set idx"
proof -
  assume r: "index_resolve idx m = Some d"
  let ?ds = "remdups (map snd (filter (\<lambda>e. fst e = trim_byte (CHR ''.'') m) idx))"
  from r have "?ds = [d]" by (auto simp: index_resolve_def split: list.splits)
  then have "set ?ds = {d}" by simp
  then show ?thesis by auto
qed

lemma python_index_slash:
  assumes "index_resolve (new_python_module_index ul files) m = Some d"
  shows "has_suffix d ''/''"
  using index_resolve_entry [OF assms]
  by (auto simp: new_python_module_index_def python_file_entries_def Let_def python_directory_slash split: if_splits)

lemma take_python_candidate_dirs:
  assumes "dir_list seen"
  shows "dir_list (take_python_candidate (new_python_module_index ul files) cs seen)"
  using assms
  by (induction cs) (auto simp: dir_list_def python_index_slash split: option.splits)

lemma shell_ref_dirs: "dir_list ds \<Longrightarrow> dir_list (collect_shell_ref sd raw ds)"
  by (auto simp: collect_shell_ref_def dir_list_def shell_ref_dir_def Let_def split: option.splits if_splits)

lemma shell_dirs:
  "dir_list ds \<Longrightarrow> dir_list (collect_shell_pair sd m ds)"
  "dir_list ds \<Longrightarrow> dir_list (collect_shell_sources sd c ds)"
  "dir_list ds \<Longrightarrow> dir_list (collect_shell_interpreter_execs sd c ds)"
  "dir_list ds \<Longrightarrow> dir_list (collect_shell_direct_execs sd c ds)"
  by (auto simp: collect_shell_pair_def collect_shell_sources_def collect_shell_interpreter_execs_def
      collect_shell_direct_execs_def intro!: dir_list_fold shell_ref_dirs)

lemma analyze_dirs: "dir_list (analyze_with_files lt path content mp files)"
proof -
  have "dir_list (analyze_go g mp)" for g
    by (auto simp: analyze_go_def dir_rules Let_def split: option.splits if_splits intro!: dir_list_keep_new)
  moreover have "dir_list (analyze_java content)" "dir_list (analyze_ts path content)"
    "dir_list (analyze_rust content)" "dir_list (analyze_c content)" "dir_list (analyze_ruby path content)"
    "dir_list (analyze_csharp content)" "dir_list (analyze_markdown content)"
    by (auto simp: analyze_java_def analyze_ts_def analyze_rust_def analyze_c_def analyze_ruby_def
        analyze_csharp_def analyze_markdown_def dir_rules Let_def split: if_splits intro!: dir_list_keep_new)
  moreover have "dir_list (analyze_python (lt_lower lt) path refs files)" for refs
    by (auto simp: analyze_python_def legacy_python_dependencies_def dir_rules Let_def split: if_splits
        intro!: dir_list_keep_new dir_list_fold take_python_candidate_dirs)
  moreover have "dir_list (analyze_shell path content)"
    by (auto simp: analyze_shell_def collect_shell_dash_c_embedded_def Let_def intro!: dir_list_fold shell_dirs)
  ultimately show ?thesis unfolding analyze_with_files_def by (simp add: Let_def)
qed

lemma dependencies_in_dirs: "dir_list (dependencies_in lt files m0 m rel content)"
  by (auto simp: dependencies_in_def Let_def analyze_dirs unique_dir_def split: prod.splits if_splits
      intro!: dir_list_keep_new)

section \<open>The cache\<close>

text \<open>The module of a file depends on its directory only.\<close>

lemma local_cleanD:
  assumes "is_local rel" "path_clean rel = rel"
  shows "rel \<noteq> []" "rel = render_path False (path_parts rel)" "plain_parts (path_parts rel)"
  using assms path_clean_render [of rel] by (auto simp: is_local_iff)

lemma path_dir_local:
  assumes "is_local rel" "path_clean rel = rel"
  shows "path_dir rel = render_path False (butlast (path_parts rel))"
proof (cases "path_parts rel" rule: rev_cases)
  case Nil
  with local_cleanD [OF assms] show ?thesis by (simp add: path_dir_def render_path_def upto_last_def path_clean_def has_prefix_def)
next
  case (snoc cs c)
  with local_cleanD [OF assms] path_dir_render [of False cs c] plain_stack show ?thesis by fastforce
qed

lemma module_of_dir_cong:
  assumes "is_local a" "path_clean a = a" "is_local b" "path_clean b = b" "path_dir a = path_dir b"
  shows "module_of_dir fs ms a = module_of_dir fs ms b"
  using assms by (auto simp: module_of_dir_def find_module_dir_def find_module_info_def is_local_def)

definition cache_sound :: "file_tree \<Rightarrow> module_state \<Rightarrow> bool" where
  "cache_sound fs ms \<longleftrightarrow>
     (\<forall>d r. ms_cache ms d = Some r \<longrightarrow>
        (\<forall>rel. is_local rel \<and> path_clean rel = rel \<and> path_dir rel = d \<longrightarrow> r = module_of_dir fs ms rel))"

definition module_info :: "(string \<Rightarrow> string) \<Rightarrow> file_tree \<Rightarrow> module_state \<Rightarrow> string \<Rightarrow> string \<times> string" where
  "module_info ul fs ms rel =
     (if ms_project_path ms = [] \<or> to_lower ul (path_ext rel) \<noteq> ''.go'' \<or> path_dir rel = ''.'' \<or> path_dir rel = ''/''
      then (''.'', ms_module_path ms) else module_of_dir fs ms rel)"

lemma module_of_dir_update [simp]:
  "module_of_dir fs (ms\<lparr>ms_cache := c\<rparr>) rel = module_of_dir fs ms rel"
  by (simp add: module_of_dir_def Let_def)

lemma cached_module_info:
  assumes "cache_sound fs ms" "is_local rel" "path_clean rel = rel"
  shows "\<exists>c. module_info_for ul fs rel ms = (module_info ul fs ms rel, ms\<lparr>ms_cache := c\<rparr>) \<and>
           cache_sound fs (ms\<lparr>ms_cache := c\<rparr>)"
proof (cases "ms_project_path ms = [] \<or> to_lower ul (path_ext rel) \<noteq> ''.go'' \<or> path_dir rel = ''.'' \<or> path_dir rel = ''/''")
  case True
  then have "module_info_for ul fs rel ms = (module_info ul fs ms rel, ms\<lparr>ms_cache := ms_cache ms\<rparr>)"
    by (auto simp: module_info_for_def module_info_def Let_def)
  with assms(1) show ?thesis by (metis module_state.surjective module_state.update_convs(4))
next
  case no: False
  show ?thesis
  proof (cases "ms_cache ms (path_dir rel)")
    case (Some r)
    with assms have "r = module_of_dir fs ms rel" unfolding cache_sound_def by blast
    with Some no have "module_info_for ul fs rel ms = (module_info ul fs ms rel, ms\<lparr>ms_cache := ms_cache ms\<rparr>)"
      by (simp add: module_info_for_def module_info_def Let_def)
    with assms(1) show ?thesis by (metis module_state.surjective module_state.update_convs(4))
  next
    case None
    let ?c = "(ms_cache ms)(path_dir rel \<mapsto> module_of_dir fs ms rel)"
    from None no have "module_info_for ul fs rel ms = (module_info ul fs ms rel, ms\<lparr>ms_cache := ?c\<rparr>)"
      by (simp add: module_info_for_def module_info_def Let_def)
    moreover have "cache_sound fs (ms\<lparr>ms_cache := ?c\<rparr>)"
      unfolding cache_sound_def
    proof (intro allI impI)
      fix d r rel' assume r: "ms_cache (ms\<lparr>ms_cache := ?c\<rparr>) d = Some r"
        and rel': "is_local rel' \<and> path_clean rel' = rel' \<and> path_dir rel' = d"
      show "r = module_of_dir fs (ms\<lparr>ms_cache := ?c\<rparr>) rel'"
      proof (cases "d = path_dir rel")
        case True
        with r rel' module_of_dir_cong [of rel rel' fs ms] assms(2,3) show ?thesis by simp
      next
        case False
        with r have "ms_cache ms d = Some r" by simp
        with assms(1) rel' show ?thesis unfolding cache_sound_def module_of_dir_update by blast
      qed
    qed
    ultimately show ?thesis by blast
  qed
qed

lemma cached_dependencies:
  assumes "cache_sound fs ms" "is_local rel" "path_clean rel = rel"
  shows "fst (index_file_dependencies lt fs rel content ms) =
      dependencies_in lt (ms_files ms) (ms_module_path ms) (module_info (lt_lower lt) fs ms rel) rel content"
    "cache_sound fs (snd (index_file_dependencies lt fs rel content ms))"
  using cached_module_info [OF assms, of "lt_lower lt"]
  by (auto simp: index_file_dependencies_def)

section \<open>The two module lookups\<close>

text \<open>The scanner of the indexer and the split of code intelligence find the same line, unless a line
  is too long for the scanner.\<close>

lemma trim_seqs_newline_first: "trim_seqs (map rev space_seqs) (CHR 0x0A # s) = trim_seqs (map rev space_seqs) s"
  by (subst trim_seqs.simps) (simp add: space_seqs_def has_prefix_def)

lemma find_space_newline:
  "s \<noteq> [] \<Longrightarrow>
     find (\<lambda>w. w \<noteq> [] \<and> has_prefix (s @ [CHR 0x0A]) w) space_seqs = find (\<lambda>w. w \<noteq> [] \<and> has_prefix s w) space_seqs"
proof (rule find_cong [OF refl])
  fix w assume s: "s \<noteq> []" and w: "w \<in> set space_seqs"
  then have n: "CHR 0x0A \<notin> set (tl w)" by (auto simp: space_seqs_def)
  have "has_prefix (s @ [CHR 0x0A]) w \<longleftrightarrow> has_prefix s w" if "w \<noteq> []"
  proof
    assume "has_prefix (s @ [CHR 0x0A]) w"
    then obtain t where t: "s @ [CHR 0x0A] = w @ t" by (auto simp: has_prefix_iff)
    show "has_prefix s w"
    proof (cases t rule: rev_cases)
      case Nil
      with t have "w = s @ [CHR 0x0A]" by simp
      with n s show ?thesis by (cases s) auto
    next
      case (snoc u c)
      with t have "s = w @ u" by (metis append_assoc butlast_snoc)
      then show ?thesis by simp
    qed
  qed (auto simp: has_prefix_iff)
  then show "(w \<noteq> [] \<and> has_prefix (s @ [CHR 0x0A]) w) = (w \<noteq> [] \<and> has_prefix s w)" by blast
qed

lemma trim_left_newline:
  "trim_left_space (s @ [CHR 0x0A]) = (if trim_left_space s = [] then [] else trim_left_space s @ [CHR 0x0A])"
proof (induction s rule: length_induct)
  case (1 s)
  show ?case
  proof (cases "s = []")
    case True
    have "trim_seqs space_seqs [CHR 0x0A] = []"
      by (subst trim_seqs.simps) (simp add: space_seqs_def has_prefix_def)
    with True show ?thesis by (simp add: trim_left_space_def)
  next
    case False
    note f = find_space_newline [OF this]
    show ?thesis
    proof (cases "find (\<lambda>w. w \<noteq> [] \<and> has_prefix s w) space_seqs")
      case None
      with f False show ?thesis
        by (simp add: trim_left_space_def trim_seqs.simps [of _ s] trim_seqs.simps [of _ "s @ [CHR 0x0A]"])
    next
      case (Some w)
      from find_SomeD [OF Some] have w: "w \<noteq> []" "length w \<le> length s" by (auto simp: has_prefix_def)
      with False have "length (drop (length w) s) < length s" by (cases w) auto
      from 1 [rule_format, OF this] Some f w show ?thesis
        by (simp add: trim_left_space_def trim_seqs.simps [of _ s] trim_seqs.simps [of _ "s @ [CHR 0x0A]"])
    qed
  qed
qed

lemma trim_space_newline_end [simp]: "trim_space (s @ [CHR 0x0A]) = trim_space s"
  by (simp add: trim_space_def trim_left_newline trim_right_space_def trim_seqs_newline_first)

definition scanner_lines :: "string \<Rightarrow> bool" where
  "scanner_lines c \<longleftrightarrow> list_all (\<lambda>l. length l < max_scan_token) (split_byte (CHR 0x0A) c)"

lemma first_line_split:
  "split_byte (CHR 0x0A) c =
     (case first_line c of (l, r) \<Rightarrow>
        if l \<noteq> [] \<and> last l = CHR 0x0A then butlast l # split_byte (CHR 0x0A) r else [l])"
  by (induction c) (auto split: prod.splits if_splits list.splits)

lemma first_line_rest: "first_line c = (l, r) \<Longrightarrow> l = [] \<or> last l \<noteq> CHR 0x0A \<Longrightarrow> r = []"
  by (induction c arbitrary: l r) (auto split: prod.splits if_splits)

lemma first_module_scan:
  assumes "scanner_lines c" shows "first_module (scan_lines c) = first_module (split_byte (CHR 0x0A) c)"
  using assms
proof (induction c rule: scan_lines.induct)
  case (1 s)
  have [simp]: "trim_space [] = []" by (simp add: trim_space_def trim_left_space_def trim_right_space_def)
  obtain l r where lr: "first_line s = (l, r)" by fastforce
  show ?case
  proof (cases "s = []")
    case True
    then show ?thesis by (simp add: scan_lines.simps has_prefix_def)
  next
    case False
    note IH = 1(1) [OF False lr [symmetric]]
    show ?thesis
    proof (cases "l \<noteq> [] \<and> last l = CHR 0x0A")
      case True
      then obtain b where b: "l = b @ [CHR 0x0A]" by (metis append_butlast_last_id)
      with lr have sp: "split_byte (CHR 0x0A) s = b # split_byte (CHR 0x0A) r" by (subst first_line_split) simp
      with 1(2) b have "fits_scanner l" "scanner_lines r" by (auto simp: fits_scanner_def scanner_lines_def)
      with IH False lr sp b show ?thesis by (subst scan_lines.simps) (simp add: Let_def)
    next
      case nl: False
      with lr have sp: "split_byte (CHR 0x0A) s = [l]" by (subst first_line_split) auto
      from first_line_rest [OF lr] nl have r: "r = []" by blast
      from 1(2) sp nl have "fits_scanner l" by (auto simp: fits_scanner_def scanner_lines_def)
      with False lr sp r show ?thesis by (subst scan_lines.simps) (simp add: scan_lines.simps)
    qed
  qed
qed

text \<open>The project is at an absolute path other than the root, its \<open>go.mod\<close> files have lines the
  scanner takes, and each has a \<open>module\<close> line (so that existing and naming a module are the same).\<close>

definition module_files_regular :: "file_tree \<Rightarrow> (string \<Rightarrow> bool) \<Rightarrow> string \<Rightarrow> bool" where
  "module_files_regular fs ex proj_dir \<longleftrightarrow>
     is_abs proj_dir \<and> path_clean proj_dir \<noteq> ''/'' \<and>
     (\<forall>d. ex (path_clean (path_join (path_join proj_dir d) go_mod_filename)) \<longleftrightarrow>
            module_path_in_dir fs proj_dir d \<noteq> []) \<and>
     (\<forall>p c. fs p = Some c \<longrightarrow> scanner_lines c)"

lemma go_mod_ok [simp]: "comp_ok go_mod_filename" "go_mod_filename \<noteq> ''..''" "go_mod_filename \<noteq> []"
  by (auto simp: comp_ok_def go_mod_filename_def)

lemma render_dot: "plain_parts cs \<Longrightarrow> render_path False cs = ''.'' \<longleftrightarrow> cs = []"
  by (metis path_parts_render plain_parts_simps(1) plain_stack render_path_def)

lemma render_not_slash: "plain_parts cs \<Longrightarrow> render_path False cs \<noteq> ''/''"
  using render_rooted [OF plain_stack, of cs False] by (auto simp: is_abs_def has_prefix_def)

lemma render_nonempty: "plain_parts cs \<Longrightarrow> render_path False cs \<noteq> []"
  using path_clean_idem [OF plain_stack, of cs False] path_clean_nonempty by metis

lemma module_rel_render:
  assumes "plain_parts cs"
  shows "module_rel (render_path False cs) = render_path False (cs @ [go_mod_filename])"
proof -
  have "path_join (render_path False cs) (render_path False [go_mod_filename]) =
      render_path False (cs @ [go_mod_filename])"
    using assms path_join_plain [OF render_nonempty [OF assms], of "[go_mod_filename]"] render_rooted [OF plain_stack]
      path_parts_render [OF plain_stack] by simp
  then show ?thesis
    using assms path_clean_idem [OF plain_stack, of cs False] render_dot [OF assms] render_nonempty [OF assms]
    by (auto simp: module_rel_def Let_def render_path_def)
qed

lemma render_local: "plain_parts cs \<Longrightarrow> is_local (render_path False cs)"
  using render_rooted [OF plain_stack, of cs False] path_parts_render [OF plain_stack, of cs False]
  by (simp add: is_local_iff render_nonempty)

lemma module_file:
  assumes "is_abs proj_dir" "plain_parts cs"
  shows "path_clean (path_join (path_join proj_dir (render_path False cs)) go_mod_filename) =
    render_path True (path_parts proj_dir @ cs @ [go_mod_filename])"
proof -
  have n: "proj_dir \<noteq> []" using assms(1) by (auto simp: is_abs_def has_prefix_def)
  let ?a = "render_path True (path_parts proj_dir @ cs)"
  have st: "clean_stack True (path_parts proj_dir @ cs)"
    using plain_stack_append [of True "path_parts proj_dir" cs] path_parts_stack [of proj_dir] assms by simp
  have j: "path_join proj_dir (render_path False cs) = ?a"
    using path_join_plain [OF n assms(2)] assms(1) by simp
  have "?a \<noteq> []" by (simp add: render_path_def)
  from path_join_plain [OF this, of "[go_mod_filename]"] st
  have "path_join ?a go_mod_filename = render_path True (path_parts proj_dir @ cs @ [go_mod_filename])"
    by (simp add: render_rooted path_parts_render render_path_def [of False "[go_mod_filename]"])
  moreover have "clean_stack True (path_parts proj_dir @ cs @ [go_mod_filename])"
    using plain_stack_append [OF st, of "[go_mod_filename]"] by simp
  ultimately show ?thesis using path_clean_idem j by simp
qed

lemma confined_module_file:
  assumes "is_abs proj_dir" "path_clean proj_dir \<noteq> ''/''" "plain_parts cs"
  shows "confined_go_mod proj_dir (render_path False cs) =
    Some (render_path True (path_parts proj_dir @ cs @ [go_mod_filename]))"
proof -
  have n: "proj_dir \<noteq> []" using assms(1) by (auto simp: is_abs_def has_prefix_def)
  let ?full = "render_path True (path_parts proj_dir @ cs @ [go_mod_filename])"
  have st: "clean_stack True (path_parts proj_dir @ cs @ [go_mod_filename])"
    using plain_stack_append [of True "path_parts proj_dir" "cs @ [go_mod_filename]"]
      path_parts_stack [of proj_dir] assms by simp
  have join: "path_join (path_clean proj_dir) (module_rel (render_path False cs)) = ?full"
    using module_rel_render [OF assms(3)] path_join_plain [OF n, of "cs @ [go_mod_filename]"] assms n by simp
  have "path_parts proj_dir \<noteq> []"
    using assms(1,2) by (auto simp: path_clean_render render_path_def)
  then obtain ps p where ps: "path_parts proj_dir = p # ps" by (cases "path_parts proj_dir") auto
  have "has_prefix ?full (path_clean proj_dir @ ''/'')"
  proof -
    have "join_byte d (as @ bs) = join_byte d as @ d # join_byte d bs" if "as \<noteq> []" "bs \<noteq> []" for d as bs
      using that by (induction d as rule: join_byte.induct) (auto simp: neq_Nil_conv)
    from this [of "path_parts proj_dir" "cs @ [go_mod_filename]" "CHR ''/''"] ps
    have "?full = path_clean proj_dir @ ''/'' @ join_byte (CHR ''/'') (cs @ [go_mod_filename])"
      using assms(1) by (simp add: path_clean_render render_path_def)
    then show ?thesis by (auto simp: has_prefix_iff)
  qed
  then show ?thesis
    using join path_clean_idem [OF st] render_local [of "cs @ [go_mod_filename]"] assms(3)
    by (simp add: confined_go_mod_def Let_def module_rel_render)
qed

lemma read_module_render:
  assumes "module_files_regular fs ex proj_dir" "plain_parts cs"
  shows "read_module_path_at fs proj_dir (module_rel (render_path False cs)) =
    module_path_in_dir fs proj_dir (render_path False cs)"
proof -
  have st: "clean_stack False (cs @ [go_mod_filename])" using assms(2) by (intro plain_stack) simp
  have r: "path_clean (module_rel (render_path False cs)) = render_path False (cs @ [go_mod_filename])"
    using path_clean_idem [OF st] module_rel_render [OF assms(2)] by simp
  have "first_module (scan_lines c) = first_module (split_byte (CHR 0x0A) c)" if "fs p = Some c" for p c
    using that assms(1) first_module_scan unfolding module_files_regular_def by blast
  then show ?thesis
    using assms render_local [of "cs @ [go_mod_filename]"] path_dir_render [OF st]
      confined_module_file [of proj_dir cs] module_file [of proj_dir cs]
    by (auto simp: read_module_path_at_def r Let_def module_files_regular_def module_path_in_dir_def
        read_module_path_from_file_def parse_go_module_line_def split: option.splits)
qed

lemma read_module_path_top:
  assumes "module_files_regular fs ex proj_dir"
  shows "read_module_path fs proj_dir = module_path_in_dir fs proj_dir ''.''"
  using read_module_render [OF assms, of "[]"] module_rel_render [of "[]"]
  by (simp add: read_module_path_def render_path_def)

text \<open>The three walks up find the same module.\<close>

lemma module_walks:
  assumes "module_files_regular fs ex proj_dir" "plain_parts cs"
  shows "(find_module_up fs proj_dir (render_path False cs) = ([], []) \<and>
      detect_module_up fs proj_dir (render_path False cs) = [] \<and>
      go_module_dir_up ex proj_dir (render_path False cs) = ''.'' \<and>
      module_path_in_dir fs proj_dir ''.'' = []) \<or>
    (\<exists>ds. plain_parts ds \<and> module_path_in_dir fs proj_dir (render_path False ds) \<noteq> [] \<and>
      find_module_up fs proj_dir (render_path False cs) =
        (render_path False ds, module_path_in_dir fs proj_dir (render_path False ds)) \<and>
      detect_module_up fs proj_dir (render_path False cs) = module_path_in_dir fs proj_dir (render_path False ds) \<and>
      go_module_dir_up ex proj_dir (render_path False cs) = render_path False ds)"
  using assms(2)
proof (induction cs rule: rev_induct)
  case Nil
  have r: "render_path False [] = ''.''" by (simp add: render_path_def)
  have l: "is_local (module_rel ''.'')"
    using render_local [of "[go_mod_filename]"] module_rel_render [of "[]"] r by simp
  have rd: "read_module_path_at fs proj_dir (module_rel ''.'') = module_path_in_dir fs proj_dir ''.''"
    using read_module_render [OF assms(1), of "[]"] r by simp
  have ex: "ex (path_clean (path_join (path_join proj_dir ''.'') go_mod_filename)) \<longleftrightarrow>
      module_path_in_dir fs proj_dir ''.'' \<noteq> []"
    using assms(1) by (simp add: module_files_regular_def)
  show ?case
  proof (cases "module_path_in_dir fs proj_dir ''.'' = []")
    case True
    with l rd ex r show ?thesis
      by (simp add: find_module_up.simps detect_module_up.simps go_module_dir_up.simps Let_def)
  next
    case False
    with l rd ex r show ?thesis
      by (intro disjI2 exI [of _ "[]"])
        (simp add: find_module_up.simps detect_module_up.simps go_module_dir_up.simps Let_def)
  qed
next
  case (snoc c cs)
  let ?d = "render_path False (cs @ [c])"
  have p: "plain_parts cs" using snoc.prems by simp
  have l: "is_local (module_rel ?d)"
    using render_local [of "(cs @ [c]) @ [go_mod_filename]"] module_rel_render [OF snoc.prems] snoc.prems by simp
  note rd = read_module_render [OF assms(1) snoc.prems]
  have ex: "ex (path_clean (path_join (path_join proj_dir ?d) go_mod_filename)) \<longleftrightarrow>
      module_path_in_dir fs proj_dir ?d \<noteq> []"
    using assms(1) by (simp add: module_files_regular_def)
  have up: "path_dir ?d = render_path False cs" by (rule path_dir_render [OF plain_stack [OF snoc.prems]])
  have ne: "render_path False cs \<noteq> ?d"
    using path_parts_render [OF plain_stack [OF p], of False] path_parts_render [OF plain_stack [OF snoc.prems], of False]
    by (metis append_self_conv list.distinct(1))
  have nd: "?d \<noteq> ''.''" "?d \<noteq> ''/''" using render_dot [OF snoc.prems] render_not_slash [OF snoc.prems] by auto
  show ?case
  proof (cases "module_path_in_dir fs proj_dir ?d = []")
    case True
    with l rd ex nd ne up have
      "find_module_up fs proj_dir ?d = find_module_up fs proj_dir (render_path False cs)"
      "detect_module_up fs proj_dir ?d = detect_module_up fs proj_dir (render_path False cs)"
      "go_module_dir_up ex proj_dir ?d = go_module_dir_up ex proj_dir (render_path False cs)"
      by (simp_all add: find_module_up.simps [of fs proj_dir ?d] detect_module_up.simps [of fs proj_dir ?d]
          go_module_dir_up.simps [of ex proj_dir ?d] Let_def)
    with snoc.IH [OF p] show ?thesis by simp
  next
    case False
    with l rd ex nd show ?thesis using snoc.prems
      by (intro disjI2 exI [of _ "cs @ [c]"])
        (simp add: find_module_up.simps [of fs proj_dir ?d] detect_module_up.simps [of fs proj_dir ?d]
          go_module_dir_up.simps [of ex proj_dir ?d] Let_def)
  qed
qed


definition demo_tree :: file_tree where
  "demo_tree = [''/p/go.mod'' \<mapsto> ''module ex.com/m'', ''/p/tools/go.mod'' \<mapsto> ''module ex.com/tools'']"

definition demo_tools :: lang_tools where
  "demo_tools =
     \<lparr>lt_go = \<lambda>c. Some [(None, Some ''fmt''), (None, Some ''ex.com/tools/util''), (None, Some ''ex.com/m/internal/db'')],
      lt_python = \<lambda>c. [], lt_lower = id\<rparr>"

definition demo_modules :: module_state where
  "demo_modules = \<lparr>ms_module_path = ''ex.com/m'', ms_project_path = ''/p'', ms_files = [], ms_cache = Map.empty\<rparr>"

lemma demo_tree_regular: "module_files_regular demo_tree (\<lambda>p. demo_tree p \<noteq> None) ''/p''"
proof -
  have m: "parse_go_module_line c \<noteq> [] \<and> scanner_lines c" if "demo_tree p = Some c" for p c
  proof -
    from that have "c = ''module ex.com/m'' \<or> c = ''module ex.com/tools''"
      by (auto simp: demo_tree_def split: if_splits)
    moreover have "parse_go_module_line ''module ex.com/m'' = ''ex.com/m''" by code_simp
    moreover have "parse_go_module_line ''module ex.com/tools'' = ''ex.com/tools''" by code_simp
    ultimately show ?thesis by (auto simp: scanner_lines_def max_scan_token_def)
  qed
  then have "\<forall>d. demo_tree (path_clean (path_join (path_join ''/p'' d) go_mod_filename)) \<noteq> None \<longleftrightarrow>
      module_path_in_dir demo_tree ''/p'' d \<noteq> []"
    by (auto simp: module_path_in_dir_def split: option.splits)
  moreover have "is_abs ''/p''" "path_clean ''/p'' \<noteq> ''/''" by code_simp+
  ultimately show ?thesis using m unfolding module_files_regular_def by blast
qed

lemma demo_tree_nested:
  assumes "plain_parts ds" "ds \<noteq> []" "module_path_in_dir demo_tree ''/p'' (render_path False ds) \<noteq> []"
  shows "module_path_in_dir demo_tree ''/p'' (render_path False ds) \<noteq> ''ex.com/m''"
proof -
  have p: "is_abs ''/p''" "path_parts ''/p'' = [''p'']" by code_simp+
  let ?q = "render_path True ([''p''] @ ds @ [go_mod_filename])"
  have "?q \<noteq> ''/p/go.mod''"
  proof
    assume q: "?q = ''/p/go.mod''"
    have "plain_parts ([''p''] @ ds @ [go_mod_filename])"
      using assms(1) by (simp add: comp_ok_def go_mod_filename_def)
    from path_parts_render [OF plain_stack [OF this, of True]] q
    have "[''p''] @ ds @ [go_mod_filename] = path_parts ''/p/go.mod''" by simp
    also have "\<dots> = [''p'', ''go.mod'']" by code_simp
    finally show False using assms(2) by simp
  qed
  then have "demo_tree ?q \<in> {None, Some ''module ex.com/tools''}" by (simp add: demo_tree_def)
  moreover have "parse_go_module_line ''module ex.com/tools'' = ''ex.com/tools''" by code_simp
  ultimately show ?thesis
    using assms(3) module_file [OF p(1) assms(1)] p(2) by (auto simp: module_path_in_dir_def)
qed


text \<open>For a file of another language inside a nested module the two differ: \<open>goModuleDir\<close> does not look
  at the extension, so \<open>Explain\<close> also lists every directory with the module directory put before it once more.\<close>

lemma explain_doubles_prefix:
  "explain_file_dependencies demo_tools (\<lambda>_. []) demo_tree (\<lambda>p. demo_tree p \<noteq> None) ''/p''
     ''tools/web/a.ts'' (''import '' @ [sq] @ ''./b'' @ [sq]) = [''tools/tools/web/b/'', ''tools/web/b/'']"
  "fst (index_file_dependencies demo_tools demo_tree ''tools/web/a.ts'' (''import '' @ [sq] @ ''./b'' @ [sq])
     demo_modules) = [''tools/web/b/'']"
  by code_simp+

text \<open>The prefix of the module is cut without looking at the next character: the package of another
  module whose path continues the name counts as a directory of the project.\<close>

lemma module_prefix_cuts_names:
  "resolve_import_dir ''ex.com/mono/api'' ''ex.com/m'' = Some ''ono/api/''"
  by code_simp

end
