(* ===== verification/CodeIntel.thy ===== *)
theory CodeIntel
  imports ModulePaths ChunkerAST "HOL-Library.Product_Lexorder"
begin

text \<open>
  \<open>internal/codeintel\<close> (callers, impact, explain) and \<open>internal/deadcode\<close>: questions on the import
  graph of a project, a list of files with the directories each imports, whose order is the
  iteration order of a Go map.  The file system, the symbols of tree-sitter and \<open>strconv.Quote\<close> are
  arguments (\<open>code_env\<close>).
  Proved: \<open>Impact\<close> lists every file some chain of imports leads from to the changed file, with the
  length of the shortest chain, whatever the order of the map; \<open>Callers\<close> stops at the second level;
  imports the extractors record are found again, and dead-code analysis does not see them.
\<close>

record file_line =
  fl_file :: string
  fl_line :: int

type_synonym import_graph = "(string \<times> string list) list"

record code_env =
  ce_read :: file_tree
  ce_symbols :: "string \<Rightarrow> string \<Rightarrow> symbol list"
  ce_lower :: "string \<Rightarrow> string"
  ce_quote :: "string \<Rightarrow> string"

section \<open>References to a line\<close>

definition parse_file_line :: "(string \<Rightarrow> string) \<Rightarrow> string \<Rightarrow> file_line result" where
  "parse_file_line qt arg =
     (case last_index (CHR '':'') arg of
        None \<Rightarrow> Inl (Plain (''expected file:line format, got '' @ qt arg))
      | Some i \<Rightarrow>
          (case atoi (drop (i + 1) arg) of
             None \<Rightarrow> Inl (Plain (''invalid line number in '' @ qt arg))
           | Some n \<Rightarrow>
               if n < 1 then Inl (Plain (''invalid line number in '' @ qt arg))
               else Inr \<lparr>fl_file = take i arg, fl_line = n\<rparr>))"

fun nearest_above :: "symbol list \<Rightarrow> int \<Rightarrow> symbol option \<Rightarrow> symbol option" where
  "nearest_above [] line near = near"
| "nearest_above (s # ss) line near =
     nearest_above ss line
       (if line \<ge> sy_start s \<and> (case near of None \<Rightarrow> True | Some n \<Rightarrow> sy_start s > sy_start n)
        then Some s else near)"

definition lookup_symbol_at_line :: "symbol list \<Rightarrow> int \<Rightarrow> symbol" where
  "lookup_symbol_at_line syms line =
     (case find (\<lambda>s. line \<ge> sy_start s \<and> line \<le> sy_end s) syms of
        Some s \<Rightarrow> s
      | None \<Rightarrow> (case nearest_above syms line None of Some s \<Rightarrow> s | None \<Rightarrow> hd syms))"

definition load_symbol :: "code_env \<Rightarrow> string \<Rightarrow> file_line \<Rightarrow> (string \<times> symbol) result" where
  "load_symbol ce proj_path fl =
     (let base = (if proj_path = [] then ''.'' else proj_path);
          abs_path = path_clean (path_join base (fl_file fl))
      in if \<not> has_prefix abs_path (path_clean base @ ''/'') \<and> abs_path \<noteq> path_clean base \<and> base \<noteq> ''.''
         then Inl (Plain (''path '' @ ce_quote ce (fl_file fl) @ '' escapes project root''))
         else case ce_read ce abs_path of
                None \<Rightarrow> Inl (Wrapped (''read '' @ fl_file fl @ '': '') (Plain ''open''))
              | Some content \<Rightarrow>
                  (let syms = ce_symbols ce (fl_file fl) content
                   in if syms = [] then Inl (Plain (''no symbols found in '' @ fl_file fl))
                      else Inr (content, lookup_symbol_at_line syms (fl_line fl))))"

section \<open>Directories of a file in the graph\<close>

definition normalize_dependency_dir :: "string \<Rightarrow> string" where
  "normalize_dependency_dir dir0 =
     (let dir = path_clean dir0 in if dir = ''.'' then ''./'' else trim_suffix dir ''/'' @ ''/'')"

definition is_python_source_root :: "string \<Rightarrow> bool" where
  "is_python_source_root name \<longleftrightarrow> name \<in> {''lib'', ''python'', ''source'', ''src''}"

definition dependency_dirs :: "string \<Rightarrow> string list" where
  "dependency_dirs dir0 =
     (let dir1 = path_clean dir0;
          dir = (if dir1 = ''.'' then [] else dir1);
          parts = split_byte (CHR ''/'') (trim_byte (CHR ''/'') dir)
      in keep_new Some
           (map normalize_dependency_dir
             (dir # map (\<lambda>i. join_byte (CHR ''/'') (drop (i + 1) parts))
                      (filter (\<lambda>i. is_python_source_root (parts ! i) \<and> i + 1 < length parts)
                        [0 ..< length parts])))
           [])"

definition is_js_family_ext :: "string \<Rightarrow> bool" where
  "is_js_family_ext ext \<longleftrightarrow> ext \<in> {''.ts'', ''.tsx'', ''.js'', ''.jsx'', ''.mjs'', ''.cjs''}"

definition js_family_dependency_dirs :: "string \<Rightarrow> string \<Rightarrow> string \<Rightarrow> string list" where
  "js_family_dependency_dirs dir clean ext =
     (let d = normalize_dependency_dir dir;
          base = trim_suffix (path_base clean) ext;
          alias = normalize_dependency_dir (path_join dir base)
      in if base = [] \<or> base = ''.'' then [d] else if alias = d then [d] else [d, alias])"

definition dependency_dirs_for_file :: "(string \<Rightarrow> string) \<Rightarrow> string \<Rightarrow> string list" where
  "dependency_dirs_for_file ul file =
     (let clean = path_clean file;
          dir = path_dir clean;
          ext = to_lower ul (path_ext clean)
      in if ext = ''.py'' then dependency_dirs dir
         else if is_js_family_ext ext then js_family_dependency_dirs dir clean ext
         else [normalize_dependency_dir dir])"

section \<open>Callers\<close>

definition find_direct_callers_for_dirs :: "import_graph \<Rightarrow> string list \<Rightarrow> string list" where
  "find_direct_callers_for_dirs graph dirs =
     (let wanted = map normalize_dependency_dir dirs
      in map fst (filter (\<lambda>e. list_ex (\<lambda>t. normalize_dependency_dir t \<in> set wanted) (snd e)) graph))"

definition collect_transitive_callers ::
  "(string \<Rightarrow> string) \<Rightarrow> import_graph \<Rightarrow> string list \<Rightarrow> string \<Rightarrow> string list" where
  "collect_transitive_callers ul graph direct exclude =
     (let found = concat (map (\<lambda>dc. filter (\<lambda>s. s \<noteq> exclude)
                    (find_direct_callers_for_dirs graph (dependency_dirs_for_file ul dc))) direct)
      in sort (remdups (filter (\<lambda>t. t \<notin> set direct) found)))"

record callers_result =
  ca_symbol :: symbol
  ca_direct :: "string list"
  ca_transitive :: "string list"

definition callers :: "code_env \<Rightarrow> string \<Rightarrow> import_graph result \<Rightarrow> file_line \<Rightarrow> callers_result result" where
  "callers ce proj_path graph0 fl =
     (case load_symbol ce proj_path fl of
        Inl e \<Rightarrow> Inl e
      | Inr (content, smb) \<Rightarrow>
          (case graph0 of
             Inl e \<Rightarrow> Inl (Wrapped ''fetch dependency graph: '' e)
           | Inr graph \<Rightarrow>
               (let direct = sort (find_direct_callers_for_dirs graph
                               (dependency_dirs_for_file (ce_lower ce) (fl_file fl)))
                in Inr \<lparr>ca_symbol = smb, ca_direct = direct,
                        ca_transitive = collect_transitive_callers (ce_lower ce) graph direct (fl_file fl)\<rparr>)))"

section \<open>Impact\<close>

definition default_impact_depth :: int where "default_impact_depth = 5"
definition max_impact_depth :: int where "max_impact_depth = 10"

definition clamp_impact_depth :: "int \<Rightarrow> int" where
  "clamp_impact_depth d =
     (if d \<le> 0 then default_impact_depth else if d > max_impact_depth then max_impact_depth else d)"

type_synonym visits = "(string \<times> nat) list"

text \<open>One level: the files found first at this depth, and their directories, without repetition.\<close>

definition visit_caller ::
  "(string \<Rightarrow> string) \<Rightarrow> string \<Rightarrow> nat \<Rightarrow> string \<Rightarrow> visits \<times> string list \<Rightarrow> visits \<times> string list" where
  "visit_caller ul seed_file depth caller st =
     (case st of (visited, next_dirs) \<Rightarrow>
        if caller = seed_file \<or> caller \<in> fst ` set visited then (visited, next_dirs)
        else (visited @ [(caller, depth)], keep_new Some (dependency_dirs_for_file ul caller) next_dirs))"

definition expand_impact_level ::
  "(string \<Rightarrow> string) \<Rightarrow> import_graph \<Rightarrow> string list \<Rightarrow> string \<Rightarrow> nat \<Rightarrow> visits \<Rightarrow> visits \<times> string list" where
  "expand_impact_level ul graph current_dirs seed_file depth visited =
     fold (visit_caller ul seed_file depth) (find_direct_callers_for_dirs graph current_dirs) (visited, [])"

fun impact_levels ::
  "(string \<Rightarrow> string) \<Rightarrow> import_graph \<Rightarrow> string \<Rightarrow> nat \<Rightarrow> nat \<Rightarrow> string list \<Rightarrow> visits \<Rightarrow> visits" where
  "impact_levels ul graph seed_file depth 0 dirs visited = visited"
| "impact_levels ul graph seed_file depth (Suc n) dirs visited =
     (case expand_impact_level ul graph dirs seed_file depth visited of
        (visited1, next_dirs) \<Rightarrow>
          if next_dirs = [] then visited1
          else impact_levels ul graph seed_file (Suc depth) n next_dirs visited1)"

text \<open>\<open>ImpactNode\<close>s in the order of depth, then path.\<close>

definition collect_impact_nodes :: "visits \<Rightarrow> (nat \<times> string) list" where
  "collect_impact_nodes visited = sort (map (\<lambda>(f, d). (d, f)) visited)"

definition reverse_dependency_closure_for_dirs ::
  "(string \<Rightarrow> string) \<Rightarrow> import_graph \<Rightarrow> string list \<Rightarrow> string \<Rightarrow> int \<Rightarrow> (nat \<times> string) list" where
  "reverse_dependency_closure_for_dirs ul graph seed_dirs seed_file max_depth =
     collect_impact_nodes (impact_levels ul graph seed_file 1 (nat max_depth) seed_dirs [])"

record impact_result =
  im_symbol :: symbol
  im_affected :: "(nat \<times> string) list"
  im_total :: nat

definition impact ::
  "code_env \<Rightarrow> string \<Rightarrow> import_graph result \<Rightarrow> file_line \<Rightarrow> int \<Rightarrow> impact_result result" where
  "impact ce proj_path graph0 fl max_depth =
     (case load_symbol ce proj_path fl of
        Inl e \<Rightarrow> Inl e
      | Inr (content, smb) \<Rightarrow>
          (case graph0 of
             Inl e \<Rightarrow> Inl (Wrapped ''fetch dependency graph: '' e)
           | Inr graph \<Rightarrow>
               (let affected = reverse_dependency_closure_for_dirs (ce_lower ce) graph
                      (dependency_dirs_for_file (ce_lower ce) (fl_file fl)) (fl_file fl)
                      (clamp_impact_depth max_depth)
                in Inr \<lparr>im_symbol = smb, im_affected = affected, im_total = length affected\<rparr>)))"

section \<open>Explain\<close>

fun go_package_name_lines :: "string list \<Rightarrow> string" where
  "go_package_name_lines [] = []"
| "go_package_name_lines (l # ls) =
     (let line = trim_space l
      in if has_prefix line ''package '' then trim_space (trim_prefix line ''package '')
         else go_package_name_lines ls)"

definition go_package_name :: "string \<Rightarrow> string" where
  "go_package_name content = go_package_name_lines (split_byte (CHR 0x0A) content)"

definition is_test_file :: "(string \<Rightarrow> string) \<Rightarrow> string \<Rightarrow> bool" where
  "is_test_file ul path =
     (let base = to_lower ul (path_base path);
          ext = to_lower ul (path_ext base)
      in if ext = ''.go'' then has_suffix base ''_test.go''
         else if ext = ''.py'' then has_prefix base ''test_'' \<or> has_suffix base ''_test.py''
         else if ext \<in> {''.js'', ''.jsx'', ''.mjs'', ''.cjs'', ''.ts'', ''.tsx''}
         then str_contains base ''.test.'' \<or> str_contains base ''.spec.'' \<or>
              path_base (path_dir path) = ''__tests__''
         else False)"

definition ignored_test_dir :: "string \<Rightarrow> bool" where
  "ignored_test_dir name \<longleftrightarrow>
     is_ignored_dir name \<or> name \<in> {''.mypy_cache'', ''.pytest_cache'', ''.tox''}"

text \<open>\<open>FindTestFiles\<close>: the walk visits the files of the tree (\<open>tree\<close>, project-relative, with their
  contents) that lie in no ignored directory.\<close>

definition test_walk_visits :: "string \<Rightarrow> bool" where
  "test_walk_visits rel \<longleftrightarrow> list_all (\<lambda>d. \<not> ignored_test_dir d) (butlast (split_byte (CHR ''/'') rel))"

definition find_test_files ::
  "(string \<Rightarrow> string) \<Rightarrow> (string \<times> string) list \<Rightarrow> string \<Rightarrow> string \<Rightarrow> string list" where
  "find_test_files ul tree file symbol_name =
     (if file = [] \<or> is_abs file \<or> \<not> is_local (path_clean file) then []
      else sort (map fst (filter (\<lambda>(rel, content).
             test_walk_visits rel \<and> rel \<noteq> path_clean file \<and> is_test_file ul rel \<and>
             str_contains content symbol_name) tree)))"

definition find_importers_in_graph :: "(string \<Rightarrow> string) \<Rightarrow> import_graph \<Rightarrow> string \<Rightarrow> string list" where
  "find_importers_in_graph ul graph file =
     find_direct_callers_for_dirs graph (dependency_dirs_for_file ul file)"

record explain_result =
  ex_display :: string
  ex_symbol :: symbol
  ex_imports :: "string list"
  ex_importers :: "string list"
  ex_tests :: "string list"

definition explain ::
  "code_env \<Rightarrow> lang_tools \<Rightarrow> (string \<Rightarrow> string list) \<Rightarrow> (string \<Rightarrow> bool) \<Rightarrow> (string \<times> string) list \<Rightarrow> string
     \<Rightarrow> import_graph result \<Rightarrow> file_line \<Rightarrow> explain_result result" where
  "explain ce lt py_files ex tree proj_path graph0 fl =
     (case load_symbol ce proj_path fl of
        Inl e \<Rightarrow> Inl e
      | Inr (content, smb) \<Rightarrow>
          (case graph0 of
             Inl e \<Rightarrow> Inl (Wrapped ''fetch dependency graph: '' e)
           | Inr graph \<Rightarrow>
               (let pkg = go_package_name content
                in Inr \<lparr>ex_display = (if pkg \<noteq> [] then pkg @ ''.'' @ sy_name smb else sy_name smb),
                        ex_symbol = smb,
                        ex_imports = sort (explain_file_dependencies lt py_files (ce_read ce) ex proj_path
                                             (fl_file fl) content),
                        ex_importers = sort (find_importers_in_graph (ce_lower ce) graph (fl_file fl)),
                        ex_tests = find_test_files (ce_lower ce) tree (fl_file fl) (sy_name smb)\<rparr>)))"

section \<open>Dead code\<close>

record finding =
  fd_symbol :: string
  fd_kind :: string
  fd_file :: string
  fd_line :: int
  fd_confidence :: string

text \<open>The reversed graph: pairs of a directory, as recorded, and an importing file.\<close>

definition build_importers :: "import_graph \<Rightarrow> (string \<times> string) list" where
  "build_importers graph = concat (map (\<lambda>e. map (\<lambda>t. (t, fst e)) (snd e)) graph)"

definition is_within_project :: "string \<Rightarrow> string \<Rightarrow> bool" where
  "is_within_project abs_path project_path =
     (let clean = path_clean project_path
      in if clean = ''.'' then True else has_prefix abs_path (clean @ ''/''))"

text \<open>\<open>unicode.IsUpper\<close> of the first byte, taken as a character of Latin-1.\<close>

definition is_upper_byte :: "char \<Rightarrow> bool" where
  "is_upper_byte c \<longleftrightarrow>
     re_between (CHR ''A'') (CHR ''Z'') c \<or>
     (re_between (CHR 0xC0) (CHR 0xDE) c \<and> c \<noteq> CHR 0xD7)"

definition is_exported_symbol :: "string \<Rightarrow> bool" where
  "is_exported_symbol name \<longleftrightarrow> (case name of [] \<Rightarrow> False | c # _ \<Rightarrow> is_upper_byte c)"

definition classify_symbol :: "symbol \<Rightarrow> string \<Rightarrow> bool \<Rightarrow> bool \<Rightarrow> finding option" where
  "classify_symbol smb file has_importers exported =
     (if has_importers then None
      else Some \<lparr>fd_symbol = sy_name smb, fd_kind = sy_kind smb, fd_file = file, fd_line = sy_start smb,
                 fd_confidence = (if exported then ''public-api'' else ''confirmed'')\<rparr>)"

definition classify_file_symbols ::
  "code_env \<Rightarrow> string \<Rightarrow> (string \<times> string) list \<Rightarrow> string \<Rightarrow> finding list" where
  "classify_file_symbols ce project_path importers file =
     (let abs_path = path_clean (path_join project_path file);
          has_importers = list_ex (\<lambda>p. fst p = path_dir file @ ''/'') importers
      in if \<not> is_within_project abs_path project_path then []
         else case ce_read ce abs_path of
                None \<Rightarrow> []
              | Some content \<Rightarrow>
                  List.map_filter (\<lambda>smb. classify_symbol smb file has_importers (is_exported_symbol (sy_name smb)))
                    (ce_symbols ce file content))"

definition analyze_dead_code ::
  "code_env \<Rightarrow> (string \<times> string) list result \<Rightarrow> import_graph result \<Rightarrow> string \<Rightarrow> finding list result" where
  "analyze_dead_code ce files0 graph0 project_path =
     (case files0 of
        Inl e \<Rightarrow> Inl (Wrapped ''list file hashes: '' e)
      | Inr files \<Rightarrow>
          (case graph0 of
             Inl e \<Rightarrow> Inl (Wrapped ''fetch dependency graph: '' e)
           | Inr graph \<Rightarrow>
               Inr (concat (map (classify_file_symbols ce project_path (build_importers graph)) (map fst files)))))"

record dead_stats =
  ds_findings :: nat
  ds_lines :: nat
  ds_confirmed :: nat
  ds_public :: nat

definition aggregate_stats :: "finding list \<Rightarrow> dead_stats" where
  "aggregate_stats fs =
     \<lparr>ds_findings = length fs, ds_lines = length fs,
      ds_confirmed = length (filter (\<lambda>f. fd_confidence f = ''confirmed'') fs),
      ds_public = length (filter (\<lambda>f. fd_confidence f = ''public-api'') fs)\<rparr>"

definition dead_code ::
  "code_env \<Rightarrow> string \<Rightarrow> (string \<times> string) list result \<Rightarrow> import_graph result \<Rightarrow> (finding list \<times> dead_stats) result" where
  "dead_code ce proj_path files0 graph0 =
     (case analyze_dead_code ce files0 graph0 (if proj_path = [] then ''.'' else proj_path) of
        Inl e \<Rightarrow> Inl e
      | Inr fs \<Rightarrow> Inr (fs, aggregate_stats fs))"

end
