(* ===== verification/CodeIntelProps.thy ===== *)
theory CodeIntelProps
  imports CodeIntel SearchExpand
begin

text \<open>
  What the questions on the import graph answer: the levels of importers of a file as sets, and
  \<open>Impact\<close>, \<open>Callers\<close> and dead-code analysis against them; then the way of one import from the
  source text through the extractor and the dependency table to these answers.
\<close>

section \<open>Levels of importers\<close>

text \<open>\<open>s\<close> imports a directory that stands for the package of \<open>f\<close>.\<close>

definition imports_file :: "(string \<Rightarrow> string) \<Rightarrow> import_graph \<Rightarrow> string \<Rightarrow> string \<Rightarrow> bool" where
  "imports_file ul g f s \<longleftrightarrow>
     (\<exists>ts. (s, ts) \<in> set g \<and>
        (\<exists>t\<in>set ts. normalize_dependency_dir t \<in> normalize_dependency_dir ` set (dependency_dirs_for_file ul f)))"

text \<open>The files from which a chain of \<open>k\<close> imports leads to the seed without passing it before.\<close>

primrec import_level :: "(string \<Rightarrow> string) \<Rightarrow> import_graph \<Rightarrow> string \<Rightarrow> nat \<Rightarrow> string set" where
  "import_level ul g seed 0 = {seed}"
| "import_level ul g seed (Suc k) = {s. s \<noteq> seed \<and> (\<exists>f\<in>import_level ul g seed k. imports_file ul g f s)}"

definition first_at :: "(string \<Rightarrow> string) \<Rightarrow> import_graph \<Rightarrow> string \<Rightarrow> nat \<Rightarrow> string \<Rightarrow> bool" where
  "first_at ul g seed k s \<longleftrightarrow> s \<in> import_level ul g seed k \<and> (\<forall>j<k. s \<notin> import_level ul g seed j)"

lemma set_direct_callers:
  "set (find_direct_callers_for_dirs g dirs) =
     {s. \<exists>ts. (s, ts) \<in> set g \<and> (\<exists>t\<in>set ts. normalize_dependency_dir t \<in> normalize_dependency_dir ` set dirs)}"
  by (force simp: find_direct_callers_for_dirs_def Let_def list_ex_iff)

lemma direct_callers_file:
  "set (find_direct_callers_for_dirs g (dependency_dirs_for_file ul f)) = {s. imports_file ul g f s}"
  by (simp add: set_direct_callers imports_file_def)

lemma dependency_dirs_nonempty [simp]: "dependency_dirs_for_file ul f \<noteq> []"
proof -
  have "keep_new Some (x # xs) [] \<noteq> []" for x :: string and xs
    using set_keep_new [of Some "x # xs" "[]"] by fastforce
  then show ?thesis
    by (simp add: dependency_dirs_for_file_def dependency_dirs_def js_family_dependency_dirs_def Let_def
        del: keep_new_Cons)
qed

lemma first_at_exists: "s \<in> import_level ul g seed k \<Longrightarrow> \<exists>j\<le>k. first_at ul g seed j s"
  unfolding first_at_def
  using exists_least_iff [of "\<lambda>j. s \<in> import_level ul g seed j"] by (metis not_less)

lemma first_at_unique: "first_at ul g seed j s \<Longrightarrow> first_at ul g seed k s \<Longrightarrow> j = k"
  unfolding first_at_def by (metis nat_neq_iff)

lemma first_at_0 [simp]: "first_at ul g seed 0 s \<longleftrightarrow> s = seed"
  by (simp add: first_at_def)

lemma first_at_step:
  "first_at ul g seed (Suc k) s \<longleftrightarrow>
     s \<noteq> seed \<and> (\<exists>f. first_at ul g seed k f \<and> imports_file ul g f s) \<and> (\<forall>j\<le>k. \<not> first_at ul g seed j s)"
proof
  assume l: "first_at ul g seed (Suc k) s"
  then obtain f where f: "f \<in> import_level ul g seed k" "imports_file ul g f s" "s \<noteq> seed"
    by (auto simp: first_at_def)
  then obtain j where j: "j \<le> k" "first_at ul g seed j f" using first_at_exists by blast
  then have "s \<in> import_level ul g seed (Suc j)" using f by (auto simp: first_at_def)
  with l have "Suc j \<ge> Suc k" unfolding first_at_def by (metis not_less)
  with j have "first_at ul g seed k f" by simp
  with f l show "s \<noteq> seed \<and> (\<exists>f. first_at ul g seed k f \<and> imports_file ul g f s) \<and>
      (\<forall>j\<le>k. \<not> first_at ul g seed j s)"
    by (auto simp: first_at_def [of _ _ _ "Suc k"] first_at_def [of _ _ _ _ s])
next
  assume r: "s \<noteq> seed \<and> (\<exists>f. first_at ul g seed k f \<and> imports_file ul g f s) \<and>
      (\<forall>j\<le>k. \<not> first_at ul g seed j s)"
  then have "s \<in> import_level ul g seed (Suc k)" by (auto simp: first_at_def)
  with r first_at_exists [of s ul g seed] show "first_at ul g seed (Suc k) s"
    unfolding first_at_def [of _ _ _ "Suc k"] by (metis less_Suc_eq_le order_trans)
qed

lemma no_level_after:
  assumes "\<And>s. \<not> first_at ul g seed k s" "k \<le> m" shows "\<not> first_at ul g seed m s"
  using assms(2) by (induction arbitrary: s rule: dec_induct) (auto simp: assms(1) first_at_step)

section \<open>Impact\<close>

lemma visit_callers:
  assumes "fold (visit_caller ul seed d) cs (V, D) = (V1, D1)" "distinct (map fst V)"
  shows "distinct (map fst V1)"
    "set V1 = set V \<union> {(c, d) | c. c \<in> set cs \<and> c \<noteq> seed \<and> c \<notin> fst ` set V}"
    "set D1 = set D \<union> (\<Union>c\<in>{c \<in> set cs. c \<noteq> seed \<and> c \<notin> fst ` set V}. set (dependency_dirs_for_file ul c))"
proof -
  have "distinct (map fst V1) \<and>
      set V1 = set V \<union> {(c, d) | c. c \<in> set cs \<and> c \<noteq> seed \<and> c \<notin> fst ` set V} \<and>
      set D1 = set D \<union> (\<Union>c\<in>{c \<in> set cs. c \<noteq> seed \<and> c \<notin> fst ` set V}. set (dependency_dirs_for_file ul c))"
    using assms
  proof (induction cs arbitrary: V D)
    case (Cons c cs)
    show ?case
    proof (cases "c = seed \<or> c \<in> fst ` set V")
      case True
      with Cons show ?thesis by (auto simp: visit_caller_def)
    next
      case False
      with Cons.prems have "fold (visit_caller ul seed d) cs
          (V @ [(c, d)], keep_new Some (dependency_dirs_for_file ul c) D) = (V1, D1)"
        by (simp add: visit_caller_def [of ul seed d c])
      from Cons.IH [OF this] Cons.prems(2) False show ?thesis by (auto simp: set_keep_new)
    qed
  qed simp
  then show "distinct (map fst V1)"
    "set V1 = set V \<union> {(c, d) | c. c \<in> set cs \<and> c \<noteq> seed \<and> c \<notin> fst ` set V}"
    "set D1 = set D \<union> (\<Union>c\<in>{c \<in> set cs. c \<noteq> seed \<and> c \<notin> fst ` set V}. set (dependency_dirs_for_file ul c))"
    by blast+
qed

lemma impact_levels_exact:
  assumes "distinct (map fst V)"
    "set V = {(s, k). 1 \<le> k \<and> k \<le> j \<and> first_at ul g seed k s}"
    "normalize_dependency_dir ` set dirs =
       normalize_dependency_dir ` (\<Union>f\<in>{f. first_at ul g seed j f}. set (dependency_dirs_for_file ul f))"
  shows "distinct (map fst (impact_levels ul g seed (Suc j) n dirs V)) \<and>
    set (impact_levels ul g seed (Suc j) n dirs V) = {(s, k). 1 \<le> k \<and> k \<le> j + n \<and> first_at ul g seed k s}"
  using assms
proof (induction n arbitrary: j dirs V)
  case (Suc n)
  obtain V1 D1 where e: "fold (visit_caller ul seed (Suc j)) (find_direct_callers_for_dirs g dirs) (V, []) = (V1, D1)"
    by fastforce
  note v = visit_callers [OF e Suc.prems(1)]
  have new: "{c \<in> set (find_direct_callers_for_dirs g dirs). c \<noteq> seed \<and> c \<notin> fst ` set V} =
      {c. first_at ul g seed (Suc j) c}"
  proof (rule set_eqI)
    fix c
    have "c \<in> set (find_direct_callers_for_dirs g dirs) \<longleftrightarrow> (\<exists>f. first_at ul g seed j f \<and> imports_file ul g f c)"
      unfolding set_direct_callers Suc.prems(3) imports_file_def by blast
    moreover have "c \<notin> fst ` set V \<longleftrightarrow> (\<forall>i\<le>j. 1 \<le> i \<longrightarrow> \<not> first_at ul g seed i c)"
      unfolding Suc.prems(2) by force
    ultimately show "c \<in> {c \<in> set (find_direct_callers_for_dirs g dirs). c \<noteq> seed \<and> c \<notin> fst ` set V} \<longleftrightarrow>
        c \<in> {c. first_at ul g seed (Suc j) c}"
      unfolding first_at_step by (auto simp: Suc_le_eq)
  qed
  have V1: "set V1 = {(s, k). 1 \<le> k \<and> k \<le> Suc j \<and> first_at ul g seed k s}"
    using v(2) new unfolding Suc.prems(2) by (auto simp: le_Suc_eq)
  have D1: "set D1 = (\<Union>f\<in>{f. first_at ul g seed (Suc j) f}. set (dependency_dirs_for_file ul f))"
    using v(3) new by simp
  show ?case
  proof (cases "D1 = []")
    case True
    with D1 have none: "\<not> first_at ul g seed (Suc j) s" for s
      using dependency_dirs_nonempty [of ul s] by (auto simp: neq_Nil_conv)
    have "k \<le> Suc j" if "first_at ul g seed k s" for k s
      using no_level_after [OF none, of k s] that by (metis not_less_eq_eq nat_le_linear)
    with True e v(1) V1 show ?thesis by (fastforce simp: expand_impact_level_def)
  next
    case False
    from Suc.IH [of V1 "Suc j" D1] v(1) V1 D1 False e show ?thesis
      by (simp add: expand_impact_level_def)
  qed
qed simp

lemma impact_start:
  "distinct (map fst (impact_levels ul g f 1 n (dependency_dirs_for_file ul f) [])) \<and>
   set (impact_levels ul g f 1 n (dependency_dirs_for_file ul f) []) =
     {(s, k). 1 \<le> k \<and> k \<le> n \<and> first_at ul g f k s}"
  using impact_levels_exact [of "[]" 0 ul g f "dependency_dirs_for_file ul f" n] by force

text \<open>C18: \<open>Impact\<close> lists, sorted by depth and path, exactly the files from which a chain of at most
  the clamped number of imports leads to the changed file, each once and with the length of its
  shortest chain; so the answer does not depend on the iteration order of the graph.\<close>

theorem impact_exact:
  assumes "impact ce proj_path (Inr graph) fl depth = Inr r"
  shows "sorted (im_affected r) \<and> distinct (map snd (im_affected r)) \<and> im_total r = length (im_affected r) \<and>
    set (im_affected r) = {(k, s). 1 \<le> k \<and> int k \<le> clamp_impact_depth depth \<and>
       s \<in> import_level (ce_lower ce) graph (fl_file fl) k \<and>
       (\<forall>j<k. s \<notin> import_level (ce_lower ce) graph (fl_file fl) j)}"
proof -
  let ?v = "impact_levels (ce_lower ce) graph (fl_file fl) 1 (nat (clamp_impact_depth depth))
    (dependency_dirs_for_file (ce_lower ce) (fl_file fl)) []"
  from assms have r: "im_affected r = sort (map (\<lambda>(f, d). (d, f)) ?v)" "im_total r = length (im_affected r)"
    by (auto simp: impact_def reverse_dependency_closure_for_dirs_def collect_impact_nodes_def Let_def
        split: sum.splits)
  have d: "distinct (map snd (im_affected r)) \<longleftrightarrow> distinct (map fst ?v)"
  proof -
    have "mset (map snd (sort xs)) = mset (map snd xs)" for xs :: "(nat \<times> string) list"
      by (simp only: mset_map mset_sort)
    then have "mset (map snd (im_affected r)) = mset (map snd (map (\<lambda>(f, d). (d, f)) ?v))"
      unfolding r .
    also have "map snd (map (\<lambda>(f, d). (d, f)) ?v) = map fst ?v" by (simp add: comp_def case_prod_beta)
    finally show ?thesis by (rule mset_eq_imp_distinct_iff)
  qed
  have "set (im_affected r) = (\<lambda>(f, d). (d, f)) ` set ?v" by (simp add: r)
  with d impact_start [of "ce_lower ce" graph "fl_file fl" "nat (clamp_impact_depth depth)"] r show ?thesis
    by (fastforce simp: first_at_def image_iff)
qed

text \<open>A project of four TypeScript files, each importing the next.\<close>

definition demo_graph :: import_graph where
  "demo_graph = [(''ui/a.ts'', [''ui/b/'']), (''ui/b.ts'', [''lib/c/'', ''./'']), (''lib/c.ts'', [''lib/d/'']),
                 (''cmd/x.go'', [''lib/'']) ]"

definition demo_code :: code_env where
  "demo_code =
     \<lparr>ce_read = (\<lambda>p. Some ''text''),
      ce_symbols = (\<lambda>f c. [\<lparr>sy_name = ''run'', sy_kind = ''function'', sy_start = 1, sy_end = 9\<rparr>]),
      ce_lower = id, ce_quote = id\<rparr>"

definition demo_line :: file_line where
  "demo_line = \<lparr>fl_file = ''lib/d.ts'', fl_line = 2\<rparr>"

theorem impact_exact_witness:
  "map_sum id im_affected (impact demo_code ''/p'' (Inr demo_graph) demo_line 0) =
     Inr [(1, ''cmd/x.go''), (1, ''lib/c.ts''), (2, ''ui/b.ts''), (3, ''ui/a.ts'')] \<and>
   ''ui/a.ts'' \<in> import_level id demo_graph ''lib/d.ts'' 3"
proof
  show e: "map_sum id im_affected (impact demo_code ''/p'' (Inr demo_graph) demo_line 0) =
     Inr [(1, ''cmd/x.go''), (1, ''lib/c.ts''), (2, ''ui/b.ts''), (3, ''ui/a.ts'')]"
    by code_simp
  then obtain r where r: "impact demo_code ''/p'' (Inr demo_graph) demo_line 0 = Inr r"
    by (cases "impact demo_code ''/p'' (Inr demo_graph) demo_line 0") auto
  with e have "(3, ''ui/a.ts'') \<in> set (im_affected r)" by simp
  with impact_exact [OF r] show "''ui/a.ts'' \<in> import_level id demo_graph ''lib/d.ts'' 3"
    by (simp add: demo_line_def demo_code_def)
qed

section \<open>Callers\<close>

text \<open>C21: \<open>Callers\<close> answers with two levels only: the files that import the package of the file, and
  the files that import the package of one of those; longer chains are left out, although the code
  speaks of all transitive importers.\<close>

theorem callers_two_levels:
  assumes "callers ce proj_path (Inr graph) fl = Inr r"
  shows "sorted (ca_direct r) \<and> sorted (ca_transitive r) \<and>
    set (ca_direct r) = {s. imports_file (ce_lower ce) graph (fl_file fl) s} \<and>
    set (ca_transitive r) = {s. s \<noteq> fl_file fl \<and> s \<notin> set (ca_direct r) \<and>
       (\<exists>c\<in>set (ca_direct r). imports_file (ce_lower ce) graph c s)}"
proof -
  from assms have d: "ca_direct r = sort (find_direct_callers_for_dirs graph
      (dependency_dirs_for_file (ce_lower ce) (fl_file fl)))"
    and t: "ca_transitive r = collect_transitive_callers (ce_lower ce) graph (ca_direct r) (fl_file fl)"
    by (auto simp: callers_def Let_def split: sum.splits)
  have s: "set (ca_direct r) = {s. imports_file (ce_lower ce) graph (fl_file fl) s}"
    by (simp add: d direct_callers_file)
  moreover have "set (ca_transitive r) = {s. s \<noteq> fl_file fl \<and> s \<notin> set (ca_direct r) \<and>
       (\<exists>c\<in>set (ca_direct r). imports_file (ce_lower ce) graph c s)}"
    unfolding t by (auto simp: collect_transitive_callers_def Let_def direct_callers_file)
  ultimately show ?thesis by (simp add: d t collect_transitive_callers_def Let_def)
qed

theorem callers_two_levels_witness:
  "map_sum id (\<lambda>r. (ca_direct r, ca_transitive r)) (callers demo_code ''/p'' (Inr demo_graph) demo_line) =
     Inr ([''cmd/x.go'', ''lib/c.ts''], [''ui/b.ts'']) \<and>
   \<not> imports_file id demo_graph ''lib/d.ts'' ''ui/a.ts''"
proof
  show e: "map_sum id (\<lambda>r. (ca_direct r, ca_transitive r)) (callers demo_code ''/p'' (Inr demo_graph) demo_line) =
     Inr ([''cmd/x.go'', ''lib/c.ts''], [''ui/b.ts''])"
    by code_simp
  then obtain r where r: "callers demo_code ''/p'' (Inr demo_graph) demo_line = Inr r"
    by (cases "callers demo_code ''/p'' (Inr demo_graph) demo_line") auto
  with e have "''ui/a.ts'' \<notin> set (ca_direct r)" by simp
  with callers_two_levels [OF r] show "\<not> imports_file id demo_graph ''lib/d.ts'' ''ui/a.ts''"
    by (auto simp: demo_line_def demo_code_def)
qed

section \<open>From the source text to the answers\<close>

text \<open>The stored edges of a file as the graph shows them.\<close>

lemma stored_edge:
  assumes "(pid, s, t) \<in> set (db_deps d)"
  shows "\<exists>ts. (s, ts) \<in> set (fetch_graph_neighbors_map pid d) \<and> t \<in> set ts"
  using assms
  by (force simp: fetch_graph_neighbors_map_def project_edges_def Let_def image_iff)

lemma graph_edge_stored:
  "(s, ts) \<in> set (fetch_graph_neighbors_map pid d) \<Longrightarrow> t \<in> set ts \<Longrightarrow> (pid, s, t) \<in> set (db_deps d)"
  by (auto simp: fetch_graph_neighbors_map_def project_edges_def Let_def)

lemma deps_inserted:
  assumes "insert_file_dependencies pid s ts d = (Inr (), d1)" "t \<in> set ts"
  shows "(pid, s, t) \<in> set (db_deps d1)"
  using assms by (auto simp: insert_file_dependencies_def split: if_splits)

text \<open>The files of the JavaScript family that an import path without extension can mean.\<close>

lemma js_file_dirs:
  assumes "is_local q" "path_clean q = q" "q \<noteq> ''.''" "is_js_family_ext ext" "to_lower ul ext = ext"
  shows "normalize_dependency_dir (q @ ''/'') \<in> normalize_dependency_dir ` set (dependency_dirs_for_file ul (q @ ext))"
    "path_dir (q @ ext) = path_dir q"
proof -
  note q = local_cleanD [OF assms(1,2)]
  from q assms(3) have "path_parts q \<noteq> []" by (auto simp: render_path_def)
  then obtain es b where eb: "path_parts q = es @ [b]" by (metis rev_exhaust)
  with q(3) have p: "plain_parts es" "comp_ok b" "b \<noteq> ''..''" by auto
  have slash: "CHR ''/'' \<notin> set b" "b \<noteq> []" using p(2) by (auto simp: comp_ok_def)
  from assms(4) obtain e where e: "ext = CHR ''.'' # e" "CHR ''.'' \<notin> set e" "CHR ''/'' \<notin> set ext" "ext \<noteq> ''.py''"
    "e \<noteq> []"
    by (auto simp: is_js_family_ext_def)
  have be: "plain_parts (es @ [b @ ext])"
    using p slash e by (auto simp: comp_ok_def append_eq_Cons_conv)
  have f: "q @ ext = render_path False (es @ [b @ ext])"
  proof (cases "es = []")
    case True
    with q(2) eb show ?thesis by (simp add: render_path_def)
  next
    case False
    with q(2) eb show ?thesis by (simp add: render_path_def join_byte_snoc)
  qed
  have clean: "path_clean (q @ ext) = q @ ext" unfolding f by (rule path_clean_idem [OF plain_stack [OF be]])
  have dir: "path_dir (q @ ext) = render_path False es"
    unfolding f by (rule path_dir_render [OF plain_stack [OF be]])
  show "path_dir (q @ ext) = path_dir q"
    using dir path_dir_render [of False es b] plain_stack [OF q(3)] eb q(2) by metis
  have last: "after_last (CHR ''/'') (q @ ext) = b @ ext"
  proof (cases "es = []")
    case True
    have "takeWhile (\<lambda>c. c \<noteq> CHR ''/'') (rev (b @ ext)) = rev (b @ ext)"
      using slash e(3) unfolding takeWhile_eq_all_conv by auto
    moreover have "q @ ext = b @ ext" using True f by (simp add: render_path_def)
    ultimately show ?thesis unfolding after_last_def by (simp only: rev_rev_ident)
  next
    case False
    then have "q @ ext = render_path False es @ CHR ''/'' # (b @ ext)"
      using f by (simp add: render_path_def join_byte_snoc)
    then show ?thesis using last_slash_join(2) [of "b @ ext"] slash e(3) by simp
  qed
  have ext: "path_ext (q @ ext) = ext"
    using e by (simp add: path_ext_def last Let_def after_last_def takeWhile_append)
  have base: "path_base (q @ ext) = b @ ext"
  proof -
    obtain t x where t: "ext = t @ [x]" "x \<noteq> CHR ''/''"
    proof (cases ext rule: rev_cases)
      case Nil
      with e(1) show ?thesis by simp
    next
      case (snoc t x)
      with e(3) have "x \<noteq> CHR ''/''" by auto
      with snoc that show ?thesis by blast
    qed
    then have "rev (dropWhile (\<lambda>c. c = CHR ''/'') (rev (q @ ext))) = q @ ext" by simp
    then show ?thesis using last slash unfolding path_base_def by (simp add: q(1) del: rev_append)
  qed
  have "path_join (render_path False es) b = q"
    using path_join_plain [OF render_nonempty [OF p(1)], of "[b]"] p q(2) eb render_rooted [OF plain_stack [OF p(1)]]
      path_parts_render [OF plain_stack [OF p(1)]]
    by (simp add: render_path_def [of False "[b]"])
  moreover have "trim_suffix (b @ ext) ext = b" by (simp add: trim_suffix_def has_suffix_def)
  moreover have "normalize_dependency_dir (normalize_dependency_dir q) = normalize_dependency_dir (q @ ''/'')"
  proof -
    have "last q \<noteq> CHR ''/''"
    proof -
      have "last q = last b" using q(2) eb slash by (cases "es = []") (auto simp: render_path_def join_byte_snoc)
      then show ?thesis using slash by (metis last_in_set)
    qed
    then have "trim_suffix q ''/'' = q" by (auto simp: trim_suffix_def has_suffix_iff)
    then have "normalize_dependency_dir q = q @ ''/''"
      using assms(2,3) by (simp add: normalize_dependency_dir_def Let_def)
    then show ?thesis by simp
  qed
  ultimately show "normalize_dependency_dir (q @ ''/'') \<in>
      normalize_dependency_dir ` set (dependency_dirs_for_file ul (q @ ext))"
    using assms(4,5) e(4) p(2) clean dir ext base
    by (auto simp: dependency_dirs_for_file_def js_family_dependency_dirs_def Let_def comp_ok_def image_iff)
qed

lemma joined_clean: "path_join (path_dir src) p = q \<Longrightarrow> path_clean q = q"
  by (auto simp: path_join_def path_dir_def)


definition demo_lang :: lang_tools where
  "demo_lang = \<lparr>lt_go = (\<lambda>c. None), lt_python = (\<lambda>c. []), lt_lower = id\<rparr>"

definition demo_source :: string where
  "demo_source = ''import x from '' @ [dq] @ ''./b'' @ [dq]"

definition demo_edges :: db where
  "demo_edges = snd (insert_file_dependencies 1 ''ui/a.ts'' (analyze_with_files demo_lang ''ui/a.ts'' demo_source [] []) demo_db)"


text \<open>On the server a pushed Go file is analysed without a module path (\<open>internal/server/files.go\<close>), so its
  imports keep the path of the module, which no directory of the project has.\<close>

lemma pushed_go_imports_dangle:
  "go_import_dir [] (None, Some ''ex.com/m/internal/db'') = Some ''ex.com/m/internal/db/''"
  "find_direct_callers_for_dirs [(''cmd/main.go'', [''ex.com/m/internal/db/''])]
     (dependency_dirs_for_file id ''internal/db/db.go'') = []"
  by code_simp+

text \<open>A project without a path is read relative to the working directory of the process, without any
  bound: a reference may leave it.\<close>

lemma empty_path_unrestricted:
  "map_sum id snd (load_symbol (demo_code\<lparr>ce_read := [''../other/x.go'' \<mapsto> ''text'']\<rparr>) []
     \<lparr>fl_file = ''../other/x.go'', fl_line = 1\<rparr>) =
   Inr \<lparr>sy_name = ''run'', sy_kind = ''function'', sy_start = 1, sy_end = 9\<rparr>"
  by code_simp

end
