(* ===== verification/Spec2Isabelle.thy ===== *)
theory Spec2Isabelle
  imports GoPrelude Circuit EmbedBase EmbedCircuit EmbedChain Chunker ChunkerAST Graph TopK LocalStore
    Privacy IndexUnits Indexing StoreKeeps IndexProps JobQueue PushFiles JobWorker
    SearchBase SearchFuse SearchGraph SearchExpand SearchLocal SearchMulti ProjectRef SearchService
    Access ServerAuth WebAuth AccessFlow AccessProps LoginLimit
    GoRegexp GoText Imports ModulePaths CodeIntel CodeIntelProps
begin

text \<open>
  A model of semidx, a semantic code index: it cuts the files of a project into chunks, embeds them
  with a language model, stores text and vectors, and answers searches with them.

  \<^bold>\<open>The parts and how they interact.\<close>  An indexing run (\<open>internal/indexing\<close>) reads files, cuts them
  with the chunker (\<open>internal/chunker\<close>), decides by the privacy policy (\<open>internal/privacy\<close>) who
  may see a text, embeds it through the chain of providers (\<open>internal/embed\<close>), each behind a
  circuit breaker, and writes rows to a store (\<open>internal/localstore\<close> for SQLite).  On a server the
  runs are jobs of a durable queue (\<open>internal/store/jobs.go\<close>, \<open>internal/server/jobs.go\<close>), and files
  may also be pushed (\<open>internal/server/files.go\<close>).  A search (\<open>internal/search\<close>) resolves the
  project (\<open>internal/projectref\<close>), embeds the query with the same embedder, merges the vector and
  the keyword hits of the store, and may follow the import graph; \<open>internal/graph\<close> answers path
  questions on that graph.  A server authenticates every request: the REST API by bearer and control
  tokens (\<open>internal/server/auth.go\<close>), the web interface by sessions (\<open>internal/webadmin\<close>), both over
  the account, token and tenant tables of \<open>internal/store\<close>.

  \<^bold>\<open>Which theory models what.\<close>
  \<^item> \<open>GoPrelude\<close>: strings as byte lists, the functions of packages strings, path, utf8 and strconv
    the code uses, Go errors as the datatype \<open>go_err\<close>.
  \<^item> \<open>Circuit\<close>, \<open>EmbedCircuit\<close>: \<open>circuit.go\<close>.  The breaker is a record; its mutex-guarded methods are
    functions, their interleaving by many callers a step relation; \<open>guarded\<close> wraps an embedder.
  \<^item> \<open>EmbedBase\<close>, \<open>EmbedChain\<close>: the HTTP clients (\<open>openai.go\<close>, \<open>ollama.go\<close>), the fallback chain
    (\<open>embed.go\<close>), the pool (\<open>parallel.go\<close>) and their construction (\<open>chain.go\<close>).  The state is the
    record \<open>world\<close>: clock, cancellation, breakers and the requests sent so far; the network is a
    function of the requests already sent.
  \<^item> \<open>Chunker\<close>, \<open>ChunkerAST\<close>: \<open>chunker.go\<close> and \<open>chunker_ast.go\<close>.
  \<^item> \<open>LocalStore\<close>, \<open>TopK\<close>, \<open>SearchLocal\<close>: the SQLite store.  The database is the record \<open>db\<close> of its
    tables as row lists; one definition per statement or transaction, constraints as error results,
    cascades written out.  \<open>TopK\<close> is the heap of the similarity scan; \<open>SearchLocal\<close> the read side.
  \<^item> \<open>Privacy\<close>, \<open>IndexUnits\<close>, \<open>Indexing\<close>, \<open>StoreKeeps\<close>, \<open>IndexProps\<close>: \<open>privacy.go\<close> and \<open>indexer.go\<close>,
    over a store given as a record of operations (\<open>index_store\<close>), which \<open>sqlite_store\<close> instantiates.
  \<^item> \<open>JobQueue\<close>: the statements on \<open>index_jobs\<close> per tenant, and server processes with their workers
    as the step relation \<open>job_step\<close>.  \<open>JobWorker\<close>: what a worker does with a job it claimed.
    \<open>PushFiles\<close>: validation and indexing of pushed batches.
  \<^item> \<open>Graph\<close>: \<open>internal/graph/graph.go\<close>.
  \<^item> \<open>SearchBase\<close>, \<open>SearchFuse\<close>, \<open>SearchGraph\<close>, \<open>SearchExpand\<close>, \<open>SearchMulti\<close>, \<open>ProjectRef\<close>,
    \<open>SearchService\<close>: query routing, hybrid fusion, graph expansion in memory and in SQL, fusion over
    projects, project references, and the service that composes them.
  \<^item> \<open>Access\<close>: the tables of users, sessions, API tokens, revoked control tokens, tenants,
    memberships and workspaces, one definition per statement of \<open>store.go\<close> and \<open>tenants.go\<close>, and the
    integrity \<open>access_wf\<close> they keep.
  \<^item> \<open>ServerAuth\<close>: \<open>jwtauth.go\<close> and \<open>auth.go\<close> (minting and verifying control tokens, the middleware
    \<open>authed\<close> that finds the caller, the tenant and the workspace), the tenant and workspace handlers.
    \<open>WebAuth\<close>: \<open>internal/webadmin\<close> (login and its limiter, \<open>protect\<close> with session, CSRF token and
    role, the handlers for keys, control tokens, passwords and accounts).
  \<^item> \<open>AccessFlow\<close>: all of them as the step relation \<open>access_step\<close> of one server, with a clock and
    logins that overlap.  \<open>AccessProps\<close> and \<open>LoginLimit\<close>: what holds in every reachable state.

  \<^item> \<open>GoRegexp\<close>, \<open>GoText\<close>: package regexp (a backtracking matcher with RE2's preference and its
    agreement with the language of an expression) and more of packages strings and filepath.
  \<^item> \<open>Imports\<close>: \<open>internal/imports/imports.go\<close>, the dependency directories of a source file per
    language.  \<open>ModulePaths\<close>: the Go module of a file, as the indexer (\<open>module.go\<close>, \<open>indexer.go\<close>)
    and as \<open>codeintel/explain.go\<close> look it up.  \<open>CodeIntel\<close>, \<open>CodeIntelProps\<close>: callers, impact,
    explain (\<open>internal/codeintel\<close>) and dead code (\<open>internal/deadcode\<close>) over the import graph.

  \<^bold>\<open>Interfaces.\<close>  A locale states what one part relies on in another and is interpreted on the model's
  own definitions: embedders that only send to given endpoints, stores that keep an invariant
  (\<open>kept_store\<close>, \<open>kept_push\<close>), stores without cached vectors (\<open>cold_store\<close>), and sorting functions
  (\<open>sort_func\<close>, the contract of \<open>slices.SortFunc\<close>, met by \<open>insertion_sort\<close>).  The two middlewares are
  proved once over the store they call: \<open>tenancy\<close> is what both need of tenants, members and
  workspaces, \<open>auth_backend\<close> and \<open>session_backend\<close> add tokens and sessions; \<open>pg_tenancy\<close>, \<open>pg\<close> and
  \<open>pg_web\<close> interpret them on the statements of \<open>Access\<close>.

  \<^bold>\<open>What the lemmas show.\<close>
  \<^item> Privacy: which calls can reach which endpoints (forced-local calls, edge projects, sensitive
    files), and where the policy is not applied (git history, pool mode, search queries).
  \<^item> Availability: how breakers open and recover, how a probe can wedge one, what an outage of the
    provider does to a push, and how a restart or a shutdown strands a job.
  \<^item> Indexing: chunks cover the text and keep their bounds, a complete unit is stored exactly, the
    database keeps its keys and references through every operation and every run.
  \<^item> Search: the scan returns the best rows, the keyword search misses no chunk, the fusion orders
    as computed, graph expansion finds the best walks and agrees with its SQL form, caps and flags
    hold, and answers do not depend on map iteration order.
  \<^item> Access: who reaches a handler and in which tenant, that revoked tokens and disabled accounts
    are refused in every later state, that a minted control token works, and how many failed logins
    the limiter lets through.
  \<^item> Code intelligence: impact is the set of shortest import chains, callers its first two levels,
    the two module lookups agree on Go files, and how an import is followed from the source text
    through the stored edges to these answers (and where dead-code analysis loses it).
  \<^item> Termination: loops are total functions, or return \<open>None\<close> when they panic or do not end.

  \<^bold>\<open>Bounds and fuel.\<close>  An embedding call is tried three times (\<open>max_embed_attempts\<close>, as in the code), a
  guarded call makes at most three requests; commit blocks are capped at \<open>2^20\<close> bytes as in the
  code.  The chunker's loops, which depend on the configured budget, are \<open>partial_function (option)\<close>,
  and the theorems on them prove that they return.  The breadth-first loops terminate by measures
  (the multiset of levels left, the files not seen), so no fuel is needed.  Integers of Go are
  unbounded except where words matter (float bit patterns, byte encodings).  Scores of fused hits
  are exact rationals: IEEE rounding is not modelled; the similarity score itself is an argument.

  \<^bold>\<open>Not modelled, and why.\<close>  Arguments of the model, because they are third-party code or the
  operating system: the network, SHA-256, tree-sitter symbols, secret detection, document
  extraction, FTS5's ranking, git, the file system, JSON, Unicode case tables, password hashing,
  go/parser, the Python grammar,
  the signature of the JWT library, random bytes.  The PostgreSQL chunk statements repeat the SQLite
  ones over another driver; only the job, project, account, token and tenant statements are modelled,
  and a lost database connection is not.  Handlers are atomic steps except logins, whose check and
  record the code separates.  Files of a run are processed in list order (the code uses a worker pool whose only
  shared state, the chunk budget, is modelled with its interleavings in \<open>IndexUnits\<close>); the two legs of
  a hybrid search do not share state and are run one after the other.  Left out: logging, tracing,
  metrics and usage events, command-line and HTTP plumbing, web pages, chat and agent, reports on
  dependencies and licences, semantic diffs, and code that only tests call.
\<close>

end
